(* ===== verification/Prelude.thy ===== *)
theory Prelude
  imports Complex_Main "HOL-Library.Word" "HOL-Library.Char_ord" "HOL-Library.List_Lexorder"
    "HOL-Library.Sublist" "HOL-Library.AList"
begin

text \<open>
  Shared ground of the development: Go's byte strings and the part of the packages
  \<^verbatim>\<open>strings\<close> and \<^verbatim>\<open>strconv\<close> the modelled code calls, the AWS error value, and the
  generic lemmas every component uses. A Go \<^verbatim>\<open>string\<close> is a sequence of bytes, here a
  \<^typ>\<open>string\<close>; its order \<^verbatim>\<open><\<close> is the bytewise lexicographic one, here the order of
  \<^verbatim>\<open>List_Lexorder\<close> over \<^verbatim>\<open>Char_ord\<close>.
\<close>

named_theorems go_simps \<open>unfolding of the small Go library functions\<close>

type_synonym bytes = "8 word list"

text \<open>An API error: the AWS error code and the message (\<^verbatim>\<open>awshttp.APIError\<close>).\<close>

datatype api_error = ApiError (Code: string) (Message: string)

type_synonym 'a result = "api_error + 'a"

text \<open>
  A JSON document as \<^verbatim>\<open>encoding/json\<close> sees it: numbers keep their text (a
  \<^verbatim>\<open>json.RawMessage\<close> does), objects keep their members in the order written, duplicates
  included.
\<close>

datatype json = JNull | JBool bool | JNum string | JStr string | JArr "json list"
  | JObj "(string \<times> json) list"

text \<open>
  Library code that is a parameter of the model: the Unicode half of \<^verbatim>\<open>strings.EqualFold\<close>,
  \<^verbatim>\<open>strings.ToLower\<close> and \<^verbatim>\<open>strings.TrimSpace\<close> (all three take an ASCII fast path that is
  modelled below), the parser and printer of JSON text,
  \<^verbatim>\<open>strconv.ParseFloat\<close> and \<^verbatim>\<open>FormatFloat\<close>, the conversions between int64 and float64 and float64 arithmetic, \<^verbatim>\<open>time.Parse\<close> (seconds since the
  epoch, by layout) and its result in nanoseconds for \<^verbatim>\<open>time.RFC3339\<close>, \<^verbatim>\<open>net.ParseIP\<close> and \<^verbatim>\<open>net.ParseCIDR\<close>, and the MD5 digest.
\<close>

datatype go_float = Fin real | PosInf | NegInf | NaN

record go_ext =
  uniEqualFold :: "string \<Rightarrow> string \<Rightarrow> bool"
  uniToLower :: "string \<Rightarrow> string"
  uniTrimSpace :: "string \<Rightarrow> string"
  parseJSON :: "string \<Rightarrow> json option"
  marshalJSON :: "json \<Rightarrow> string"
  ParseFloat :: "string \<Rightarrow> go_float option"
  FormatFloat :: "go_float \<Rightarrow> string"
  float64OfInt :: "int \<Rightarrow> go_float"
  float64ToInt :: "go_float \<Rightarrow> int"
  float64Mul :: "go_float \<Rightarrow> go_float \<Rightarrow> go_float"
  float64Quo :: "go_float \<Rightarrow> go_float \<Rightarrow> go_float"
  timeParse :: "string \<Rightarrow> string \<Rightarrow> int option"
  timeParseNano :: "string \<Rightarrow> int option"
  ParseIP :: "string \<Rightarrow> nat list option"
  ParseCIDR :: "string \<Rightarrow> (nat list \<Rightarrow> bool) option"
  md5Sum :: "string \<Rightarrow> bytes"

text \<open>IEEE comparisons: every comparison with a NaN is false, and \<^verbatim>\<open>!=\<close> is true.\<close>

fun feq :: "go_float \<Rightarrow> go_float \<Rightarrow> bool" where
  "feq (Fin x) (Fin y) = (x = y)"
| "feq PosInf PosInf = True"
| "feq NegInf NegInf = True"
| "feq _ _ = False"

fun flt :: "go_float \<Rightarrow> go_float \<Rightarrow> bool" where
  "flt (Fin x) (Fin y) = (x < y)"
| "flt (Fin _) PosInf = True"
| "flt NegInf (Fin _) = True"
| "flt NegInf PosInf = True"
| "flt _ _ = False"

definition fle :: "go_float \<Rightarrow> go_float \<Rightarrow> bool" where
  "fle x y = (flt x y \<or> feq x y)"

subsection \<open>Strings\<close>

definition ascii :: "char \<Rightarrow> bool" where
  "ascii c = (of_char c < (128 :: nat))"

definition lowerByte :: "char \<Rightarrow> char" where
  "lowerByte c =
     (if 65 \<le> (of_char c :: nat) \<and> of_char c \<le> (90 :: nat) then char_of (of_char c + (32 :: nat))
      else c)"

definition HasPrefix :: "string \<Rightarrow> string \<Rightarrow> bool" where
  "HasPrefix s p = prefix p s"

definition HasSuffix :: "string \<Rightarrow> string \<Rightarrow> bool" where
  "HasSuffix s p = suffix p s"

definition CutPrefix :: "string \<Rightarrow> string \<Rightarrow> string option" where
  "CutPrefix s p = (if prefix p s then Some (drop (length p) s) else None)"

definition CutSuffix :: "string \<Rightarrow> string \<Rightarrow> string option" where
  "CutSuffix s p = (if suffix p s then Some (take (length s - length p) s) else None)"

definition TrimSuffix :: "string \<Rightarrow> string \<Rightarrow> string" where
  "TrimSuffix s p = (if suffix p s then take (length s - length p) s else s)"

definition ContainsByte :: "string \<Rightarrow> char \<Rightarrow> bool" where
  "ContainsByte s c = (c \<in> set s)"

text \<open>
  \<^verbatim>\<open>strings.EqualFold\<close>: byte by byte while both bytes are ASCII; from the first byte that
  is not, the Unicode comparison of the two rests.
\<close>

fun EqualFold :: "go_ext \<Rightarrow> string \<Rightarrow> string \<Rightarrow> bool" where
  "EqualFold G [] [] = True"
| "EqualFold G [] (_ # _) = False"
| "EqualFold G (_ # _) [] = False"
| "EqualFold G (a # s) (b # t) =
     (if \<not> ascii a \<or> \<not> ascii b then uniEqualFold G (a # s) (b # t)
      else lowerByte a = lowerByte b \<and> EqualFold G s t)"

definition ToLower :: "go_ext \<Rightarrow> string \<Rightarrow> string" where
  "ToLower G s = (if list_all ascii s then map lowerByte s else uniToLower G s)"

definition asciiSpace :: "char \<Rightarrow> bool" where
  "asciiSpace c = (c = CHR '' '' \<or> 9 \<le> (of_char c :: nat) \<and> of_char c \<le> (13 :: nat))"

definition TrimSpace :: "go_ext \<Rightarrow> string \<Rightarrow> string" where
  "TrimSpace G s =
     (let l = dropWhile asciiSpace s in
      if l \<noteq> [] \<and> \<not> ascii (hd l) then uniTrimSpace G l
      else let r = rev (dropWhile asciiSpace (rev l)) in
           if r \<noteq> [] \<and> \<not> ascii (last r) then uniTrimSpace G r else r)"

text \<open>
  Cutting a string at its first byte that satisfies a predicate (\<^verbatim>\<open>strings.IndexAny\<close>,
  \<^verbatim>\<open>strings.Cut\<close>): what is before it and, when there is one, what is after it.
\<close>

fun cutAt :: "(char \<Rightarrow> bool) \<Rightarrow> string \<Rightarrow> string \<times> string option" where
  "cutAt p [] = ([], None)"
| "cutAt p (c # s) = (if p c then ([], Some s) else let (a, r) = cutAt p s in (c # a, r))"

lemma cutAt_none: "(\<And>c. c \<in> set s \<Longrightarrow> \<not> p c) \<Longrightarrow> cutAt p s = (s, None)"
  by (induction s) auto

lemma cutAt_some: "(\<And>c. c \<in> set a \<Longrightarrow> \<not> p c) \<Longrightarrow> p m \<Longrightarrow> cutAt p (a @ m # r) = (a, Some r)"
  by (induction a) auto

text \<open>The bytes of a Go string.\<close>

definition strBytes :: "string \<Rightarrow> bytes" where
  "strBytes s = map of_char s"

definition bytesStr :: "bytes \<Rightarrow> string" where
  "bytesStr b = map (\<lambda>w. char_of (unat w)) b"

lemma unat_of_char: "unat (of_char c :: 8 word) = of_char c"
proof -
  have "unat (of_nat (of_char c) :: 8 word) = of_char c"
    by (simp add: unat_of_nat take_bit_eq_mod)
  then show ?thesis by (simp add: of_nat_of_char)
qed

lemma of_char_word_less: "(of_char a :: 8 word) < of_char b \<longleftrightarrow> a < b"
  by (simp add: word_less_nat_alt unat_of_char less_char_def)

lemma of_char_word_inject: "(of_char a :: 8 word) = of_char b \<longleftrightarrow> a = b"
  by (metis unat_of_char of_char_eq_iff)

lemma strBytes_less: "strBytes s < strBytes t \<longleftrightarrow> s < t"
proof (induction s arbitrary: t)
  case Nil
  then show ?case by (cases t) (auto simp: strBytes_def)
next
  case (Cons a s)
  then show ?case
    by (cases t) (auto simp: strBytes_def of_char_word_less of_char_word_inject)
qed

lemma strBytes_inject: "strBytes s = strBytes t \<longleftrightarrow> s = t"
  by (metis strBytes_less less_irrefl not_less_iff_gr_or_eq)

lemma bytesStr_strBytes [simp]: "bytesStr (strBytes s) = s"
  by (induction s) (simp_all add: bytesStr_def strBytes_def unat_of_char)

lemma length_strBytes [simp]: "length (strBytes s) = length s"
  by (simp add: strBytes_def)

subsection \<open>Decoding JSON into Go variables\<close>

text \<open>
  \<^verbatim>\<open>json.Unmarshal\<close> into a fresh string, bool or string slice: a JSON null leaves the zero
  value and is no error.
\<close>

fun unmarshalString :: "json \<Rightarrow> string option" where
  "unmarshalString (JStr s) = Some s"
| "unmarshalString JNull = Some []"
| "unmarshalString _ = None"

fun unmarshalBool :: "json \<Rightarrow> bool option" where
  "unmarshalBool (JBool b) = Some b"
| "unmarshalBool JNull = Some False"
| "unmarshalBool _ = None"

fun unmarshalList :: "json \<Rightarrow> json list option" where
  "unmarshalList (JArr js) = Some js"
| "unmarshalList JNull = Some []"
| "unmarshalList _ = None"

text \<open>A Go map from the members of an object: a repeated key keeps its last value.\<close>

definition goMap :: "(string \<times> 'a) list \<Rightarrow> (string \<times> 'a) list" where
  "goMap kvs = foldl (\<lambda>m (k, v). AList.update k v m) [] kvs"

fun unmarshalMap :: "json \<Rightarrow> (string \<times> json) list option" where
  "unmarshalMap (JObj kvs) = Some (goMap kvs)"
| "unmarshalMap JNull = Some []"
| "unmarshalMap _ = None"

definition unmarshalStrings :: "json \<Rightarrow> string list option" where
  "unmarshalStrings j =
     (case unmarshalList j of None \<Rightarrow> None | Some js \<Rightarrow> those (map unmarshalString js))"

text \<open>A loop that decodes the elements of a slice one after the other and stops at the first error.\<close>

fun traverse :: "('a \<Rightarrow> 'e + 'b) \<Rightarrow> 'a list \<Rightarrow> 'e + 'b list" where
  "traverse f [] = Inr []"
| "traverse f (x # xs) =
     (case f x of
        Inl e \<Rightarrow> Inl e
      | Inr y \<Rightarrow> (case traverse f xs of Inl e \<Rightarrow> Inl e | Inr ys \<Rightarrow> Inr (y # ys)))"

lemma traverse_cong [fundef_cong]:
  "xs = ys \<Longrightarrow> (\<And>x. x \<in> set ys \<Longrightarrow> f x = g x) \<Longrightarrow> traverse f xs = traverse g ys"
  by (induction xs arbitrary: ys) (auto split: sum.splits)

lemma traverse_Inr: "traverse f xs = Inr ys \<longleftrightarrow> list_all2 (\<lambda>x y. f x = Inr y) xs ys"
proof (induction xs arbitrary: ys)
  case (Cons x xs)
  then show ?case by (cases ys) (fastforce simp: list_all2_Cons1 split: sum.splits)+
qed auto

lemma traverse_all:
  assumes "traverse f xs = Inr ys" "\<And>x y. x \<in> set xs \<Longrightarrow> f x = Inr y \<Longrightarrow> P y"
  shows "list_all P ys"
  using assms by (simp add: traverse_Inr list_all2_conv_all_nth list_all_length) (metis nth_mem)

lemma traverse_map_Inr: "(\<And>x. x \<in> set xs \<Longrightarrow> f (g x) = Inr x) \<Longrightarrow> traverse f (map g xs) = Inr xs"
  by (induction xs) auto

text \<open>Reading a Go map of slices: a missing key gives the nil slice.\<close>

definition mapGet :: "(string \<times> 'a list) list \<Rightarrow> string \<Rightarrow> 'a list" where
  "mapGet m k = (case map_of m k of None \<Rightarrow> [] | Some v \<Rightarrow> v)"

lemma goMap_foldl:
  "map_of (foldl (\<lambda>m (k, v). AList.update k v m) m kvs) = map_of m ++ map_of (rev kvs)"
  by (induction kvs arbitrary: m) (auto simp: update_conv' map_add_def fun_eq_iff split: option.splits)

lemma goMap_lookup: "map_of (goMap kvs) = map_of (rev kvs)"
  by (simp add: goMap_def goMap_foldl)

lemma distinct_goMap_foldl:
  "distinct (map fst m) \<Longrightarrow> distinct (map fst (foldl (\<lambda>m (k, v). AList.update k v m) m kvs))"
  by (induction kvs arbitrary: m) (auto intro: distinct_update)

lemma distinct_goMap [simp]: "distinct (map fst (goMap kvs))"
  by (simp add: goMap_def distinct_goMap_foldl)

lemma set_goMap: "set (goMap kvs) \<subseteq> set kvs"
proof -
  have u: "set (AList.update k v m) \<subseteq> insert (k, v) (set m)" for k v and m :: "(string \<times> 'a) list"
    by (induction m) auto
  have "set (foldl (\<lambda>m (k, v). AList.update k v m) m kvs) \<subseteq> set m \<union> set kvs" for m
  proof (induction kvs arbitrary: m)
    case (Cons kv kvs)
    then show ?case using u [of "fst kv" "snd kv" m] by (cases kv) fastforce
  qed simp
  from this [of "[]"] show ?thesis by (simp add: goMap_def)
qed

lemma update_new: "k \<notin> fst ` set m \<Longrightarrow> AList.update k v m = m @ [(k, v)]"
  by (induction m) auto

lemma goMap_id: "distinct (map fst kvs) \<Longrightarrow> goMap kvs = kvs"
proof -
  have "foldl (\<lambda>m (k, v). AList.update k v m) m kvs = m @ kvs" if "distinct (map fst (m @ kvs))" for m
    using that
  proof (induction kvs arbitrary: m)
    case (Cons kv kvs)
    then have "AList.update (fst kv) (snd kv) m = m @ [kv]" by (intro trans [OF update_new]) auto
    then show ?case using Cons by (cases kv) simp
  qed simp
  from this [of "[]"] show "distinct (map fst kvs) \<Longrightarrow> goMap kvs = kvs" by (simp add: goMap_def)
qed

lemma unmarshalMap_size:
  assumes "unmarshalMap j = Some m" "kv \<in> set m"
  shows "size (snd kv) < size j"
proof -
  obtain kvs where j: "j = JObj kvs" "m = goMap kvs" using assms by (cases j) auto
  then have "kv \<in> set kvs" using assms(2) set_goMap by blast
  then have "size_prod (\<lambda>_. 0) size kv \<le> size_list (size_prod (\<lambda>_. 0) size) kvs" by (simp add: size_list_estimation')
  then show ?thesis using j by (cases kv) simp
qed

lemma unmarshalList_size:
  assumes "unmarshalList j = Some js" "x \<in> set js"
  shows "size x < size j"
  using assms by (cases j) (auto simp: size_list_estimation' less_Suc_eq_le)

lemmas go_string_defs [go_simps] =
  HasPrefix_def HasSuffix_def CutPrefix_def CutSuffix_def TrimSuffix_def ContainsByte_def

lemma EqualFold_refl_ascii: "list_all ascii s \<Longrightarrow> EqualFold G s s"
  by (induction s) auto

lemma EqualFold_ascii:
  "list_all ascii s \<Longrightarrow> list_all ascii t \<Longrightarrow> EqualFold G s t = (map lowerByte s = map lowerByte t)"
  by (induction G s t rule: EqualFold.induct) auto

declare EqualFold.simps(4) [simp del]

subsection \<open>Numbers as decimal strings\<close>

definition digit :: "nat \<Rightarrow> char" where
  "digit n = char_of (n + 48)"

definition isDigit :: "char \<Rightarrow> bool" where
  "isDigit c = (48 \<le> (of_char c :: nat) \<and> of_char c \<le> (57 :: nat))"

definition digitVal :: "char \<Rightarrow> nat" where
  "digitVal c = of_char c - 48"

fun natStr :: "nat \<Rightarrow> string" where
  "natStr n = (if n < 10 then [digit n] else natStr (n div 10) @ [digit (n mod 10)])"

declare natStr.simps [simp del]

text \<open>\<^verbatim>\<open>strconv.Itoa\<close>, \<^verbatim>\<open>strconv.FormatInt(_, 10)\<close> and \<^verbatim>\<open>%d\<close>.\<close>

definition intStr :: "int \<Rightarrow> string" where
  "intStr n = (if n < 0 then CHR ''-'' # natStr (nat (- n)) else natStr (nat n))"

fun digitsVal :: "nat \<Rightarrow> string \<Rightarrow> nat option" where
  "digitsVal acc [] = Some acc"
| "digitsVal acc (c # cs) = (if isDigit c then digitsVal (acc * 10 + digitVal c) cs else None)"

definition parseNat :: "string \<Rightarrow> nat option" where
  "parseNat s = (if s = [] then None else digitsVal 0 s)"

text \<open>\<^verbatim>\<open>(*big.Int).SetString(s, 10)\<close>: an optional sign, then decimal digits.\<close>

definition parseBig :: "string \<Rightarrow> int option" where
  "parseBig s =
     (case s of
        [] \<Rightarrow> None
      | c # cs \<Rightarrow>
          if c = CHR ''-'' then map_option (\<lambda>n. - int n) (parseNat cs)
          else if c = CHR ''+'' then map_option int (parseNat cs)
          else map_option int (parseNat s))"

text \<open>\<^verbatim>\<open>strconv.ParseInt(s, 10, 64)\<close>, \<^verbatim>\<open>strconv.Atoi\<close> (64-bit int) and \<^verbatim>\<open>strconv.ParseUint(s, 10, 64)\<close>.\<close>

definition ParseInt64 :: "string \<Rightarrow> int option" where
  "ParseInt64 s =
     (case parseBig s of
        None \<Rightarrow> None
      | Some n \<Rightarrow> if - (2 ^ 63) \<le> n \<and> n < 2 ^ 63 then Some n else None)"

definition ParseUint64 :: "string \<Rightarrow> nat option" where
  "ParseUint64 s =
     (case parseNat s of None \<Rightarrow> None | Some n \<Rightarrow> if n < 2 ^ 64 then Some n else None)"

lemma of_char_digit [simp]: "n < 10 \<Longrightarrow> (of_char (digit n) :: nat) = n + 48"
  by (simp add: digit_def of_char_of)

lemma isDigit_digit [simp]: "n < 10 \<Longrightarrow> isDigit (digit n)"
  by (simp add: isDigit_def)

lemma digitVal_digit [simp]: "n < 10 \<Longrightarrow> digitVal (digit n) = n"
  by (simp add: digitVal_def)

lemma digit_inject: "m < 10 \<Longrightarrow> n < 10 \<Longrightarrow> digit m = digit n \<longleftrightarrow> m = n"
  by (metis digitVal_digit)

lemma digit_digitVal: "isDigit c \<Longrightarrow> digit (digitVal c) = c"
  by (simp add: isDigit_def digit_def digitVal_def)

lemma digitVal_less: "isDigit c \<Longrightarrow> digitVal c < 10"
  by (auto simp: isDigit_def digitVal_def)

lemma natStr_nonempty [simp]: "natStr n \<noteq> []"
  by (subst natStr.simps) simp

lemma natStr_isDigit: "c \<in> set (natStr n) \<Longrightarrow> isDigit c"
proof (induction n rule: natStr.induct)
  case (1 n)
  then show ?case
    by (cases "n < 10") (auto simp: natStr.simps [of n])
qed

lemma digitsVal_append:
  "digitsVal acc (xs @ ys) = Option.bind (digitsVal acc xs) (\<lambda>a. digitsVal a ys)"
  by (induction xs arbitrary: acc) auto

lemma digitsVal_natStr: "digitsVal 0 (natStr n) = Some n"
proof (induction n rule: natStr.induct)
  case (1 n)
  then show ?case
    by (cases "n < 10") (auto simp: natStr.simps [of n] digitsVal_append)
qed

lemma parseNat_natStr [simp]: "parseNat (natStr n) = Some n"
  by (simp add: parseNat_def digitsVal_natStr)

lemma natStr_inject [simp]: "natStr m = natStr n \<longleftrightarrow> m = n"
  by (metis option.inject parseNat_natStr)

lemma natStr_hd_no_sign:
  "natStr n = c # cs \<Longrightarrow> c \<noteq> CHR ''-'' \<and> c \<noteq> CHR ''+''"
  using natStr_isDigit [of c n] by (auto simp: isDigit_def)

lemma parseBig_intStr [simp]: "parseBig (intStr n) = Some n"
proof (cases "n < 0")
  case True
  then show ?thesis by (simp add: parseBig_def intStr_def)
next
  case False
  obtain c cs where cs: "natStr (nat n) = c # cs"
    by (cases "natStr (nat n)") auto
  have "c \<noteq> CHR ''-'' \<and> c \<noteq> CHR ''+''"
    using cs by (rule natStr_hd_no_sign)
  moreover have "map_option int (parseNat (c # cs)) = Some n"
    using False cs [symmetric] by simp
  ultimately show ?thesis
    using False cs by (simp add: parseBig_def intStr_def)
qed

lemma ParseInt64_intStr: "- (2 ^ 63) \<le> n \<Longrightarrow> n < 2 ^ 63 \<Longrightarrow> ParseInt64 (intStr n) = Some n"
  by (simp add: ParseInt64_def)

lemma ParseUint64_natStr: "n < 2 ^ 64 \<Longrightarrow> ParseUint64 (natStr n) = Some n"
  by (simp add: ParseUint64_def)

text \<open>Arithmetic of int64 wraps around.\<close>

definition wrap64 :: "int \<Rightarrow> int" where
  "wrap64 n = (n + 2 ^ 63) mod 2 ^ 64 - 2 ^ 63"

lemma wrap64_id: "- (2 ^ 63) \<le> n \<Longrightarrow> n < 2 ^ 63 \<Longrightarrow> wrap64 n = n"
  by (simp add: wrap64_def)

text \<open>\<^verbatim>\<open>strings.Split\<close> at a byte.\<close>

fun splitOn :: "char \<Rightarrow> string \<Rightarrow> string list" where
  "splitOn d [] = [[]]"
| "splitOn d (c # cs) =
     (if c = d then [] # splitOn d cs
      else case splitOn d cs of [] \<Rightarrow> [[c]] | w # ws \<Rightarrow> (c # w) # ws)"

lemma splitOn_free: "d \<notin> set s \<Longrightarrow> splitOn d s = [s]"
  by (induction s) auto

lemma splitOn_join: "d \<notin> set s \<Longrightarrow> splitOn d (s @ d # rest) = s # splitOn d rest"
  by (induction s) auto

text \<open>\<^verbatim>\<open>strings.Fields\<close> on ASCII strings: the maximal runs of bytes that are not spaces.\<close>

fun asciiFields :: "string \<Rightarrow> string \<Rightarrow> string list" where
  "asciiFields w [] = (if w = [] then [] else [w])"
| "asciiFields w (c # cs) =
     (if asciiSpace c then (if w = [] then asciiFields [] cs else w # asciiFields [] cs)
      else asciiFields (w @ [c]) cs)"

definition upperByte :: "char \<Rightarrow> char" where
  "upperByte c =
     (if 97 \<le> (of_char c :: nat) \<and> of_char c \<le> (122 :: nat) then char_of (of_char c - (32 :: nat)) else c)"

subsection \<open>A concrete instance of the parameters\<close>

text \<open>Printing and reading on binary integers, for evaluation.\<close>

function intDigits :: "int \<Rightarrow> string" where
  "intDigits n = (if n < 10 then [digit (nat n)] else intDigits (n div 10) @ [digit (nat (n mod 10))])"
  by pat_completeness auto

termination by (relation "measure nat") auto

declare intDigits.simps [simp del]

lemma intDigits_natStr: "intDigits (int n) = natStr n"
proof (induction n rule: natStr.induct)
  case (1 n)
  have "int n div 10 = int (n div 10)" "nat (int n mod 10) = n mod 10" by (simp_all add: of_nat_div nat_mod_distrib)
  then show ?case using 1 by (simp add: intDigits.simps [of "int n"] natStr.simps [of n])
qed

lemma intStr_code [code]: "intStr n = (if n < 0 then CHR ''-'' # intDigits (- n) else intDigits n)"
  using intDigits_natStr [of "nat n"] intDigits_natStr [of "nat (- n)"] by (auto simp: intStr_def split: if_splits)

fun intDigitsVal :: "int \<Rightarrow> string \<Rightarrow> int option" where
  "intDigitsVal acc [] = Some acc"
| "intDigitsVal acc (c # cs) = (if isDigit c then intDigitsVal (acc * 10 + int (digitVal c)) cs else None)"

lemma intDigitsVal: "intDigitsVal (int acc) s = map_option int (digitsVal acc s)"
proof (induction s arbitrary: acc)
  case (Cons c cs)
  have "int acc * 10 + int (digitVal c) = int (acc * 10 + digitVal c)" by simp
  then show ?case by (simp only: intDigitsVal.simps digitsVal.simps Cons.IH) simp
qed simp

definition parseInt :: "string \<Rightarrow> int option" where
  "parseInt s = (if s = [] then None else intDigitsVal 0 s)"

lemma parseInt: "parseInt s = map_option int (parseNat s)"
  using intDigitsVal [of 0 s] by (simp add: parseInt_def parseNat_def)

lemma parseBig_code [code]:
  "parseBig s =
     (case s of
        [] \<Rightarrow> None
      | c # cs \<Rightarrow>
          if c = CHR ''-'' then map_option uminus (parseInt cs)
          else if c = CHR ''+'' then parseInt cs
          else parseInt s)"
  by (simp add: parseBig_def parseInt option.map_comp comp_def split: list.split)

text \<open>\<^verbatim>\<open>%x\<close> of bytes.\<close>

definition hexDigit :: "nat \<Rightarrow> char" where
  "hexDigit n = ''0123456789abcdef'' ! n"

definition hexStr :: "bytes \<Rightarrow> string" where
  "hexStr b = concat (map (\<lambda>w. [hexDigit (unat w div 16), hexDigit (unat w mod 16)]) b)"

text \<open>What follows the first occurrence of a substring (\<^verbatim>\<open>strings.Index\<close>).\<close>

fun afterFirst :: "string \<Rightarrow> string \<Rightarrow> string option" where
  "afterFirst sub [] = (if sub = [] then Some [] else None)"
| "afterFirst sub (c # cs) = (if prefix sub (c # cs) then Some (drop (length sub) (c # cs)) else afterFirst sub cs)"

text \<open>The library parameters instantiated by concrete functions, for evaluating examples.\<close>

definition sampleExt :: go_ext where
  "sampleExt = \<lparr>uniEqualFold = (=), uniToLower = id, uniTrimSpace = id, parseJSON = (\<lambda>_. None), marshalJSON = (\<lambda>_. []),
     ParseFloat = (\<lambda>s. map_option (\<lambda>n. Fin (real_of_int n)) (parseBig s)), FormatFloat = (\<lambda>_. []),
     float64OfInt = (\<lambda>n. Fin (real_of_int n)),
     float64ToInt = (\<lambda>f. case f of Fin x \<Rightarrow> \<lfloor>x\<rfloor> | _ \<Rightarrow> 0), float64Mul = (\<lambda>_ _. NaN), float64Quo = (\<lambda>_ _. NaN),
     timeParse = (\<lambda>_ _. None), timeParseNano = (\<lambda>_. None),
     ParseIP = (\<lambda>_. None), ParseCIDR = (\<lambda>_. None), md5Sum = (\<lambda>s. replicate 16 0)\<rparr>"

end
