(* ===== verification/Glob.thy ===== *)
theory Glob
  imports Prelude
begin

text \<open>
  The two wildcard matchers: \<^verbatim>\<open>glob\<close> of \<^verbatim>\<open>internal/iampolicy/policy.go\<close> (stars and
  question marks, with optional ASCII case folding) and \<^verbatim>\<open>wildcardMatch\<close> of
  \<^verbatim>\<open>internal/eventpattern/eventpattern.go\<close> (stars only). Both are the same two-cursor loop
  with one backtracking point; the cursors are the source's indices, and the backtracking
  point \<^verbatim>\<open>star\<close> is an \<^typ>\<open>nat option\<close> (the source writes \<open>-1\<close> for \<^const>\<open>None\<close>).
  The locale \<open>star_loop\<close> is what the two loops share, and holds the comparison with the
  declarative matcher \<open>matches\<close>.
\<close>

subsection \<open>iampolicy: glob\<close>

definition lower :: "char \<Rightarrow> char" where
  "lower c = lowerByte c"

definition eqByte :: "char \<Rightarrow> char \<Rightarrow> bool \<Rightarrow> bool" where
  "eqByte a b fld = (if a = b then True else if \<not> fld then False else lower a = lower b)"

text \<open>The loop after the first: \<^verbatim>\<open>for p < len(pattern) && pattern[p] == '*' { p++ }\<close>.\<close>

function skipStars :: "string \<Rightarrow> nat \<Rightarrow> nat" where
  "skipStars pat p =
     (if p < length pat \<and> pat ! p = CHR ''*'' then skipStars pat (Suc p) else p)"
  by pat_completeness auto
termination
  by (relation "measure (\<lambda>(pat, p). length pat - p)") auto

declare skipStars.simps [simp del]

text \<open>
  What decreases: the string left after the last star's mark, and, between two moves of the
  mark, what is left of both strings. A mark ahead of the cursor (no run reaches one)
  counts as one more than the whole string.
\<close>

definition globRank :: "string \<Rightarrow> nat \<Rightarrow> nat \<Rightarrow> nat" where
  "globRank s i mark = (if mark \<le> i then length s - mark else Suc (length s))"

function globLoop ::
  "string \<Rightarrow> string \<Rightarrow> bool \<Rightarrow> nat \<Rightarrow> nat \<Rightarrow> nat option \<Rightarrow> nat \<Rightarrow> bool" where
  "globLoop pat s fld p i star mark =
     (if i < length s then
        (if p < length pat \<and> (pat ! p = CHR ''?'' \<or> eqByte (pat ! p) (s ! i) fld)
         then globLoop pat s fld (Suc p) (Suc i) star mark
         else if p < length pat \<and> pat ! p = CHR ''*''
         then globLoop pat s fld (Suc p) i (Some p) i
         else case star of
                Some st \<Rightarrow> globLoop pat s fld (Suc st) (Suc mark) star (Suc mark)
              | None \<Rightarrow> False)
      else skipStars pat p = length pat)"
  by pat_completeness auto
termination
  by (relation "measures [\<lambda>(pat, s, fld, p, i, star, mark). globRank s i mark,
        \<lambda>(pat, s, fld, p, i, star, mark). (length pat - p) + (length s - i)]")
     (auto simp: globRank_def split: if_splits)

declare globLoop.simps [simp del]

definition glob :: "string \<Rightarrow> string \<Rightarrow> bool \<Rightarrow> bool" where
  "glob pat s fld = globLoop pat s fld 0 0 None 0"

definition globMatch :: "string \<Rightarrow> string \<Rightarrow> bool" where
  "globMatch pat s = glob pat s False"

definition globMatchFold :: "string \<Rightarrow> string \<Rightarrow> bool" where
  "globMatchFold pat s = glob pat s True"

subsection \<open>eventpattern: wildcardMatch\<close>

function wildcardLoop ::
  "string \<Rightarrow> string \<Rightarrow> nat \<Rightarrow> nat \<Rightarrow> nat option \<Rightarrow> nat \<Rightarrow> bool" where
  "wildcardLoop pat s p i star mark =
     (if i < length s then
        (if p < length pat \<and> pat ! p = s ! i
         then wildcardLoop pat s (Suc p) (Suc i) star mark
         else if p < length pat \<and> pat ! p = CHR ''*''
         then wildcardLoop pat s (Suc p) i (Some p) i
         else case star of
                Some st \<Rightarrow> wildcardLoop pat s (Suc st) (Suc mark) star (Suc mark)
              | None \<Rightarrow> False)
      else skipStars pat p = length pat)"
  by pat_completeness auto
termination
  by (relation "measures [\<lambda>(pat, s, p, i, star, mark). globRank s i mark,
        \<lambda>(pat, s, p, i, star, mark). (length pat - p) + (length s - i)]")
     (auto simp: globRank_def split: if_splits)

declare wildcardLoop.simps [simp del]

definition wildcardMatch :: "string \<Rightarrow> string \<Rightarrow> bool" where
  "wildcardMatch pat s = wildcardLoop pat s 0 0 None 0"

subsection \<open>The declarative matcher\<close>

text \<open>
  A star stands for any run of bytes, every other pattern byte for one byte it accepts;
  \<open>lit\<close> says which (a question mark accepts every byte).
\<close>

fun matches :: "(char \<Rightarrow> char \<Rightarrow> bool) \<Rightarrow> string \<Rightarrow> string \<Rightarrow> bool" where
  "matches lit [] s = (s = [])"
| "matches lit (c # ps) [] = (c = CHR ''*'' \<and> matches lit ps [])"
| "matches lit (c # ps) (x # xs) =
     (if c = CHR ''*'' then matches lit ps (x # xs) \<or> matches lit (c # ps) xs
      else lit c x \<and> matches lit ps xs)"

definition iamLit :: "bool \<Rightarrow> char \<Rightarrow> char \<Rightarrow> bool" where
  "iamLit fld c x = (c = CHR ''?'' \<or> eqByte c x fld)"

lemma matches_star: "matches lit (CHR ''*'' # ps) s \<longleftrightarrow> (\<exists>k \<le> length s. matches lit ps (drop k s))"
proof (induction s)
  case Nil
  then show ?case by simp
next
  case (Cons x xs)
  have "(\<exists>k \<le> length (x # xs). matches lit ps (drop k (x # xs))) \<longleftrightarrow>
      matches lit ps (x # xs) \<or> (\<exists>k \<le> length xs. matches lit ps (drop k xs))"
    by (metis (no_types, lifting) Suc_le_mono drop0 drop_Suc_Cons le0 length_Cons not0_implies_Suc)
  with Cons show ?case by simp
qed

lemma matches_star_drop:
  assumes "matches lit (CHR ''*'' # ps) (drop k s)" and "i \<le> k"
  shows "matches lit (CHR ''*'' # ps) (drop i s)"
proof -
  from assms(1) obtain j where j: "j \<le> length (drop k s)" "matches lit ps (drop j (drop k s))"
    by (auto simp: matches_star)
  show ?thesis
  proof (cases "k \<le> length s")
    case True
    then have "matches lit ps (drop (j + (k - i)) (drop i s))"
      using j assms(2) by (simp add: add.commute)
    moreover have "j + (k - i) \<le> length (drop i s)"
      using j(1) True assms(2) by simp
    ultimately show ?thesis unfolding matches_star by blast
  next
    case False
    then have "matches lit ps []"
      using j by simp
    then have "matches lit ps (drop (length (drop i s)) (drop i s))" by simp
    then show ?thesis unfolding matches_star by blast
  qed
qed

lemma matches_only_stars: "matches lit ps [] \<longleftrightarrow> (\<forall>c \<in> set ps. c = CHR ''*'')"
  by (induction ps) auto

lemma skipStars_all: "skipStars pat p = length pat \<longleftrightarrow> p \<le> length pat \<and> matches lit (drop p pat) []"
proof (induction pat p rule: skipStars.induct)
  case (1 pat p)
  show ?case
  proof (cases "p < length pat")
    case True
    then have d: "drop p pat = pat ! p # drop (Suc p) pat"
      by (simp add: Cons_nth_drop_Suc)
    show ?thesis
    proof (cases "pat ! p = CHR ''*''")
      case star: True
      then have "skipStars pat p = skipStars pat (Suc p)"
        using True by (subst skipStars.simps) simp
      then show ?thesis
        using 1 True star d by simp
    next
      case False
      then have "skipStars pat p = p"
        by (subst skipStars.simps) simp
      then show ?thesis
        using True False d by simp
    qed
  next
    case False
    then have "skipStars pat p = p"
      by (subst skipStars.simps) simp
    then show ?thesis
      using False by auto
  qed
qed


lemma matches_segment:
  assumes "matches lit (u @ v) t" and "CHR ''*'' \<notin> set u"
  shows "length u \<le> length t \<and> matches lit v (drop (length u) t)"
  using assms
proof (induction u arbitrary: t)
  case Nil
  then show ?case by simp
next
  case (Cons c u)
  then obtain x xs where t: "t = x # xs"
    by (cases t) auto
  with Cons show ?case by auto
qed

lemma matches_at:
  "p < length pat \<Longrightarrow> i < length s \<Longrightarrow>
   matches lit (drop p pat) (drop i s) =
     (if pat ! p = CHR ''*'' then matches lit (drop (Suc p) pat) (drop i s) \<or>
        matches lit (drop p pat) (drop (Suc i) s)
      else lit (pat ! p) (s ! i) \<and> matches lit (drop (Suc p) pat) (drop (Suc i) s))"
  by (simp add: Cons_nth_drop_Suc [symmetric])

lemma matches_lit_step:
  assumes "p < length pat" "i < length s" "lit (pat ! p) (s ! i)"
    and "matches lit (drop (Suc p) pat) (drop (Suc i) s)"
  shows "matches lit (drop p pat) (drop i s)"
proof (cases "pat ! p = CHR ''*''")
  case True
  have "matches lit (CHR ''*'' # drop (Suc p) pat) (drop (Suc i) s)"
    unfolding matches_star using assms(4) by (metis drop0 le0)
  then have "matches lit (drop p pat) (drop (Suc i) s)"
    using assms(1) True by (metis Cons_nth_drop_Suc)
  then show ?thesis using assms(1,2) True by (simp add: matches_at)
next
  case False
  then show ?thesis using assms by (simp add: matches_at)
qed

lemma take_segment_Suc:
  assumes "st < p" and "p < length pat"
  shows "take (p - st) (drop (Suc st) pat) = take (p - Suc st) (drop (Suc st) pat) @ [pat ! p]"
proof -
  have "take (Suc (p - Suc st)) (drop (Suc st) pat) =
      take (p - Suc st) (drop (Suc st) pat) @ [drop (Suc st) pat ! (p - Suc st)]"
    using assms by (intro take_Suc_conv_app_nth) simp
  then show ?thesis using assms by (simp add: Suc_diff_Suc)
qed

subsection \<open>The shared loop\<close>

text \<open>The loop over any byte comparison; the two loops above are instances of it.\<close>

function starLoop ::
  "(char \<Rightarrow> char \<Rightarrow> bool) \<Rightarrow> string \<Rightarrow> string \<Rightarrow> nat \<Rightarrow> nat \<Rightarrow> nat option \<Rightarrow> nat \<Rightarrow> bool" where
  "starLoop lit pat s p i star mark =
     (if i < length s then
        (if p < length pat \<and> lit (pat ! p) (s ! i)
         then starLoop lit pat s (Suc p) (Suc i) star mark
         else if p < length pat \<and> pat ! p = CHR ''*''
         then starLoop lit pat s (Suc p) i (Some p) i
         else case star of
                Some st \<Rightarrow> starLoop lit pat s (Suc st) (Suc mark) star (Suc mark)
              | None \<Rightarrow> False)
      else skipStars pat p = length pat)"
  by pat_completeness auto
termination
  by (relation "measures [\<lambda>(lit, pat, s, p, i, star, mark). globRank s i mark,
        \<lambda>(lit, pat, s, p, i, star, mark). (length pat - p) + (length s - i)]")
     (auto simp: globRank_def split: if_splits)

declare starLoop.simps [simp del]

text \<open>
  What a run of the loop may still find: a match from the cursors on, or a match after the
  last star with its run made longer than \<open>mark\<close>.
\<close>

definition found ::
  "(char \<Rightarrow> char \<Rightarrow> bool) \<Rightarrow> string \<Rightarrow> string \<Rightarrow> nat \<Rightarrow> nat \<Rightarrow> nat option \<Rightarrow> nat \<Rightarrow> bool" where
  "found lit pat s p i star mark \<longleftrightarrow>
     matches lit (drop p pat) (drop i s) \<or>
     (\<exists>st k. star = Some st \<and> mark < k \<and> k \<le> length s \<and> matches lit (drop (Suc st) pat) (drop k s))"

definition cursorsOk :: "string \<Rightarrow> string \<Rightarrow> nat \<Rightarrow> nat \<Rightarrow> nat option \<Rightarrow> nat \<Rightarrow> bool" where
  "cursorsOk pat s p i star mark \<longleftrightarrow> p \<le> length pat \<and> i \<le> length s \<and>
     (\<forall>st. star = Some st \<longrightarrow> st < p \<and> mark \<le> i)"

definition segmentOk :: "string \<Rightarrow> nat \<Rightarrow> nat \<Rightarrow> nat option \<Rightarrow> nat \<Rightarrow> bool" where
  "segmentOk pat p i star mark \<longleftrightarrow>
     (\<forall>st. star = Some st \<longrightarrow> p - Suc st = i - mark \<and> CHR ''*'' \<notin> set (take (p - Suc st) (drop (Suc st) pat)))"

lemma ex_drop_shift:
  assumes "i \<le> length s"
  shows "(\<exists>k. i \<le> k \<and> k \<le> length s \<and> P (drop k s)) \<longleftrightarrow>
    (\<exists>j \<le> length (drop i s). P (drop j (drop i s)))" (is "?L \<longleftrightarrow> ?R")
proof
  assume ?L
  then obtain k where "i \<le> k" "k \<le> length s" "P (drop k s)" by blast
  then show ?R by (intro exI [of _ "k - i"]) simp
next
  assume ?R
  then obtain j where "j \<le> length (drop i s)" "P (drop j (drop i s))" by blast
  then show ?L using assms by (intro exI [of _ "i + j"]) (simp add: add.commute)
qed

lemma found_star_reset:
  assumes "p < length pat" and "pat ! p = CHR ''*''" and "i < length s"
  shows "found lit pat s (Suc p) i (Some p) i \<longleftrightarrow> matches lit (drop p pat) (drop i s)"
proof -
  have "found lit pat s (Suc p) i (Some p) i \<longleftrightarrow>
      (\<exists>k. i \<le> k \<and> k \<le> length s \<and> matches lit (drop (Suc p) pat) (drop k s))"
    using assms(3) by (auto simp: found_def le_less)
  also have "\<dots> \<longleftrightarrow> (\<exists>k \<le> length (drop i s). matches lit (drop (Suc p) pat) (drop k (drop i s)))"
    using assms(3) by (intro ex_drop_shift) simp
  also have "\<dots> \<longleftrightarrow> matches lit (CHR ''*'' # drop (Suc p) pat) (drop i s)"
    by (simp add: matches_star)
  also have "\<dots> \<longleftrightarrow> matches lit (drop p pat) (drop i s)"
    using assms(1,2) by (metis Cons_nth_drop_Suc)
  finally show ?thesis .
qed

lemma found_retry:
  assumes "mark < length s"
  shows "found lit pat s (Suc st) (Suc mark) (Some st) (Suc mark) \<longleftrightarrow>
    (\<exists>k. mark < k \<and> k \<le> length s \<and> matches lit (drop (Suc st) pat) (drop k s))"
proof -
  have "(\<exists>k. mark < k \<and> k \<le> length s \<and> Q k) \<longleftrightarrow>
      Q (Suc mark) \<or> (\<exists>k. Suc mark < k \<and> k \<le> length s \<and> Q k)" for Q
    using assms by (metis Suc_leI Suc_lessI Suc_lessD lessI)
  then show ?thesis by (simp add: found_def)
qed

lemma segment_split:
  assumes "st < p" and "p \<le> length pat"
  shows "drop (Suc st) pat = take (p - Suc st) (drop (Suc st) pat) @ drop p pat"
  using assms by (metis Suc_leI append_take_drop_id drop_drop le_add_diff_inverse2)

lemma older_star_absorbed:
  assumes inv: "cursorsOk pat s p i (Some st) mark" "segmentOk pat p i (Some st) mark"
    and k: "mark < k" "k \<le> length s" "matches lit (drop (Suc st) pat) (drop k s)"
  shows "i < length s \<and> matches lit (drop p pat) (drop (k + (i - mark)) s)"
proof -
  let ?u = "take (p - Suc st) (drop (Suc st) pat)"
  have st: "st < p" "p \<le> length pat" "mark \<le> i"
    using inv by (auto simp: cursorsOk_def)
  have n: "length ?u = i - mark" and ns: "CHR ''*'' \<notin> set ?u"
    using inv st by (auto simp: cursorsOk_def segmentOk_def)
  have "matches lit (?u @ drop p pat) (drop k s)"
    using k(3) segment_split [OF st(1,2)] by simp
  from matches_segment [OF this ns] have "i - mark \<le> length s - k"
      and "matches lit (drop p pat) (drop (i - mark) (drop k s))"
    using n by auto
  then show ?thesis
    using k(1,2) st(3) by (simp add: add.commute)
qed


lemma starLoop_sound:
  assumes "cursorsOk pat s p i star mark" and "starLoop lit pat s p i star mark"
  shows "found lit pat s p i star mark"
  using assms
proof (induction lit pat s p i star mark rule: starLoop.induct)
  case (1 lit pat s p i star mark)
  note unfold = starLoop.simps [of lit pat s p i star mark]
  have p: "p \<le> length pat" and i: "i \<le> length s"
    using 1(4) by (auto simp: cursorsOk_def)
  consider (fin) "\<not> i < length s"
    | (lit) "i < length s" "p < length pat" "lit (pat ! p) (s ! i)"
    | (star) "i < length s" "\<not> (p < length pat \<and> lit (pat ! p) (s ! i))" "p < length pat" "pat ! p = CHR ''*''"
    | (retry) "i < length s" "\<not> (p < length pat \<and> lit (pat ! p) (s ! i))" "\<not> (p < length pat \<and> pat ! p = CHR ''*'')"
    by blast
  then show ?case
  proof cases
    case fin
    with 1(5) i show ?thesis by (simp add: unfold skipStars_all [of _ _ lit] found_def)
  next
    case lit
    have "cursorsOk pat s (Suc p) (Suc i) star mark"
      using 1(4) lit by (auto simp: cursorsOk_def)
    then have "found lit pat s (Suc p) (Suc i) star mark"
      using 1(1,5) lit by (simp add: unfold)
    then show ?thesis
      using lit matches_lit_step [of p pat i s lit] by (auto simp: found_def)
  next
    case star
    have "cursorsOk pat s (Suc p) i (Some p) i"
      using 1(4) star by (auto simp: cursorsOk_def)
    then have "found lit pat s (Suc p) i (Some p) i"
      using 1(2,5) star by (auto simp: unfold)
    then show ?thesis
      using star by (simp add: found_star_reset) (simp add: found_def)
  next
    case retry
    then obtain st where st: "star = Some st" "starLoop lit pat s (Suc st) (Suc mark) star (Suc mark)"
      using 1(5) by (auto simp: unfold split: option.splits)
    have m: "mark < length s" "st < length pat"
      using st(1) 1(4) retry(1) p by (auto simp: cursorsOk_def)
    have "cursorsOk pat s (Suc st) (Suc mark) star (Suc mark)"
      using st m by (auto simp: cursorsOk_def)
    then have "found lit pat s (Suc st) (Suc mark) star (Suc mark)"
      using 1(3) retry st by auto
    then show ?thesis
      using m st by (simp add: found_retry) (simp add: found_def)
  qed
qed

lemma starLoop_complete:
  assumes "cursorsOk pat s p i star mark" and "segmentOk pat p i star mark"
    and "CHR ''*'' \<notin> set s" and "\<And>x. lit (CHR ''*'') x \<Longrightarrow> x = CHR ''*''"
    and "found lit pat s p i star mark"
  shows "starLoop lit pat s p i star mark"
  using assms
proof (induction lit pat s p i star mark rule: starLoop.induct)
  case (1 lit pat s p i star mark)
  note unfold = starLoop.simps [of lit pat s p i star mark]
  have p: "p \<le> length pat" and i: "i \<le> length s"
    using 1(4) by (auto simp: cursorsOk_def)
  have older: "i < length s \<and> matches lit (drop p pat) (drop (k + (i - mark)) s)"
    if "star = Some st" "mark < k" "k \<le> length s" "matches lit (drop (Suc st) pat) (drop k s)" for st k
    using older_star_absorbed 1(4,5) that by blast
  consider (fin) "\<not> i < length s"
    | (lit) "i < length s" "p < length pat" "lit (pat ! p) (s ! i)"
    | (star) "i < length s" "\<not> (p < length pat \<and> lit (pat ! p) (s ! i))" "p < length pat" "pat ! p = CHR ''*''"
    | (retry) "i < length s" "\<not> (p < length pat \<and> lit (pat ! p) (s ! i))" "\<not> (p < length pat \<and> pat ! p = CHR ''*'')"
    by blast
  then show ?case
  proof cases
    case fin
    then have "matches lit (drop p pat) []"
      using 1(8) older i by (auto simp: found_def)
    with fin p show ?thesis by (simp add: starLoop.simps skipStars_all [of _ _ lit])
  next
    case lit
    have ns: "pat ! p \<noteq> CHR ''*''"
      using 1(7) lit 1(6) nth_mem [OF lit(1)] by metis
    have inv: "cursorsOk pat s (Suc p) (Suc i) star mark" "segmentOk pat (Suc p) (Suc i) star mark"
      using 1(4,5) lit ns by (auto simp: cursorsOk_def segmentOk_def take_segment_Suc)
    have "found lit pat s (Suc p) (Suc i) star mark"
      using 1(8) lit ns by (auto simp: found_def matches_at)
    then show ?thesis
      using 1(1,6,7) lit inv by (simp add: unfold)
  next
    case star
    have "matches lit (drop p pat) (drop i s)"
    proof (cases "matches lit (drop p pat) (drop i s)")
      case False
      then obtain st k where k: "star = Some st" "mark < k" "k \<le> length s"
          "matches lit (drop (Suc st) pat) (drop k s)"
        using 1(8) by (auto simp: found_def)
      then have "matches lit (drop p pat) (drop (k + (i - mark)) s)"
        using older by blast
      moreover have "drop p pat = CHR ''*'' # drop (Suc p) pat"
        using star by (simp add: Cons_nth_drop_Suc [symmetric])
      moreover have "i \<le> k + (i - mark)"
        using k by simp
      ultimately show ?thesis by (metis matches_star_drop)
    qed simp
    then have "found lit pat s (Suc p) i (Some p) i"
      using star by (simp add: found_star_reset)
    moreover have "cursorsOk pat s (Suc p) i (Some p) i" "segmentOk pat (Suc p) i (Some p) i"
      using star i by (auto simp: cursorsOk_def segmentOk_def)
    ultimately show ?thesis
      using 1(2,6,7) star by (auto simp: unfold)
  next
    case retry
    have "\<not> matches lit (drop p pat) (drop i s)"
    proof (cases "p < length pat")
      case True
      then show ?thesis using retry by (auto simp: matches_at)
    next
      case False
      then show ?thesis using retry by simp
    qed
    then obtain st k where k: "star = Some st" "mark < k" "k \<le> length s"
        "matches lit (drop (Suc st) pat) (drop k s)"
      using 1(8) by (auto simp: found_def)
    then have "found lit pat s (Suc st) (Suc mark) (Some st) (Suc mark)"
      by (subst found_retry) auto
    moreover have "cursorsOk pat s (Suc st) (Suc mark) (Some st) (Suc mark)"
        "segmentOk pat (Suc st) (Suc mark) (Some st) (Suc mark)"
      using 1(4) k p retry(1) by (auto simp: cursorsOk_def segmentOk_def)
    ultimately have "starLoop lit pat s (Suc st) (Suc mark) (Some st) (Suc mark)"
      using 1(3,6,7) retry k(1) by auto
    then show ?thesis
      unfolding unfold using retry k(1) by auto
  qed
qed


text \<open>
  The contract a wildcard loop meets: it unfolds as the shared loop does, and its byte
  comparison takes a pattern star only for a star in the string.
\<close>

locale star_loop =
  fixes loop :: "string \<Rightarrow> string \<Rightarrow> nat \<Rightarrow> nat \<Rightarrow> nat option \<Rightarrow> nat \<Rightarrow> bool"
    and lit :: "char \<Rightarrow> char \<Rightarrow> bool"
  assumes loop_starLoop: "loop pat s p i star mark = starLoop lit pat s p i star mark"
    and lit_star: "lit (CHR ''*'') x \<Longrightarrow> x = CHR ''*''"
begin

lemma sound: "loop pat s 0 0 None 0 \<Longrightarrow> matches lit pat s"
  using starLoop_sound [of pat s 0 0 None 0 lit]
  by (simp add: loop_starLoop cursorsOk_def found_def)

lemma correct: "CHR ''*'' \<notin> set s \<Longrightarrow> loop pat s 0 0 None 0 = matches lit pat s"
  using starLoop_complete [of pat s 0 0 None 0 lit] sound [of pat s]
  by (auto simp: loop_starLoop cursorsOk_def segmentOk_def found_def intro: lit_star)

end

lemma iamLit_star: "iamLit fld (CHR ''*'') x \<Longrightarrow> x = CHR ''*''"
proof -
  have "lowerByte x = CHR ''*'' \<Longrightarrow> x = CHR ''*''"
    by (cases "65 \<le> (of_char x :: nat) \<and> of_char x \<le> (90 :: nat)")
       (auto simp: lowerByte_def dest!: arg_cong [where f = "of_char :: char \<Rightarrow> nat"])
  then show "iamLit fld (CHR ''*'') x \<Longrightarrow> x = CHR ''*''"
    by (auto simp: iamLit_def eqByte_def lower_def lowerByte_def split: if_splits)
qed

lemma globLoop_starLoop: "globLoop pat s fld p i star mark = starLoop (iamLit fld) pat s p i star mark"
proof (induction pat s fld p i star mark rule: globLoop.induct)
  case (1 pat s fld p i star mark)
  then show ?case
    unfolding globLoop.simps [of pat s fld p i star mark]
      starLoop.simps [of "iamLit fld" pat s p i star mark] iamLit_def [symmetric]
    by (auto split: option.splits)
qed

lemma wildcardLoop_starLoop: "wildcardLoop pat s p i star mark = starLoop (=) pat s p i star mark"
  by (induction pat s p i star mark rule: wildcardLoop.induct)
     (subst wildcardLoop.simps, subst starLoop.simps, auto split: option.splits)

interpretation iam: star_loop "\<lambda>pat s. globLoop pat s fld" "iamLit fld" for fld
  by unfold_locales (simp_all add: globLoop_starLoop iamLit_star)

interpretation wild: star_loop wildcardLoop "(=)"
  by unfold_locales (simp_all add: wildcardLoop_starLoop)

lemma glob_sound: "glob pat s fld \<Longrightarrow> matches (iamLit fld) pat s"
  unfolding glob_def by (rule iam.sound)

lemma glob_correct: "CHR ''*'' \<notin> set s \<Longrightarrow> glob pat s fld = matches (iamLit fld) pat s"
  unfolding glob_def by (rule iam.correct)

lemma wildcardMatch_correct: "CHR ''*'' \<notin> set s \<Longrightarrow> wildcardMatch pat s = matches (=) pat s"
  unfolding wildcardMatch_def by (rule wild.correct)

lemma wildcardMatch_sound: "wildcardMatch pat s \<Longrightarrow> matches (=) pat s"
  unfolding wildcardMatch_def by (rule wild.sound)

text \<open>C4: the iterative matchers decide the wildcard language. On every string without a literal
  star, globMatch and globMatchFold (star and question mark, the second ignoring ASCII case) and
  wildcardMatch (star only) answer what the declarative matcher does; the backtracking loops always
  terminate.\<close>

theorem matchers_decide_language:
  "CHR ''*'' \<notin> set s \<Longrightarrow>
     globMatch pat s = matches (iamLit False) pat s \<and>
     globMatchFold pat s = matches (iamLit True) pat s \<and>
     wildcardMatch pat s = matches (=) pat s"
  by (simp add: globMatch_def globMatchFold_def glob_correct wildcardMatch_correct)

theorem matchers_decide_language_witness:
  "globMatch ''S3:get*'' ''s3:GetObject'' = False \<and> globMatchFold ''S3:get*'' ''s3:GetObject''"
proof -
  have "\<not> matches (iamLit False) ''S3:get*'' ''s3:GetObject''" "matches (iamLit True) ''S3:get*'' ''s3:GetObject''"
    "CHR ''*'' \<notin> set ''s3:GetObject''"
    by code_simp+
  then show ?thesis
    using matchers_decide_language [of "''s3:GetObject''" "''S3:get*''"] by simp
qed

end
