(* ===== verification/Ident.thy ===== *)
theory Ident
  imports Prelude
begin

text \<open>
  The region and account ARNs are minted for, \<^verbatim>\<open>awsident/ident.go\<close>: an identity's empty fields stand
  for the defaults.
\<close>

record identity =
  Region :: string
  AccountID :: string

definition withDefaults :: "identity \<Rightarrow> identity" where
  "withDefaults i =
     (let i1 = (if Region i = [] then i\<lparr>Region := ''us-east-1''\<rparr> else i)
      in if AccountID i1 = [] then i1\<lparr>AccountID := ''000000000000''\<rparr> else i1)"

definition Account :: "identity \<Rightarrow> string" where
  "Account i = AccountID (withDefaults i)"

definition ARN :: "identity \<Rightarrow> string \<Rightarrow> string \<Rightarrow> string" where
  "ARN i service resource =
     (let d = withDefaults i
      in ''arn:aws:'' @ service @ '':'' @ Region d @ '':'' @ AccountID d @ '':'' @ resource)"

definition GlobalARN :: "identity \<Rightarrow> string \<Rightarrow> string \<Rightarrow> string" where
  "GlobalARN i service resource =
     ''arn:aws:'' @ service @ ''::'' @ AccountID (withDefaults i) @ '':'' @ resource"

end
