(* ===== verification/IamPolicy.thy ===== *)
theory IamPolicy
  imports Glob Ident
begin

text \<open>
  The IAM policy engine, \<^verbatim>\<open>internal/iampolicy\<close>: the document model and its JSON decoding
  and \<^verbatim>\<open>Parse\<close> (\<^verbatim>\<open>policy.go\<close>), principal matching (\<^verbatim>\<open>principal.go\<close>), condition operators
  (\<^verbatim>\<open>conditions.go\<close>) and \<^verbatim>\<open>Evaluate\<close>. Go maps are association lists in their iteration
  order, so a theorem about every such list covers every order Go may iterate in.
\<close>

subsection \<open>Documents\<close>

record principalBlock =
  Any :: bool
  ByType :: "(string \<times> string list) list"
  Present :: bool

type_synonym conditionBlock = "(string \<times> (string \<times> string list) list) list"

record statement =
  SID :: string
  Effect :: string
  Action :: "string list"
  NotAction :: "string list"
  Resource :: "string list"
  NotResource :: "string list"
  Principal :: principalBlock
  NotPrincipal :: principalBlock
  Condition :: conditionBlock

record document =
  Version :: string
  ID :: string
  Statement :: "statement list"

definition noPrincipal :: principalBlock where
  "noPrincipal = \<lparr>Any = False, ByType = [], Present = False\<rparr>"

definition zeroStatement :: statement where
  "zeroStatement = \<lparr>SID = [], Effect = [], Action = [], NotAction = [], Resource = [],
     NotResource = [], Principal = noPrincipal, NotPrincipal = noPrincipal, Condition = []\<rparr>"

subsection \<open>Decoding\<close>

datatype policyError =
    EmptyDocument | NotJSON | NoStatement | BadEffect nat string | NoAction nat

definition stringList_UnmarshalJSON :: "json \<Rightarrow> string list option" where
  "stringList_UnmarshalJSON b =
     (case unmarshalString b of Some one \<Rightarrow> Some [one] | None \<Rightarrow> unmarshalStrings b)"

definition stringList_MarshalJSON :: "string list \<Rightarrow> json" where
  "stringList_MarshalJSON s = (if length s = 1 then JStr (s ! 0) else JArr (map JStr s))"

fun decodeMembers :: "(json \<Rightarrow> 'a option) \<Rightarrow> (string \<times> json) list \<Rightarrow> (string \<times> 'a) list option" where
  "decodeMembers f [] = Some []"
| "decodeMembers f ((k, v) # kvs) =
     (case f v of
        None \<Rightarrow> None
      | Some x \<Rightarrow> (case decodeMembers f kvs of None \<Rightarrow> None | Some xs \<Rightarrow> Some ((k, x) # xs)))"

definition decodeMap :: "(json \<Rightarrow> 'a option) \<Rightarrow> json \<Rightarrow> (string \<times> 'a) list option" where
  "decodeMap f j =
     (case j of
        JNull \<Rightarrow> Some []
      | JObj kvs \<Rightarrow> map_option goMap (decodeMembers f kvs)
      | _ \<Rightarrow> None)"

definition principalBlock_UnmarshalJSON :: "principalBlock \<Rightarrow> json \<Rightarrow> principalBlock option" where
  "principalBlock_UnmarshalJSON p b =
     (case unmarshalString b of
        Some star \<Rightarrow>
          Some \<lparr>Any = (star = ''*''),
                ByType = (if star = ''*'' then ByType p else [(''AWS'', [star])]), Present = True\<rparr>
      | None \<Rightarrow>
          (case decodeMap stringList_UnmarshalJSON b of
             None \<Rightarrow> None
           | Some byType \<Rightarrow>
               Some \<lparr>Any = (Any p \<or> (\<exists>kv \<in> set byType. ''*'' \<in> set (snd kv))),
                     ByType = byType, Present = True\<rparr>))"

definition principalBlock_MarshalJSON :: "principalBlock \<Rightarrow> json" where
  "principalBlock_MarshalJSON p =
     (if Any p \<and> ByType p = [] then JStr ''*''
      else JObj (map (\<lambda>(k, v). (k, JArr (map JStr v))) (ByType p)))"

fun conditionScalar :: "go_ext \<Rightarrow> json \<Rightarrow> string option" where
  "conditionScalar G (JStr s) = Some s"
| "conditionScalar G JNull = Some []"
| "conditionScalar G (JBool b) = Some (if b then ''true'' else ''false'')"
| "conditionScalar G (JNum n) = (case ParseFloat G n of None \<Rightarrow> None | Some _ \<Rightarrow> Some n)"
| "conditionScalar G _ = None"

definition conditionValues_UnmarshalJSON :: "go_ext \<Rightarrow> json \<Rightarrow> string list option" where
  "conditionValues_UnmarshalJSON G b =
     (let raw = (case b of JArr js \<Rightarrow> js | _ \<Rightarrow> [b]) in those (map (conditionScalar G) raw))"

definition setString :: "json \<Rightarrow> string \<Rightarrow> string option" where
  "setString v old = (if v = JNull then Some old else unmarshalString v)"

text \<open>
  One member of a statement object: \<^verbatim>\<open>encoding/json\<close> matches a member to a field without
  regard to case and ignores members that name no field.
\<close>

definition decodeField :: "go_ext \<Rightarrow> statement \<Rightarrow> string \<Rightarrow> json \<Rightarrow> statement option" where
  "decodeField G st k v =
     (let named = (\<lambda>n. EqualFold G k n) in
      if named ''Sid'' then map_option (\<lambda>x. st\<lparr>SID := x\<rparr>) (setString v (SID st))
      else if named ''Effect'' then map_option (\<lambda>x. st\<lparr>Effect := x\<rparr>) (setString v (Effect st))
      else if named ''Action'' then map_option (\<lambda>x. st\<lparr>Action := x\<rparr>) (stringList_UnmarshalJSON v)
      else if named ''NotAction'' then map_option (\<lambda>x. st\<lparr>NotAction := x\<rparr>) (stringList_UnmarshalJSON v)
      else if named ''Resource'' then map_option (\<lambda>x. st\<lparr>Resource := x\<rparr>) (stringList_UnmarshalJSON v)
      else if named ''NotResource'' then map_option (\<lambda>x. st\<lparr>NotResource := x\<rparr>) (stringList_UnmarshalJSON v)
      else if named ''Principal'' then map_option (\<lambda>x. st\<lparr>Principal := x\<rparr>) (principalBlock_UnmarshalJSON (Principal st) v)
      else if named ''NotPrincipal'' then map_option (\<lambda>x. st\<lparr>NotPrincipal := x\<rparr>) (principalBlock_UnmarshalJSON (NotPrincipal st) v)
      else if named ''Condition'' then
        (if v = JNull then Some (st\<lparr>Condition := []\<rparr>)
         else map_option (\<lambda>c. st\<lparr>Condition := AList.updates (map fst c) (map snd c) (Condition st)\<rparr>)
                (decodeMap (decodeMap (conditionValues_UnmarshalJSON G)) v))
      else Some st)"

fun decodeFields :: "go_ext \<Rightarrow> statement \<Rightarrow> (string \<times> json) list \<Rightarrow> statement option" where
  "decodeFields G st [] = Some st"
| "decodeFields G st ((k, v) # kvs) =
     (case decodeField G st k v of None \<Rightarrow> None | Some st' \<Rightarrow> decodeFields G st' kvs)"

fun decodeStatement :: "go_ext \<Rightarrow> json \<Rightarrow> statement option" where
  "decodeStatement G (JObj kvs) = decodeFields G zeroStatement kvs"
| "decodeStatement G JNull = Some zeroStatement"
| "decodeStatement G _ = None"

definition decodeStatements :: "go_ext \<Rightarrow> json \<Rightarrow> statement list option" where
  "decodeStatements G j =
     (case unmarshalList j of None \<Rightarrow> None | Some js \<Rightarrow> those (map (decodeStatement G) js))"

fun decodePlain :: "go_ext \<Rightarrow> string \<times> string \<times> json option \<Rightarrow> (string \<times> json) list \<Rightarrow>
    (string \<times> string \<times> json option) option" where
  "decodePlain G p [] = Some p"
| "decodePlain G (ver, ident, st) ((k, v) # kvs) =
     (if EqualFold G k ''Version'' then
        (case setString v ver of None \<Rightarrow> None | Some x \<Rightarrow> decodePlain G (x, ident, st) kvs)
      else if EqualFold G k ''Id'' then
        (case setString v ident of None \<Rightarrow> None | Some x \<Rightarrow> decodePlain G (ver, x, st) kvs)
      else if EqualFold G k ''Statement'' then decodePlain G (ver, ident, Some v) kvs
      else decodePlain G (ver, ident, st) kvs)"

text \<open>\<^verbatim>\<open>(*Document).UnmarshalJSON\<close>: the statement may be one object rather than an array.\<close>

definition Document_UnmarshalJSON :: "go_ext \<Rightarrow> json \<Rightarrow> document option" where
  "Document_UnmarshalJSON G b =
     (let plain = (case b of
                     JObj kvs \<Rightarrow> decodePlain G ([], [], None) kvs
                   | JNull \<Rightarrow> Some ([], [], None)
                   | _ \<Rightarrow> None)
      in case plain of
           None \<Rightarrow> None
         | Some (ver, ident, None) \<Rightarrow> Some \<lparr>Version = ver, ID = ident, Statement = []\<rparr>
         | Some (ver, ident, Some raw) \<Rightarrow>
             (case decodeStatements G raw of
                Some sts \<Rightarrow> Some \<lparr>Version = ver, ID = ident, Statement = sts\<rparr>
              | None \<Rightarrow>
                  (case decodeStatement G raw of
                     None \<Rightarrow> None
                   | Some one \<Rightarrow> Some \<lparr>Version = ver, ID = ident, Statement = [one]\<rparr>)))"

fun checkStatements :: "nat \<Rightarrow> statement list \<Rightarrow> policyError option" where
  "checkStatements i [] = None"
| "checkStatements i (st # sts) =
     (if Effect st \<noteq> ''Allow'' \<and> Effect st \<noteq> ''Deny'' then Some (BadEffect i (Effect st))
      else if Action st = [] \<and> NotAction st = [] then Some (NoAction i)
      else checkStatements (Suc i) sts)"

definition Parse :: "go_ext \<Rightarrow> string \<Rightarrow> policyError + document" where
  "Parse G raw =
     (if TrimSpace G raw = [] then Inl EmptyDocument
      else case parseJSON G raw of
        None \<Rightarrow> Inl NotJSON
      | Some j \<Rightarrow>
          (case Document_UnmarshalJSON G j of
             None \<Rightarrow> Inl NotJSON
           | Some d \<Rightarrow>
               if Statement d = [] then Inl NoStatement
               else case checkStatements 0 (Statement d) of
                      Some e \<Rightarrow> Inl e
                    | None \<Rightarrow> Inr d))"

subsection \<open>Principals\<close>

fun namedInAWS :: "string \<Rightarrow> string \<Rightarrow> string \<Rightarrow> bool \<Rightarrow> string list \<Rightarrow> bool" where
  "namedInAWS caller rootARN account deny [] = False"
| "namedInAWS caller rootARN account deny (aws # rest) =
     (if aws = caller then True
      else if aws = ''*'' then True
      else if aws = rootARN \<or> aws = account then
        (if caller = rootARN then True
         else if deny \<and> HasPrefix caller (''arn:aws:iam::'' @ account @ '':'') then True
         else namedInAWS caller rootARN account deny rest)
      else if ContainsByte aws (CHR ''*'') then
        (if globMatch aws caller then True else namedInAWS caller rootARN account deny rest)
      else namedInAWS caller rootARN account deny rest)"

definition principalNamed :: "go_ext \<Rightarrow> principalBlock \<Rightarrow> string \<Rightarrow> string \<Rightarrow> bool \<Rightarrow> bool" where
  "principalNamed G p caller account deny =
     (if Any p then True
      else if caller = [] then False
      else if HasSuffix caller ''.amazonaws.com''
      then (\<exists>svc \<in> set (mapGet (ByType p) ''Service''). EqualFold G svc caller)
      else let i = \<lparr>Region = [], AccountID = account\<rparr>
           in namedInAWS caller (GlobalARN i ''iam'' ''root'') (Account i) deny
                (mapGet (ByType p) ''AWS''))"

definition principalMatches :: "go_ext \<Rightarrow> statement \<Rightarrow> string \<Rightarrow> string \<Rightarrow> bool" where
  "principalMatches G st caller account =
     (if Present (NotPrincipal st) then
        (if Effect st = ''Allow'' then False
         else \<not> principalNamed G (NotPrincipal st) caller account True)
      else if \<not> Present (Principal st) then True
      else principalNamed G (Principal st) caller account (Effect st = ''Deny''))"

subsection \<open>Conditions\<close>

type_synonym condContext = "(string \<times> string list) list"

definition lookupKey :: "go_ext \<Rightarrow> condContext \<Rightarrow> string \<Rightarrow> string" where
  "lookupKey G ctx key =
     (case map_of ctx key of
        Some _ \<Rightarrow> key
      | None \<Rightarrow> (case find (\<lambda>k. EqualFold G k key) (map fst ctx) of Some k \<Rightarrow> k | None \<Rightarrow> key))"

definition isNegated :: "go_ext \<Rightarrow> string \<Rightarrow> bool" where
  "isNegated G op =
     (let l = ToLower G op in
      HasPrefix l ''stringnot'' \<or> HasPrefix l ''arnnot'' \<or> HasPrefix l ''notipaddress'' \<or>
      HasPrefix l ''numericnot'' \<or> HasPrefix l ''datenot'')"

definition compareNumeric :: "string \<Rightarrow> go_float \<Rightarrow> go_float \<Rightarrow> bool" where
  "compareNumeric op h w =
     (if op = ''NumericEquals'' then feq h w
      else if op = ''NumericNotEquals'' then \<not> feq h w
      else if op = ''NumericLessThan'' then flt h w
      else if op = ''NumericLessThanEquals'' then fle h w
      else if op = ''NumericGreaterThan'' then flt w h
      else if op = ''NumericGreaterThanEquals'' then fle w h
      else False)"

definition dateLayouts :: "string list" where
  "dateLayouts = [''2006-01-02T15:04:05Z07:00'', ''2006-01-02T15:04:05Z'', ''2006-01-02'']"

fun parseLayouts :: "go_ext \<Rightarrow> string list \<Rightarrow> string \<Rightarrow> int option" where
  "parseLayouts G [] v = None"
| "parseLayouts G (l # ls) v =
     (case timeParse G l v of Some t \<Rightarrow> Some t | None \<Rightarrow> parseLayouts G ls v)"

definition parseDate :: "go_ext \<Rightarrow> string \<Rightarrow> int option" where
  "parseDate G v =
     (case parseLayouts G dateLayouts v of Some t \<Rightarrow> Some t | None \<Rightarrow> ParseInt64 v)"

definition ipMatch :: "go_ext \<Rightarrow> string \<Rightarrow> string \<Rightarrow> bool" where
  "ipMatch G hv want =
     (case ParseIP G hv of
        None \<Rightarrow> False
      | Some ip \<Rightarrow> (case ParseCIDR G want of Some contains \<Rightarrow> contains ip | None \<Rightarrow> hv = want))"

definition numericOps :: "string list" where
  "numericOps = [''NumericEquals'', ''NumericNotEquals'', ''NumericLessThan'',
     ''NumericLessThanEquals'', ''NumericGreaterThan'', ''NumericGreaterThanEquals'']"

definition dateOps :: "string list" where
  "dateOps = [''DateEquals'', ''DateNotEquals'', ''DateLessThan'',
     ''DateLessThanEquals'', ''DateGreaterThan'', ''DateGreaterThanEquals'']"

definition applyOperator :: "go_ext \<Rightarrow> string \<Rightarrow> string \<Rightarrow> string \<Rightarrow> bool" where
  "applyOperator G op hv want =
     (if op = ''StringEquals'' \<or> op = ''ArnEquals'' then hv = want
      else if op = ''StringNotEquals'' \<or> op = ''ArnNotEquals'' then hv \<noteq> want
      else if op = ''StringEqualsIgnoreCase'' then EqualFold G hv want
      else if op = ''StringNotEqualsIgnoreCase'' then \<not> EqualFold G hv want
      else if op = ''StringLike'' \<or> op = ''ArnLike'' then globMatch want hv
      else if op = ''StringNotLike'' \<or> op = ''ArnNotLike'' then \<not> globMatch want hv
      else if op = ''Bool'' then EqualFold G hv want
      else if op \<in> set numericOps then
        (case (ParseFloat G hv, ParseFloat G want) of
           (Some h, Some w) \<Rightarrow> compareNumeric op h w
         | _ \<Rightarrow> False)
      else if op \<in> set dateOps then
        (case (parseDate G hv, parseDate G want) of
           (Some h, Some w) \<Rightarrow>
             compareNumeric (''Numeric'' @ drop 4 op) (float64OfInt G h) (float64OfInt G w)
         | _ \<Rightarrow> False)
      else if op = ''IpAddress'' then ipMatch G hv want
      else if op = ''NotIpAddress'' then \<not> ipMatch G hv want
      else False)"

fun condTest :: "go_ext \<Rightarrow> string \<Rightarrow> bool \<Rightarrow> string list \<Rightarrow> string \<Rightarrow> bool" where
  "condTest G op negated [] v = negated"
| "condTest G op negated (w # ws) v =
     (let ok = applyOperator G op v w in
      if negated \<and> \<not> ok then False
      else if \<not> negated \<and> ok then True
      else condTest G op negated ws v)"

definition cutQuantifier :: "string \<Rightarrow> string \<times> string" where
  "cutQuantifier op =
     (case CutPrefix op ''ForAllValues:'' of
        Some rest \<Rightarrow> (''all'', rest)
      | None \<Rightarrow> (case CutPrefix op ''ForAnyValue:'' of Some rest \<Rightarrow> (''any'', rest) | None \<Rightarrow> ([], op)))"

definition cutIfExists :: "string \<Rightarrow> bool \<times> string" where
  "cutIfExists op =
     (case CutSuffix op ''IfExists'' of Some rest \<Rightarrow> (True, rest) | None \<Rightarrow> (False, op))"

definition conditionMatches ::
  "go_ext \<Rightarrow> string \<Rightarrow> string \<Rightarrow> string list \<Rightarrow> condContext \<Rightarrow> bool" where
  "conditionMatches G op0 key want ctx =
     (let (quant, op1) = cutQuantifier op0;
          (ifExists, op) = cutIfExists op1;
          found = map_of ctx (lookupKey G ctx key);
          present = (found \<noteq> None);
          hv = (case found of Some hs \<Rightarrow> hs | None \<Rightarrow> [])
      in if op = ''Null'' then
           (let wantNull = (want \<noteq> [] \<and> EqualFold G (want ! 0) ''true'') in wantNull \<noteq> present)
         else if \<not> present \<or> hv = [] then ifExists \<or> isNegated G op
         else let negated = isNegated G op in
              if quant = ''all'' then list_all (condTest G op negated want) hv
              else list_ex (condTest G op negated want) hv)"

definition conditionsMatch :: "go_ext \<Rightarrow> conditionBlock \<Rightarrow> condContext \<Rightarrow> bool" where
  "conditionsMatch G block ctx =
     list_all (\<lambda>(op, keys). list_all (\<lambda>(key, want). conditionMatches G op key want ctx) keys) block"

subsection \<open>Evaluation\<close>

datatype Decision = ImplicitDeny | Allowed | ExplicitDeny

fun Decision_String :: "Decision \<Rightarrow> string" where
  "Decision_String Allowed = ''allowed''"
| "Decision_String ExplicitDeny = ''explicitDeny''"
| "Decision_String ImplicitDeny = ''implicitDeny''"

record request =
  ReqAction :: string
  ReqResource :: string
  ReqContext :: condContext
  ReqPrincipal :: string
  ReqAccount :: string

definition actionMatches :: "statement \<Rightarrow> string \<Rightarrow> bool" where
  "actionMatches st action =
     (if NotAction st \<noteq> [] then \<not> (\<exists>pat \<in> set (NotAction st). globMatchFold pat action)
      else (\<exists>pat \<in> set (Action st). globMatchFold pat action))"

definition resourceMatches :: "statement \<Rightarrow> string \<Rightarrow> bool" where
  "resourceMatches st resource =
     (if NotResource st \<noteq> [] then
        (if resource = [] then False
         else \<not> (\<exists>pat \<in> set (NotResource st). globMatch pat resource))
      else if Resource st = [] then True
      else (\<exists>pat \<in> set (Resource st). pat = ''*'' \<or> resource \<noteq> [] \<and> globMatch pat resource))"

definition statementMatches :: "go_ext \<Rightarrow> statement \<Rightarrow> request \<Rightarrow> bool" where
  "statementMatches G st req =
     (if \<not> actionMatches st (ReqAction req) then False
      else if \<not> resourceMatches st (ReqResource req) then False
      else if \<not> principalMatches G st (ReqPrincipal req) (ReqAccount req) then False
      else conditionsMatch G (Condition st) (ReqContext req))"

definition statementLabel :: "document \<Rightarrow> statement \<Rightarrow> nat \<Rightarrow> string" where
  "statementLabel d st i =
     (if SID st \<noteq> [] then SID st
      else if ID d \<noteq> [] then ID d @ ''['' @ natStr i @ '']''
      else ''statement['' @ natStr i @ '']'')"

text \<open>
  The two nested loops of \<^verbatim>\<open>Evaluate\<close>: \<open>Inl\<close> is the early return at a matching Deny, \<open>Inr\<close>
  the loop variable \<open>allowedBy\<close> (\<open>None\<close> while \<^verbatim>\<open>allow\<close> is false).
\<close>

fun evalStatements ::
  "go_ext \<Rightarrow> document \<Rightarrow> request \<Rightarrow> nat \<Rightarrow> statement list \<Rightarrow> string option \<Rightarrow> string + string option" where
  "evalStatements G d req i [] allowedBy = Inr allowedBy"
| "evalStatements G d req i (st # sts) allowedBy =
     (if \<not> statementMatches G st req then evalStatements G d req (Suc i) sts allowedBy
      else if Effect st = ''Deny'' then Inl (statementLabel d st i)
      else evalStatements G d req (Suc i) sts
             (case allowedBy of None \<Rightarrow> Some (statementLabel d st i) | Some l \<Rightarrow> Some l))"

fun evalDocs ::
  "go_ext \<Rightarrow> document option list \<Rightarrow> request \<Rightarrow> string option \<Rightarrow> string + string option" where
  "evalDocs G [] req allowedBy = Inr allowedBy"
| "evalDocs G (None # ds) req allowedBy = evalDocs G ds req allowedBy"
| "evalDocs G (Some d # ds) req allowedBy =
     (case evalStatements G d req 0 (Statement d) allowedBy of
        Inl l \<Rightarrow> Inl l
      | Inr allowedBy' \<Rightarrow> evalDocs G ds req allowedBy')"

definition Evaluate :: "go_ext \<Rightarrow> document option list \<Rightarrow> request \<Rightarrow> Decision \<times> string" where
  "Evaluate G docs req =
     (case evalDocs G docs req None of
        Inl l \<Rightarrow> (ExplicitDeny, l)
      | Inr (Some l) \<Rightarrow> (Allowed, l)
      | Inr None \<Rightarrow> (ImplicitDeny, []))"

subsection \<open>Decisions form a chain\<close>

text \<open>Nothing granted, then granted, then denied: a later document can only move a decision up.\<close>

fun rank :: "Decision \<Rightarrow> nat" where
  "rank ImplicitDeny = 0"
| "rank Allowed = 1"
| "rank ExplicitDeny = 2"

lemma rank_inject [simp]: "rank x = rank y \<longleftrightarrow> x = y"
  by (cases x; cases y) auto

instantiation Decision :: linorder
begin

definition less_eq_Decision :: "Decision \<Rightarrow> Decision \<Rightarrow> bool" where
  "x \<le> y \<longleftrightarrow> rank x \<le> rank y"

definition less_Decision :: "Decision \<Rightarrow> Decision \<Rightarrow> bool" where
  "x < y \<longleftrightarrow> rank x < rank y"

instance
  by standard (auto simp: less_eq_Decision_def less_Decision_def)

end

lemma Decision_bounds [simp]: "ImplicitDeny \<le> x" "x \<le> ExplicitDeny"
  by (cases x; simp add: less_eq_Decision_def)+

lemma Decision_extremes [simp]: "x \<le> ImplicitDeny \<longleftrightarrow> x = ImplicitDeny" "ExplicitDeny \<le> x \<longleftrightarrow> x = ExplicitDeny"
  by (cases x; simp add: less_eq_Decision_def)+

lemma Decision_max [simp]:
  "max ImplicitDeny x = x" "max x ImplicitDeny = x" "max ExplicitDeny x = ExplicitDeny"
  "max x ExplicitDeny = ExplicitDeny"
  by (simp_all add: max_def antisym)

text \<open>
  What a client of the engine may rely on: the decision over a list of documents is the
  highest of the decisions over its parts.
\<close>

locale policy_engine =
  fixes decide :: "'d list \<Rightarrow> 'r \<Rightarrow> Decision"
  assumes decide_Nil: "decide [] r = ImplicitDeny"
    and decide_append: "decide (xs @ ys) r = max (decide xs r) (decide ys r)"
begin

lemma decide_Cons: "decide (x # xs) r = max (decide [x] r) (decide xs r)"
  using decide_append [of "[x]" xs] by simp

lemma decide_upper: "x \<in> set xs \<Longrightarrow> decide [x] r \<le> decide xs r"
proof (induction xs)
  case (Cons y ys)
  then show ?case
    by (subst decide_Cons) (auto simp: le_max_iff_disj)
qed simp

lemma decide_attained: "decide xs r \<noteq> ImplicitDeny \<Longrightarrow> \<exists>x \<in> set xs. decide [x] r = decide xs r"
proof (induction xs)
  case (Cons y ys)
  then show ?case
    by (subst (asm) decide_Cons, subst decide_Cons) (auto simp: max_def split: if_splits)
qed (simp add: decide_Nil)

lemma decide_mono: "set xs \<subseteq> set ys \<Longrightarrow> decide xs r \<le> decide ys r"
proof (cases "decide xs r = ImplicitDeny")
  case False
  assume sub: "set xs \<subseteq> set ys"
  obtain x where "x \<in> set xs" "decide [x] r = decide xs r"
    using decide_attained [OF False] by blast
  then show ?thesis using decide_upper sub by (metis subsetD)
qed simp

lemma decide_set: "set xs = set ys \<Longrightarrow> decide xs r = decide ys r"
  by (simp add: antisym decide_mono)

lemma deny_wins: "x \<in> set xs \<Longrightarrow> decide [x] r = ExplicitDeny \<Longrightarrow> decide xs r = ExplicitDeny"
  using decide_upper [of x xs r] by simp

end

subsection \<open>Evaluate meets the contract\<close>

text \<open>The decision a single statement contributes, and the highest over a list.\<close>

definition statementDecision :: "go_ext \<Rightarrow> request \<Rightarrow> statement \<Rightarrow> Decision" where
  "statementDecision G req st =
     (if \<not> statementMatches G st req then ImplicitDeny
      else if Effect st = ''Deny'' then ExplicitDeny else Allowed)"

definition highest :: "('a \<Rightarrow> Decision) \<Rightarrow> 'a list \<Rightarrow> Decision" where
  "highest f xs = foldr (\<lambda>x. max (f x)) xs ImplicitDeny"

definition documentDecision :: "go_ext \<Rightarrow> request \<Rightarrow> document option \<Rightarrow> Decision" where
  "documentDecision G req od =
     (case od of None \<Rightarrow> ImplicitDeny | Some d \<Rightarrow> highest (statementDecision G req) (Statement d))"

fun outcome :: "string + string option \<Rightarrow> Decision" where
  "outcome (Inl l) = ExplicitDeny"
| "outcome (Inr (Some l)) = Allowed"
| "outcome (Inr None) = ImplicitDeny"

lemma highest_simps [simp]:
  "highest f [] = ImplicitDeny" "highest f (x # xs) = max (f x) (highest f xs)"
  by (simp_all add: highest_def)

lemma highest_append: "highest f (xs @ ys) = max (highest f xs) (highest f ys)"
  by (induction xs) (auto simp: max.assoc)

lemma highest_iff:
  "highest f xs = ExplicitDeny \<longleftrightarrow> (\<exists>x \<in> set xs. f x = ExplicitDeny)"
  "highest f xs = ImplicitDeny \<longleftrightarrow> (\<forall>x \<in> set xs. f x = ImplicitDeny)"
  by (induction xs) (auto simp: max_def split: if_splits)

lemma outcome_evalStatements:
  "outcome (evalStatements G d req i sts a) =
     max (outcome (Inr a)) (highest (statementDecision G req) sts)"
proof (induction G d req i sts a rule: evalStatements.induct)
  case (2 G d req i st sts a)
  show ?case
  proof (cases "statementDecision G req st")
    case Allowed
    then show ?thesis
      using 2 by (cases a) (auto simp: statementDecision_def split: if_splits)
  qed (use 2 in \<open>auto simp: statementDecision_def split: if_splits\<close>)
qed simp

lemma outcome_evalDocs:
  "outcome (evalDocs G docs req a) = max (outcome (Inr a)) (highest (documentDecision G req) docs)"
proof (induction G docs req a rule: evalDocs.induct)
  case (3 G d ds req a)
  show ?case
    using 3 outcome_evalStatements [of G d req 0 "Statement d" a]
    by (cases "evalStatements G d req 0 (Statement d) a")
       (auto simp: documentDecision_def max.assoc [symmetric])
qed (auto simp: documentDecision_def)

lemma Evaluate_highest: "fst (Evaluate G docs req) = highest (documentDecision G req) docs"
  using outcome_evalDocs [of G docs req None]
  by (auto simp: Evaluate_def split: sum.splits option.splits)

interpretation engine: policy_engine "\<lambda>docs req. fst (Evaluate G docs req)" for G
  by unfold_locales (simp_all add: Evaluate_highest highest_append)

lemma documentDecision_iff:
  "documentDecision G req od = ExplicitDeny \<longleftrightarrow>
     (\<exists>d st. od = Some d \<and> st \<in> set (Statement d) \<and> statementMatches G st req \<and> Effect st = ''Deny'')"
  "documentDecision G req od = ImplicitDeny \<longleftrightarrow>
     \<not> (\<exists>d st. od = Some d \<and> st \<in> set (Statement d) \<and> statementMatches G st req)"
  by (auto simp: documentDecision_def highest_iff statementDecision_def split: option.splits if_splits)


text \<open>Evaluating a concatenation of document lists gives the higher of the two decisions
  (ImplicitDeny below Allowed below ExplicitDeny), so neither the order of attached policies nor
  a duplicate changes a decision, and adding a policy never turns a Deny into an Allow.\<close>

theorem Evaluate_append:
  "fst (Evaluate G (xs @ ys) req) = max (fst (Evaluate G xs req)) (fst (Evaluate G ys req))"
  by (rule engine.decide_append)

text \<open>the decision depends on the set of documents only, not on the order in which the
  attached policies are listed.\<close>

theorem Evaluate_order_irrelevant:
  "set xs = set ys \<Longrightarrow> fst (Evaluate G xs req) = fst (Evaluate G ys req)"
  by (rule engine.decide_set)

subsection \<open>Parsed documents\<close>

lemma checkStatements_ok:
  "checkStatements i sts = None \<longleftrightarrow>
     (\<forall>st \<in> set sts. (Effect st = ''Allow'' \<or> Effect st = ''Deny'') \<and> (Action st \<noteq> [] \<or> NotAction st \<noteq> []))"
  by (induction i sts rule: checkStatements.induct) auto

lemma Parse_statements:
  assumes "Parse G raw = Inr d"
  shows "Statement d \<noteq> []"
    and "\<And>st. st \<in> set (Statement d) \<Longrightarrow>
      (Effect st = ''Allow'' \<or> Effect st = ''Deny'') \<and> (Action st \<noteq> [] \<or> NotAction st \<noteq> [])"
  using assms checkStatements_ok [of 0 "Statement d"]
  by (auto simp: Parse_def split: if_splits option.splits)

text \<open>C2: for documents that Parse accepted, Allowed means what it should: some statement whose
  Effect is Allow matches and no Deny statement does.\<close>

theorem Parse_Evaluate_Allowed:
  assumes "\<And>d. Some d \<in> set docs \<Longrightarrow> \<exists>raw. Parse G raw = Inr d"
  shows "fst (Evaluate G docs req) = Allowed \<longleftrightarrow>
    (\<exists>d st. Some d \<in> set docs \<and> st \<in> set (Statement d) \<and> Effect st = ''Allow'' \<and> statementMatches G st req) \<and>
    \<not> (\<exists>d st. Some d \<in> set docs \<and> st \<in> set (Statement d) \<and> Effect st = ''Deny'' \<and> statementMatches G st req)"
proof -
  have "Effect st = ''Allow'' \<or> Effect st = ''Deny''" if "Some d \<in> set docs" "st \<in> set (Statement d)" for d st
    using assms that Parse_statements(2) by blast
  moreover have "fst (Evaluate G docs req) = Allowed \<longleftrightarrow>
      highest (documentDecision G req) docs \<noteq> ExplicitDeny \<and>
      highest (documentDecision G req) docs \<noteq> ImplicitDeny"
    unfolding Evaluate_highest by (cases "highest (documentDecision G req) docs") auto
  ultimately show ?thesis
    unfolding highest_iff documentDecision_iff by metis
qed

subsection \<open>Negated condition operators\<close>

definition negatedPairs :: "(string \<times> string) list" where
  "negatedPairs = [(''StringEquals'', ''StringNotEquals''), (''ArnEquals'', ''ArnNotEquals''),
     (''StringEqualsIgnoreCase'', ''StringNotEqualsIgnoreCase''), (''StringLike'', ''StringNotLike''),
     (''ArnLike'', ''ArnNotLike''), (''IpAddress'', ''NotIpAddress'')]"

lemma condTest_alternatives: "condTest G op False ws v = list_ex (applyOperator G op v) ws"
  by (induction ws) auto

lemma condTest_negated: "condTest G op True ws v = list_all (applyOperator G op v) ws"
  by (induction ws) auto

lemma negatedPairs_closed:
  "list_all (\<lambda>(p, n). cutQuantifier p = ([], p) \<and> cutQuantifier n = ([], n) \<and>
     cutIfExists p = (False, p) \<and> cutIfExists n = (False, n) \<and> p \<noteq> ''Null'' \<and> n \<noteq> ''Null'') negatedPairs"
  by code_simp

lemma negatedPairs_negated: "list_all (\<lambda>(p, n). isNegated G n \<and> \<not> isNegated G p) negatedPairs"
  by code_simp

lemma negatedPairs_plain:
  assumes "(p, n) \<in> set negatedPairs"
  shows "cutQuantifier p = ([], p)" "cutQuantifier n = ([], n)"
    "cutIfExists p = (False, p)" "cutIfExists n = (False, n)" "p \<noteq> ''Null''" "n \<noteq> ''Null''"
    "isNegated G n" "\<not> isNegated G p"
  using assms negatedPairs_closed negatedPairs_negated [of G] by (auto simp: list_all_iff)

lemma applyOperator_string [simp]:
  "applyOperator G ''StringEquals'' v w = (v = w)" "applyOperator G ''StringNotEquals'' v w = (v \<noteq> w)"
  "applyOperator G ''ArnEquals'' v w = (v = w)" "applyOperator G ''ArnNotEquals'' v w = (v \<noteq> w)"
  "applyOperator G ''StringEqualsIgnoreCase'' v w = EqualFold G v w"
  "applyOperator G ''StringNotEqualsIgnoreCase'' v w = (\<not> EqualFold G v w)"
  "applyOperator G ''StringLike'' v w = globMatch w v" "applyOperator G ''StringNotLike'' v w = (\<not> globMatch w v)"
  "applyOperator G ''ArnLike'' v w = globMatch w v" "applyOperator G ''ArnNotLike'' v w = (\<not> globMatch w v)"
  by (simp_all add: applyOperator_def)

lemma applyOperator_ip [simp]:
  "applyOperator G ''IpAddress'' v w = ipMatch G v w" "applyOperator G ''NotIpAddress'' v w = (\<not> ipMatch G v w)"
  by (simp_all add: applyOperator_def numericOps_def dateOps_def)

lemma negatedPairs_applies:
  "list_all (\<lambda>(p, n). \<forall>v w. applyOperator G n v w = (\<not> applyOperator G p v w)) negatedPairs"
  by (simp add: negatedPairs_def)

lemma negatedPairs_apply:
  "(p, n) \<in> set negatedPairs \<Longrightarrow> applyOperator G n v w = (\<not> applyOperator G p v w)"
  using negatedPairs_applies [of G] by (auto simp: list_all_iff)

text \<open>a negated condition operator is the exact complement of its positive form, for any list
  of policy values, whenever the request carries at most one value for the key, an absent key
  included: StringNotEquals [a, b] means neither a nor b.\<close>

theorem negated_operator_complement:
  assumes "(p, n) \<in> set negatedPairs"
    and "case map_of ctx (lookupKey G ctx key) of None \<Rightarrow> True | Some hs \<Rightarrow> length hs \<le> 1"
  shows "conditionMatches G n key want ctx = (\<not> conditionMatches G p key want ctx)"
proof -
  note plain = negatedPairs_plain [OF assms(1)]
  have test: "condTest G n True want v = (\<not> condTest G p False want v)" for v
    using negatedPairs_apply [OF assms(1), of G v]
    by (simp add: condTest_negated condTest_alternatives list_all_iff list_ex_iff)
  consider (absent) "map_of ctx (lookupKey G ctx key) = None \<or> map_of ctx (lookupKey G ctx key) = Some []"
    | (one) v where "map_of ctx (lookupKey G ctx key) = Some [v]"
    using assms(2) by (auto simp: le_Suc_eq length_Suc_conv split: option.splits)
  then show ?thesis
  proof cases
    case absent
    then show ?thesis using plain by (auto simp: conditionMatches_def)
  next
    case one
    then show ?thesis using plain test by (simp add: conditionMatches_def)
  qed
qed

end
