(* ===== verification/IamPublic.thy ===== *)
theory IamPublic
  imports IamPolicy
begin

text \<open>
  Whether a resource policy is public: \<^verbatim>\<open>internal/iampolicy/public.go\<close>. The theorem relates
  \<^verbatim>\<open>IsPublic\<close>, which looks at the document alone, to \<^verbatim>\<open>Evaluate\<close>, which decides requests.
\<close>

definition narrowingKeys :: "string list" where
  "narrowingKeys = [''aws:sourceip'', ''aws:sourcevpc'', ''aws:sourcevpce'', ''aws:sourcearn'',
     ''aws:sourceaccount'', ''aws:sourceowner'', ''aws:principalarn'', ''aws:principalaccount'',
     ''aws:principalorgid'', ''aws:principalorgpaths'', ''aws:userid'', ''s3:dataaccesspointarn'',
     ''s3:dataaccesspointaccount'', ''s3:accesspointnetworkorigin'', ''aws:vpcsourceip'']"

definition conditionNarrows :: "go_ext \<Rightarrow> conditionBlock \<Rightarrow> bool" where
  "conditionNarrows G cond =
     list_ex (\<lambda>(op, keys). \<not> isNegated G op \<and> list_ex (\<lambda>(key, _). ToLower G key \<in> set narrowingKeys) keys) cond"

definition grantsEveryone :: "statement \<Rightarrow> bool" where
  "grantsEveryone st = (Any (Principal st) \<or> Present (NotPrincipal st))"

definition grantActions :: "statement \<Rightarrow> string list" where
  "grantActions st =
     (if Action st \<noteq> [] then Action st else if NotAction st \<noteq> [] then [''*''] else [])"

definition grantResources :: "statement \<Rightarrow> string list" where
  "grantResources st =
     (if Resource st \<noteq> [] then Resource st else if NotResource st \<noteq> [] then [''*''] else [''*''])"

definition coversAny :: "string list \<Rightarrow> string \<Rightarrow> bool" where
  "coversAny patterns val = list_ex (\<lambda>p. globMatch p val) patterns"

definition denyCovers :: "go_ext \<Rightarrow> string \<Rightarrow> string \<Rightarrow> statement \<Rightarrow> bool" where
  "denyCovers G action resource st =
     (if \<not> EqualFold G (Effect st) ''Deny'' \<or> Condition st \<noteq> [] \<or> Present (NotPrincipal st) \<or>
         NotAction st \<noteq> [] \<or> NotResource st \<noteq> [] \<or> \<not> Any (Principal st) \<or>
         Action st = [] \<or> Resource st = []
      then False
      else coversAny (Action st) action \<and> coversAny (Resource st) resource)"

definition cancelledByDeny :: "go_ext \<Rightarrow> document \<Rightarrow> string \<Rightarrow> string \<Rightarrow> bool" where
  "cancelledByDeny G d action resource = list_ex (denyCovers G action resource) (Statement d)"

definition publicStatement :: "go_ext \<Rightarrow> document \<Rightarrow> statement \<Rightarrow> bool" where
  "publicStatement G d st =
     (if \<not> EqualFold G (Effect st) ''Allow'' \<or> \<not> grantsEveryone st then False
      else if conditionNarrows G (Condition st) then False
      else list_ex (\<lambda>action. list_ex (\<lambda>resource. \<not> cancelledByDeny G d action resource) (grantResources st))
             (grantActions st))"

definition IsPublic :: "go_ext \<Rightarrow> document option \<Rightarrow> bool" where
  "IsPublic G od =
     (case od of None \<Rightarrow> False | Some d \<Rightarrow> list_ex (publicStatement G d) (Statement d))"

subsection \<open>A pattern that covers another pattern\<close>

lemma matches_append_split:
  "matches lit (u @ v) s \<Longrightarrow> \<exists>s1 s2. s = s1 @ s2 \<and> matches lit u s1 \<and> matches lit v s2"
proof (induction lit "u" s arbitrary: rule: matches.induct)
  case (1 lit s)
  then show ?case by (metis append_Nil matches.simps(1))
next
  case (2 lit c ps)
  then show ?case by auto
next
  case (3 lit c ps x xs)
  show ?case
  proof (cases "c = CHR ''*''")
    case True
    then consider "matches lit (ps @ v) (x # xs)" | "matches lit ((c # ps) @ v) xs"
      using 3(4) by auto
    then show ?thesis
    proof cases
      case 1
      then obtain s1 s2 where s: "x # xs = s1 @ s2" "matches lit ps s1" "matches lit v s2"
        using 3(1) True by blast
      then have "matches lit (c # ps) s1" using True by (cases s1) auto
      with s show ?thesis by blast
    next
      case 2
      then obtain s1 s2 where s: "xs = s1 @ s2" "matches lit (c # ps) s1" "matches lit v s2"
        using 3(2) True by blast
      then have "matches lit (c # ps) (x # s1)" using True by simp
      with s show ?thesis by (metis append_Cons)
    qed
  next
    case False
    then have "lit c x" "matches lit (ps @ v) xs" using 3(4) by auto
    then obtain s1 s2 where "xs = s1 @ s2" "matches lit ps s1" "matches lit v s2"
      using 3(3) False by blast
    then show ?thesis using \<open>lit c x\<close> False by (metis append_Cons matches.simps(3))
  qed
qed

lemma matches_star_append: "matches lit ps s2 \<Longrightarrow> matches lit (CHR ''*'' # ps) (s1 @ s2)"
  unfolding matches_star by (metis append_eq_conv_conj length_append le_add1)

text \<open>
  A pattern without question marks that matches another pattern, read as a string, matches
  every string the other matches.
\<close>

lemma cover_transitive:
  assumes "matches (iamLit False) dp pat" and "CHR ''?'' \<notin> set dp" and "matches lit pat s"
  shows "matches lit dp s"
  using assms
proof (induction "iamLit False" dp pat arbitrary: s rule: matches.induct)
  case (1 pat)
  then show ?case by simp
next
  case (2 c ps)
  then show ?case by auto
next
  case (3 c ps x xs)
  show ?case
  proof (cases "c = CHR ''*''")
    case True
    then consider "matches (iamLit False) ps (x # xs)" | "matches (iamLit False) (c # ps) xs"
      using 3(4) by auto
    then show ?thesis
    proof cases
      case 1
      then have "matches lit ps s" using 3(1) True 3(5,6) by auto
      then show ?thesis using True matches_star_append [of lit ps s "[]"] by simp
    next
      case 2
      obtain s1 s2 where s: "s = s1 @ s2" "matches lit xs s2"
        using matches_append_split [of lit "[x]" xs s] 3(6) by auto
      then have "matches lit (c # ps) s2" using 3(2) True 2 3(5) by auto
      then show ?thesis using s True matches_star_drop [of lit ps "length s1" s 0] by simp
    qed
  next
    case False
    then have cx: "c = x" "matches (iamLit False) ps xs"
      using 3(4,5) by (auto simp: iamLit_def eqByte_def split: if_splits)
    then obtain y ys where y: "s = y # ys" "lit x y" "matches lit xs ys"
      using 3(6) False by (cases s) auto
    then show ?thesis using 3(3) cx False 3(5) by auto
  qed
qed

subsection \<open>Not public means no anonymous access\<close>

text \<open>
  The shape of a resource policy AWS stores: every statement names a principal and no
  statement carries both a list and its negation.
\<close>

definition resourcePolicyShape :: "document \<Rightarrow> bool" where
  "resourcePolicyShape d =
     list_all (\<lambda>st. (Present (Principal st) \<or> Present (NotPrincipal st)) \<and>
       (Action st = [] \<or> NotAction st = []) \<and> (Resource st = [] \<or> NotResource st = [])) (Statement d)"

definition denyWithoutQuestionMarks :: "document \<Rightarrow> bool" where
  "denyWithoutQuestionMarks d =
     list_all (\<lambda>st. Effect st = ''Deny'' \<longrightarrow>
       list_all (\<lambda>p. CHR ''?'' \<notin> set p) (Action st @ Resource st)) (Statement d)"

lemma star_matches_all: "matches lit ''*'' s"
  by (simp add: matches_star) (metis drop_all order_refl)

lemma glob_cover:
  assumes "globMatch dp pat" and "CHR ''?'' \<notin> set dp" and "matches (iamLit fld) pat s"
    and "CHR ''*'' \<notin> set s"
  shows "glob dp s fld"
proof -
  have "matches (iamLit False) dp pat"
    using assms(1) by (simp add: globMatch_def glob_sound)
  then have "matches (iamLit fld) dp s"
    using assms(2,3) by (rule cover_transitive)
  then show ?thesis using assms(4) by (simp add: glob_correct)
qed

lemma grantActions_matched:
  assumes "actionMatches st action" and "Action st = [] \<or> NotAction st = []"
  obtains pat where "pat \<in> set (grantActions st)" "matches (iamLit True) pat action"
proof (cases "NotAction st = []")
  case True
  then obtain pat where "pat \<in> set (Action st)" "globMatchFold pat action"
    using assms(1) by (auto simp: actionMatches_def)
  then show ?thesis
    using that [of pat] by (cases "Action st") (auto simp: grantActions_def globMatchFold_def glob_sound)
next
  case False
  then show ?thesis
    using that [of "''*''"] assms(2) star_matches_all by (simp add: grantActions_def)
qed

lemma grantResources_matched:
  assumes "resourceMatches st resource" and "Resource st = [] \<or> NotResource st = []"
  obtains pat where "pat \<in> set (grantResources st)" "matches (iamLit False) pat resource"
proof (cases "Resource st = []")
  case True
  then show ?thesis
    using that [of "''*''"] star_matches_all by (simp add: grantResources_def)
next
  case False
  then obtain pat where "pat \<in> set (Resource st)" "pat = ''*'' \<or> globMatch pat resource"
    using assms by (auto simp: resourceMatches_def)
  then show ?thesis
    using that [of pat] False star_matches_all
    by (auto simp: grantResources_def globMatch_def glob_sound)
qed

lemma anonymous_allow_everyone:
  assumes "principalMatches G st [] account" and "Effect st = ''Allow''"
    and "Present (Principal st) \<or> Present (NotPrincipal st)"
  shows "Any (Principal st)"
  using assms by (auto simp: principalMatches_def principalNamed_def split: if_splits)

lemma denyCovers_denies:
  assumes "denyCovers G pat rpat st" and "Effect st = ''Deny''"
    and "list_all (\<lambda>p. CHR ''?'' \<notin> set p) (Action st @ Resource st)"
    and "matches (iamLit True) pat (ReqAction req)" and "matches (iamLit False) rpat (ReqResource req)"
    and "CHR ''*'' \<notin> set (ReqAction req)" and "CHR ''*'' \<notin> set (ReqResource req)"
    and "ReqResource req \<noteq> []"
  shows "statementMatches G st req"
proof -
  obtain dp dr where d: "dp \<in> set (Action st)" "globMatch dp pat" "dr \<in> set (Resource st)" "globMatch dr rpat"
    using assms(1) by (auto simp: denyCovers_def coversAny_def list_ex_iff split: if_splits)
  have "globMatchFold dp (ReqAction req)" "globMatch dr (ReqResource req)"
    using d assms(3-7) glob_cover [of dp pat True] glob_cover [of dr rpat False]
    by (auto simp: globMatchFold_def globMatch_def list_all_iff)
  then show ?thesis
    using assms(1,8) d
    by (auto simp: statementMatches_def actionMatches_def resourceMatches_def principalMatches_def
        principalNamed_def conditionsMatch_def denyCovers_def split: if_splits)
qed

lemma Allow_not_Deny [simp]: "\<not> EqualFold G ''Allow'' ''Deny''" "EqualFold G ''Allow'' ''Allow''"
  by (simp_all add: EqualFold.simps ascii_def lowerByte_def)


subsection \<open>A sample policy\<close>

definition everyone :: principalBlock where
  "everyone = \<lparr>Any = True, ByType = [], Present = True\<rparr>"

definition sampleAllow :: statement where
  "sampleAllow = zeroStatement\<lparr>Effect := ''Allow'', Action := [''s3:Get*''],
     Resource := [''arn:aws:s3:::b/*''], Principal := everyone,
     Condition := [(''StringEquals'', [(''aws:SourceVpc'', [''vpc-1''])])]\<rparr>"

definition sampleJSON :: json where
  "sampleJSON = JObj [(''Statement'', JObj [(''Effect'', JStr ''Allow''), (''Action'', JStr ''s3:Get*''),
     (''Resource'', JArr [JStr ''arn:aws:s3:::b/*'']), (''Principal'', JStr ''*''),
     (''Condition'', JObj [(''StringEquals'', JObj [(''aws:SourceVpc'', JStr ''vpc-1'')])])])]"

definition samplePolicyExt :: go_ext where
  "samplePolicyExt = sampleExt\<lparr>parseJSON := (\<lambda>_. Some sampleJSON)\<rparr>"

definition sampleDoc :: document where
  "sampleDoc = \<lparr>Version = [], ID = [], Statement = [sampleAllow]\<rparr>"

definition sampleReq :: request where
  "sampleReq = \<lparr>ReqAction = ''s3:getobject'', ReqResource = ''arn:aws:s3:::b/k'',
     ReqContext = [(''aws:sourcevpc'', [''vpc-1''])], ReqPrincipal = [], ReqAccount = []\<rparr>"

lemma sample_parsed: "Parse samplePolicyExt ''x'' = Inr sampleDoc"
  by code_simp

lemma sample_allowed: "fst (Evaluate samplePolicyExt [Some sampleDoc] sampleReq) = Allowed"
  by code_simp

lemma sample_not_public: "\<not> IsPublic samplePolicyExt (Some sampleDoc)"
  by code_simp


text \<open>
  The two findings. A literal star in the string is taken by a pattern star as one byte, so a
  Deny on every key of a bucket does not deny a key that starts with a star; and a Deny whose
  pattern holds a question mark counts as covering a broader Allow, so \<^verbatim>\<open>IsPublic\<close> misses a
  policy that lets an anonymous caller in.
\<close>

definition keyDeny :: document where
  "keyDeny = \<lparr>Version = [], ID = [], Statement =
     [zeroStatement\<lparr>Effect := ''Allow'', Action := [''s3:GetObject''], Resource := [''*''], Principal := everyone\<rparr>,
      zeroStatement\<lparr>Effect := ''Deny'', Action := [''s3:*''], Resource := [''arn:aws:s3:::b/*''], Principal := everyone\<rparr>]\<rparr>"

definition starKeyReq :: request where
  "starKeyReq = \<lparr>ReqAction = ''s3:GetObject'', ReqResource = ''arn:aws:s3:::b/*k'',
     ReqContext = [], ReqPrincipal = [], ReqAccount = []\<rparr>"

theorem glob_misses_literal_star:
  "matches (iamLit False) ''arn:aws:s3:::b/*'' ''arn:aws:s3:::b/*k'' \<and>
   \<not> globMatch ''arn:aws:s3:::b/*'' ''arn:aws:s3:::b/*k'' \<and>
   fst (Evaluate sampleExt [Some keyDeny] starKeyReq) = Allowed"
  by code_simp

definition questionDeny :: document where
  "questionDeny = \<lparr>Version = [], ID = [], Statement =
     [zeroStatement\<lparr>Effect := ''Allow'', Action := [''s3:GetObject''], Resource := [''*''], Principal := everyone\<rparr>,
      zeroStatement\<lparr>Effect := ''Deny'', Action := [''s3:*''], Resource := [''?''], Principal := everyone\<rparr>]\<rparr>"

theorem IsPublic_misses_question_mark:
  "\<not> IsPublic sampleExt (Some questionDeny) \<and>
   fst (Evaluate sampleExt [Some questionDeny] (starKeyReq\<lparr>ReqResource := ''arn:aws:s3:::b/k''\<rparr>)) = Allowed"
  by code_simp

theorem Parse_Evaluate_Allowed_witness:
  "fst (Evaluate samplePolicyExt [Some sampleDoc] sampleReq) = Allowed \<and>
   statementMatches samplePolicyExt sampleAllow sampleReq"
proof -
  have "\<And>d. Some d \<in> set [Some sampleDoc] \<Longrightarrow> \<exists>raw. Parse samplePolicyExt raw = Inr d"
    using sample_parsed by auto
  then show ?thesis
    using Parse_Evaluate_Allowed [of "[Some sampleDoc]" samplePolicyExt sampleReq] sample_allowed
    by (auto simp: sampleDoc_def)
qed

theorem Evaluate_order_irrelevant_witness:
  "fst (Evaluate sampleExt [Some keyDeny, None, Some sampleDoc] starKeyReq) =
   fst (Evaluate sampleExt [Some sampleDoc, Some keyDeny, None] starKeyReq)"
  by (rule Evaluate_order_irrelevant) auto

theorem negated_operator_complement_witness:
  "conditionMatches sampleExt ''StringNotEquals'' ''aws:SourceVpc'' [''a'', ''b''] [(''aws:sourcevpc'', [''c''])] =
   (\<not> conditionMatches sampleExt ''StringEquals'' ''aws:SourceVpc'' [''a'', ''b''] [(''aws:sourcevpc'', [''c''])])"
proof (rule negated_operator_complement)
  show "(''StringEquals'', ''StringNotEquals'') \<in> set negatedPairs" by code_simp
  show "case map_of [(''aws:sourcevpc'', [''c''])]
      (lookupKey sampleExt [(''aws:sourcevpc'', [''c''])] ''aws:SourceVpc'') of
      None \<Rightarrow> True | Some hs \<Rightarrow> length hs \<le> 1" by code_simp
qed

end
