(* ===== verification/Decimal.thy ===== *)
theory Decimal
  imports Prelude
begin

text \<open>
  DynamoDB's number type, \<^verbatim>\<open>internal/ddb/item/decimal.go\<close>: parsing, printing, comparison,
  addition and subtraction of arbitrary-precision decimals, against the rational number a
  decimal stands for. Bytes of digit strings are ASCII digits, so the byte arithmetic of the
  source is done on their values.
\<close>

subsection \<open>The type and its operations\<close>

record decimal =
  neg :: bool
  digits :: string
  exp :: int

definition Zero :: decimal where
  "Zero = \<lparr>neg = False, digits = [], exp = 0\<rparr>"

definition IsZero :: "decimal \<Rightarrow> bool" where
  "IsZero d = (digits d = [])"

datatype decimalError = NotANumber string | Overflows string | Underflows string | TooManyDigits string

text \<open>The digits of the exponent, with the early overflow check of the loop.\<close>

fun parseExpDigits :: "string \<Rightarrow> nat \<Rightarrow> string \<Rightarrow> decimalError + nat" where
  "parseExpDigits orig acc [] = Inr acc"
| "parseExpDigits orig acc (c # cs) =
     (if \<not> isDigit c then Inl (NotANumber orig)
      else let acc' = acc * 10 + digitVal c in
           if acc' > 1000 then Inl (Overflows orig) else parseExpDigits orig acc' cs)"

definition parseExp :: "string \<Rightarrow> string \<Rightarrow> decimalError + int" where
  "parseExp orig e =
     (case e of
        [] \<Rightarrow> Inl (NotANumber orig)
      | c # cs \<Rightarrow>
          let signed = (c = CHR ''+'' \<or> c = CHR ''-'');
              ds = (if signed then cs else e);
              esign = (if c = CHR ''-'' then - 1 else 1)
          in if ds = [] then Inl (NotANumber orig)
             else case parseExpDigits orig 0 ds of
                    Inl err \<Rightarrow> Inl err
                  | Inr n \<Rightarrow> Inr (int n * esign))"

definition isExpMark :: "char \<Rightarrow> bool" where
  "isExpMark c = (c = CHR ''e'' \<or> c = CHR ''E'')"

definition cutSign :: "string \<Rightarrow> bool \<times> string" where
  "cutSign s =
     (case s of
        [] \<Rightarrow> (False, [])
      | c # cs \<Rightarrow> if c = CHR ''+'' \<or> c = CHR ''-'' then (c = CHR ''-'', cs) else (False, s))"

text \<open>Everything from the split mantissa on: the digit check, normalisation and the range checks.\<close>

definition finishParse :: "string \<Rightarrow> bool \<Rightarrow> string \<Rightarrow> string \<Rightarrow> int \<Rightarrow> decimalError + decimal" where
  "finishParse orig sg intPart fracPart expPart =
     (if intPart = [] \<and> fracPart = [] then Inl (NotANumber orig)
      else if \<not> list_all isDigit (intPart @ fracPart) then Inl (NotANumber orig)
      else
        let all0 = intPart @ fracPart;
            lead = length (takeWhile (\<lambda>c. c = CHR ''0'') all0);
            pointExp = int (length intPart) + expPart - int lead;
            ds = rev (dropWhile (\<lambda>c. c = CHR ''0'') (rev (drop lead all0)))
        in if ds = [] then Inr Zero
           else if length ds > 38 then Inl (TooManyDigits orig)
           else if pointExp > 126 then Inl (Overflows orig)
           else if pointExp < - 129 then Inl (Underflows orig)
           else Inr \<lparr>neg = sg, digits = ds, exp = pointExp\<rparr>)"

definition ParseDecimal :: "string \<Rightarrow> decimalError + decimal" where
  "ParseDecimal orig =
     (if orig = [] then Inl (NotANumber orig)
      else
        let (sg, s) = cutSign orig; (mant, e) = cutAt isExpMark s
        in case (case e of None \<Rightarrow> Inr 0 | Some es \<Rightarrow> parseExp orig es) of
             Inl err \<Rightarrow> Inl err
           | Inr expPart \<Rightarrow>
               let (intPart, frac) = cutAt (\<lambda>c. c = CHR ''.'') mant;
                   fracPart = (case frac of None \<Rightarrow> [] | Some f \<Rightarrow> f)
               in finishParse orig sg intPart fracPart expPart)"

fun itoaLoop :: "nat \<Rightarrow> string \<Rightarrow> string" where
  "itoaLoop n buf = (if n > 0 then itoaLoop (n div 10) (digit (n mod 10) # buf) else buf)"

declare itoaLoop.simps [simp del]

definition itoa :: "int \<Rightarrow> string" where
  "itoa n =
     (if n = 0 then ''0''
      else if n < 0 then CHR ''-'' # itoaLoop (nat (- n)) [] else itoaLoop (nat n) [])"

definition zeros :: "nat \<Rightarrow> string" where
  "zeros n = replicate n (CHR ''0'')"

definition String :: "decimal \<Rightarrow> string" where
  "String d =
     (if IsZero d then ''0''
      else (if neg d then ''-'' else []) @
        (if 1 \<le> exp d \<and> exp d \<le> 38 then
           (if exp d \<ge> int (length (digits d))
            then digits d @ zeros (nat (exp d - int (length (digits d))))
            else take (nat (exp d)) (digits d) @ ''.'' @ drop (nat (exp d)) (digits d))
         else if exp d \<le> 0 \<and> exp d > - 6 then ''0.'' @ zeros (nat (- exp d)) @ digits d
         else
           take 1 (digits d) @
           (if length (digits d) > 1 then ''.'' @ drop 1 (digits d) else []) @ ''E'' @
           (if exp d - 1 \<ge> 0 then ''+'' else []) @ itoa (exp d - 1)))"

definition strCompare :: "string \<Rightarrow> string \<Rightarrow> int" where
  "strCompare a b = (if a < b then - 1 else if a = b then 0 else 1)"

definition padTo :: "string \<Rightarrow> nat \<Rightarrow> string" where
  "padTo s n = s @ zeros (n - length s)"

definition compareMagnitude :: "decimal \<Rightarrow> decimal \<Rightarrow> int" where
  "compareMagnitude a b =
     (if exp a \<noteq> exp b then (if exp a < exp b then - 1 else 1)
      else strCompare (padTo (digits a) (length (digits b))) (padTo (digits b) (length (digits a))))"

definition Compare :: "decimal \<Rightarrow> decimal \<Rightarrow> int" where
  "Compare a b =
     (if IsZero a \<and> IsZero b then 0
      else if IsZero a then (if neg b then 1 else - 1)
      else if IsZero b then (if neg a then - 1 else 1)
      else if neg a \<noteq> neg b then (if neg a then - 1 else 1)
      else let mag = compareMagnitude a b in if neg a then - mag else mag)"

text \<open>Both magnitudes as digit strings of the same length under the larger exponent.\<close>

definition align :: "decimal \<Rightarrow> decimal \<Rightarrow> string \<times> string \<times> int" where
  "align a b =
     (let e = max (exp a) (exp b);
          ad = zeros (nat (e - exp a)) @ digits a;
          bd = zeros (nat (e - exp b)) @ digits b
      in (padTo ad (length bd), padTo bd (length ad), e))"

definition normalize :: "string \<Rightarrow> int \<Rightarrow> decimal" where
  "normalize ds e =
     (let lead = length (takeWhile (\<lambda>c. c = CHR ''0'') ds);
          out = rev (dropWhile (\<lambda>c. c = CHR ''0'') (rev (drop lead ds)))
      in if out = [] then Zero else \<lparr>neg = False, digits = out, exp = e - int lead\<rparr>)"

text \<open>The digit loops run from the last digit to the first; the second result is the carry (borrow).\<close>

fun addDigits :: "string \<Rightarrow> string \<Rightarrow> string \<times> nat" where
  "addDigits (a # as) (b # bs) =
     (let (out, carry) = addDigits as bs; s = digitVal a + digitVal b + carry
      in (digit (s mod 10) # out, s div 10))"
| "addDigits _ _ = ([], 0)"

definition addMagnitude :: "decimal \<Rightarrow> decimal \<Rightarrow> decimal" where
  "addMagnitude a b =
     (let (ad, bd, e) = align a b; (out, carry) = addDigits ad bd
      in if carry > 0 then normalize (digit carry # out) (e + 1) else normalize out e)"

fun subDigits :: "string \<Rightarrow> string \<Rightarrow> string \<times> nat" where
  "subDigits (a # as) (b # bs) =
     (let (out, borrow) = subDigits as bs; ai = digitVal a; bi = digitVal b + borrow
      in if ai < bi then (digit (ai + 10 - bi) # out, 1) else (digit (ai - bi) # out, 0))"
| "subDigits _ _ = ([], 0)"

definition subMagnitude :: "decimal \<Rightarrow> decimal \<Rightarrow> decimal" where
  "subMagnitude a b = (let (ad, bd, e) = align a b in normalize (fst (subDigits ad bd)) e)"

definition Add :: "decimal \<Rightarrow> decimal \<Rightarrow> decimal" where
  "Add a b =
     (if IsZero a then b
      else if IsZero b then a
      else if neg a = neg b then (addMagnitude a b)\<lparr>neg := neg a\<rparr>
      else let c = compareMagnitude a b in
           if c = 0 then Zero
           else if c = 1 then (subMagnitude a b)\<lparr>neg := neg a\<rparr>
           else (subMagnitude b a)\<lparr>neg := neg b\<rparr>)"

definition Sub :: "decimal \<Rightarrow> decimal \<Rightarrow> decimal" where
  "Sub a b =
     (let b1 = b\<lparr>neg := \<not> neg b\<rparr>; b2 = (if IsZero b1 then b1\<lparr>neg := False\<rparr> else b1) in Add a b2)"

subsection \<open>The number a decimal stands for\<close>

definition digitsNat :: "string \<Rightarrow> nat" where
  "digitsNat s = foldl (\<lambda>a c. a * 10 + digitVal c) 0 s"

definition mval :: "string \<Rightarrow> int \<Rightarrow> rat" where
  "mval ds e = of_nat (digitsNat ds) * 10 powi (e - int (length ds))"

definition val :: "decimal \<Rightarrow> rat" where
  "val d = (if neg d then - 1 else 1) * mval (digits d) (exp d)"

text \<open>Normal form: no leading or trailing zero digit, and one representation of zero.\<close>

definition normal :: "decimal \<Rightarrow> bool" where
  "normal d =
     (if digits d = [] then d = Zero
      else list_all isDigit (digits d) \<and> hd (digits d) \<noteq> CHR ''0'' \<and> last (digits d) \<noteq> CHR ''0'')"

text \<open>The range DynamoDB documents, as ParseDecimal enforces it.\<close>

definition inRange :: "decimal \<Rightarrow> bool" where
  "inRange d = (length (digits d) \<le> 38 \<and> - 129 \<le> exp d \<and> exp d \<le> 126)"

lemma foldl_digits: "foldl (\<lambda>a c. a * 10 + digitVal c) acc s = acc * 10 ^ length s + digitsNat s"
proof (induction s arbitrary: acc)
  case (Cons c s)
  show ?case
    using Cons [of "acc * 10 + digitVal c"] Cons [of "digitVal c"]
    by (simp add: digitsNat_def algebra_simps)
qed (simp add: digitsNat_def)

lemma digitsNat_Nil [simp]: "digitsNat [] = 0"
  by (simp add: digitsNat_def)

lemma digitsNat_Cons: "digitsNat (c # s) = digitVal c * 10 ^ length s + digitsNat s"
  using foldl_digits [of "digitVal c" s] by (simp add: digitsNat_def)

lemma digitsNat_append: "digitsNat (s @ t) = digitsNat s * 10 ^ length t + digitsNat t"
  using foldl_digits [of "digitsNat s" t] by (simp add: digitsNat_def)

lemma digitVal_zero [simp]: "digitVal (CHR ''0'') = 0"
  by (simp add: digitVal_def)

lemma zeros_simps [simp]:
  "length (zeros n) = n" "digitsNat (zeros n) = 0" "zeros 0 = []" "list_all isDigit (zeros n)"
  "set (zeros n) \<subseteq> {CHR ''0''}"
  by (induction n) (auto simp: zeros_def digitsNat_Cons list_all_iff isDigit_def)

lemma zeros_Suc: "zeros (Suc n) = CHR ''0'' # zeros n"
  by (simp add: zeros_def)

lemma digitsNat_bound: "list_all isDigit s \<Longrightarrow> digitsNat s < 10 ^ length s"
proof (induction s)
  case (Cons c s)
  then have "digitVal c \<le> 9" using digitVal_less [of c] by simp
  then have "digitVal c * 10 ^ length s \<le> 9 * 10 ^ length s" by (rule mult_le_mono1)
  moreover have "digitsNat s < 10 ^ length s"
    using Cons by simp
  ultimately have "digitVal c * 10 ^ length s + digitsNat s < 10 * 10 ^ length s"
    by linarith
  then show ?case by (simp add: digitsNat_Cons)
qed simp

lemma digit_0: "digit 0 = CHR ''0''"
  by code_simp

lemma digitVal_eq_0: "isDigit c \<Longrightarrow> digitVal c = 0 \<longleftrightarrow> c = CHR ''0''"
  using digit_digitVal [of c] digit_0 by auto

lemma digitsNat_lower:
  assumes "list_all isDigit s" "s \<noteq> []" "hd s \<noteq> CHR ''0''"
  shows "10 ^ (length s - 1) \<le> digitsNat s"
proof (cases s)
  case (Cons c t)
  then have "0 < digitVal c" using assms digitVal_eq_0 [of c] by simp
  then have "1 * 10 ^ length t \<le> digitVal c * 10 ^ length t" by (intro mult_le_mono1) simp
  then have "10 ^ length t \<le> digitVal c * 10 ^ length t + digitsNat t" by linarith
  then show ?thesis using Cons by (simp add: digitsNat_Cons)
qed (use assms in simp)

lemma mval_lead: "mval (CHR ''0'' # s) e = mval s (e - 1)"
  by (simp add: mval_def digitsNat_Cons algebra_simps)

lemma mval_zeros_lead: "mval (zeros n @ s) e = mval s (e - int n)"
  by (simp add: mval_def digitsNat_append algebra_simps)

lemma mval_zeros_trail: "mval (s @ zeros n) e = mval s e"
proof -
  have "(10::rat) ^ n * 10 powi (e - int (length s) - int n) = 10 powi (e - int (length s))"
    by (simp add: power_int_diff)
  then show ?thesis
    by (simp add: mval_def digitsNat_append algebra_simps)
qed

lemma mval_padTo [simp]: "mval (padTo s n) e = mval s e"
  by (simp add: padTo_def mval_zeros_trail)

lemma length_padTo [simp]: "length (padTo s n) = max (length s) n"
  by (simp add: padTo_def)

lemma isDigit_padTo [simp]: "list_all isDigit (padTo s n) = list_all isDigit s"
  by (simp add: padTo_def)

subsection \<open>Normalisation\<close>

lemma takeWhile_zeros: "takeWhile (\<lambda>c. c = CHR ''0'') s = zeros (length (takeWhile (\<lambda>c. c = CHR ''0'') s))"
  by (induction s) (auto simp: zeros_def)

definition stripLead :: "string \<Rightarrow> string" where
  "stripLead s = drop (length (takeWhile (\<lambda>c. c = CHR ''0'') s)) s"

definition stripTrail :: "string \<Rightarrow> string" where
  "stripTrail s = rev (dropWhile (\<lambda>c. c = CHR ''0'') (rev s))"

lemma stripLead_split: "s = zeros (length (takeWhile (\<lambda>c. c = CHR ''0'') s)) @ stripLead s"
  by (metis stripLead_def append_take_drop_id takeWhile_eq_take takeWhile_zeros)

lemma stripTrail_split: "\<exists>n. s = stripTrail s @ zeros n"
proof -
  have "rev s = takeWhile (\<lambda>c. c = CHR ''0'') (rev s) @ dropWhile (\<lambda>c. c = CHR ''0'') (rev s)" by simp
  then have "s = stripTrail s @ rev (takeWhile (\<lambda>c. c = CHR ''0'') (rev s))"
    by (metis rev_append rev_rev_ident stripTrail_def)
  then show ?thesis
    by (metis takeWhile_zeros rev_replicate zeros_def)
qed

lemma stripLead_hd: "stripLead s \<noteq> [] \<Longrightarrow> hd (stripLead s) \<noteq> CHR ''0''"
  using hd_dropWhile [of "\<lambda>c. c = CHR ''0''" s]
  by (metis stripLead_def dropWhile_eq_drop)

lemma stripTrail_last: "stripTrail s \<noteq> [] \<Longrightarrow> last (stripTrail s) \<noteq> CHR ''0''"
  using hd_dropWhile [of "\<lambda>c. c = CHR ''0''" "rev s"]
  by (simp only: stripTrail_def last_rev rev_is_Nil_conv not_False_eq_True)

lemma stripTrail_hd: "stripTrail s \<noteq> [] \<Longrightarrow> hd (stripTrail s) = hd s"
  using stripTrail_split [of s] by (metis hd_append2)

lemma strip_digits:
  "list_all isDigit s \<Longrightarrow> list_all isDigit (stripTrail (stripLead s))"
  by (metis list_all_append stripLead_split stripTrail_split)

lemma mval_strip: "mval (stripTrail (stripLead s)) (e - int (length (takeWhile (\<lambda>c. c = CHR ''0'') s))) = mval s e"
proof -
  obtain n where n: "stripLead s = stripTrail (stripLead s) @ zeros n"
    using stripTrail_split by blast
  have "mval s e = mval (stripLead s) (e - int (length (takeWhile (\<lambda>c. c = CHR ''0'') s)))"
    by (metis mval_zeros_lead stripLead_split)
  then show ?thesis
    by (metis n mval_zeros_trail)
qed

lemma normalize_strip:
  "normalize s e =
     (let out = stripTrail (stripLead s) in
      if out = [] then Zero
      else \<lparr>neg = False, digits = out, exp = e - int (length (takeWhile (\<lambda>c. c = CHR ''0'') s))\<rparr>)"
  unfolding normalize_def stripLead_def stripTrail_def Let_def by (rule refl)

lemma val_Zero [simp]: "val Zero = 0"
  by (simp add: val_def Zero_def mval_def)

lemma normalize_val: "val (normalize s e) = mval s e"
proof (cases "stripTrail (stripLead s) = []")
  case True
  then show ?thesis
    using mval_strip [of s e] by (simp add: normalize_strip mval_def)
next
  case False
  then show ?thesis
    using mval_strip [of s e] by (simp add: normalize_strip val_def Let_def)
qed

lemma normalize_neg [simp]: "\<not> neg (normalize s e)"
  by (simp add: normalize_strip Zero_def Let_def)

lemma normal_strip:
  "list_all isDigit s \<Longrightarrow> stripTrail (stripLead s) \<noteq> [] \<Longrightarrow>
   normal \<lparr>neg = b, digits = stripTrail (stripLead s), exp = e\<rparr>"
  using strip_digits [of s] stripTrail_last [of "stripLead s"] stripTrail_hd [of "stripLead s"]
    stripLead_hd [of s] stripTrail_split [of "stripLead s"]
  by (simp add: normal_def) (metis append_Nil2 append_is_Nil_conv)

lemma normal_Zero [simp]: "normal Zero"
  by (simp add: normal_def Zero_def)

lemma normalize_normal: "list_all isDigit s \<Longrightarrow> normal (normalize s e)"
  by (simp add: normalize_strip Let_def normal_strip)

lemma normalD:
  assumes "normal d" "digits d \<noteq> []"
  shows "list_all isDigit (digits d)" "hd (digits d) \<noteq> CHR ''0''" "last (digits d) \<noteq> CHR ''0''"
  using assms by (auto simp: normal_def)

subsection \<open>Magnitudes\<close>

lemma mval_nonneg: "0 \<le> mval s e"
  by (simp add: mval_def)

lemma mval_bounds:
  assumes "normal d" "digits d \<noteq> []"
  shows "10 powi (exp d - 1) \<le> mval (digits d) (exp d)" "mval (digits d) (exp d) < 10 powi exp d"
proof -
  let ?s = "digits d" and ?n = "length (digits d)"
  note d = normalD [OF assms]
  have p: "(0::rat) < 10 powi (exp d - int ?n)" by simp
  have "of_nat (10 ^ (?n - 1)) \<le> (of_nat (digitsNat ?s) :: rat)"
    using digitsNat_lower [OF d(1) assms(2) d(2)] by (simp only: of_nat_le_iff)
  then have "of_nat (10 ^ (?n - 1)) * 10 powi (exp d - int ?n) \<le> mval ?s (exp d)"
    unfolding mval_def using p by (intro mult_right_mono) simp_all
  moreover have "of_nat (10 ^ (?n - 1)) * (10::rat) powi (exp d - int ?n) = 10 powi (exp d - 1)"
  proof -
    have "(10::rat) powi int (?n - 1) * 10 powi (exp d - int ?n) = 10 powi (int (?n - 1) + (exp d - int ?n))"
      by (rule power_int_add [symmetric]) simp
    also have "int (?n - 1) + (exp d - int ?n) = exp d - 1"
      using assms(2) by (cases "digits d") auto
    finally show ?thesis by simp
  qed
  ultimately show "10 powi (exp d - 1) \<le> mval ?s (exp d)" by simp
  have "(of_nat (digitsNat ?s) :: rat) < of_nat (10 ^ ?n)"
    using digitsNat_bound [OF d(1)] by (simp only: of_nat_less_iff)
  then have "mval ?s (exp d) < of_nat (10 ^ ?n) * 10 powi (exp d - int ?n)"
    unfolding mval_def using p by (intro mult_strict_right_mono) simp_all
  also have "of_nat (10 ^ ?n) * (10::rat) powi (exp d - int ?n) = 10 powi exp d"
    by (simp add: power_int_diff)
  finally show "mval ?s (exp d) < 10 powi exp d" .
qed

lemma less_digit: "isDigit a \<Longrightarrow> isDigit b \<Longrightarrow> a < b \<longleftrightarrow> digitVal a < digitVal b"
  by (auto simp: isDigit_def digitVal_def less_char_def)

lemma digits_less:
  "length s = length t \<Longrightarrow> list_all isDigit s \<Longrightarrow> list_all isDigit t \<Longrightarrow>
   s < t \<longleftrightarrow> digitsNat s < digitsNat t"
proof (induction s t rule: list_induct2)
  case (Cons a s b t)
  have bs: "digitsNat s < 10 ^ length t" "digitsNat t < 10 ^ length t"
    using Cons digitsNat_bound [of s] digitsNat_bound [of t] by auto
  show ?case
  proof (cases "a = b")
    case True
    then show ?thesis using Cons by (simp add: digitsNat_Cons)
  next
    case False
    then have ne: "digitVal a \<noteq> digitVal b"
      using Cons digit_digitVal by (metis list.pred_inject(2))
    have lt: "x * 10 ^ length t + m < y * 10 ^ length t + k" if "x < y" "m < 10 ^ length t" for x y m k :: nat
    proof -
      have "Suc x * 10 ^ length t \<le> y * 10 ^ length t" using that(1) by (intro mult_le_mono1) simp
      then show ?thesis using that(2) by simp
    qed
    show ?thesis
      using False Cons less_digit [of a b] bs ne lt [of "digitVal a" "digitVal b" "digitsNat s" "digitsNat t"]
        lt [of "digitVal b" "digitVal a" "digitsNat t" "digitsNat s"]
      by (cases "digitVal a < digitVal b") (auto simp: digitsNat_Cons)
  qed
qed simp

subsection \<open>Comparison\<close>

text \<open>The sign of a difference, as the source's three-way comparisons report it.\<close>

definition cmp :: "rat \<Rightarrow> rat \<Rightarrow> int" where
  "cmp x y = (if x < y then - 1 else if x = y then 0 else 1)"

lemma mval_same_length:
  assumes "length s = length t"
  shows "mval s e < mval t e \<longleftrightarrow> digitsNat s < digitsNat t" "mval s e = mval t e \<longleftrightarrow> digitsNat s = digitsNat t"
  using assms by (simp_all add: mval_def)

lemma digitsNat_inject:
  assumes "length s = length t" "list_all isDigit s" "list_all isDigit t" "digitsNat s = digitsNat t"
  shows "s = t"
  using digits_less [OF assms(1-3)] digits_less [OF assms(1) [symmetric] assms(3,2)] assms(4)
  by (metis less_irrefl neqE)

lemma compareMagnitude_cmp:
  assumes "normal a" "normal b" "digits a \<noteq> []" "digits b \<noteq> []"
  shows "compareMagnitude a b = cmp (mval (digits a) (exp a)) (mval (digits b) (exp b))"
proof (cases "exp a = exp b")
  case True
  let ?s = "padTo (digits a) (length (digits b))" and ?t = "padTo (digits b) (length (digits a))"
  have l: "length ?s = length ?t" "list_all isDigit ?s" "list_all isDigit ?t"
    using normalD(1) assms by (auto simp: max.commute)
  have "strCompare ?s ?t = cmp (mval ?s (exp a)) (mval ?t (exp a))"
    using digits_less [OF l] mval_same_length [OF l(1)] digitsNat_inject [OF l]
    by (auto simp: strCompare_def cmp_def)
  then show ?thesis using True by (simp add: compareMagnitude_def)
next
  case False
  have lt: "mval (digits x) (exp x) < mval (digits y) (exp y)"
    if "normal x" "normal y" "digits x \<noteq> []" "digits y \<noteq> []" "exp x < exp y" for x y
  proof -
    have "mval (digits x) (exp x) < 10 powi exp x" using mval_bounds that by blast
    also have "(10::rat) powi exp x \<le> 10 powi (exp y - 1)" using that by (intro power_int_increasing) auto
    also have "\<dots> \<le> mval (digits y) (exp y)" using mval_bounds that by blast
    finally show ?thesis .
  qed
  show ?thesis
    using False lt [of a b] lt [of b a] assms by (auto simp: compareMagnitude_def cmp_def)
qed

lemma val_pos: "normal d \<Longrightarrow> digits d \<noteq> [] \<Longrightarrow> 0 < mval (digits d) (exp d)"
  using mval_bounds(1) [of d] by (meson less_le_trans zero_less_power_int zero_less_numeral)

lemma val_zero_iff: "normal d \<Longrightarrow> val d = 0 \<longleftrightarrow> IsZero d"
  using val_pos [of d]
  by (cases "digits d = []") (auto simp: val_def IsZero_def mval_def [of "[]"] dest: less_imp_neq)

lemma val_sign: "normal d \<Longrightarrow> \<not> IsZero d \<Longrightarrow> (if neg d then val d < 0 else 0 < val d)"
  using val_pos [of d] by (auto simp: val_def IsZero_def)

lemma Compare_cmp:
  "normal a \<Longrightarrow> normal b \<Longrightarrow> Compare a b = cmp (val a) (val b)"
proof -
  assume n: "normal a" "normal b"
  consider "IsZero a" "IsZero b" | "IsZero a" "\<not> IsZero b" | "\<not> IsZero a" "IsZero b"
    | "\<not> IsZero a" "\<not> IsZero b" "neg a \<noteq> neg b" | (same) "\<not> IsZero a" "\<not> IsZero b" "neg a = neg b"
    by blast
  then show "Compare a b = cmp (val a) (val b)"
  proof cases
    case same
    then have "compareMagnitude a b = cmp (mval (digits a) (exp a)) (mval (digits b) (exp b))"
      using n by (intro compareMagnitude_cmp) (auto simp: IsZero_def)
    with same show ?thesis by (auto simp: Compare_def val_def cmp_def)
  qed (use n val_sign [of a] val_sign [of b] val_zero_iff [of a] val_zero_iff [of b] in
      \<open>auto simp: Compare_def cmp_def split: if_splits\<close>)
qed

text \<open>C7: on normalised decimals, Compare is the numeric order: it answers -1, 0 or 1 exactly as
  the numbers the two decimals stand for compare, whatever their signs, exponents and lengths.\<close>

theorem Compare_numeric:
  "normal a \<Longrightarrow> normal b \<Longrightarrow> Compare a b = cmp (val a) (val b)"
  by (rule Compare_cmp)

subsection \<open>Addition and subtraction\<close>

lemma addDigits_value:
  "length s = length t \<Longrightarrow> list_all isDigit s \<Longrightarrow> list_all isDigit t \<Longrightarrow>
   (case addDigits s t of (out, c) \<Rightarrow>
      digitsNat out + c * 10 ^ length s = digitsNat s + digitsNat t \<and> length out = length s \<and>
      list_all isDigit out \<and> c \<le> 1)"
proof (induction s t rule: list_induct2)
  case (Cons a s b t)
  obtain out c where oc: "addDigits s t = (out, c)" by fastforce
  let ?n = "digitVal a + digitVal b + c"
  have ih: "digitsNat out + c * 10 ^ length s = digitsNat s + digitsNat t" "length out = length s"
      "list_all isDigit out" "c \<le> 1"
    using Cons oc by auto
  have dm: "?n mod 10 + 10 * (?n div 10) = ?n" by simp
  have "?n \<le> 19" using Cons digitVal_less [of a] digitVal_less [of b] ih(4) by simp
  then have c1: "?n div 10 \<le> 1" by simp
  have "(?n mod 10) * 10 ^ length s + (?n div 10) * (10 * 10 ^ length s) =
      (?n mod 10 + 10 * (?n div 10)) * 10 ^ length s"
    by (simp only: add_mult_distrib mult.assoc mult.left_commute)
  also have "\<dots> = digitVal a * 10 ^ length s + digitVal b * 10 ^ length s + c * 10 ^ length s"
    by (simp only: dm add_mult_distrib)
  finally have "(?n mod 10) * 10 ^ length s + digitsNat out + (?n div 10) * (10 * 10 ^ length s) =
      digitVal a * 10 ^ length s + digitsNat s + (digitVal b * 10 ^ length s + digitsNat t)"
    using ih(1) by linarith
  then show ?case
    using ih(2,3) c1 Cons(1) by (simp add: oc digitsNat_Cons Let_def)
qed simp

lemma subDigits_value:
  "length s = length t \<Longrightarrow> list_all isDigit s \<Longrightarrow> list_all isDigit t \<Longrightarrow>
   (case subDigits s t of (out, c) \<Rightarrow>
      digitsNat out + digitsNat t = digitsNat s + c * 10 ^ length s \<and> length out = length s \<and>
      list_all isDigit out \<and> c \<le> 1)"
proof (induction s t rule: list_induct2)
  case (Cons a s b t)
  obtain out c where oc: "subDigits s t = (out, c)" by fastforce
  have ih: "digitsNat out + digitsNat t = digitsNat s + c * 10 ^ length s" "length out = length s"
      "list_all isDigit out" "c \<le> 1"
    using Cons oc by auto
  have d: "digitVal a < 10" "digitVal b < 10"
    using Cons digitVal_less by auto
  show ?case
  proof (cases "digitVal a < digitVal b + c")
    case True
    define x where "x = digitVal a + 10 - (digitVal b + c)"
    have x: "x < 10" "x + digitVal b + c = digitVal a + 10" using True d ih(4) by (auto simp: x_def)
    have "x * 10 ^ length s + digitVal b * 10 ^ length s + c * 10 ^ length s =
        digitVal a * 10 ^ length s + 10 * 10 ^ length s"
      using x(2) by (metis add_mult_distrib)
    then have "x * 10 ^ length s + digitsNat out + (digitVal b * 10 ^ length s + digitsNat t) =
        digitVal a * 10 ^ length s + digitsNat s + 10 * 10 ^ length s"
      using ih(1) by linarith
    then show ?thesis
      using ih(2,3) True Cons(1) x(1) by (simp add: oc digitsNat_Cons Let_def x_def [symmetric])
  next
    case False
    define x where "x = digitVal a - (digitVal b + c)"
    have x: "x < 10" "x + digitVal b + c = digitVal a" using False d by (auto simp: x_def)
    have "x * 10 ^ length s + digitVal b * 10 ^ length s + c * 10 ^ length s = digitVal a * 10 ^ length s"
      using x(2) by (metis add_mult_distrib)
    then have "x * 10 ^ length s + digitsNat out + (digitVal b * 10 ^ length s + digitsNat t) =
        digitVal a * 10 ^ length s + digitsNat s"
      using ih(1) by linarith
    then show ?thesis
      using ih(2,3) False Cons(1) x(1) by (simp add: oc digitsNat_Cons Let_def x_def [symmetric])
  qed
qed simp

lemma align_spec:
  assumes "align a b = (ad, bd, e)" "list_all isDigit (digits a)" "list_all isDigit (digits b)"
  shows "length ad = length bd" "list_all isDigit ad" "list_all isDigit bd"
    "mval ad e = mval (digits a) (exp a)" "mval bd e = mval (digits b) (exp b)"
  using assms by (auto simp: align_def Let_def mval_zeros_lead max.commute)

lemma mval_Cons: "mval (c # s) (e + 1) = of_nat (digitVal c) * 10 powi e + mval s e"
proof -
  have "(10::rat) ^ length s * 10 powi (e - int (length s)) = 10 powi e"
    by (simp add: power_int_diff)
  then show ?thesis
    by (simp add: mval_def digitsNat_Cons algebra_simps)
qed

lemma mval_sum:
  assumes "length s = n" "length t = n" "length u = n" "digitsNat u + c * 10 ^ n = digitsNat s + digitsNat t"
  shows "mval u e + of_nat c * 10 powi e = mval s e + mval t e"
proof -
  have "(of_nat (digitsNat u) :: rat) + of_nat c * 10 ^ n = of_nat (digitsNat s) + of_nat (digitsNat t)"
    using assms(4) by (metis of_nat_add of_nat_mult of_nat_numeral of_nat_power)
  then have "(of_nat (digitsNat u) + of_nat c * 10 ^ n) * (10::rat) powi (e - int n) =
      (of_nat (digitsNat s) + of_nat (digitsNat t)) * 10 powi (e - int n)"
    by simp
  moreover have "(10::rat) ^ n * 10 powi (e - int n) = 10 powi e"
    by (simp add: power_int_diff)
  ultimately show ?thesis
    using assms(1-3) by (simp add: mval_def distrib_right mult.assoc)
qed

lemma addMagnitude_spec:
  assumes "list_all isDigit (digits a)" "list_all isDigit (digits b)"
  shows "val (addMagnitude a b) = mval (digits a) (exp a) + mval (digits b) (exp b)"
    "normal (addMagnitude a b)" "\<not> neg (addMagnitude a b)"
proof -
  obtain ad bd e where al: "align a b = (ad, bd, e)" by (metis prod_cases3)
  obtain out c where oc: "addDigits ad bd = (out, c)" by fastforce
  note al' = align_spec [OF al assms]
  have v: "digitsNat out + c * 10 ^ length ad = digitsNat ad + digitsNat bd" "length out = length ad"
      "list_all isDigit out" "c \<le> 1"
    using addDigits_value [OF al'(1-3)] oc by auto
  have sum: "mval out e + of_nat c * 10 powi e = mval ad e + mval bd e"
    by (rule mval_sum [OF refl al'(1) [symmetric] v(2,1)])
  have dc: "isDigit (digit c)" "digitVal (digit c) = c" using v(4) by simp_all
  show "val (addMagnitude a b) = mval (digits a) (exp a) + mval (digits b) (exp b)"
    using sum al' dc by (cases "c = 0") (simp_all add: addMagnitude_def al oc normalize_val mval_Cons)
  show "normal (addMagnitude a b)" "\<not> neg (addMagnitude a b)"
    using v(3) dc by (simp_all add: addMagnitude_def al oc normalize_normal)
qed

lemma subMagnitude_spec:
  assumes "list_all isDigit (digits a)" "list_all isDigit (digits b)"
    and "mval (digits b) (exp b) < mval (digits a) (exp a)"
  shows "val (subMagnitude a b) = mval (digits a) (exp a) - mval (digits b) (exp b)"
    "normal (subMagnitude a b)" "\<not> neg (subMagnitude a b)"
proof -
  obtain ad bd e where al: "align a b = (ad, bd, e)" by (metis prod_cases3)
  obtain out c where oc: "subDigits ad bd = (out, c)" by fastforce
  note al' = align_spec [OF al assms(1,2)]
  have v: "digitsNat out + digitsNat bd = digitsNat ad + c * 10 ^ length ad" "length out = length ad"
      "list_all isDigit out"
    using subDigits_value [OF al'(1-3)] oc by auto
  have "digitsNat bd < digitsNat ad"
    using assms(3) al' mval_same_length(1) [of bd ad e] by simp
  moreover have "digitsNat out < 10 ^ length ad"
    using digitsNat_bound [OF v(3)] v(2) by simp
  ultimately have "c * 10 ^ length ad < 1 * 10 ^ length ad"
    using v(1) by linarith
  then have "c = 0" by simp
  then have "digitsNat ad + 0 * 10 ^ length ad = digitsNat out + digitsNat bd"
    using v(1) by simp
  from mval_sum [OF v(2) al'(1) [symmetric] refl this, of e]
  have "mval out e + mval bd e = mval ad e" by simp
  then show "val (subMagnitude a b) = mval (digits a) (exp a) - mval (digits b) (exp b)"
    using al' by (simp add: subMagnitude_def al oc normalize_val)
  show "normal (subMagnitude a b)" "\<not> neg (subMagnitude a b)"
    using v(3) by (simp_all add: subMagnitude_def al oc normalize_normal)
qed

lemma val_set_neg: "\<not> neg d \<Longrightarrow> val (d\<lparr>neg := s\<rparr>) = (if s then - val d else val d)"
  by (simp add: val_def)

lemma normal_set_neg: "normal d \<Longrightarrow> digits d \<noteq> [] \<Longrightarrow> normal (d\<lparr>neg := s\<rparr>)"
  by (simp add: normal_def)

lemma digits_of_val: "normal d \<Longrightarrow> val d \<noteq> 0 \<Longrightarrow> digits d \<noteq> []"
  using val_zero_iff [of d] by (simp add: IsZero_def)

lemma Add_spec:
  assumes "normal a" "normal b"
  shows "val (Add a b) = val a + val b \<and> normal (Add a b)"
proof (cases "IsZero a \<or> IsZero b")
  case True
  then show ?thesis
    using assms val_zero_iff [of a] val_zero_iff [of b] by (auto simp: Add_def)
next
  case False
  let ?A = "mval (digits a) (exp a)" and ?B = "mval (digits b) (exp b)"
  have nz: "digits a \<noteq> []" "digits b \<noteq> []" using False by (auto simp: IsZero_def)
  note ad = normalD(1) [OF assms(1) nz(1)] and bd = normalD(1) [OF assms(2) nz(2)]
  have pos: "0 < ?A" "0 < ?B" using val_pos assms nz by auto
  have cm: "compareMagnitude a b = cmp ?A ?B" using compareMagnitude_cmp assms nz by blast
  note add = addMagnitude_spec [OF ad bd]
  show ?thesis
  proof (cases "neg a = neg b")
    case True
    have "digits (addMagnitude a b) \<noteq> []"
      using digits_of_val [OF add(2)] add(1) pos by auto
    then show ?thesis
      using add True False by (auto simp: Add_def val_set_neg normal_set_neg) (auto simp: val_def)
  next
    case diff: False
    consider "?A = ?B" | (gt) "?B < ?A" | (lt) "?A < ?B" by fastforce
    then show ?thesis
    proof cases
      case 1
      then show ?thesis using diff False cm by (auto simp: Add_def cmp_def val_def [of a] val_def [of b])
    next
      case gt
      note sub = subMagnitude_spec [OF ad bd gt]
      have "digits (subMagnitude a b) \<noteq> []"
        using digits_of_val [OF sub(2)] sub(1) gt by auto
      then show ?thesis
        using gt sub diff False cm
        by (auto simp: Add_def cmp_def Let_def val_set_neg normal_set_neg) (auto simp: val_def)
    next
      case lt
      note sub = subMagnitude_spec [OF bd ad lt]
      have "digits (subMagnitude b a) \<noteq> []"
        using digits_of_val [OF sub(2)] sub(1) lt by auto
      then show ?thesis
        using lt sub diff False cm
        by (auto simp: Add_def cmp_def Let_def val_set_neg normal_set_neg) (auto simp: val_def)
    qed
  qed
qed

text \<open>C8: Add and Sub are exact. On normalised decimals they return the normalised decimal of the
  sum and of the difference of the two numbers, for every combination of signs and exponents.\<close>

theorem Add_Sub_exact:
  "normal a \<Longrightarrow> normal b \<Longrightarrow>
     val (Add a b) = val a + val b \<and> val (Sub a b) = val a - val b \<and> normal (Add a b) \<and> normal (Sub a b)"
proof -
  assume n: "normal a" "normal b"
  let ?b = "if IsZero b then Zero else b\<lparr>neg := \<not> neg b\<rparr>"
  have "Sub a b = Add a ?b"
    using n by (auto simp: Sub_def IsZero_def normal_def Zero_def)
  moreover have "normal ?b" "val ?b = - val b"
    using n val_zero_iff [of b]
    by (auto simp: IsZero_def normal_set_neg) (auto simp: val_def [of b] val_def [of "b\<lparr>neg := _\<rparr>"])
  ultimately show ?thesis
    using Add_spec [of a b] Add_spec [of a ?b] n by simp
qed

subsection \<open>Parsing\<close>

lemma finishParse_strip:
  "finishParse orig sg ip fp e =
     (if ip = [] \<and> fp = [] then Inl (NotANumber orig)
      else if \<not> list_all isDigit (ip @ fp) then Inl (NotANumber orig)
      else let ds = stripTrail (stripLead (ip @ fp));
               pe = int (length ip) + e - int (length (takeWhile (\<lambda>c. c = CHR ''0'') (ip @ fp)))
           in if ds = [] then Inr Zero
              else if length ds > 38 then Inl (TooManyDigits orig)
              else if pe > 126 then Inl (Overflows orig)
              else if pe < - 129 then Inl (Underflows orig)
              else Inr \<lparr>neg = sg, digits = ds, exp = pe\<rparr>)"
  unfolding finishParse_def stripLead_def stripTrail_def Let_def by (rule refl)

lemma finishParse_cases:
  assumes "finishParse orig sg ip fp e = Inr d"
  shows "list_all isDigit (ip @ fp)" "normal d" "inRange d"
    "val d = (if sg then - 1 else 1) * mval (ip @ fp) (int (length ip) + e)"
proof -
  let ?s = "ip @ fp" and ?l = "length (takeWhile (\<lambda>c. c = CHR ''0'') (ip @ fp))"
  let ?ds = "stripTrail (stripLead (ip @ fp))"
  show dig: "list_all isDigit (ip @ fp)"
    using assms by (auto simp: finishParse_def split: if_splits)
  have d: "d = (if ?ds = [] then Zero else \<lparr>neg = sg, digits = ?ds, exp = int (length ip) + e - int ?l\<rparr>)"
      and r: "?ds \<noteq> [] \<Longrightarrow> length ?ds \<le> 38 \<and> - 129 \<le> int (length ip) + e - int ?l \<and> int (length ip) + e - int ?l \<le> 126"
    using assms unfolding finishParse_strip Let_def by (simp_all split: if_splits)
  show "normal d"
    using dig normal_strip [of ?s] d by auto
  show "inRange d"
    using d r by (auto simp: inRange_def Zero_def)
  have "mval ?ds (int (length ip) + e - int ?l) = mval ?s (int (length ip) + e)"
    by (rule mval_strip)
  then show "val d = (if sg then - 1 else 1) * mval (ip @ fp) (int (length ip) + e)"
    using d by (cases "?ds = []") (simp_all add: val_def Zero_def mval_def)
qed

lemma ParseDecimal_sound:
  "ParseDecimal s = Inr d \<Longrightarrow> normal d \<and> inRange d"
  by (auto simp: ParseDecimal_def Let_def finishParse_cases split: if_splits sum.splits prod.splits)

text \<open>whatever ParseDecimal accepts is normalised and inside DynamoDB's range: at most 38
  significant digits, no leading or trailing zero digit, an exponent between -129 and 126, and a
  single representation of zero.\<close>

theorem ParseDecimal_normal:
  "ParseDecimal s = Inr d \<Longrightarrow> normal d \<and> inRange d"
  by (rule ParseDecimal_sound)

text \<open>The text of a number: an optional sign, digits with an optional point, an optional exponent.\<close>

definition signText :: "bool option \<Rightarrow> string" where
  "signText s = (case s of None \<Rightarrow> [] | Some True \<Rightarrow> ''-'' | Some False \<Rightarrow> ''+'')"

definition mantText :: "string \<Rightarrow> string option \<Rightarrow> string" where
  "mantText ip fp = (case fp of None \<Rightarrow> ip | Some f \<Rightarrow> ip @ ''.'' @ f)"

definition expText :: "(char \<times> bool option \<times> string) option \<Rightarrow> string" where
  "expText oe = (case oe of None \<Rightarrow> [] | Some (m, s, es) \<Rightarrow> m # signText s @ es)"

definition expVal :: "(char \<times> bool option \<times> string) option \<Rightarrow> int" where
  "expVal oe = (case oe of None \<Rightarrow> 0 | Some (m, s, es) \<Rightarrow> (if s = Some True then - 1 else 1) * int (digitsNat es))"

definition fracOf :: "string option \<Rightarrow> string" where
  "fracOf fp = (case fp of None \<Rightarrow> [] | Some f \<Rightarrow> f)"

definition numberText :: "bool option \<Rightarrow> string \<Rightarrow> string option \<Rightarrow> (char \<times> bool option \<times> string) option \<Rightarrow> string" where
  "numberText s ip fp oe = signText s @ mantText ip fp @ expText oe"

text \<open>Digits, at least one in the mantissa and one in the exponent, and an exponent up to 1000.\<close>

definition wellFormedNumber :: "string \<Rightarrow> string option \<Rightarrow> (char \<times> bool option \<times> string) option \<Rightarrow> bool" where
  "wellFormedNumber ip fp oe =
     (list_all isDigit (ip @ fracOf fp) \<and> ip @ fracOf fp \<noteq> [] \<and>
      (case oe of None \<Rightarrow> True
       | Some (m, s, es) \<Rightarrow> isExpMark m \<and> list_all isDigit es \<and> es \<noteq> [] \<and> digitsNat es \<le> 1000))"

lemma parseExpDigits_value:
  "list_all isDigit es \<Longrightarrow> acc * 10 ^ length es + digitsNat es \<le> 1000 \<Longrightarrow>
   parseExpDigits orig acc es = Inr (acc * 10 ^ length es + digitsNat es)"
proof (induction es arbitrary: acc)
  case (Cons c es)
  have le: "(acc * 10 + digitVal c) * 10 ^ length es + digitsNat es \<le> 1000"
    using Cons.prems(2) by (simp add: digitsNat_Cons algebra_simps)
  moreover have "(acc * 10 + digitVal c) * 1 \<le> (acc * 10 + digitVal c) * 10 ^ length es"
    by (intro mult_le_mono2) simp
  ultimately have "acc * 10 + digitVal c \<le> 1000"
    by (metis add_leD1 le_trans mult.right_neutral)
  then show ?case
    using le Cons.prems(1) Cons.IH [of "acc * 10 + digitVal c"]
    by (simp add: digitsNat_Cons algebra_simps)
qed simp

lemma digit_not_special: "isDigit c \<Longrightarrow> \<not> isExpMark c \<and> c \<noteq> CHR ''.'' \<and> c \<noteq> CHR ''+'' \<and> c \<noteq> CHR ''-''"
  by (auto simp: isDigit_def isExpMark_def)

lemma parseExp_text:
  assumes "list_all isDigit es" "es \<noteq> []" "digitsNat es \<le> 1000"
  shows "parseExp orig (signText s @ es) = Inr ((if s = Some True then - 1 else 1) * int (digitsNat es))"
proof -
  obtain c cs where c: "es = c # cs" "isDigit c" using assms(1,2) by (cases es) auto
  have "parseExpDigits orig 0 es = Inr (digitsNat es)"
    using parseExpDigits_value [of es 0] assms by simp
  then show ?thesis
    using c digit_not_special [OF c(2)]
    by (auto simp: parseExp_def signText_def split: option.splits bool.splits)
qed

lemma cutAt_mantissa:
  assumes "list_all isDigit (ip @ fracOf fp)"
  shows "cutAt isExpMark (mantText ip fp) = (mantText ip fp, None)"
    "isExpMark m \<Longrightarrow> cutAt isExpMark (mantText ip fp @ m # r) = (mantText ip fp, Some r)"
    "cutAt (\<lambda>c. c = CHR ''.'') (mantText ip fp) = (ip, fp)"
proof -
  have nm: "\<not> isExpMark c" if "c \<in> set (mantText ip fp)" for c
    using assms digit_not_special that
    by (auto simp: mantText_def fracOf_def list_all_iff isExpMark_def split: option.splits)
  have nd: "c \<noteq> CHR ''.''" if "c \<in> set ip" for c
    using assms digit_not_special that by (auto simp: list_all_iff)
  show "cutAt isExpMark (mantText ip fp) = (mantText ip fp, None)"
    using nm by (rule cutAt_none)
  show "isExpMark m \<Longrightarrow> cutAt isExpMark (mantText ip fp @ m # r) = (mantText ip fp, Some r)"
    using nm by (rule cutAt_some)
  show "cutAt (\<lambda>c. c = CHR ''.'') (mantText ip fp) = (ip, fp)"
    using cutAt_none [of ip "\<lambda>c. c = CHR ''.''"] cutAt_some [of ip "\<lambda>c. c = CHR ''.''" "CHR ''.''"] nd
    by (auto simp: mantText_def split: option.splits)
qed

lemma ParseDecimal_text:
  assumes "wellFormedNumber ip fp oe"
  shows "ParseDecimal (numberText s ip fp oe) =
    finishParse (numberText s ip fp oe) (s = Some True) ip (fracOf fp) (expVal oe)"
proof -
  let ?t = "mantText ip fp @ expText oe" and ?orig = "numberText s ip fp oe"
  have dig: "list_all isDigit (ip @ fracOf fp)" "ip @ fracOf fp \<noteq> []"
    using assms by (auto simp: wellFormedNumber_def)
  have ne: "mantText ip fp \<noteq> []"
    using dig(2) by (auto simp: mantText_def fracOf_def split: option.splits)
  have hd: "hd ?t \<noteq> CHR ''+'' \<and> hd ?t \<noteq> CHR ''-''"
    using dig ne digit_not_special
    by (cases ip) (auto simp: mantText_def fracOf_def split: option.splits)
  have cs: "cutSign ?orig = (s = Some True, ?t)"
    using hd ne by (cases ?t) (auto simp: cutSign_def numberText_def signText_def split: option.splits bool.splits)
  have ce: "cutAt isExpMark ?t = (mantText ip fp, snd (cutAt isExpMark ?t))"
      "(case snd (cutAt isExpMark ?t) of None \<Rightarrow> Inr 0 | Some es \<Rightarrow> parseExp ?orig es) = Inr (expVal oe)"
    using assms cutAt_mantissa(1,2) [OF dig(1)] parseExp_text [of _ ?orig]
    by (auto simp: wellFormedNumber_def expText_def expVal_def split: option.splits prod.splits)
  have "?orig \<noteq> []"
    using ne by (simp add: numberText_def)
  then have "ParseDecimal ?orig = (case (case snd (cutAt isExpMark ?t) of None \<Rightarrow> Inr 0 | Some es \<Rightarrow> parseExp ?orig es) of
      Inl err \<Rightarrow> Inl err
    | Inr expPart \<Rightarrow> finishParse ?orig (s = Some True) ip (fracOf fp) expPart)"
    using cutAt_mantissa(3) [OF dig(1)] ce(1)
    by (simp add: ParseDecimal_def cs fracOf_def split_beta split: sum.splits)
       (metis fst_conv snd_conv)
  then show ?thesis by (simp add: ce(2))
qed

text \<open>ParseDecimal reads a number exactly. On well-formed text, with or without sign, point and
  exponent, a successful parse returns the decimal that stands for the number written.\<close>

theorem ParseDecimal_value:
  assumes "wellFormedNumber ip fp oe" and "ParseDecimal (numberText s ip fp oe) = Inr d"
  shows "val d = (if s = Some True then - 1 else 1) * of_nat (digitsNat (ip @ fracOf fp)) *
    10 powi (expVal oe - int (length (fracOf fp)))"
  using finishParse_cases(4) [OF assms(2) [unfolded ParseDecimal_text [OF assms(1)]]]
  by (simp add: mval_def algebra_simps)

subsection \<open>Printing and parsing back\<close>

lemma stripLead_zeros: "s \<noteq> [] \<Longrightarrow> hd s \<noteq> CHR ''0'' \<Longrightarrow>
   takeWhile (\<lambda>c. c = CHR ''0'') (zeros n @ s) = zeros n \<and> stripLead (zeros n @ s) = s"
  by (cases s) (auto simp: stripLead_def zeros_def takeWhile_append)

lemma stripTrail_zeros:
  assumes "s \<noteq> []" "last s \<noteq> CHR ''0''"
  shows "stripTrail (s @ zeros n) = s"
proof -
  have "rev (s @ zeros n) = zeros n @ rev s" by (simp add: zeros_def)
  moreover have "hd (rev s) \<noteq> CHR ''0''" using assms by (simp add: hd_rev)
  ultimately have "dropWhile (\<lambda>c. c = CHR ''0'') (rev (s @ zeros n)) = rev s"
    using stripLead_zeros [of "rev s" n] assms(1) by (metis dropWhile_eq_drop rev_is_Nil_conv stripLead_def)
  then show ?thesis by (simp add: stripTrail_def)
qed

lemma finishParse_pad:
  assumes "normal d" "digits d \<noteq> []" "inRange d"
    and "ip @ fp = zeros n @ digits d @ zeros m" and "int (length ip) + e - int n = exp d"
  shows "finishParse orig sg ip fp e = Inr (d\<lparr>neg := sg\<rparr>)"
proof -
  note d = normalD [OF assms(1,2)]
  have l: "takeWhile (\<lambda>c. c = CHR ''0'') (ip @ fp) = zeros n" "stripLead (ip @ fp) = digits d @ zeros m"
    using stripLead_zeros [of "digits d @ zeros m" n] assms(2,4) d(2) by simp_all
  have t: "stripTrail (stripLead (ip @ fp)) = digits d"
    using l(2) stripTrail_zeros d(3) assms(2) by simp
  have "list_all isDigit (ip @ fp)" "ip @ fp \<noteq> []"
    using assms(2,4) d(1) by simp_all
  then show ?thesis
    using t l(1) assms(2,3,5) by (cases d) (auto simp: finishParse_strip Let_def inRange_def)
qed

lemma itoaLoop_natStr: "itoaLoop n buf = (if n = 0 then buf else natStr n @ buf)"
proof (induction n buf rule: itoaLoop.induct)
  case (1 n buf)
  show ?case
  proof (cases "n < 10")
    case True
    then show ?thesis
      using 1 by (subst itoaLoop.simps, subst natStr.simps) auto
  next
    case False
    then show ?thesis
      using 1 by (subst itoaLoop.simps, subst natStr.simps) auto
  qed
qed

lemma digitsNat_natStr: "digitsNat (natStr n) = n"
proof (induction n rule: natStr.induct)
  case (1 n)
  then show ?case
    by (cases "n < 10") (simp_all add: natStr.simps [of n] digitsNat_append digitsNat_Cons)
qed

lemma natStr_digits: "list_all isDigit (natStr n)"
  using natStr_isDigit by (auto simp: list_all_iff)

text \<open>The three shapes \<^verbatim>\<open>String\<close> prints, as number text.\<close>

lemma String_shape:
  assumes "normal d" "digits d \<noteq> []" "inRange d"
  obtains ip fp oe n m where
    "String d = numberText (if neg d then Some True else None) ip fp oe" "wellFormedNumber ip fp oe"
    "ip @ fracOf fp = zeros n @ digits d @ zeros m" "int (length ip) + expVal oe - int n = exp d"
proof -
  let ?s = "if neg d then Some True else None" and ?ds = "digits d"
  note dd = normalD [OF assms(1,2)]
  consider (whole) "1 \<le> exp d" "exp d \<le> 38" "int (length ?ds) \<le> exp d"
    | (point) "1 \<le> exp d" "exp d \<le> 38" "exp d < int (length ?ds)"
    | (frac) "exp d \<le> 0" "- 6 < exp d" | (sci) "\<not> (1 \<le> exp d \<and> exp d \<le> 38)" "\<not> (exp d \<le> 0 \<and> - 6 < exp d)"
    by linarith
  then show ?thesis
  proof cases
    case whole
    have "String d = numberText ?s (?ds @ zeros (nat (exp d - int (length ?ds)))) None None"
      using whole assms(2) by (simp add: String_def IsZero_def numberText_def signText_def mantText_def expText_def)
    then show ?thesis
      using whole dd assms(2) by (intro that [where n = 0 and m = "nat (exp d - int (length ?ds))"])
        (auto simp: wellFormedNumber_def fracOf_def expVal_def)
  next
    case point
    have "String d = numberText ?s (take (nat (exp d)) ?ds) (Some (drop (nat (exp d)) ?ds)) None"
      using point assms(2) by (simp add: String_def IsZero_def numberText_def signText_def mantText_def expText_def)
    then show ?thesis
      using point dd assms(2) by (intro that [where n = 0 and m = 0])
        (auto simp: wellFormedNumber_def fracOf_def expVal_def list_all_iff dest: in_set_takeD in_set_dropD)
  next
    case frac
    have "String d = numberText ?s ''0'' (Some (zeros (nat (- exp d)) @ ?ds)) None"
      using frac assms(2) by (simp add: String_def IsZero_def numberText_def signText_def mantText_def expText_def)
    then show ?thesis
      using frac dd by (intro that [where n = "Suc (nat (- exp d))" and m = 0])
        (auto simp: wellFormedNumber_def fracOf_def expVal_def zeros_Suc isDigit_def)
  next
    case sci
    let ?e = "exp d - 1"
    let ?oe = "Some (CHR ''E'', Some (?e < 0), natStr (nat \<bar>?e\<bar>))"
    let ?fp = "if length ?ds > 1 then Some (drop 1 ?ds) else None"
    have e: "\<bar>?e\<bar> \<le> 1000" "?e \<noteq> 0" using assms(3) sci by (auto simp: inRange_def)
    have "String d = numberText ?s (take 1 ?ds) ?fp ?oe"
      using sci assms(2) e(2)
      by (auto simp: String_def IsZero_def numberText_def signText_def mantText_def expText_def itoa_def itoaLoop_natStr)
    moreover have "take 1 ?ds @ fracOf ?fp = ?ds"
      using assms(2) by (cases ?ds) (auto simp: fracOf_def)
    moreover have "min (length ?ds) (Suc 0) = Suc 0"
      using assms(2) by (cases ?ds) auto
    ultimately show ?thesis
      using e dd assms(2) natStr_digits by (intro that [where n = 0 and m = 0])
        (auto simp: wellFormedNumber_def expVal_def isExpMark_def digitsNat_natStr list_all_append
          dest: arg_cong [where f = length] simp flip: list_all_append)
  qed
qed

lemma ParseDecimal_String:
  "normal d \<Longrightarrow> inRange d \<Longrightarrow> ParseDecimal (String d) = Inr d"
proof (cases "digits d = []")
  case True
  assume "normal d"
  then have "d = Zero" using True by (simp add: normal_def)
  moreover have "ParseDecimal (String Zero) = Inr Zero" by code_simp
  ultimately show ?thesis by simp
next
  case False
  assume d: "normal d" "inRange d"
  obtain ip fp oe n m where
    "String d = numberText (if neg d then Some True else None) ip fp oe" "wellFormedNumber ip fp oe"
    "ip @ fracOf fp = zeros n @ digits d @ zeros m" "int (length ip) + expVal oe - int n = exp d"
    using String_shape d False by blast
  then show ?thesis
    using ParseDecimal_text finishParse_pad [OF d(1) False d(2)] by simp
qed

text \<open>C9: printing a decimal and parsing it back is the identity: for every normalised decimal in
  DynamoDB's range, ParseDecimal of String returns that decimal, so a number survives the wire form and
  the stored form.\<close>

theorem String_ParseDecimal_roundtrip:
  "normal d \<Longrightarrow> inRange d \<Longrightarrow> ParseDecimal (String d) = Inr d"
  by (rule ParseDecimal_String)

subsection \<open>Compare is a total order on normalised decimals\<close>

lemma compareMagnitude_eq_0:
  assumes "normal m" "normal n" "\<not> IsZero m" "\<not> IsZero n" "compareMagnitude m n = 0"
  shows "exp m = exp n \<and> digits m = digits n"
  using assms stripTrail_zeros [of "digits m"] stripTrail_zeros [of "digits n"]
  by (auto simp: compareMagnitude_def strCompare_def padTo_def normal_def IsZero_def split: if_splits) metis

lemma compareMagnitude_flip: "compareMagnitude m n = - compareMagnitude n m"
  by (auto simp: compareMagnitude_def strCompare_def)

lemma compareMagnitude_range: "compareMagnitude m n \<in> {- 1, 0, 1}"
  by (auto simp: compareMagnitude_def strCompare_def)

lemma Compare_eq_0:
  assumes "normal m" "normal n"
  shows "Compare m n = 0 \<longleftrightarrow> m = n"
proof
  assume c: "Compare m n = 0"
  show "m = n"
  proof (cases "IsZero m \<or> IsZero n")
    case True
    then have "IsZero m" "IsZero n" using c by (auto simp: Compare_def split: if_splits)
    then show ?thesis using assms by (auto simp: IsZero_def normal_def)
  next
    case False
    then have "neg m = neg n" "compareMagnitude m n = 0"
      using c by (auto simp: Compare_def Let_def split: if_splits)
    then show ?thesis using False compareMagnitude_eq_0 [OF assms] by simp
  qed
qed (simp add: Compare_def compareMagnitude_def strCompare_def)

lemma Compare_flip: "Compare m n = - Compare n m"
  using compareMagnitude_flip [of m n] by (auto simp: Compare_def Let_def)

lemma Compare_range: "Compare m n \<in> {- 1, 0, 1}"
  using compareMagnitude_range [of m n] by (auto simp: Compare_def Let_def)

subsection \<open>Instances\<close>

definition oneE38 :: decimal where
  "oneE38 = \<lparr>neg = False, digits = ''1'', exp = 39\<rparr>"

definition minusHalf :: decimal where
  "minusHalf = \<lparr>neg = True, digits = ''5'', exp = 0\<rparr>"

definition one :: decimal where
  "one = \<lparr>neg = False, digits = ''1'', exp = 1\<rparr>"

lemma sample_normal: "normal oneE38" "normal minusHalf" "normal one" "inRange minusHalf" "inRange oneE38" "inRange one"
  by code_simp+

theorem Compare_numeric_witness: "cmp (val minusHalf) (val one) = - 1"
  using Compare_numeric [OF sample_normal(2,3)] by (simp add: Compare_def IsZero_def minusHalf_def one_def)

theorem Add_Sub_exact_witness: "val (Add one minusHalf) = 1 / 2 \<and> val (Sub one minusHalf) = 3 / 2"
  using Add_Sub_exact [OF sample_normal(3,2)]
  by (simp add: val_def mval_def minusHalf_def one_def digitsNat_def digitVal_def power_int_minus)

theorem ParseDecimal_normal_witness: "normal minusHalf \<and> inRange minusHalf"
proof -
  have "ParseDecimal ''-000.50'' = Inr minusHalf" by code_simp
  then show ?thesis by (rule ParseDecimal_normal)
qed

theorem ParseDecimal_value_witness: "val minusHalf = - (1 / 2)"
proof -
  have w: "wellFormedNumber ''5'' None (Some (CHR ''e'', Some True, ''1''))"
    and p: "ParseDecimal (numberText (Some True) ''5'' None (Some (CHR ''e'', Some True, ''1''))) = Inr minusHalf"
    by code_simp+
  show ?thesis
    using ParseDecimal_value [OF w p]
    by (simp add: fracOf_def expVal_def digitsNat_def digitVal_def power_int_minus)
qed

theorem String_ParseDecimal_roundtrip_witness:
  "ParseDecimal (String oneE38) = Inr oneE38"
  by (rule String_ParseDecimal_roundtrip [OF sample_normal(1,5)])

text \<open>The sum of two numbers in range may leave it, and Add does not check: the printed sum is
  refused by the parser, so an item whose number attribute was updated this way cannot be read back from
  its stored form.\<close>

theorem Add_result_not_readable:
  "inRange oneE38 \<and> inRange one \<and> normal oneE38 \<and> normal one \<and>
   ParseDecimal (String (Add oneE38 one)) = Inl (TooManyDigits (String (Add oneE38 one)))"
  by code_simp

end
