(* ===== verification/Base64.thy ===== *)
theory Base64
  imports Prelude
begin

text \<open>
  The part of \<^verbatim>\<open>encoding/base64\<close> that the sources use: the padded standard alphabet
  (\<^verbatim>\<open>StdEncoding\<close>) and the unpadded URL alphabet (\<^verbatim>\<open>RawURLEncoding\<close>). The decoder skips carriage
  returns and line feeds, wants padding exactly where the encoding writes it, and does not look at
  the unused low bits of a final group. The main lemma is that decoding an encoding gives the bytes back.
\<close>

datatype base64 = StdEncoding | RawURLEncoding

definition b64Letters :: string where
  "b64Letters = ''ABCDEFGHIJKLMNOPQRSTUVWXYZabcdefghijklmnopqrstuvwxyz0123456789''"

fun b64Alphabet :: "base64 \<Rightarrow> string" where
  "b64Alphabet StdEncoding = b64Letters @ ''+/''"
| "b64Alphabet RawURLEncoding = b64Letters @ ''-_''"

fun b64Pad :: "base64 \<Rightarrow> nat \<Rightarrow> string" where
  "b64Pad StdEncoding n = replicate n (CHR ''='')"
| "b64Pad RawURLEncoding n = []"

definition b64Char :: "base64 \<Rightarrow> nat \<Rightarrow> char" where
  "b64Char E n = b64Alphabet E ! (n mod 64)"

fun indexOf :: "nat \<Rightarrow> 'a list \<Rightarrow> 'a \<Rightarrow> nat option" where
  "indexOf i [] c = None"
| "indexOf i (x # xs) c = (if x = c then Some i else indexOf (Suc i) xs c)"

definition b64Val :: "base64 \<Rightarrow> char \<Rightarrow> nat option" where
  "b64Val E c = indexOf 0 (b64Alphabet E) c"

fun EncodeToString :: "base64 \<Rightarrow> bytes \<Rightarrow> string" where
  "EncodeToString E [] = []"
| "EncodeToString E [a] =
     [b64Char E (unat a div 4), b64Char E (unat a mod 4 * 16)] @ b64Pad E 2"
| "EncodeToString E [a, b] =
     [b64Char E (unat a div 4), b64Char E (unat a mod 4 * 16 + unat b div 16),
      b64Char E (unat b mod 16 * 4)] @ b64Pad E 1"
| "EncodeToString E (a # b # c # rest) =
     [b64Char E (unat a div 4), b64Char E (unat a mod 4 * 16 + unat b div 16),
      b64Char E (unat b mod 16 * 4 + unat c div 64), b64Char E (unat c mod 64)] @ EncodeToString E rest"

definition b64Bytes :: "nat list \<Rightarrow> bytes" where
  "b64Bytes vs =
     (case vs of
        [p, q] \<Rightarrow> [of_nat (p * 4 + q div 16)]
      | [p, q, r] \<Rightarrow> [of_nat (p * 4 + q div 16), of_nat (q mod 16 * 16 + r div 4)]
      | [p, q, r, s] \<Rightarrow>
          [of_nat (p * 4 + q div 16), of_nat (q mod 16 * 16 + r div 4), of_nat (r mod 4 * 64 + s)]
      | _ \<Rightarrow> [])"

definition b64Group :: "base64 \<Rightarrow> string \<Rightarrow> bytes option" where
  "b64Group E s = map_option b64Bytes (those (map (b64Val E) s))"

fun b64Decode :: "base64 \<Rightarrow> string \<Rightarrow> bytes option" where
  "b64Decode E [] = Some []"
| "b64Decode E (p # q # r # s # rest) =
     (if E = StdEncoding \<and> s = CHR ''='' \<and> rest = [] then b64Group E (if r = CHR ''='' then [p, q] else [p, q, r])
      else case b64Group E [p, q, r, s] of
             None \<Rightarrow> None
           | Some bs \<Rightarrow> map_option (append bs) (b64Decode E rest))"
| "b64Decode E [p] = None"
| "b64Decode E [p, q] = (if E = RawURLEncoding then b64Group E [p, q] else None)"
| "b64Decode E [p, q, r] = (if E = RawURLEncoding then b64Group E [p, q, r] else None)"

definition DecodeString :: "base64 \<Rightarrow> string \<Rightarrow> bytes option" where
  "DecodeString E s = b64Decode E (filter (\<lambda>c. c \<noteq> CHR 0x0A \<and> c \<noteq> CHR 0x0D) s)"

lemma indexOf_nth:
  "distinct xs \<Longrightarrow> n < length xs \<Longrightarrow> indexOf i xs (xs ! n) = Some (i + n)"
proof (induction xs arbitrary: i n)
  case (Cons x xs)
  then show ?case by (cases n) auto
qed simp

lemma b64Letters_shape:
  "distinct b64Letters" "length b64Letters = 62" "set b64Letters \<inter> {CHR ''+'', CHR ''/'', CHR ''-'', CHR ''_'', CHR ''='', CHR 0x0A, CHR 0x0D} = {}"
  unfolding b64Letters_def by simp_all

lemma b64Alphabet_shape:
  "distinct (b64Alphabet E)" "length (b64Alphabet E) = 64" "CHR ''='' \<notin> set (b64Alphabet E)"
  "CHR 0x0A \<notin> set (b64Alphabet E)" "CHR 0x0D \<notin> set (b64Alphabet E)"
  using b64Letters_shape by (cases E; auto)+

lemma b64Val_Char [simp]: "b64Val E (b64Char E n) = Some (n mod 64)"
  by (simp add: b64Val_def b64Char_def indexOf_nth b64Alphabet_shape)

lemma b64Char_in: "b64Char E n \<in> set (b64Alphabet E)"
  by (simp add: b64Char_def b64Alphabet_shape)

lemma b64Char_plain [simp]:
  "b64Char E n \<noteq> CHR ''=''" "b64Char E n \<noteq> CHR 0x0A" "b64Char E n \<noteq> CHR 0x0D"
  using b64Char_in [of E n] b64Alphabet_shape [of E] by metis+

lemma group_arith:
  fixes a b c :: nat
  assumes "a < 256" "b < 256" "c < 256"
  shows "a div 4 mod 64 * 4 + a mod 4 * 16 mod 64 div 16 = a"
    "a div 4 mod 64 * 4 + (a mod 4 * 16 + b div 16) mod 64 div 16 = a"
    "(a mod 4 * 16 + b div 16) mod 64 mod 16 * 16 + b mod 16 * 4 mod 64 div 4 = b"
    "(a mod 4 * 16 + b div 16) mod 64 mod 16 * 16 + (b mod 16 * 4 + c div 64) mod 64 div 4 = b"
    "(b mod 16 * 4 + c div 64) mod 64 mod 4 * 64 + c mod 64 mod 64 = c"
proof -
  have "a mod 4 * 16 + b div 16 < 64" "b mod 16 * 4 + c div 64 < 64" "a div 4 < 64" "b div 16 < 16" "c div 64 < 4"
    using assms by (auto simp: less_mult_imp_div_less)
  then show "a div 4 mod 64 * 4 + a mod 4 * 16 mod 64 div 16 = a"
    "a div 4 mod 64 * 4 + (a mod 4 * 16 + b div 16) mod 64 div 16 = a"
    "(a mod 4 * 16 + b div 16) mod 64 mod 16 * 16 + b mod 16 * 4 mod 64 div 4 = b"
    "(a mod 4 * 16 + b div 16) mod 64 mod 16 * 16 + (b mod 16 * 4 + c div 64) mod 64 div 4 = b"
    "(b mod 16 * 4 + c div 64) mod 64 mod 4 * 64 + c mod 64 mod 64 = c"
    by simp_all
qed

lemma unat_byte: "unat (a :: 8 word) < 256"
  using unsigned_less [of a] by simp

lemma b64Group_encode:
  "b64Group E [b64Char E (unat a div 4), b64Char E (unat a mod 4 * 16)] = Some [a]"
  "b64Group E [b64Char E (unat a div 4), b64Char E (unat a mod 4 * 16 + unat b div 16), b64Char E (unat b mod 16 * 4)]
     = Some [a, b]"
  "b64Group E [b64Char E (unat a div 4), b64Char E (unat a mod 4 * 16 + unat b div 16),
      b64Char E (unat b mod 16 * 4 + unat c div 64), b64Char E (unat c mod 64)] = Some [a, b, c]"
  by (simp_all only: b64Group_def b64Bytes_def those.simps list.map option.map b64Val_Char list.case option.case
      group_arith [OF unat_byte unat_byte unat_byte] of_nat_unat)
    simp_all

lemma b64Decode_encode: "b64Decode E (EncodeToString E bs) = Some bs"
proof (induction E bs rule: EncodeToString.induct)
  case (2 E a)
  then show ?case by (cases E) (simp_all add: b64Group_encode numeral_2_eq_2)
next
  case (3 E a b)
  then show ?case by (cases E) (simp_all add: b64Group_encode)
next
  case (4 E a b c rest)
  then show ?case by (simp add: b64Group_encode)
qed simp

lemma EncodeToString_chars: "set (EncodeToString E bs) \<subseteq> set (b64Alphabet E) \<union> {CHR ''=''}"
proof -
  have "set (b64Pad E n) \<subseteq> {CHR ''=''}" for E n by (cases E) auto
  then show ?thesis
    by (induction E bs rule: EncodeToString.induct) (auto simp: b64Char_in)
qed

lemma DecodeString_EncodeToString: "DecodeString E (EncodeToString E bs) = Some bs"
proof -
  have "c \<noteq> CHR 0x0A \<and> c \<noteq> CHR 0x0D" if "c \<in> set (EncodeToString E bs)" for c
    using that EncodeToString_chars [of E bs] b64Alphabet_shape(4,5) [of E] by fastforce
  then show ?thesis by (simp add: DecodeString_def b64Decode_encode filter_id_conv)
qed

end
