(* ===== verification/Item.thy ===== *)
theory Item
  imports Decimal Base64
begin

text \<open>
  DynamoDB attribute values, \<^verbatim>\<open>internal/ddb/item/item.go\<close>: the tagged union of the ten types
  (the Go struct carries the tag in its field \<^verbatim>\<open>Type\<close>).
\<close>

datatype attrType = TypeS | TypeN | TypeB | TypeBool | TypeNull | TypeM | TypeL | TypeSS | TypeNS | TypeBS

datatype attrValue =
    VS string
  | VN decimal
  | VB bytes
  | VBool bool
  | VNull
  | VM "(string \<times> attrValue) list"
  | VL "attrValue list"
  | VSS "string list"
  | VNS "decimal list"
  | VBS "bytes list"

fun typeOf :: "attrValue \<Rightarrow> attrType" where
  "typeOf (VS _) = TypeS"
| "typeOf (VN _) = TypeN"
| "typeOf (VB _) = TypeB"
| "typeOf (VBool _) = TypeBool"
| "typeOf VNull = TypeNull"
| "typeOf (VM _) = TypeM"
| "typeOf (VL _) = TypeL"
| "typeOf (VSS _) = TypeSS"
| "typeOf (VNS _) = TypeNS"
| "typeOf (VBS _) = TypeBS"

text \<open>Errors of the decoder, one constructor per message.\<close>

datatype itemError =
    MalformedValue
  | TypeKeys nat
  | NotAString attrType
  | NotBase64 attrType
  | NotABool
  | NotAnObject
  | NotAnArray attrType
  | EmptySet attrType
  | DuplicateMembers attrType
  | BadNumber decimalError
  | UnknownType string
  | MalformedItem

definition wireTag :: "attrType \<Rightarrow> string" where
  "wireTag t =
     (case t of
        TypeS \<Rightarrow> ''S'' | TypeN \<Rightarrow> ''N'' | TypeB \<Rightarrow> ''B'' | TypeBool \<Rightarrow> ''BOOL'' | TypeNull \<Rightarrow> ''NULL''
      | TypeM \<Rightarrow> ''M'' | TypeL \<Rightarrow> ''L'' | TypeSS \<Rightarrow> ''SS'' | TypeNS \<Rightarrow> ''NS'' | TypeBS \<Rightarrow> ''BS'')"

definition tagType :: "string \<Rightarrow> attrType option" where
  "tagType s =
     map_of (map (\<lambda>t. (wireTag t, t))
       [TypeS, TypeN, TypeB, TypeBool, TypeNull, TypeM, TypeL, TypeSS, TypeNS, TypeBS]) s"

fun hasDupLoop :: "string list \<Rightarrow> string list \<Rightarrow> bool" where
  "hasDupLoop seen [] = False"
| "hasDupLoop seen (s # ss) = (s \<in> set seen \<or> hasDupLoop (s # seen) ss)"

definition hasDupStrings :: "string list \<Rightarrow> bool" where
  "hasDupStrings ss = hasDupLoop [] ss"

text \<open>The doubly nested loops over the pairs \<open>i < j\<close> of the number and binary sets.\<close>

fun somePair :: "('a \<Rightarrow> 'a \<Rightarrow> bool) \<Rightarrow> 'a list \<Rightarrow> bool" where
  "somePair p [] = False"
| "somePair p (x # xs) = (list_ex (p x) xs \<or> somePair p xs)"

definition parseMember :: "string \<Rightarrow> itemError + decimal" where
  "parseMember s = (case ParseDecimal s of Inl e \<Rightarrow> Inl (BadNumber e) | Inr d \<Rightarrow> Inr d)"

definition decodeMember :: "string \<Rightarrow> itemError + bytes" where
  "decodeMember s = (case DecodeString StdEncoding s of None \<Rightarrow> Inl (NotBase64 TypeBS) | Some b \<Rightarrow> Inr b)"

text \<open>
  The decoder. A Go map is traversed in the order its members were first written, one of the orders
  the runtime may choose: the order only decides which of several errors is reported.
\<close>

function (sequential) FromJSON :: "json \<Rightarrow> itemError + attrValue"
  and fromTagged :: "string \<Rightarrow> json \<Rightarrow> itemError + attrValue" where
  "FromJSON j =
     (case unmarshalMap j of
        None \<Rightarrow> Inl MalformedValue
      | Some m \<Rightarrow> (case m of [(tag, inner)] \<Rightarrow> fromTagged tag inner | _ \<Rightarrow> Inl (TypeKeys (length m))))"
| "fromTagged tag inner =
     (case tagType tag of
        None \<Rightarrow> Inl (UnknownType tag)
      | Some TypeS \<Rightarrow> (case unmarshalString inner of None \<Rightarrow> Inl (NotAString TypeS) | Some s \<Rightarrow> Inr (VS s))
      | Some TypeN \<Rightarrow>
          (case unmarshalString inner of
             None \<Rightarrow> Inl (NotAString TypeN)
           | Some s \<Rightarrow> (case parseMember s of Inl e \<Rightarrow> Inl e | Inr d \<Rightarrow> Inr (VN d)))
      | Some TypeB \<Rightarrow>
          (case unmarshalString inner of
             None \<Rightarrow> Inl (NotAString TypeB)
           | Some s \<Rightarrow> (case DecodeString StdEncoding s of None \<Rightarrow> Inl (NotBase64 TypeB) | Some b \<Rightarrow> Inr (VB b)))
      | Some TypeBool \<Rightarrow> (case unmarshalBool inner of None \<Rightarrow> Inl NotABool | Some b \<Rightarrow> Inr (VBool b))
      | Some TypeNull \<Rightarrow> Inr VNull
      | Some TypeM \<Rightarrow>
          (case unmarshalMap inner of
             None \<Rightarrow> Inl NotAnObject
           | Some mm \<Rightarrow>
               (case traverse (\<lambda>kv. FromJSON (snd kv)) mm of
                  Inl e \<Rightarrow> Inl e
                | Inr vs \<Rightarrow> Inr (VM (zip (map fst mm) vs))))
      | Some TypeL \<Rightarrow>
          (case unmarshalList inner of
             None \<Rightarrow> Inl (NotAnArray TypeL)
           | Some list \<Rightarrow> (case traverse FromJSON list of Inl e \<Rightarrow> Inl e | Inr vs \<Rightarrow> Inr (VL vs)))
      | Some TypeSS \<Rightarrow>
          (case unmarshalStrings inner of
             None \<Rightarrow> Inl (NotAnArray TypeSS)
           | Some ss \<Rightarrow>
               if ss = [] then Inl (EmptySet TypeSS)
               else if hasDupStrings ss then Inl (DuplicateMembers TypeSS)
               else Inr (VSS ss))
      | Some TypeNS \<Rightarrow>
          (case unmarshalStrings inner of
             None \<Rightarrow> Inl (NotAnArray TypeNS)
           | Some ss \<Rightarrow>
               if ss = [] then Inl (EmptySet TypeNS)
               else case traverse parseMember ss of
                      Inl e \<Rightarrow> Inl e
                    | Inr out \<Rightarrow>
                        if somePair (\<lambda>x y. Compare x y = 0) out then Inl (DuplicateMembers TypeNS)
                        else Inr (VNS out))
      | Some TypeBS \<Rightarrow>
          (case unmarshalStrings inner of
             None \<Rightarrow> Inl (NotAnArray TypeBS)
           | Some ss \<Rightarrow>
               if ss = [] then Inl (EmptySet TypeBS)
               else case traverse decodeMember ss of
                      Inl e \<Rightarrow> Inl e
                    | Inr out \<Rightarrow>
                        if somePair (\<lambda>x y. x = y) out then Inl (DuplicateMembers TypeBS)
                        else Inr (VBS out)))"
  by pat_completeness auto
termination
proof (relation "measure (\<lambda>x. case x of Inl j \<Rightarrow> 2 * size j | Inr (_, j) \<Rightarrow> 2 * size j + 1)")
qed (auto dest: unmarshalMap_size unmarshalList_size)

definition ItemFromJSON :: "json \<Rightarrow> itemError + (string \<times> attrValue) list" where
  "ItemFromJSON j =
     (case unmarshalMap j of
        None \<Rightarrow> Inl MalformedItem
      | Some m \<Rightarrow>
          (case traverse (\<lambda>kv. FromJSON (snd kv)) m of
             Inl e \<Rightarrow> Inl e
           | Inr vs \<Rightarrow> Inr (zip (map fst m) vs)))"

text \<open>\<^verbatim>\<open>json.Marshal\<close> writes the members of a map sorted by key.\<close>

definition sortMembers :: "(string \<times> 'a) list \<Rightarrow> (string \<times> 'a) list" where
  "sortMembers m = sort_key fst m"

fun JSON :: "attrValue \<Rightarrow> json" where
  "JSON (VS s) = JObj [(''S'', JStr s)]"
| "JSON (VN d) = JObj [(''N'', JStr (String d))]"
| "JSON (VB b) = JObj [(''B'', JStr (EncodeToString StdEncoding b))]"
| "JSON (VBool b) = JObj [(''BOOL'', JBool b)]"
| "JSON VNull = JObj [(''NULL'', JBool True)]"
| "JSON (VM m) = JObj [(''M'', JObj (sortMembers (map (\<lambda>(k, v). (k, JSON v)) m)))]"
| "JSON (VL l) = JObj [(''L'', JArr (map JSON l))]"
| "JSON (VSS ss) = JObj [(''SS'', JArr (map JStr ss))]"
| "JSON (VNS ds) = JObj [(''NS'', JArr (map (\<lambda>d. JStr (String d)) ds))]"
| "JSON (VBS bs) = JObj [(''BS'', JArr (map (\<lambda>b. JStr (EncodeToString StdEncoding b)) bs))]"

definition ItemJSON :: "(string \<times> attrValue) list \<Rightarrow> json" where
  "ItemJSON it = JObj (sortMembers (map (\<lambda>(k, v). (k, JSON v)) it))"

text \<open>
  \<^verbatim>\<open>sort.Slice\<close> with the comparator of the code, as an insertion sort: Go's sort is not stable,
  and members that compare equal are not told apart afterwards.
\<close>

fun insertDecimal :: "decimal \<Rightarrow> decimal list \<Rightarrow> decimal list" where
  "insertDecimal d [] = [d]"
| "insertDecimal d (x # xs) = (if Compare x d < 0 then x # insertDecimal d xs else d # x # xs)"

definition sortedDecimals :: "decimal list \<Rightarrow> decimal list" where
  "sortedDecimals ds = foldr insertDecimal ds []"

definition sortedBytes :: "bytes list \<Rightarrow> bytes list" where
  "sortedBytes bs = sort bs"

definition sameStringSet :: "string list \<Rightarrow> string list \<Rightarrow> bool" where
  "sameStringSet a b = (length a = length b \<and> list_all (\<lambda>(x, y). x = y) (zip (sort a) (sort b)))"

function Equal :: "attrValue \<Rightarrow> attrValue \<Rightarrow> bool" where
  "Equal (VS a) v = (case v of VS b \<Rightarrow> a = b | _ \<Rightarrow> False)"
| "Equal (VN a) v = (case v of VN b \<Rightarrow> Compare a b = 0 | _ \<Rightarrow> False)"
| "Equal (VB a) v = (case v of VB b \<Rightarrow> a = b | _ \<Rightarrow> False)"
| "Equal (VBool a) v = (case v of VBool b \<Rightarrow> a = b | _ \<Rightarrow> False)"
| "Equal VNull v = (case v of VNull \<Rightarrow> True | _ \<Rightarrow> False)"
| "Equal (VM a) v =
     (case v of
        VM b \<Rightarrow>
          length a = length b \<and>
          list_all (\<lambda>kv. case map_of b (fst kv) of None \<Rightarrow> False | Some bv \<Rightarrow> Equal (snd kv) bv) a
      | _ \<Rightarrow> False)"
| "Equal (VL a) v =
     (case v of
        VL b \<Rightarrow> length a = length b \<and> list_all (\<lambda>xy. Equal (fst xy) (snd xy)) (zip a b)
      | _ \<Rightarrow> False)"
| "Equal (VSS a) v = (case v of VSS b \<Rightarrow> sameStringSet a b | _ \<Rightarrow> False)"
| "Equal (VNS a) v =
     (case v of
        VNS b \<Rightarrow>
          length a = length b \<and>
          list_all (\<lambda>(x, y). Compare x y = 0) (zip (sortedDecimals a) (sortedDecimals b))
      | _ \<Rightarrow> False)"
| "Equal (VBS a) v =
     (case v of
        VBS b \<Rightarrow> length a = length b \<and> list_all (\<lambda>(x, y). x = y) (zip (sortedBytes a) (sortedBytes b))
      | _ \<Rightarrow> False)"
  by pat_completeness auto
termination
proof (relation "measure (\<lambda>(a, _). size a)", goal_cases)
  case (2 a v b kv bv)
  then have "size_prod (\<lambda>_. 0) size kv \<le> size_list (size_prod (\<lambda>_. 0) size) a" by (simp add: size_list_estimation')
  then show ?case by (cases kv) simp
next
  case (3 a v b xy)
  then have "fst xy \<in> set a" by (metis in_set_zipE prod.collapse)
  then show ?case by (cases xy) (simp add: size_list_estimation' less_Suc_eq_le)
qed simp

definition numberSize :: "decimal \<Rightarrow> nat" where
  "numberSize d = length (digits d) div 2 + 1"

fun valueSize :: "attrValue \<Rightarrow> nat" where
  "valueSize (VS s) = length s"
| "valueSize (VN d) = numberSize d"
| "valueSize (VB b) = length b"
| "valueSize (VBool _) = 1"
| "valueSize VNull = 1"
| "valueSize (VM m) = 3 + sum_list (map (\<lambda>(k, v). length k + valueSize v + 1) m)"
| "valueSize (VL l) = 3 + sum_list (map (\<lambda>v. valueSize v + 1) l)"
| "valueSize (VSS ss) = sum_list (map length ss)"
| "valueSize (VNS ds) = sum_list (map numberSize ds)"
| "valueSize (VBS bs) = sum_list (map length bs)"

definition Size :: "(string \<times> attrValue) list \<Rightarrow> nat" where
  "Size it = sum_list (map (\<lambda>(k, v). length k + valueSize v) it)"

definition MaxItemSize :: nat where
  "MaxItemSize = 400 * 1024"

subsection \<open>Well-formed values and what they denote\<close>

text \<open>
  The invariant of a decoded value: numbers are normalised and in DynamoDB's range, sets are not
  empty and have no two equal members (numerically, for numbers), and no map has a key twice.
\<close>

fun wfValue :: "attrValue \<Rightarrow> bool" where
  "wfValue (VN d) = (normal d \<and> inRange d)"
| "wfValue (VM m) = (distinct (map fst m) \<and> list_all (\<lambda>(_, v). wfValue v) m)"
| "wfValue (VL l) = list_all wfValue l"
| "wfValue (VSS ss) = (ss \<noteq> [] \<and> distinct ss)"
| "wfValue (VNS ds) = (ds \<noteq> [] \<and> list_all (\<lambda>d. normal d \<and> inRange d) ds \<and> distinct ds)"
| "wfValue (VBS bs) = (bs \<noteq> [] \<and> distinct bs)"
| "wfValue _ = True"

text \<open>The value a representation stands for: numbers as rationals, sets as sets, maps as maps.\<close>

datatype avalue =
    AS string | AN rat | AB bytes | ABool bool | ANull
  | AM "string \<Rightarrow> avalue option" | AL "avalue list"
  | ASS "string set" | ANS "rat set" | ABS "bytes set"

fun denote :: "attrValue \<Rightarrow> avalue" where
  "denote (VS s) = AS s"
| "denote (VN d) = AN (val d)"
| "denote (VB b) = AB b"
| "denote (VBool b) = ABool b"
| "denote VNull = ANull"
| "denote (VM m) = AM (map_of (map (\<lambda>(k, v). (k, denote v)) m))"
| "denote (VL l) = AL (map denote l)"
| "denote (VSS ss) = ASS (set ss)"
| "denote (VNS ds) = ANS (val ` set ds)"
| "denote (VBS bs) = ABS (set bs)"

subsection \<open>Equality\<close>

lemma val_inject: "normal d \<Longrightarrow> normal e \<Longrightarrow> val d = val e \<longleftrightarrow> d = e"
  using Compare_cmp [of d e] Compare_eq_0 [of d e] by (auto simp: cmp_def split: if_splits)

lemma map_val_sortedDecimals:
  assumes "list_all normal ds"
  shows "map val (sortedDecimals ds) = sort (map val ds) \<and> list_all normal (sortedDecimals ds)"
proof -
  have ins: "map val (insertDecimal d xs) = insort (val d) (map val xs) \<and> list_all normal (insertDecimal d xs)"
    if "normal d" "list_all normal xs" for d xs
    using that
  proof (induction xs)
    case (Cons x xs)
    then have "Compare x d < 0 \<longleftrightarrow> val x < val d" by (simp add: Compare_cmp cmp_def)
    then show ?case using Cons by auto
  qed simp
  show ?thesis
    using assms by (induction ds) (auto simp: sortedDecimals_def ins sort_key_def)
qed

lemma zip_all_eq: "length xs = length ys \<Longrightarrow> list_all (\<lambda>(x, y). x = y) (zip xs ys) \<longleftrightarrow> xs = ys"
  by (induction xs ys rule: list_induct2) auto

lemma sort_eq_iff_set:
  fixes xs ys :: "'a::linorder list"
  assumes "distinct xs" "distinct ys"
  shows "length xs = length ys \<and> sort xs = sort ys \<longleftrightarrow> set xs = set ys"
  using assms by (metis distinct_card distinct_sort length_sort set_sort sorted_distinct_set_unique sorted_sort)

lemma Equal_numbers:
  assumes "list_all normal a" "list_all normal b" "distinct a" "distinct b"
  shows "length a = length b \<and> list_all (\<lambda>(x, y). Compare x y = 0) (zip (sortedDecimals a) (sortedDecimals b))
     \<longleftrightarrow> val ` set a = val ` set b"
proof -
  have inj: "inj_on val (set a)" "inj_on val (set b)"
    using assms by (auto simp: inj_on_def list_all_iff val_inject)
  have s: "map val (sortedDecimals a) = sort (map val a)" "map val (sortedDecimals b) = sort (map val b)"
    "list_all normal (sortedDecimals a)" "list_all normal (sortedDecimals b)"
    using map_val_sortedDecimals assms by auto
  have len: "length (sortedDecimals a) = length a" "length (sortedDecimals b) = length b"
    using arg_cong [OF s(1), of length] arg_cong [OF s(2), of length] by simp_all
  have "list_all (\<lambda>(x, y). Compare x y = 0) (zip xs ys) \<longleftrightarrow> map val xs = map val ys"
    if "length xs = length ys" "list_all normal xs" "list_all normal ys" for xs ys
    using that by (induction xs ys rule: list_induct2) (auto simp: Compare_cmp cmp_def)
  then have "length a = length b \<and> list_all (\<lambda>(x, y). Compare x y = 0) (zip (sortedDecimals a) (sortedDecimals b))
      \<longleftrightarrow> length (map val a) = length (map val b) \<and> sort (map val a) = sort (map val b)"
    using s len by auto
  also have "\<dots> \<longleftrightarrow> set (map val a) = set (map val b)"
    using assms inj by (intro sort_eq_iff_set) (simp_all add: distinct_map)
  finally show ?thesis by simp
qed

lemma map_of_denote: "map_of (map (\<lambda>(k, v). (k, f v)) m) = map_option f \<circ> map_of m"
  by (induction m) (auto simp: fun_eq_iff)

lemma Equal_members:
  assumes "distinct (map fst a)" "distinct (map fst b)"
  shows "length a = length b \<and>
       list_all (\<lambda>kv. case map_of b (fst kv) of None \<Rightarrow> False | Some bv \<Rightarrow> f (snd kv) = f bv) a
     \<longleftrightarrow> map_option f \<circ> map_of a = map_option f \<circ> map_of b" (is "?l \<longleftrightarrow> ?r")
proof
  assume l: ?l
  have sub: "\<exists>bv. map_of b k = Some bv \<and> f v = f bv" if "map_of a k = Some v" for k v
    using l map_of_SomeD [OF that] by (auto simp: list_all_iff split: option.splits)
  have dom: "dom (map_of a) \<subseteq> dom (map_of b)" using sub by blast
  have "card (dom (map_of a)) = card (dom (map_of b))"
    using l assms by (metis distinct_card dom_map_of_conv_image_fst length_map set_map)
  with dom have "dom (map_of a) = dom (map_of b)" by (simp add: card_subset_eq finite_dom_map_of)
  then have "map_option f (map_of a k) = map_option f (map_of b k)" for k
    using sub [of k] by (cases "map_of a k") (auto simp: domIff)
  then show ?r by (simp add: fun_eq_iff)
next
  assume r: ?r
  then have "dom (map_of a) = dom (map_of b)" by (metis dom_map_option_comp)
  then have "length a = length b"
    using assms by (metis distinct_card dom_map_of_conv_image_fst length_map set_map)
  moreover have "map_option f (map_of b k) = Some (f v)" if "(k, v) \<in> set a" for k v
    using that assms fun_cong [OF r, of k] by simp
  ultimately show ?l by (fastforce simp: list_all_iff split: option.splits)
qed

lemma Equal_denote_iff: "wfValue u \<Longrightarrow> wfValue v \<Longrightarrow> Equal u v \<longleftrightarrow> denote u = denote v"
proof (induction u v rule: Equal.induct)
  case (2 a v)
  then show ?case by (cases v) (simp_all add: Compare_eq_0 val_inject)
next
  case (6 a v)
  show ?case
  proof (cases v)
    case (VM b)
  have "Equal av bv \<longleftrightarrow> denote av = denote bv" if "(k, av) \<in> set a" "map_of b k = Some bv" for k av bv
  proof -
    have "wfValue av" "wfValue bv"
      using 6(2,3) VM that map_of_SomeD [OF that(2)] by (auto simp: list_all_iff)
    then show ?thesis using 6(1) [of b "(k, av)" bv] VM that by simp
  qed
  then have "Equal (VM a) (VM b) \<longleftrightarrow> length a = length b \<and>
      list_all (\<lambda>kv. case map_of b (fst kv) of None \<Rightarrow> False | Some bv \<Rightarrow> denote (snd kv) = denote bv) a"
    by (auto simp: list_all_iff split: option.splits)
  then show ?thesis using 6(2,3) VM Equal_members [of a b denote] by (simp add: map_of_denote)
  qed simp_all
next
  case (7 a v)
  show ?case
  proof (cases v)
    case (VL b)
  show ?thesis
  proof (cases "length a = length b")
    case True
    have "Equal (fst xy) (snd xy) \<longleftrightarrow> denote (fst xy) = denote (snd xy)" if "xy \<in> set (zip a b)" for xy
      using 7(1) [OF VL that] 7(2,3) VL that by (cases xy) (simp add: list_all_iff, metis in_set_zipE)
    then have "Equal (VL a) (VL b) \<longleftrightarrow> (\<forall>xy\<in>set (zip a b). denote (fst xy) = denote (snd xy))"
      using True by (simp add: list_all_iff)
    also have "\<dots> \<longleftrightarrow> map denote a = map denote b"
      using True by (induction a b rule: list_induct2) auto
    finally show ?thesis using VL by simp
  qed (use VL in \<open>auto dest: map_eq_imp_length_eq\<close>)
  qed simp_all
next
  case (8 a v)
  then show ?case
    using sort_eq_iff_set [of a] zip_all_eq [of "sort a"]
    by (cases v) (simp_all add: sameStringSet_def, metis length_sort)
next
  case (9 a v)
  then show ?case using Equal_numbers [of a] by (cases v) (auto simp: list_all_iff)
next
  case (10 a v)
  then show ?case
    using sort_eq_iff_set [of a] zip_all_eq [of "sort a"]
    by (cases v) (simp_all add: sortedBytes_def, metis length_sort)
qed (auto split: attrValue.splits)

subsection \<open>Decoding and encoding\<close>

lemma hasDupLoop_iff: "hasDupLoop seen ss \<longleftrightarrow> \<not> (distinct ss \<and> set ss \<inter> set seen = {})"
  by (induction ss arbitrary: seen) auto

lemma hasDupStrings_iff: "hasDupStrings ss \<longleftrightarrow> \<not> distinct ss"
  by (simp add: hasDupStrings_def hasDupLoop_iff)

lemma somePair_eq: "somePair (\<lambda>x y. x = y) xs \<longleftrightarrow> \<not> distinct xs"
  by (induction xs) (auto simp: list_ex_iff)

lemma somePair_Compare:
  "list_all normal ds \<Longrightarrow> somePair (\<lambda>x y. Compare x y = 0) ds \<longleftrightarrow> \<not> distinct ds"
  by (induction ds) (auto simp: list_ex_iff list_all_iff Compare_eq_0)

lemma parseMember_wf: "parseMember s = Inr d \<Longrightarrow> normal d \<and> inRange d"
  using ParseDecimal_sound [of s d] by (auto simp: parseMember_def split: sum.splits)

lemma parseMember_String: "normal d \<Longrightarrow> inRange d \<Longrightarrow> parseMember (String d) = Inr d"
  by (simp add: parseMember_def ParseDecimal_String)

lemma decodeMember_encode: "decodeMember (EncodeToString StdEncoding b) = Inr b"
  by (simp add: decodeMember_def DecodeString_EncodeToString)

lemma tagType_wireTag [simp]: "tagType (wireTag t) = Some t"
  by (cases t) (simp_all add: tagType_def wireTag_def)

lemma FromJSON_wf:
  "FromJSON j = Inr v \<Longrightarrow> wfValue v" "fromTagged tag inner = Inr v \<Longrightarrow> wfValue v"
proof (induction j and tag inner arbitrary: v and v rule: FromJSON_fromTagged.induct)
  case (1 j)
  then show ?case
    by (auto simp del: fromTagged.simps split: option.splits list.splits)
next
  case (2 tag inner)
  obtain t where t: "tagType tag = Some t" using 2(3) by (auto split: option.splits)
  show ?case
  proof (cases t)
    case TypeM
    then obtain mm vs where mm: "unmarshalMap inner = Some mm" "traverse (\<lambda>kv. FromJSON (snd kv)) mm = Inr vs"
      "v = VM (zip (map fst mm) vs)"
      using 2(3) t by (auto split: option.splits sum.splits)
    have "list_all wfValue vs"
      using mm(2) by (rule traverse_all) (use 2(1) t TypeM mm(1) in blast)
    moreover have "length vs = length mm" using mm(2) by (auto simp: traverse_Inr dest: list_all2_lengthD)
    moreover have "distinct (map fst mm)" using mm(1) by (cases inner) auto
    ultimately show ?thesis using mm(3) by (auto simp: list_all_iff dest: set_zip_rightD)
  next
    case TypeL
    then obtain js vs where js: "unmarshalList inner = Some js" "traverse FromJSON js = Inr vs" "v = VL vs"
      using 2(3) t by (auto split: option.splits sum.splits)
    have "list_all wfValue vs"
      using js(2) by (rule traverse_all) (use 2(2) t TypeL js(1) in blast)
    then show ?thesis using js(3) by simp
  next
    case TypeNS
    then obtain ss ds where ds: "traverse parseMember ss = Inr ds" "ss \<noteq> []"
      "\<not> somePair (\<lambda>x y. Compare x y = 0) ds" "v = VNS ds"
      using 2(3) t by (auto split: option.splits sum.splits if_splits)
    have "list_all (\<lambda>d. normal d \<and> inRange d) ds"
      using ds(1) by (rule traverse_all) (rule parseMember_wf)
    moreover have "ds \<noteq> []" using ds(1,2) by (auto simp: traverse_Inr)
    ultimately show ?thesis using ds(3,4) by (auto simp: somePair_Compare list_all_iff)
  next
    case TypeBS
    then show ?thesis using 2(3) t
      by (auto simp: somePair_eq traverse_Inr split: option.splits sum.splits if_splits)
  qed (use 2(3) t in \<open>auto simp: hasDupStrings_iff dest: parseMember_wf split: option.splits sum.splits if_splits\<close>)
qed

lemma list_all2_map_ex:
  "(\<And>x. x \<in> set xs \<Longrightarrow> \<exists>y. R x y) \<Longrightarrow> \<exists>ys. list_all2 R xs ys"
  by (induction xs) (auto intro: list_all2_Cons2 [THEN iffD2])

lemma fromTagged_JSON: "tagType tag = Some t \<Longrightarrow> FromJSON (JObj [(tag, inner)]) = fromTagged tag inner"
  by (simp add: goMap_def del: fromTagged.simps)

lemmas tag_simps = tagType_def wireTag_def

lemma those_strings: "unmarshalStrings (JArr (map (\<lambda>x. JStr (f x)) xs)) = Some (map f xs)"
  by (induction xs) (auto simp: unmarshalStrings_def)

lemma unmarshalMap_sorted:
  "distinct (map fst m) \<Longrightarrow> unmarshalMap (JObj (sortMembers m)) = Some (sortMembers m)"
  by (simp add: sortMembers_def goMap_id distinct_map)

lemma sort_key_map_members: "sort_key fst (map (\<lambda>(k, v). (k, f v)) m) = map (\<lambda>(k, v). (k, f v)) (sort_key fst m)"
proof -
  have ins: "insort_key fst (k, f v) (map (\<lambda>(k, v). (k, f v)) xs) = map (\<lambda>(k, v). (k, f v)) (insort_key fst (k, v) xs)"
    for k v xs by (induction xs) auto
  show ?thesis by (induction m) (auto simp: ins)
qed

lemma denote_members:
  assumes "list_all2 (\<lambda>kv w. denote w = denote (snd kv)) m ws" "distinct (map fst m)" "set m = set m'" "distinct (map fst m')"
  shows "map_of (map (\<lambda>(k, v). (k, denote v)) (zip (map fst m) ws)) = map_of (map (\<lambda>(k, v). (k, denote v)) m')"
proof -
  have "map (\<lambda>(k, v). (k, denote v)) (zip (map fst m) ws) = map (\<lambda>(k, v). (k, denote v)) m"
    using assms(1) by (induction rule: list_all2_induct) auto
  moreover have "map_of m = map_of m'"
    using assms(2-4) by (simp add: map_of_inject_set)
  ultimately show ?thesis by (simp add: map_of_denote)
qed

lemma FromJSON_members:
  assumes "\<And>k v. (k, v) \<in> set m \<Longrightarrow> \<exists>w. FromJSON (JSON v) = Inr w \<and> denote w = denote v"
    and "distinct (map fst m)"
  shows "\<exists>ws. traverse (\<lambda>kv. FromJSON (snd kv)) (sortMembers (map (\<lambda>(k, v). (k, JSON v)) m)) = Inr ws \<and>
     map_of (map (\<lambda>(k, v). (k, denote v)) (zip (map fst (sortMembers (map (\<lambda>(k, v). (k, JSON v)) m))) ws))
       = map_of (map (\<lambda>(k, v). (k, denote v)) m)"
proof -
  define sm where "sm = sortMembers m"
  have sm: "sortMembers (map (\<lambda>(k, v). (k, JSON v)) m) = map (\<lambda>(k, v). (k, JSON v)) sm" "set sm = set m" "distinct (map fst sm)"
    unfolding sm_def sortMembers_def using assms(2) by (simp_all add: sort_key_map_members distinct_map)
  have "\<exists>ws. list_all2 (\<lambda>kv w. FromJSON (JSON (snd kv)) = Inr w \<and> denote w = denote (snd kv)) sm ws"
    using assms(1) sm(2) by (intro list_all2_map_ex) auto
  then obtain ws where ws: "list_all2 (\<lambda>kv w. FromJSON (JSON (snd kv)) = Inr w \<and> denote w = denote (snd kv)) sm ws" ..
  have "traverse (\<lambda>kv. FromJSON (snd kv)) (map (\<lambda>(k, v). (k, JSON v)) sm) = Inr ws"
    using ws by (auto simp: traverse_Inr list_all2_map1 case_prod_beta intro: list_all2_mono simp del: FromJSON.simps)
  moreover have "list_all2 (\<lambda>kv w. denote w = denote (snd kv)) sm ws" using ws by (rule list_all2_mono) simp
  moreover have "map fst (map (\<lambda>(k, v). (k, JSON v)) sm) = map fst sm" by auto
  ultimately show ?thesis
    unfolding sm(1) using denote_members [OF _ sm(3,2) assms(2), of ws] by metis
qed

lemma FromJSON_JSON: "wfValue v \<Longrightarrow> \<exists>w. FromJSON (JSON v) = Inr w \<and> denote w = denote v"
proof (induction v)
  case (VM m)
  then have d: "distinct (map fst m)" by simp
  have "\<exists>ws. traverse (\<lambda>kv. FromJSON (snd kv)) (sortMembers (map (\<lambda>(k, v). (k, JSON v)) m)) = Inr ws \<and>
      map_of (map (\<lambda>(k, v). (k, denote v)) (zip (map fst (sortMembers (map (\<lambda>(k, v). (k, JSON v)) m))) ws))
        = map_of (map (\<lambda>(k, v). (k, denote v)) m)"
    using VM d by (intro FromJSON_members) (fastforce simp: list_all_iff)+
  moreover have "distinct (map fst (map (\<lambda>(k, v). (k, JSON v)) m))" using d by (simp add: case_prod_beta comp_def)
  ultimately show ?case
    by (auto simp: fromTagged_JSON [of _ TypeM] tag_simps unmarshalMap_sorted simp del: FromJSON.simps unmarshalMap.simps)
next
  case (VL l)
  have "\<exists>ws. list_all2 (\<lambda>v w. FromJSON (JSON v) = Inr w \<and> denote w = denote v) l ws"
    using VL by (intro list_all2_map_ex) (auto simp: list_all_iff)
  then obtain ws where ws: "list_all2 (\<lambda>v w. FromJSON (JSON v) = Inr w \<and> denote w = denote v) l ws" ..
  have "traverse FromJSON (map JSON l) = Inr ws"
    unfolding traverse_Inr list_all2_map1 using ws by (rule list_all2_mono) simp
  moreover have "map denote ws = map denote l" using ws by (induction rule: list_all2_induct) simp_all
  ultimately show ?case
    by (auto simp: fromTagged_JSON [of _ TypeL] tag_simps simp del: FromJSON.simps)
next
  case (VNS ds)
  then have "traverse parseMember (map String ds) = Inr ds"
    by (intro traverse_map_Inr) (auto simp: list_all_iff parseMember_String)
  moreover have "\<not> somePair (\<lambda>x y. Compare x y = 0) ds"
    using VNS by (subst somePair_Compare) (auto simp: list_all_iff)
  ultimately show ?case using VNS
    by (simp add: fromTagged_JSON [of _ TypeNS] tag_simps those_strings [of String] del: FromJSON.simps)
next
  case (VBS bs)
  have "traverse decodeMember (map (EncodeToString StdEncoding) bs) = Inr bs"
    by (intro traverse_map_Inr) (rule decodeMember_encode)
  then show ?case using VBS
    by (simp add: fromTagged_JSON [of _ TypeBS] tag_simps those_strings [of "EncodeToString StdEncoding"] somePair_eq
        del: FromJSON.simps)
next
  case (VSS ss)
  then show ?case
    using those_strings [of "\<lambda>s. s" ss]
    by (simp add: fromTagged_JSON [of _ TypeSS] tag_simps hasDupStrings_iff del: FromJSON.simps)
qed (simp_all add: fromTagged_JSON [of _ TypeS] fromTagged_JSON [of _ TypeN] fromTagged_JSON [of _ TypeB]
    fromTagged_JSON [of _ TypeBool] fromTagged_JSON [of _ TypeNull] tag_simps parseMember_String
    DecodeString_EncodeToString del: FromJSON.simps)

text \<open>C10: every value the decoder accepts satisfies the invariant of stored values: numbers are
  normalised and in range, sets are not empty and have no two equal members, and no map has a key
  twice, at every level of nesting.\<close>

theorem FromJSON_wellFormed: "FromJSON j = Inr v \<Longrightarrow> wfValue v"
  by (rule FromJSON_wf)


text \<open>C12: on well-formed values Equal decides equality of what the values denote: numbers compare as
  numbers, the order of a set does not matter, maps compare key by key, and values of different types
  are never equal.\<close>

theorem Equal_denotes: "wfValue u \<Longrightarrow> wfValue v \<Longrightarrow> Equal u v \<longleftrightarrow> denote u = denote v"
  by (rule Equal_denote_iff)

subsection \<open>Instances\<close>

definition sampleValue :: attrValue where
  "sampleValue = VM [(''n'', VNS [one, minusHalf]), (''l'', VL [VS ''x'', VB [0, 255]])]"

definition sampleValueJSON :: json where
  "sampleValueJSON =
     JObj [(''M'', JObj [(''n'', JObj [(''NS'', JArr [JStr ''1.0'', JStr ''-0.5''])]),
                        (''l'', JObj [(''L'', JArr [JObj [(''S'', JStr ''x'')], JObj [(''B'', JStr ''AP8='')]])])])]"

lemma sampleValue_wf: "wfValue sampleValue"
  by (simp add: sampleValue_def sample_normal) (simp add: one_def minusHalf_def)

theorem FromJSON_wellFormed_witness: "wfValue sampleValue"
proof -
  have "FromJSON sampleValueJSON = Inr sampleValue" by code_simp
  then show ?thesis by (rule FromJSON_wellFormed)
qed


theorem Equal_denotes_witness:
  "Equal (VNS [one, minusHalf]) (VNS [minusHalf, one]) \<longleftrightarrow>
     denote (VNS [one, minusHalf]) = denote (VNS [minusHalf, one])"
  using sample_normal by (intro Equal_denotes) (auto simp: one_def minusHalf_def)

end
