(* ===== verification/Keyenc.thy ===== *)
theory Keyenc
  imports Item
begin

text \<open>
  The order-preserving key encoding of DynamoDB keys, \<^verbatim>\<open>internal/ddb/keyenc/keyenc.go\<close>. The
  package comment states its load-bearing property: comparing two encodings bytewise is comparing the
  values. The locale \<open>ordered_code\<close> is what a key encoding promises to a range query over a
  bbolt bucket; it is interpreted on the encoding of byte strings and of whole keys.
\<close>

unbundle bit_operations_syntax

definition tagB :: "8 word" where "tagB = 1"
definition tagN :: "8 word" where "tagN = 2"
definition tagS :: "8 word" where "tagS = 3"

fun escapeLoop :: "bytes \<Rightarrow> bytes" where
  "escapeLoop [] = []"
| "escapeLoop (c # cs) = (if c = 0 then [0, 0xFF] else [c]) @ escapeLoop cs"

definition escapeBytes :: "bytes \<Rightarrow> bytes" where
  "escapeBytes b = escapeLoop b @ [0, 1]"

text \<open>\<^verbatim>\<open>binary.BigEndian.PutUint16\<close> of the biased exponent.\<close>

definition expBytes :: "int \<Rightarrow> bytes" where
  "expBytes e = (let w = word_of_int (e + 200) :: 16 word in [ucast (drop_bit 8 w), ucast w])"

definition numberPayload :: "decimal \<Rightarrow> bytes" where
  "numberPayload d = expBytes (exp d) @ strBytes (digits d) @ [0]"

definition encodeNumber :: "decimal \<Rightarrow> bytes" where
  "encodeNumber d =
     (if IsZero d then [tagN, 1]
      else if neg d then [tagN, 0] @ map NOT (numberPayload d)
      else [tagN, 2] @ numberPayload d)"

datatype keyError = NotAKeyType attrType

definition Encode :: "attrValue \<Rightarrow> keyError + bytes" where
  "Encode v =
     (case v of
        VS s \<Rightarrow> Inr (tagS # escapeBytes (strBytes s))
      | VB b \<Rightarrow> Inr (tagB # escapeBytes b)
      | VN d \<Rightarrow> Inr (encodeNumber d)
      | _ \<Rightarrow> Inl (NotAKeyType (typeOf v)))"

definition Composite :: "attrValue \<Rightarrow> attrValue option \<Rightarrow> keyError + bytes" where
  "Composite pk sk =
     (case Encode pk of
        Inl e \<Rightarrow> Inl e
      | Inr out \<Rightarrow>
          (case sk of
             None \<Rightarrow> Inr out
           | Some v \<Rightarrow> (case Encode v of Inl e \<Rightarrow> Inl e | Inr skb \<Rightarrow> Inr (out @ skb))))"

definition typeTag :: "attrValue \<Rightarrow> 8 word" where
  "typeTag v = (case v of VB _ \<Rightarrow> tagB | VN _ \<Rightarrow> tagN | _ \<Rightarrow> tagS)"

definition CompareValues :: "attrValue \<Rightarrow> attrValue \<Rightarrow> int" where
  "CompareValues a b =
     (let ta = typeTag a; tb = typeTag b in
      if ta \<noteq> tb then (if ta < tb then - 1 else 1)
      else case (a, b) of
             (VS s, VS t) \<Rightarrow> if s < t then - 1 else if s > t then 1 else 0
           | (VB s, VB t) \<Rightarrow> if s < t then - 1 else if s > t then 1 else 0
           | (VN m, VN n) \<Rightarrow> Compare m n
           | _ \<Rightarrow> 0)"

definition bytesCompare :: "bytes \<Rightarrow> bytes \<Rightarrow> int" where
  "bytesCompare a b = (if a < b then - 1 else if a = b then 0 else 1)"

subsection \<open>Ordered, prefix-free codes\<close>

definition diverge :: "'a::linorder list \<Rightarrow> 'a list \<Rightarrow> bool" where
  "diverge xs ys \<longleftrightarrow> (\<exists>u a b p q. a < b \<and> xs = u @ a # p \<and> ys = u @ b # q)"

lemma append_same_less: "u @ r < u @ s \<longleftrightarrow> r < (s :: 'a::linorder list)"
  by (induction u) auto

lemma Nil_less: "[] < (xs :: 'a::linorder list) \<longleftrightarrow> xs \<noteq> []"
  by (cases xs) auto

lemma diverge_append: "diverge xs ys \<Longrightarrow> xs @ r < ys @ s"
proof -
  have "u @ a # p < u @ b # q" if "a < b" for u p q and a b :: "'a::linorder"
    using that by (induction u) auto
  then show "diverge xs ys \<Longrightarrow> xs @ r < ys @ s"
    unfolding diverge_def by fastforce
qed

lemma diverge_Cons: "diverge xs ys \<Longrightarrow> diverge (c # xs) (c # ys)"
  unfolding diverge_def by (metis append_Cons)

lemma diverge_head: "a < b \<Longrightarrow> diverge (a # p) (b # q)"
  unfolding diverge_def by (metis append_Nil)

lemma diverge_prepend: "diverge xs ys \<Longrightarrow> diverge (zs @ xs) (zs @ ys)"
  by (induction zs) (auto intro: diverge_Cons)

lemma diverge_extend: "diverge xs ys \<Longrightarrow> diverge (xs @ r) (ys @ s)"
  unfolding diverge_def by fastforce

locale ordered_code =
  fixes enc :: "'a \<Rightarrow> 'b::linorder list" and ok :: "'a \<Rightarrow> bool" and lt :: "'a \<Rightarrow> 'a \<Rightarrow> bool"
  assumes lt_total: "ok x \<Longrightarrow> ok y \<Longrightarrow> lt x y \<or> x = y \<or> lt y x"
    and enc_diverge: "ok x \<Longrightarrow> ok y \<Longrightarrow> lt x y \<Longrightarrow> diverge (enc x) (enc y)"
begin

lemma enc_mono: "ok x \<Longrightarrow> ok y \<Longrightarrow> lt x y \<Longrightarrow> enc x @ r < enc y @ s"
  by (simp add: diverge_append enc_diverge)

lemma enc_less:
  assumes "ok x" "ok y"
  shows "enc x @ r < enc y @ s \<longleftrightarrow> lt x y \<or> x = y \<and> r < s"
  using lt_total [OF assms] enc_mono [OF assms] enc_mono [OF assms(2,1)]
  by (metis append_same_less less_asym)

lemma enc_eq:
  assumes "ok x" "ok y"
  shows "enc x @ r = enc y @ s \<longleftrightarrow> x = y \<and> r = s"
  using lt_total [OF assms] enc_mono [OF assms] enc_mono [OF assms(2,1)]
  by (metis less_irrefl same_append_eq)

lemma enc_prefix_free: "ok x \<Longrightarrow> ok y \<Longrightarrow> prefix (enc x) (enc y) \<Longrightarrow> x = y"
  using enc_eq [of x y] by (metis append_Nil2 prefixE)

end

subsection \<open>Byte strings\<close>

lemma escapeBytes_simps:
  "escapeBytes [] = [0, 1]" "escapeBytes (c # cs) = (if c = 0 then [0, 0xFF] else [c]) @ escapeBytes cs"
  by (simp_all add: escapeBytes_def)

lemma escape_diverge: "s < t \<Longrightarrow> diverge (escapeBytes s) (escapeBytes t)"
proof (induction s arbitrary: t)
  case Nil
  then obtain c t' where t: "t = c # t'" by (cases t) auto
  show ?case
  proof (cases "c = 0")
    case True
    then show ?thesis
      using t by (simp add: escapeBytes_simps diverge_Cons diverge_head)
  next
    case False
    then have "0 < c" by (simp add: word_neq_0_conv)
    then show ?thesis
      using t False by (auto simp: escapeBytes_simps intro!: diverge_head)
  qed
next
  case (Cons a s)
  then obtain b t' where t: "t = b # t'" by (cases t) auto
  show ?case
  proof (cases "a = b")
    case True
    then show ?thesis
      using Cons t by (auto simp: escapeBytes_simps intro!: diverge_Cons)
  next
    case False
    then have ab: "a < b" using Cons.prems t by simp
    then have "b \<noteq> 0" using word_not_simps(1) by auto
    then show ?thesis
      using t ab by (auto simp: escapeBytes_simps intro!: diverge_head)
  qed
qed

interpretation esc: ordered_code escapeBytes "\<lambda>_. True" "(<)"
  by unfold_locales (auto intro: escape_diverge)

subsection \<open>Numbers\<close>

text \<open>The biased exponent is below 512, so it fits its two bytes without wrapping.\<close>

lemma expBytes_less:
  assumes "- 129 \<le> e" "e < f" "f \<le> 126"
  shows "diverge (expBytes e) (expBytes f)"
proof -
  define m n where mn: "m = nat (e + 200)" "n = nat (f + 200)"
  have w: "word_of_int (e + 200) = (of_nat m :: 16 word)" "word_of_int (f + 200) = (of_nat n :: 16 word)"
    using assms mn by simp_all
  have b: "m < n" "n < 400" using assms mn by auto
  have u: "unat (ucast (drop_bit 8 (of_nat k :: 16 word)) :: 8 word) = k div 256"
    "unat (ucast (of_nat k :: 16 word) :: 8 word) = k mod 256" if "k < 400" for k
    using that by (simp_all add: unsigned_ucast_eq unsigned_drop_bit_eq unat_of_nat take_bit_eq_mod drop_bit_eq_div
        mod_mod_cancel unat_div)
  have e: "expBytes e = [ucast (drop_bit 8 (of_nat m :: 16 word)), ucast (of_nat m :: 16 word)]"
    "expBytes f = [ucast (drop_bit 8 (of_nat n :: 16 word)), ucast (of_nat n :: 16 word)]"
    unfolding expBytes_def Let_def w by (rule refl)+
  show ?thesis
  proof (cases "m div 256 = n div 256")
    case True
    then have "m mod 256 < n mod 256" using b by (metis div_mult_mod_eq nat_add_left_cancel_less)
    moreover have "(ucast (drop_bit 8 (of_nat m :: 16 word)) :: 8 word) = ucast (drop_bit 8 (of_nat n :: 16 word))"
      using True b u [of m] u [of n] by (simp add: word_unat_eq_iff)
    ultimately show ?thesis using b u [of m] u [of n]
      by (simp add: e word_less_nat_alt diverge_head diverge_Cons)
  next
    case False
    then have "m div 256 < n div 256" using b by (simp add: div_le_mono le_neq_implies_less)
    then show ?thesis using b u [of m] u [of n]
      by (simp add: e word_less_nat_alt diverge_head)
  qed
qed

lemma expBytes_length: "length (expBytes e) = 2"
  by (simp add: expBytes_def Let_def)

lemma zeros_least: "list_all isDigit s \<Longrightarrow> \<not> s < zeros (length s)"
  by (induction s) (auto simp: zeros_Suc isDigit_def less_char_def)

lemma padded_less:
  assumes "list_all isDigit s" "list_all isDigit t" "s @ zeros m < t @ zeros n" "length s + m = length t + n"
  shows "s < t"
  using assms
proof (induction s arbitrary: t m n)
  case Nil
  then show ?case by (cases t) auto
next
  case (Cons a s)
  show ?case
  proof (cases t)
    case Nil
    then have "(a # s) @ zeros m < zeros (length ((a # s) @ zeros m))" using Cons.prems by (simp add: zeros_def)
    moreover have "list_all isDigit ((a # s) @ zeros m)"
      using Cons.prems by (auto simp: zeros_def isDigit_def list_all_iff)
    ultimately show ?thesis using zeros_least by blast
  next
    case (Cons b t')
    then show ?thesis using Cons.IH [of t' m n] Cons.prems by (auto simp: zeros_def)
  qed
qed

lemma digit_bytes_diverge:
  assumes "list_all isDigit s" "list_all isDigit t" "s < t"
  shows "diverge (strBytes s @ [0]) (strBytes t @ [0])"
  using assms
proof (induction s arbitrary: t)
  case Nil
  then obtain b t' where t: "t = b # t'" "isDigit b" by (cases t) auto
  then have "0 < (of_char b :: 8 word)" by (simp add: word_less_nat_alt unat_of_char isDigit_def)
  then show ?case using t by (simp add: strBytes_def diverge_head)
next
  case (Cons a s)
  then obtain b t' where "t = b # t'" by (cases t) auto
  then show ?case
    using Cons by (auto simp: strBytes_def of_char_word_less intro: diverge_head diverge_Cons)
qed

lemma not_less_byte: "NOT (a :: 8 word) < NOT b \<longleftrightarrow> b < a"
proof -
  have "uint (NOT c) = 255 - uint c" for c :: "8 word"
  proof -
    have "uint (NOT c) = (- uint c - 1) mod 256"
      by (simp add: unsigned_not_eq take_bit_eq_mod not_int_def)
    moreover have "(- u - 1) mod 256 = 255 - u" if "0 \<le> u" "u < 256" for u :: int
      using that mod_add_self2 [of "- u - 1" 256] mod_pos_pos_trivial [of "255 - u" 256] by simp
    moreover have "0 \<le> uint c" "uint c < 256" using uint_bounded [of c] by simp_all
    ultimately show ?thesis by metis
  qed
  from this [of a] this [of b] show ?thesis unfolding word_less_def by linarith
qed

lemma diverge_not: "diverge xs ys \<Longrightarrow> diverge (map NOT ys) (map NOT (xs :: bytes))"
proof -
  assume "diverge xs ys"
  then obtain u p q and a b :: "8 word" where "a < b" "xs = u @ a # p" "ys = u @ b # q"
    unfolding diverge_def by blast
  then show ?thesis by (simp add: diverge_prepend diverge_head not_less_byte)
qed

lemma payload_diverge:
  assumes "normal m" "normal n" "inRange m" "inRange n" "\<not> IsZero m" "\<not> IsZero n"
    "compareMagnitude m n = - 1"
  shows "diverge (numberPayload m) (numberPayload n)"
proof (cases "exp m = exp n")
  case True
  then have less: "padTo (digits m) (length (digits n)) < padTo (digits n) (length (digits m))"
    using assms(7) by (auto simp: compareMagnitude_def strCompare_def split: if_splits)
  have d: "list_all isDigit (digits m)" "list_all isDigit (digits n)"
    using assms by (auto simp: normal_def IsZero_def)
  have "digits m < digits n"
    using padded_less [OF d, of "length (digits n) - length (digits m)" "length (digits m) - length (digits n)"] less
    by (simp add: padTo_def)
  then show ?thesis
    using True d by (simp add: numberPayload_def diverge_prepend digit_bytes_diverge)
next
  case False
  then have "exp m < exp n" using assms(7) by (auto simp: compareMagnitude_def split: if_splits)
  then have "diverge (expBytes (exp m)) (expBytes (exp n))"
    using assms by (intro expBytes_less) (auto simp: inRange_def)
  then show ?thesis by (simp add: numberPayload_def diverge_extend)
qed


subsection \<open>Whole key values\<close>

text \<open>The values that can be keys: strings, binaries, and numbers that came out of
  \<^verbatim>\<open>ParseDecimal\<close>.\<close>

fun keyValue :: "attrValue \<Rightarrow> bool" where
  "keyValue (VS _) = True"
| "keyValue (VB _) = True"
| "keyValue (VN d) = (normal d \<and> inRange d)"
| "keyValue _ = False"

definition keyBytes :: "attrValue \<Rightarrow> bytes" where
  "keyBytes v = (case Encode v of Inr b \<Rightarrow> b | Inl _ \<Rightarrow> [])"

lemma Encode_key: "keyValue v \<Longrightarrow> Encode v = Inr (keyBytes v)"
  by (cases v) (auto simp: keyBytes_def Encode_def)

lemma encodeNumber_diverge:
  assumes "normal m" "normal n" "inRange m" "inRange n" "Compare m n = - 1"
  shows "diverge (encodeNumber m) (encodeNumber n)"
proof -
  consider (pos) "\<not> IsZero m" "\<not> IsZero n" "\<not> neg m" "\<not> neg n" "compareMagnitude m n = - 1"
    | (neg) "\<not> IsZero m" "\<not> IsZero n" "neg m" "neg n" "compareMagnitude n m = - 1"
    | (sign) "encodeNumber m ! 1 < encodeNumber n ! 1"
    using assms(5) compareMagnitude_flip [of m n]
    by (auto simp: Compare_def Let_def encodeNumber_def split: if_splits)
  then show ?thesis
  proof cases
    case pos
    then show ?thesis
      using payload_diverge [OF assms(1-4)] by (simp add: encodeNumber_def diverge_Cons)
  next
    case neg
    then show ?thesis
      using diverge_not [OF payload_diverge [OF assms(2,1,4,3)]] by (simp add: encodeNumber_def diverge_Cons)
  next
    case sign
    have "\<exists>r. encodeNumber d = tagN # encodeNumber d ! 1 # r" for d
      by (simp add: encodeNumber_def)
    then show ?thesis using sign by (metis diverge_Cons diverge_head)
  qed
qed

lemma CompareValues_range: "CompareValues u v \<in> {- 1, 0, 1}"
  using Compare_range by (auto simp: CompareValues_def Let_def split: attrValue.splits)

lemmas tag_defs = typeTag_def tagB_def tagN_def tagS_def

lemma CompareValues_flip: "CompareValues u v = - CompareValues v u"
  by (cases u; cases v; simp add: CompareValues_def tag_defs) (auto intro: Compare_flip)

lemma CompareValues_eq_0: "keyValue u \<Longrightarrow> keyValue v \<Longrightarrow> CompareValues u v = 0 \<longleftrightarrow> u = v"
  by (cases u; cases v) (auto simp: CompareValues_def tag_defs Compare_eq_0)

lemma keyBytes_tag: "keyValue v \<Longrightarrow> \<exists>r. keyBytes v = typeTag v # r"
  by (cases v) (auto simp: keyBytes_def Encode_def encodeNumber_def tag_defs)

lemma keyBytes_diverge:
  assumes "keyValue u" "keyValue v" "CompareValues u v = - 1"
  shows "diverge (keyBytes u) (keyBytes v)"
proof (cases "typeTag u = typeTag v")
  case True
  then consider s t where "u = VS s" "v = VS t" "s < t" | s t where "u = VB s" "v = VB t" "s < t"
    | m n where "u = VN m" "v = VN n" "Compare m n = - 1"
    using assms by (cases u; cases v) (auto simp: tag_defs CompareValues_def split: if_splits)
  then show ?thesis
  proof cases
    case 3
    then show ?thesis using assms by (simp add: keyBytes_def Encode_def encodeNumber_diverge)
  qed (auto simp: keyBytes_def Encode_def strBytes_less intro!: diverge_Cons escape_diverge)
next
  case False
  then have "typeTag u < typeTag v" using assms by (auto simp: CompareValues_def Let_def split: if_splits)
  then show ?thesis using keyBytes_tag assms by (metis diverge_head)
qed

interpretation key: ordered_code keyBytes keyValue "\<lambda>u v. CompareValues u v = - 1"
proof
  fix u v :: attrValue
  assume "keyValue u" "keyValue v"
  then show "CompareValues u v = - 1 \<or> u = v \<or> CompareValues v u = - 1"
    using CompareValues_range [of u v] CompareValues_flip [of u v] CompareValues_eq_0 [of u v] by auto
qed (rule keyBytes_diverge)


subsection \<open>The encoding is the order\<close>

text \<open>C5: on key values (strings, binaries, numbers within DynamoDB's range) Encode never fails,
  and comparing the encodings bytewise gives exactly the answer of CompareValues: the order of the
  type tags between types, of the bytes within strings and binaries, of the numbers within
  numbers.\<close>

theorem Encode_order:
  "keyValue u \<Longrightarrow> keyValue v \<Longrightarrow>
     \<exists>x y. Encode u = Inr x \<and> Encode v = Inr y \<and> bytesCompare x y = CompareValues u v"
proof (intro exI conjI)
  assume k: "keyValue u" "keyValue v"
  show "Encode u = Inr (keyBytes u)" "Encode v = Inr (keyBytes v)" using k by (simp_all add: Encode_key)
  show "bytesCompare (keyBytes u) (keyBytes v) = CompareValues u v"
    using key.enc_less [OF k, of "[]" "[]"] key.enc_eq [OF k, of "[]" "[]"] CompareValues_range [of u v]
      CompareValues_eq_0 [OF k]
    by (auto simp: bytesCompare_def)
qed

text \<open>C6: composite keys of two partition keys and two optional sort keys compare bytewise first
  by partition key and then by sort key (no sort key before any sort key), and the encoding of a
  partition key is a prefix of a composite key exactly when the composite key is in that
  partition.\<close>

theorem Composite_order:
  assumes "keyValue p" "keyValue q" "pred_option keyValue s" "pred_option keyValue t"
  shows "\<exists>x y. Composite p s = Inr x \<and> Composite q t = Inr y \<and>
     (x < y \<longleftrightarrow> CompareValues p q = - 1 \<or>
        p = q \<and> (case (s, t) of (None, None) \<Rightarrow> False | (None, Some _) \<Rightarrow> True | (Some _, None) \<Rightarrow> False
                 | (Some a, Some b) \<Rightarrow> CompareValues a b = - 1)) \<and>
     (prefix (keyBytes p) y \<longleftrightarrow> p = q)"
proof (intro exI conjI)
  define sb where "sb z = (case z of None \<Rightarrow> [] | Some w \<Rightarrow> keyBytes w)" for z
  show "Composite p s = Inr (keyBytes p @ sb s)" "Composite q t = Inr (keyBytes q @ sb t)"
    using assms by (auto simp: Composite_def Encode_key sb_def split: option.splits)
  have "keyBytes v \<noteq> []" if "keyValue v" for v using keyBytes_tag [OF that] by auto
  then have "sb s < sb t \<longleftrightarrow> (case (s, t) of (None, None) \<Rightarrow> False | (None, Some _) \<Rightarrow> True
      | (Some _, None) \<Rightarrow> False | (Some a, Some b) \<Rightarrow> CompareValues a b = - 1)"
    using assms(3,4) key.enc_less [of _ _ "[]" "[]"]
    by (auto simp: sb_def Nil_less split: option.splits)
  then show "keyBytes p @ sb s < keyBytes q @ sb t \<longleftrightarrow> CompareValues p q = - 1 \<or>
      p = q \<and> (case (s, t) of (None, None) \<Rightarrow> False | (None, Some _) \<Rightarrow> True
        | (Some _, None) \<Rightarrow> False | (Some a, Some b) \<Rightarrow> CompareValues a b = - 1)"
    using key.enc_less [OF assms(1,2)] by simp
  show "prefix (keyBytes p) (keyBytes q @ sb t) \<longleftrightarrow> p = q"
    using key.enc_eq [OF assms(1,2)] by (metis append.right_neutral prefix_def prefixI)
qed

theorem Encode_order_witness:
  "\<exists>x y. Encode (VN minusHalf) = Inr x \<and> Encode (VN one) = Inr y \<and> bytesCompare x y = - 1"
  using Encode_order [of "VN minusHalf" "VN one"] sample_normal
  by (simp add: CompareValues_def Compare_def IsZero_def minusHalf_def one_def tag_defs)

theorem Composite_order_witness:
  "\<exists>x y. Composite (VS ''user#42'') (Some (VN one)) = Inr x \<and> Composite (VS ''user#421'') None = Inr y \<and>
     x < y \<and> \<not> prefix (keyBytes (VS ''user#42'')) y"
  using Composite_order [of "VS ''user#42''" "VS ''user#421''" "Some (VN one)" None] sample_normal
  by (simp add: CompareValues_def tag_defs)

end
