(* ===== verification/DdbExpr.thy ===== *)
theory DdbExpr
  imports Keyenc
begin

text \<open>
  DynamoDB's expression language, \<^verbatim>\<open>internal/ddb/expr\<close>: the lexer, document paths, condition and filter
  expressions with their evaluation, and key conditions. A parser is a function from a cursor over the
  tokens to a result and the next cursor; the environment of the request travels in the cursor, since
  every reference that is resolved is marked as used. Reading past the last token, which would panic, is
  an error of its own.
\<close>

subsection \<open>Errors\<close>

datatype tokKind =
    tokEOF | tokIdent | tokNameRef | tokValueRef | tokCompare | tokLParen | tokRParen | tokComma | tokDot
  | tokLBracket | tokRBracket | tokNumber | tokPlus | tokMinus

record token =
  tkind :: tokKind
  ttext :: string
  tpos :: nat

datatype exprError =
    DanglingRef char nat
  | UnexpectedChar char nat
  | ExpectedToken string nat string
  | NameUndefined string
  | ValueUndefined string
  | UnusedName string
  | UnusedValue string
  | ReservedKeyword string string
  | ExpectedAttribute token
  | UnexpectedToken token
  | BetweenNeedsAnd
  | ExpectedComparator nat
  | ExpectedOperand token
  | NoSize attrType
  | UnknownComparator string
  | TypeNameNotString
  | UnknownFunction string
  | KeyOperators
  | ExpectedKeyName nat
  | NoPartitionKey
  | ExpectedClause token
  | ClauseTwice string
  | NoActions
  | PathsOverlap string
  | SetNeedsEquals nat
  | PathMissing string
  | NotNumbers attrType attrType
  | NotLists attrType attrType
  | NonMapPath string
  | NonListPath string
  | MissingParents string
  | AddOperandMissing
  | AddNeedsNumberOrSet attrType
  | AddMismatch attrType attrType
  | DeleteOperandMissing
  | DeleteMismatch attrType attrType
  | OutOfTokens
  | OutOfFuel

definition bindE :: "'e + 'a \<Rightarrow> ('a \<Rightarrow> 'e + 'b) \<Rightarrow> 'e + 'b" where
  "bindE r f = (case r of Inl e \<Rightarrow> Inl e | Inr a \<Rightarrow> f a)"

lemma bindE_simps [simp]: "bindE (Inl e) f = Inl e" "bindE (Inr a) f = f a"
  by (simp_all add: bindE_def)

lemma bindE_cong [fundef_cong]: "r = s \<Longrightarrow> (\<And>a. s = Inr a \<Longrightarrow> f a = g a) \<Longrightarrow> bindE r f = bindE s g"
  by (cases s) auto

lemma bindE_Inr [simp]: "bindE r f = Inr b \<longleftrightarrow> (\<exists>a. r = Inr a \<and> f a = Inr b)"
  by (cases r) auto

subsection \<open>Lexer\<close>

definition isIdentStart :: "char \<Rightarrow> bool" where
  "isIdentStart c = (CHR ''a'' \<le> c \<and> c \<le> CHR ''z'' \<or> CHR ''A'' \<le> c \<and> c \<le> CHR ''Z'' \<or> c = CHR ''_'')"

definition isIdentChar :: "char \<Rightarrow> bool" where
  "isIdentChar c = (isIdentStart c \<or> CHR ''0'' \<le> c \<and> c \<le> CHR ''9'')"

definition isSpace :: "char \<Rightarrow> bool" where
  "isSpace c = (c = CHR '' '' \<or> c = CHR 0x09 \<or> c = CHR 0x0A \<or> c = CHR 0x0D)"

definition punctuation :: "(char \<times> tokKind) list" where
  "punctuation =
     [(CHR ''('', tokLParen), (CHR '')'', tokRParen), (CHR '','', tokComma), (CHR ''.'', tokDot), (CHR ''['', tokLBracket),
      (CHR '']'', tokRBracket), (CHR ''+'', tokPlus), (CHR ''-'', tokMinus), (CHR ''='', tokCompare)]"

text \<open>The token at the start of a non-empty text: its kind, \<open>None\<close> for a blank, and its length.\<close>

definition lexRef :: "tokKind \<Rightarrow> char \<Rightarrow> nat \<Rightarrow> string \<Rightarrow> exprError + tokKind option \<times> nat" where
  "lexRef k c i cs =
     (let n = length (takeWhile isIdentChar cs) in if n = 0 then Inl (DanglingRef c i) else Inr (Some k, Suc n))"

definition lexStep :: "nat \<Rightarrow> char \<Rightarrow> string \<Rightarrow> exprError + tokKind option \<times> nat" where
  "lexStep i c cs =
     (if isSpace c then Inr (None, 1)
      else case map_of punctuation c of
             Some k \<Rightarrow> Inr (Some k, 1)
           | None \<Rightarrow>
               if c = CHR ''<'' then
                 Inr (Some tokCompare, if HasPrefix cs ''>'' \<or> HasPrefix cs ''='' then 2 else 1)
               else if c = CHR ''>'' then Inr (Some tokCompare, if HasPrefix cs ''='' then 2 else 1)
               else if c = CHR ''#'' then lexRef tokNameRef c i cs
               else if c = CHR '':'' then lexRef tokValueRef c i cs
               else if isDigit c then Inr (Some tokNumber, Suc (length (takeWhile isDigit cs)))
               else if isIdentStart c then Inr (Some tokIdent, Suc (length (takeWhile isIdentChar cs)))
               else Inl (UnexpectedChar c i))"

lemma lexStep_pos: "lexStep i c cs = Inr (k, n) \<Longrightarrow> 0 < n"
  by (auto simp: lexStep_def lexRef_def Let_def split: if_splits option.splits)

function lexFrom :: "nat \<Rightarrow> string \<Rightarrow> exprError + token list" where
  "lexFrom i [] = Inr [\<lparr>tkind = tokEOF, ttext = [], tpos = i\<rparr>]"
| "lexFrom i (c # cs) =
     bindE (lexStep i c cs) (\<lambda>(k, n).
     bindE (lexFrom (i + n) (drop n (c # cs))) (\<lambda>ts.
       Inr ((case k of None \<Rightarrow> [] | Some kd \<Rightarrow> [\<lparr>tkind = kd, ttext = take n (c # cs), tpos = i\<rparr>]) @ ts)))"
  by pat_completeness auto
termination by (relation "measure (\<lambda>(_, s). length s)") (auto dest: lexStep_pos)

definition lex_expr :: "string \<Rightarrow> exprError + token list" where
  "lex_expr src = lexFrom 0 src"

subsection \<open>Reserved words\<close>

definition reservedList :: "string list" where
  "reservedList =
     [''ABORT'', ''ABSOLUTE'', ''ACTION'', ''ADD'', ''AFTER'', ''AGENT'', ''AGGREGATE'', ''ALL'', ''ALLOCATE'',
      ''ALTER'', ''ANALYZE'', ''AND'', ''ANY'', ''ARCHIVE'', ''ARE'', ''ARRAY'', ''AS'', ''ASC'', ''ASCII'',
      ''ASENSITIVE'', ''ASSERTION'', ''ASYMMETRIC'', ''AT'', ''ATOMIC'', ''ATTACH'', ''ATTRIBUTE'', ''AUTH'',
      ''AUTHORIZATION'', ''AUTHORIZE'', ''AUTO'', ''AVG'', ''BACK'', ''BACKUP'', ''BASE'', ''BATCH'', ''BEFORE'',
      ''BEGIN'', ''BETWEEN'', ''BIGINT'', ''BINARY'', ''BIT'', ''BLOB'', ''BLOCK'', ''BOOLEAN'', ''BOTH'',
      ''BREADTH'', ''BUCKET'', ''BULK'', ''BY'', ''BYTE'', ''CALL'', ''CALLED'', ''CALLING'', ''CAPACITY'',
      ''CASCADE'', ''CASCADED'', ''CASE'', ''CAST'', ''CATALOG'', ''CHAR'', ''CHARACTER'', ''CHECK'', ''CLASS'',
      ''CLOB'', ''CLOSE'', ''CLUSTER'', ''CLUSTERED'', ''CLUSTERING'', ''CLUSTERS'', ''COALESCE'', ''COLLATE'',
      ''COLLATION'', ''COLLECTION'', ''COLUMN'', ''COLUMNS'', ''COMBINE'', ''COMMENT'', ''COMMIT'', ''COMPACT'',
      ''COMPILE'', ''COMPRESS'', ''CONDITION'', ''CONFLICT'', ''CONNECT'', ''CONNECTION'', ''CONSISTENCY'',
      ''CONSISTENT'', ''CONSTRAINT'', ''CONSTRAINTS'', ''CONSTRUCTOR'', ''CONSUMED'', ''CONTINUE'', ''CONVERT'',
      ''COPY'', ''CORRESPONDING'', ''COUNT'', ''COUNTER'', ''CREATE'', ''CROSS'', ''CUBE'', ''CURRENT'', ''CURSOR'',
      ''CYCLE'', ''DATA'', ''DATABASE'', ''DATE'', ''DATETIME'', ''DAY'', ''DEALLOCATE'', ''DEC'', ''DECIMAL'',
      ''DECLARE'', ''DEFAULT'', ''DEFERRABLE'', ''DEFERRED'', ''DEFINE'', ''DEFINED'', ''DEFINITION'', ''DELETE'',
      ''DELIMITED'', ''DEPTH'', ''DEREF'', ''DESC'', ''DESCRIBE'', ''DESCRIPTOR'', ''DETACH'', ''DETERMINISTIC'',
      ''DIAGNOSTICS'', ''DIRECTORIES'', ''DISABLE'', ''DISCONNECT'', ''DISTINCT'', ''DISTRIBUTE'', ''DO'',
      ''DOMAIN'', ''DOUBLE'', ''DROP'', ''DUMP'', ''DURATION'', ''DYNAMIC'', ''EACH'', ''ELEMENT'', ''ELSE'',
      ''ELSEIF'', ''EMPTY'', ''ENABLE'', ''END'', ''EQUAL'', ''EQUALS'', ''ERROR'', ''ESCAPE'', ''ESCAPED'',
      ''EVAL'', ''EVALUATE'', ''EXCEEDED'', ''EXCEPT'', ''EXCEPTION'', ''EXCEPTIONS'', ''EXCLUSIVE'', ''EXEC'',
      ''EXECUTE'', ''EXISTS'', ''EXIT'', ''EXPLAIN'', ''EXPLODE'', ''EXPORT'', ''EXPRESSION'', ''EXTENDED'',
      ''EXTERNAL'', ''EXTRACT'', ''FAIL'', ''FALSE'', ''FAMILY'', ''FETCH'', ''FIELDS'', ''FILE'', ''FILTER'',
      ''FILTERING'', ''FINAL'', ''FINISH'', ''FIRST'', ''FIXED'', ''FLATTERN'', ''FLOAT'', ''FOR'', ''FORCE'',
      ''FOREIGN'', ''FORMAT'', ''FORWARD'', ''FOUND'', ''FREE'', ''FROM'', ''FULL'', ''FUNCTION'', ''FUNCTIONS'',
      ''GENERAL'', ''GENERATE'', ''GET'', ''GLOB'', ''GLOBAL'', ''GO'', ''GOTO'', ''GRANT'', ''GREATER'', ''GROUP'',
      ''GROUPING'', ''HANDLER'', ''HASH'', ''HAVE'', ''HAVING'', ''HEAP'', ''HIDDEN'', ''HOLD'', ''HOUR'',
      ''IDENTIFIED'', ''IDENTITY'', ''IF'', ''IGNORE'', ''IMMEDIATE'', ''IMPORT'', ''IN'', ''INCLUDING'',
      ''INCLUSIVE'', ''INCREMENT'', ''INCREMENTAL'', ''INDEX'', ''INDEXED'', ''INDEXES'', ''INDICATOR'',
      ''INFINITE'', ''INITIALLY'', ''INLINE'', ''INNER'', ''INNTER'', ''INOUT'', ''INPUT'', ''INSENSITIVE'',
      ''INSERT'', ''INSTEAD'', ''INT'', ''INTEGER'', ''INTERSECT'', ''INTERVAL'', ''INTO'', ''INVALIDATE'', ''IS'',
      ''ISOLATION'', ''ITEM'', ''ITEMS'', ''ITERATE'', ''JOIN'', ''KEY'', ''KEYS'', ''LAG'', ''LANGUAGE'', ''LARGE'',
      ''LAST'', ''LATERAL'', ''LEAD'', ''LEADING'', ''LEAVE'', ''LEFT'', ''LENGTH'', ''LESS'', ''LEVEL'', ''LIKE'',
      ''LIMIT'', ''LIMITED'', ''LINES'', ''LIST'', ''LOAD'', ''LOCAL'', ''LOCALTIME'', ''LOCALTIMESTAMP'',
      ''LOCATION'', ''LOCATOR'', ''LOCK'', ''LOCKS'', ''LOG'', ''LOGED'', ''LONG'', ''LOOP'', ''LOWER'', ''MAP'',
      ''MATCH'', ''MATERIALIZED'', ''MAX'', ''MAXLEN'', ''MEMBER'', ''MERGE'', ''METHOD'', ''METRICS'', ''MIN'',
      ''MINUS'', ''MINUTE'', ''MISSING'', ''MOD'', ''MODE'', ''MODIFIES'', ''MODIFY'', ''MODULE'', ''MONTH'',
      ''MULTI'', ''MULTISET'', ''NAME'', ''NAMES'', ''NATIONAL'', ''NATURAL'', ''NCHAR'', ''NCLOB'', ''NEW'',
      ''NEXT'', ''NO'', ''NONE'', ''NOT'', ''NULL'', ''NULLIF'', ''NUMBER'', ''NUMERIC'', ''OBJECT'', ''OF'',
      ''OFFLINE'', ''OFFSET'', ''OLD'', ''ON'', ''ONLINE'', ''ONLY'', ''OPAQUE'', ''OPEN'', ''OPERATOR'', ''OPTION'',
      ''OR'', ''ORDER'', ''ORDINALITY'', ''OTHER'', ''OTHERS'', ''OUT'', ''OUTER'', ''OUTPUT'', ''OVER'',
      ''OVERLAPS'', ''OVERRIDE'', ''OWNER'', ''PAD'', ''PARALLEL'', ''PARAMETER'', ''PARAMETERS'', ''PARTIAL'',
      ''PARTITION'', ''PARTITIONED'', ''PARTITIONS'', ''PATH'', ''PERCENT'', ''PERCENTILE'', ''PERMISSION'',
      ''PERMISSIONS'', ''PIPE'', ''PIPELINED'', ''PLAN'', ''POOL'', ''POSITION'', ''PRECISION'', ''PREPARE'',
      ''PRESERVE'', ''PRIMARY'', ''PRIOR'', ''PRIVATE'', ''PRIVILEGES'', ''PROCEDURE'', ''PROCESSED'', ''PROJECT'',
      ''PROJECTION'', ''PROPERTY'', ''PROVISIONING'', ''PUBLIC'', ''PUT'', ''QUERY'', ''QUIT'', ''QUORUM'',
      ''RAISE'', ''RANDOM'', ''RANGE'', ''RANK'', ''RAW'', ''READ'', ''READS'', ''REAL'', ''REBUILD'', ''RECORD'',
      ''RECURSIVE'', ''REDUCE'', ''REF'', ''REFERENCE'', ''REFERENCES'', ''REFERENCING'', ''REGEXP'', ''REGION'',
      ''REINDEX'', ''RELATIVE'', ''RELEASE'', ''REMAINDER'', ''RENAME'', ''REPEAT'', ''REPLACE'', ''REQUEST'',
      ''RESET'', ''RESIGNAL'', ''RESOURCE'', ''RESPONSE'', ''RESTORE'', ''RESTRICT'', ''RESULT'', ''RETURN'',
      ''RETURNING'', ''RETURNS'', ''REVERSE'', ''REVOKE'', ''RIGHT'', ''ROLE'', ''ROLES'', ''ROLLBACK'', ''ROLLUP'',
      ''ROUTINE'', ''ROW'', ''ROWS'', ''RULE'', ''RULES'', ''SAMPLE'', ''SATISFIES'', ''SAVE'', ''SAVEPOINT'',
      ''SCAN'', ''SCHEMA'', ''SCOPE'', ''SCROLL'', ''SEARCH'', ''SECOND'', ''SECTION'', ''SEGMENT'', ''SEGMENTS'',
      ''SELECT'', ''SELF'', ''SEMI'', ''SENSITIVE'', ''SEPARATE'', ''SEQUENCE'', ''SERIALIZABLE'', ''SESSION'',
      ''SET'', ''SETS'', ''SHARD'', ''SHARE'', ''SHARED'', ''SHORT'', ''SHOW'', ''SIGNAL'', ''SIMILAR'', ''SIZE'',
      ''SKEWED'', ''SMALLINT'', ''SNAPSHOT'', ''SOME'', ''SOURCE'', ''SPACE'', ''SPACES'', ''SPARSE'', ''SPECIFIC'',
      ''SPECIFICTYPE'', ''SPLIT'', ''SQL'', ''SQLCODE'', ''SQLERROR'', ''SQLEXCEPTION'', ''SQLSTATE'',
      ''SQLWARNING'', ''START'', ''STATE'', ''STATIC'', ''STATUS'', ''STORAGE'', ''STORE'', ''STORED'', ''STREAM'',
      ''STRING'', ''STRUCT'', ''STYLE'', ''SUB'', ''SUBMULTISET'', ''SUBPARTITION'', ''SUBSTRING'', ''SUBTYPE'',
      ''SUM'', ''SUPER'', ''SYMMETRIC'', ''SYNONYM'', ''SYSTEM'', ''TABLE'', ''TABLESAMPLE'', ''TEMP'',
      ''TEMPORARY'', ''TERMINATED'', ''TEXT'', ''THAN'', ''THEN'', ''THROUGHPUT'', ''TIME'', ''TIMESTAMP'',
      ''TIMEZONE'', ''TINYINT'', ''TO'', ''TOKEN'', ''TOTAL'', ''TOUCH'', ''TRAILING'', ''TRANSACTION'',
      ''TRANSFORM'', ''TRANSLATE'', ''TRANSLATION'', ''TREAT'', ''TRIGGER'', ''TRIM'', ''TRUE'', ''TRUNCATE'',
      ''TTL'', ''TUPLE'', ''TYPE'', ''UNDER'', ''UNDO'', ''UNION'', ''UNIQUE'', ''UNIT'', ''UNKNOWN'', ''UNLOGGED'',
      ''UNNEST'', ''UNPROCESSED'', ''UNSIGNED'', ''UNTIL'', ''UPDATE'', ''UPPER'', ''URL'', ''USAGE'', ''USE'',
      ''USER'', ''USERS'', ''USING'', ''UUID'', ''VACUUM'', ''VALUE'', ''VALUED'', ''VALUES'', ''VARCHAR'',
      ''VARIABLE'', ''VARIANCE'', ''VARINT'', ''VARYING'', ''VIEW'', ''VIEWS'', ''VIRTUAL'', ''VOID'', ''WAIT'',
      ''WHEN'', ''WHENEVER'', ''WHERE'', ''WHILE'', ''WINDOW'', ''WITH'', ''WITHIN'', ''WITHOUT'', ''WORK'',
      ''WRAPPED'', ''WRITE'', ''YEAR'', ''ZONE'']"

definition upperText :: "string \<Rightarrow> string" where "upperText s = map upperByte s"
definition lowerText :: "string \<Rightarrow> string" where "lowerText s = map lowerByte s"

text \<open>\<^verbatim>\<open>strings.EqualFold\<close> of identifiers, which are ASCII.\<close>

definition sameWord :: "string \<Rightarrow> string \<Rightarrow> bool" where "sameWord a b = (lowerText a = lowerText b)"

subsection \<open>The environment of a request\<close>

record exprEnv =
  Names :: "(string \<times> string) list"
  Values :: "(string \<times> attrValue) list"
  usedN :: "string list"
  usedV :: "string list"

definition NewEnv :: "(string \<times> string) list \<Rightarrow> (string \<times> attrValue) list \<Rightarrow> exprEnv" where
  "NewEnv ns vs = \<lparr>Names = ns, Values = vs, usedN = [], usedV = []\<rparr>"

definition resolveName :: "string \<Rightarrow> exprEnv \<Rightarrow> exprError + string \<times> exprEnv" where
  "resolveName ref e =
     (case map_of (Names e) ref of
        None \<Rightarrow> Inl (NameUndefined ref)
      | Some name \<Rightarrow> Inr (name, e\<lparr>usedN := ref # usedN e\<rparr>))"

definition resolveValue :: "string \<Rightarrow> exprEnv \<Rightarrow> exprError + attrValue \<times> exprEnv" where
  "resolveValue ref e =
     (case map_of (Values e) ref of
        None \<Rightarrow> Inl (ValueUndefined ref)
      | Some v \<Rightarrow> Inr (v, e\<lparr>usedV := ref # usedV e\<rparr>))"

text \<open>Which unused reference is named depends on the order of a Go map.\<close>

definition CheckAllUsed :: "exprEnv \<Rightarrow> exprError option" where
  "CheckAllUsed e =
     (case find (\<lambda>r. r \<notin> set (usedN e)) (map fst (Names e)) of
        Some r \<Rightarrow> Some (UnusedName r)
      | None \<Rightarrow> map_option UnusedValue (find (\<lambda>r. r \<notin> set (usedV e)) (map fst (Values e))))"

subsection \<open>The cursor\<close>

record pstate =
  toks :: "token list"
  env :: exprEnv

definition peek :: "pstate \<Rightarrow> exprError + token" where
  "peek ps = (case toks ps of [] \<Rightarrow> Inl OutOfTokens | t # _ \<Rightarrow> Inr t)"

definition nextTok :: "pstate \<Rightarrow> exprError + token \<times> pstate" where
  "nextTok ps = (case toks ps of [] \<Rightarrow> Inl OutOfTokens | t # ts \<Rightarrow> Inr (t, ps\<lparr>toks := ts\<rparr>))"

definition expect :: "tokKind \<Rightarrow> string \<Rightarrow> pstate \<Rightarrow> exprError + token \<times> pstate" where
  "expect k what ps =
     bindE (nextTok ps) (\<lambda>(t, ps1). if tkind t = k then Inr (t, ps1) else Inl (ExpectedToken what (tpos t) (ttext t)))"

definition keyword :: "string list \<Rightarrow> pstate \<Rightarrow> exprError + (string \<times> pstate) option" where
  "keyword ws ps =
     bindE (nextTok ps) (\<lambda>(t, ps1).
       Inr (if tkind t = tokIdent \<and> (\<exists>w\<in>set ws. sameWord (ttext t) w) then Some (upperText (ttext t), ps1) else None))"

subsection \<open>Document paths\<close>

record pathSeg =
  segAttr :: string
  segIndex :: int

type_synonym path = "pathSeg list"

definition attrSeg :: "string \<Rightarrow> pathSeg" where "attrSeg a = \<lparr>segAttr = a, segIndex = 0\<rparr>"
definition indexSeg :: "int \<Rightarrow> pathSeg" where "indexSeg n = \<lparr>segAttr = [], segIndex = n\<rparr>"

fun segTexts :: "bool \<Rightarrow> path \<Rightarrow> string" where
  "segTexts start [] = []"
| "segTexts start (s # ss) =
     (if segAttr s = [] then ''['' @ intStr (segIndex s) @ '']''
      else (if start then [] else ''.'') @ segAttr s) @ segTexts False ss"

definition pathString :: "path \<Rightarrow> string" where "pathString p = segTexts True p"

definition bareName :: "string \<Rightarrow> token \<Rightarrow> exprError option" where
  "bareName what t = (if upperText (ttext t) \<in> set reservedList then Some (ReservedKeyword what (ttext t)) else None)"

definition parsePathHead :: "string \<Rightarrow> pstate \<Rightarrow> exprError + pathSeg \<times> pstate" where
  "parsePathHead what ps =
     bindE (nextTok ps) (\<lambda>(t, ps1).
       if tkind t = tokIdent then (case bareName what t of Some e \<Rightarrow> Inl e | None \<Rightarrow> Inr (attrSeg (ttext t), ps1))
       else if tkind t = tokNameRef then
         bindE (resolveName (ttext t) (env ps1)) (\<lambda>(n, e). Inr (attrSeg n, ps1\<lparr>env := e\<rparr>))
       else Inl (ExpectedAttribute t))"

text \<open>\<^verbatim>\<open>strconv.Atoi\<close> of digits with the error dropped: a number out of range becomes the largest int.\<close>

definition listIndex :: "string \<Rightarrow> int" where
  "listIndex s = (case parseBig s of None \<Rightarrow> 0 | Some n \<Rightarrow> min n (2 ^ 63 - 1))"

lemma nextTok_length: "nextTok ps = Inr (t, ps1) \<Longrightarrow> length (toks ps) = Suc (length (toks ps1))"
  by (auto simp: nextTok_def split: list.splits)

lemma expect_length: "expect k what ps = Inr (t, ps1) \<Longrightarrow> length (toks ps) = Suc (length (toks ps1))"
  by (auto simp: expect_def dest: nextTok_length split: if_splits)

lemma keyword_length: "keyword ws ps = Inr (Some (w, ps1)) \<Longrightarrow> length (toks ps) = Suc (length (toks ps1))"
  by (auto simp: keyword_def dest: nextTok_length split: if_splits)

lemma parsePathHead_length: "parsePathHead what ps = Inr (s, ps1) \<Longrightarrow> length (toks ps) = Suc (length (toks ps1))"
  by (auto simp: parsePathHead_def dest: nextTok_length split: if_splits option.splits)

function parsePathRest :: "string \<Rightarrow> path \<Rightarrow> pstate \<Rightarrow> exprError + path \<times> pstate" where
  "parsePathRest what segs ps =
     bindE (nextTok ps) (\<lambda>(t, ps1).
       if tkind t = tokDot then bindE (parsePathHead what ps1) (\<lambda>(s, ps2). parsePathRest what (segs @ [s]) ps2)
       else if tkind t = tokLBracket then
           bindE (expect tokNumber ''a list index'' ps1) (\<lambda>(num, ps2).
           bindE (expect tokRBracket '']'' ps2) (\<lambda>(_, ps3).
             parsePathRest what (segs @ [indexSeg (listIndex (ttext num))]) ps3))
       else Inr (segs, ps))"
  by pat_completeness auto
termination
  by (relation "measure (\<lambda>(_, _, ps). length (toks ps))") (auto dest!: nextTok_length expect_length parsePathHead_length)

declare parsePathRest.simps [simp del]

definition parsePath :: "string \<Rightarrow> pstate \<Rightarrow> exprError + path \<times> pstate" where
  "parsePath what ps = bindE (parsePathHead what ps) (\<lambda>(s, ps1). parsePathRest what [s] ps1)"

type_synonym item = "(string \<times> attrValue) list"

fun walkSegs :: "attrValue \<Rightarrow> path \<Rightarrow> attrValue option" where
  "walkSegs cur [] = Some cur"
| "walkSegs cur (s # ss) =
     (if segAttr s \<noteq> [] then
        (case cur of
           VM m \<Rightarrow> (case map_of m (segAttr s) of None \<Rightarrow> None | Some v \<Rightarrow> walkSegs v ss)
         | _ \<Rightarrow> None)
      else
        (case cur of
           VL l \<Rightarrow> if segIndex s < 0 \<or> segIndex s \<ge> int (length l) then None else walkSegs (l ! nat (segIndex s)) ss
         | _ \<Rightarrow> None))"

definition Get :: "path \<Rightarrow> item \<Rightarrow> attrValue option" where
  "Get p it =
     (case p of
        [] \<Rightarrow> None
      | s # ss \<Rightarrow> (case map_of it (segAttr s) of None \<Rightarrow> None | Some v \<Rightarrow> walkSegs v ss))"

subsection \<open>Operands\<close>

datatype operand = pathOperand path | valueOperand string attrValue | sizeOperand path

definition describe :: "operand \<Rightarrow> string" where
  "describe q =
     (case q of
        pathOperand p \<Rightarrow> pathString p
      | valueOperand ref _ \<Rightarrow> ref
      | sizeOperand p \<Rightarrow> ''size('' @ pathString p @ '')'')"

definition parsePathOperand :: "string \<Rightarrow> pstate \<Rightarrow> exprError + operand \<times> pstate" where
  "parsePathOperand what ps = bindE (parsePath what ps) (\<lambda>(p, ps1). Inr (pathOperand p, ps1))"

definition parseOperand :: "string \<Rightarrow> pstate \<Rightarrow> exprError + operand \<times> pstate" where
  "parseOperand what ps =
     bindE (nextTok ps) (\<lambda>(t, ps1).
       if tkind t = tokValueRef then
         bindE (resolveValue (ttext t) (env ps1)) (\<lambda>(v, e). Inr (valueOperand (ttext t) v, ps1\<lparr>env := e\<rparr>))
       else if tkind t = tokIdent \<and> sameWord (ttext t) ''size'' then
         bindE (nextTok ps1) (\<lambda>(t2, ps2).
           if tkind t2 = tokLParen then
             bindE (parsePath what ps2) (\<lambda>(p, ps3).
             bindE (expect tokRParen '')'' ps3) (\<lambda>(_, ps4). Inr (sizeOperand p, ps4)))
           else parsePathOperand what ps)
       else if tkind t = tokIdent \<or> tkind t = tokNameRef then parsePathOperand what ps
       else Inl (ExpectedOperand t))"

definition sizeOf :: "attrValue \<Rightarrow> exprError + nat" where
  "sizeOf v =
     (case v of
        VS s \<Rightarrow> Inr (length s)
      | VB b \<Rightarrow> Inr (length b)
      | VL l \<Rightarrow> Inr (length l)
      | VM m \<Rightarrow> Inr (length m)
      | VSS ss \<Rightarrow> Inr (length ss)
      | VNS ds \<Rightarrow> Inr (length ds)
      | VBS bs \<Rightarrow> Inr (length bs)
      | _ \<Rightarrow> Inl (NoSize (typeOf v)))"

text \<open>The decimal of a length; the error of \<^verbatim>\<open>ParseDecimal\<close> is dropped.\<close>

definition countDecimal :: "nat \<Rightarrow> decimal" where
  "countDecimal n = (case ParseDecimal (natStr n) of Inl _ \<Rightarrow> Zero | Inr d \<Rightarrow> d)"

definition operandValue :: "operand \<Rightarrow> item \<Rightarrow> exprError + attrValue option" where
  "operandValue q it =
     (case q of
        pathOperand p \<Rightarrow> Inr (Get p it)
      | valueOperand _ v \<Rightarrow> Inr (Some v)
      | sizeOperand p \<Rightarrow>
          (case Get p it of
             None \<Rightarrow> Inr None
           | Some v \<Rightarrow> bindE (sizeOf v) (\<lambda>n. Inr (Some (VN (countDecimal n))))))"

subsection \<open>Conditions\<close>

datatype condNode =
    andNode condNode condNode
  | orNode condNode condNode
  | notNode condNode
  | groupNode condNode
  | cmpNode string operand operand
  | betweenNode operand operand operand
  | inNode operand "operand list"
  | funcNode string path "operand option"

lemma parsePathRest_length: "parsePathRest what segs ps = Inr (p, ps1) \<Longrightarrow> length (toks ps1) \<le> length (toks ps)"
proof (induction what segs ps rule: parsePathRest.induct)
  case (1 what segs ps)
  obtain t ps2 where n: "nextTok ps = Inr (t, ps2)"
    using "1.prems" by (auto simp: parsePathRest.simps [of what segs ps])
  show ?case
  proof (cases "tkind t = tokDot")
    case True
    then obtain s ps3 where h: "parsePathHead what ps2 = Inr (s, ps3)" "parsePathRest what (segs @ [s]) ps3 = Inr (p, ps1)"
      using "1.prems" n by (auto simp: parsePathRest.simps [of what segs ps])
    show ?thesis using "1.IH"(1) [OF n refl True h(1) refl h(2)] parsePathHead_length [OF h(1)] nextTok_length [OF n] by simp
  next
    case False
    show ?thesis
    proof (cases "tkind t = tokLBracket")
      case True
      then obtain num ps3 r ps4 where h: "expect tokNumber ''a list index'' ps2 = Inr (num, ps3)" "expect tokRBracket '']'' ps3 = Inr (r, ps4)"
        "parsePathRest what (segs @ [indexSeg (listIndex (ttext num))]) ps4 = Inr (p, ps1)"
        using "1.prems" n False by (auto simp: parsePathRest.simps [of what segs ps])
      show ?thesis
        using "1.IH"(2) [OF n refl False True h(1) refl h(2) refl h(3)] expect_length [OF h(1)] expect_length [OF h(2)] nextTok_length [OF n] by simp
    qed (use "1.prems" n False in \<open>auto simp: parsePathRest.simps [of what segs ps]\<close>)
  qed
qed

lemma parsePath_length: "parsePath what ps = Inr (p, ps1) \<Longrightarrow> length (toks ps1) < length (toks ps)"
  by (auto simp: parsePath_def dest!: parsePathHead_length parsePathRest_length)

lemma parsePathOperand_length: "parsePathOperand what ps = Inr (p, ps1) \<Longrightarrow> length (toks ps1) < length (toks ps)"
  by (auto simp: parsePathOperand_def dest!: parsePath_length)

lemma parseOperand_length: "parseOperand what ps = Inr (q, ps1) \<Longrightarrow> length (toks ps1) < length (toks ps)"
  by (auto simp: parseOperand_def dest!: nextTok_length parsePath_length expect_length dest: parsePathOperand_length split: if_splits)

function parseOptions :: "string \<Rightarrow> operand list \<Rightarrow> pstate \<Rightarrow> exprError + operand list \<times> pstate" where
  "parseOptions what opts ps =
     bindE (parseOperand what ps) (\<lambda>(q, ps1).
     bindE (nextTok ps1) (\<lambda>(t, ps2).
       if tkind t = tokComma then parseOptions what (opts @ [q]) ps2 else Inr (opts @ [q], ps1)))"
  by pat_completeness auto
termination
  by (relation "measure (\<lambda>(_, _, ps). length (toks ps))") (auto dest!: nextTok_length parseOperand_length)

declare parseOptions.simps [simp del]

definition boolFuncs :: "string list" where
  "boolFuncs = [''attribute_exists'', ''attribute_not_exists'', ''attribute_type'', ''begins_with'', ''contains'']"

definition parseBoolFunc :: "string \<Rightarrow> pstate \<Rightarrow> exprError + condNode \<times> pstate" where
  "parseBoolFunc what ps =
     bindE (nextTok ps) (\<lambda>(t, ps1).
     let name = lowerText (ttext t) in
     bindE (expect tokLParen (''( after '' @ name) ps1) (\<lambda>(_, ps2).
     bindE (parsePath what ps2) (\<lambda>(p, ps3).
     bindE (if name \<noteq> ''attribute_exists'' \<and> name \<noteq> ''attribute_not_exists'' then
              bindE (expect tokComma '', between arguments'' ps3) (\<lambda>(_, ps4).
              bindE (parseOperand what ps4) (\<lambda>(q, ps5). Inr (Some q, ps5)))
            else Inr (None, ps3)) (\<lambda>(arg, ps6).
     bindE (expect tokRParen '')'' ps6) (\<lambda>(_, ps7). Inr (funcNode name p arg, ps7))))))"

text \<open>What follows the left operand of a comparison, \<^verbatim>\<open>BETWEEN\<close> or \<^verbatim>\<open>IN\<close>.\<close>

definition parseComparison :: "string \<Rightarrow> operand \<Rightarrow> pstate \<Rightarrow> exprError + condNode \<times> pstate" where
  "parseComparison what left ps =
     bindE (nextTok ps) (\<lambda>(t, ps1).
     if tkind t = tokCompare then bindE (parseOperand what ps1) (\<lambda>(right, ps2). Inr (cmpNode (ttext t) left right, ps2))
     else
       bindE (keyword [''BETWEEN''] ps) (\<lambda>kb.
       case kb of
         Some (_, ps2) \<Rightarrow>
           bindE (parseOperand what ps2) (\<lambda>(lo, ps3).
           bindE (keyword [''AND''] ps3) (\<lambda>ka.
           case ka of
             None \<Rightarrow> Inl BetweenNeedsAnd
           | Some (_, ps4) \<Rightarrow> bindE (parseOperand what ps4) (\<lambda>(hi, ps5). Inr (betweenNode left lo hi, ps5))))
       | None \<Rightarrow>
           bindE (keyword [''IN''] ps) (\<lambda>ki.
           case ki of
             None \<Rightarrow> Inl (ExpectedComparator (tpos t))
           | Some (_, ps2) \<Rightarrow>
               bindE (expect tokLParen ''( after IN'' ps2) (\<lambda>(_, ps3).
               bindE (parseOptions what [] ps3) (\<lambda>(opts, ps4).
               bindE (expect tokRParen '')'' ps4) (\<lambda>(_, ps5). Inr (inNode left opts, ps5)))))))"

text \<open>
  The recursive descent. The parser of conditions inside parentheses is an argument, so that the only
  recursion is \<open>parseOr\<close>, bounded by a depth of nesting; the loops are bounded by the number of tokens.
  \<open>parse_safe\<close> in \<open>DdbCond\<close> shows that no bound is ever reached.
\<close>

type_synonym condParser = "pstate \<Rightarrow> exprError + condNode \<times> pstate"

definition parsePrimaryCond :: "condParser \<Rightarrow> string \<Rightarrow> condParser" where
  "parsePrimaryCond inside what ps =
     bindE (nextTok ps) (\<lambda>(t, ps1).
     if tkind t = tokLParen then
       bindE (inside ps1) (\<lambda>(inner, ps2).
       bindE (expect tokRParen '')'' ps2) (\<lambda>(_, ps3). Inr (groupNode inner, ps3)))
     else if tkind t = tokIdent \<and> lowerText (ttext t) \<in> set boolFuncs then parseBoolFunc what ps
     else bindE (parseOperand what ps) (\<lambda>(left, ps2). parseComparison what left ps2))"

definition loopBound :: "pstate \<Rightarrow> nat" where "loopBound ps = Suc (length (toks ps))"

fun notLoop :: "nat \<Rightarrow> condParser \<Rightarrow> condParser" where
  "notLoop 0 primary ps = Inl OutOfFuel"
| "notLoop (Suc n) primary ps =
     bindE (keyword [''NOT''] ps) (\<lambda>k.
     case k of
       None \<Rightarrow> primary ps
     | Some (_, ps1) \<Rightarrow> bindE (notLoop n primary ps1) (\<lambda>(inner, ps2). Inr (notNode inner, ps2)))"

definition parseNot :: "condParser \<Rightarrow> condParser" where
  "parseNot primary ps = notLoop (loopBound ps) primary ps"

fun operatorLoop :: "nat \<Rightarrow> string \<Rightarrow> (condNode \<Rightarrow> condNode \<Rightarrow> condNode) \<Rightarrow> condParser \<Rightarrow> condNode \<Rightarrow> condParser" where
  "operatorLoop 0 w node arg left ps = Inl OutOfFuel"
| "operatorLoop (Suc n) w node arg left ps =
     bindE (keyword [w] ps) (\<lambda>k.
     case k of
       None \<Rightarrow> Inr (left, ps)
     | Some (_, ps1) \<Rightarrow> bindE (arg ps1) (\<lambda>(right, ps2). operatorLoop n w node arg (node left right) ps2))"

definition parseOperators :: "string \<Rightarrow> (condNode \<Rightarrow> condNode \<Rightarrow> condNode) \<Rightarrow> condParser \<Rightarrow> condParser" where
  "parseOperators w node arg ps =
     bindE (arg ps) (\<lambda>(left, ps1). operatorLoop (loopBound ps1) w node arg left ps1)"

definition parseAnd :: "condParser \<Rightarrow> condParser" where
  "parseAnd primary = parseOperators ''AND'' andNode (parseNot primary)"

fun parseOr :: "nat \<Rightarrow> string \<Rightarrow> condParser" where
  "parseOr 0 what ps = Inl OutOfFuel"
| "parseOr (Suc n) what ps =
     parseOperators ''OR'' orNode (parseAnd (parsePrimaryCond (parseOr n what) what)) ps"

definition parseCond :: "string \<Rightarrow> exprEnv \<Rightarrow> string \<Rightarrow> exprError + condNode \<times> exprEnv" where
  "parseCond src e what =
     bindE (lex_expr src) (\<lambda>ts.
     bindE (parseOr (Suc (length ts)) what \<lparr>toks = ts, env = e\<rparr>) (\<lambda>(node, ps).
     bindE (peek ps) (\<lambda>t.
       if tkind t \<noteq> tokEOF then Inl (UnexpectedToken t) else Inr (node, env ps))))"

definition ParseCondition :: "string \<Rightarrow> exprEnv \<Rightarrow> exprError + condNode \<times> exprEnv" where
  "ParseCondition src e = parseCond src e ''ConditionExpression''"

definition ParseFilter :: "string \<Rightarrow> exprEnv \<Rightarrow> exprError + condNode \<times> exprEnv" where
  "ParseFilter src e = parseCond src e ''FilterExpression''"

subsection \<open>Evaluation\<close>

text \<open>The three-way comparison of two values of one ordered type.\<close>

definition orderedCompare :: "attrValue \<Rightarrow> attrValue \<Rightarrow> int option" where
  "orderedCompare l r =
     (case (l, r) of
        (VS a, VS b) \<Rightarrow> Some (strCompare a b)
      | (VN a, VN b) \<Rightarrow> Some (Compare a b)
      | (VB a, VB b) \<Rightarrow> Some (bytesCompare a b)
      | _ \<Rightarrow> None)"

definition evalCmp :: "string \<Rightarrow> operand \<Rightarrow> operand \<Rightarrow> item \<Rightarrow> exprError + bool" where
  "evalCmp c left right it =
     bindE (operandValue left it) (\<lambda>lv.
     bindE (operandValue right it) (\<lambda>rv.
     case (lv, rv) of
       (Some l, Some r) \<Rightarrow>
         if c = ''='' then Inr (Equal l r)
         else if c = ''<>'' then Inr (\<not> Equal l r)
         else
           (case orderedCompare l r of
              None \<Rightarrow> Inr False
            | Some n \<Rightarrow>
                if c = ''<'' then Inr (n < 0)
                else if c = ''<='' then Inr (n \<le> 0)
                else if c = ''>'' then Inr (n > 0)
                else if c = ''>='' then Inr (n \<ge> 0)
                else Inl (UnknownComparator c))
     | _ \<Rightarrow> Inr False))"

fun evalIn :: "attrValue \<Rightarrow> operand list \<Rightarrow> item \<Rightarrow> exprError + bool" where
  "evalIn v [] it = Inr False"
| "evalIn v (q # qs) it =
     bindE (operandValue q it) (\<lambda>w.
     case w of
       Some u \<Rightarrow> if Equal v u then Inr True else evalIn v qs it
     | None \<Rightarrow> evalIn v qs it)"

text \<open>An absent argument reads as the zero value, whose type is none of the ten.\<close>

definition argValue :: "operand option \<Rightarrow> item \<Rightarrow> exprError + attrValue option" where
  "argValue a it = (case a of None \<Rightarrow> Inr None | Some q \<Rightarrow> operandValue q it)"

definition beginsWith :: "attrValue \<Rightarrow> attrValue option \<Rightarrow> bool" where
  "beginsWith v p =
     (case (v, p) of
        (VS s, Some (VS q)) \<Rightarrow> prefix q s
      | (VB s, Some (VB q)) \<Rightarrow> prefix q s
      | _ \<Rightarrow> False)"

definition containsValue :: "attrValue \<Rightarrow> attrValue option \<Rightarrow> bool" where
  "containsValue v needle =
     (case needle of
        None \<Rightarrow> False
      | Some n \<Rightarrow>
          (case v of
             VS s \<Rightarrow> (case n of VS q \<Rightarrow> sublist q s | _ \<Rightarrow> False)
           | VSS ss \<Rightarrow> (case n of VS q \<Rightarrow> q \<in> set ss | _ \<Rightarrow> False)
           | VNS ds \<Rightarrow> (case n of VN d \<Rightarrow> list_ex (\<lambda>x. Compare x d = 0) ds | _ \<Rightarrow> False)
           | VBS bs \<Rightarrow> (case n of VB b \<Rightarrow> b \<in> set bs | _ \<Rightarrow> False)
           | VL l \<Rightarrow> list_ex (\<lambda>x. Equal x n) l
           | _ \<Rightarrow> False))"

definition evalFunc :: "string \<Rightarrow> path \<Rightarrow> operand option \<Rightarrow> item \<Rightarrow> exprError + bool" where
  "evalFunc name p a it =
     (let found = Get p it in
      if name = ''attribute_exists'' then Inr (found \<noteq> None)
      else if name = ''attribute_not_exists'' then Inr (found = None)
      else if name \<in> {''attribute_type'', ''begins_with'', ''contains''} then
        (case found of
           None \<Rightarrow> Inr False
         | Some v \<Rightarrow>
             bindE (argValue a it) (\<lambda>w.
               if name = ''attribute_type'' then
                 (case w of Some (VS s) \<Rightarrow> Inr (wireTag (typeOf v) = s) | _ \<Rightarrow> Inl TypeNameNotString)
               else if name = ''begins_with'' then Inr (beginsWith v w)
               else Inr (containsValue v w)))
      else Inl (UnknownFunction name))"

fun eval :: "condNode \<Rightarrow> item \<Rightarrow> exprError + bool" where
  "eval (andNode l r) it = bindE (eval l it) (\<lambda>b. if b then eval r it else Inr False)"
| "eval (orNode l r) it = bindE (eval l it) (\<lambda>b. if b then Inr True else eval r it)"
| "eval (notNode n) it = bindE (eval n it) (\<lambda>b. Inr (\<not> b))"
| "eval (groupNode n) it = eval n it"
| "eval (cmpNode c l r) it = evalCmp c l r it"
| "eval (betweenNode v lo hi) it =
     bindE (evalCmp ''>='' v lo it) (\<lambda>a. if a then evalCmp ''<='' v hi it else Inr False)"
| "eval (inNode v opts) it =
     bindE (operandValue v it) (\<lambda>w. case w of None \<Rightarrow> Inr False | Some u \<Rightarrow> evalIn u opts it)"
| "eval (funcNode name p a) it = evalFunc name p a it"

subsection \<open>Key conditions\<close>

record keyClause =
  kcName :: string
  kcOp :: string
  kcV1 :: attrValue
  kcV2 :: "attrValue option"

record keyCondition =
  PKName :: string
  PKValue :: attrValue
  SortClause :: "keyClause option"

definition parseKeyName :: "string \<Rightarrow> pstate \<Rightarrow> exprError + string \<times> pstate" where
  "parseKeyName what ps =
     bindE (nextTok ps) (\<lambda>(t, ps1).
       if tkind t = tokIdent then (case bareName what t of Some e \<Rightarrow> Inl e | None \<Rightarrow> Inr (ttext t, ps1))
       else if tkind t = tokNameRef then
         bindE (resolveName (ttext t) (env ps1)) (\<lambda>(n, e). Inr (n, ps1\<lparr>env := e\<rparr>))
       else Inl (ExpectedKeyName (tpos t)))"

definition parseKeyValue :: "pstate \<Rightarrow> exprError + attrValue \<times> pstate" where
  "parseKeyValue ps =
     bindE (expect tokValueRef ''a :value reference'' ps) (\<lambda>(t, ps1).
     bindE (resolveValue (ttext t) (env ps1)) (\<lambda>(v, e). Inr (v, ps1\<lparr>env := e\<rparr>)))"

definition parseBeginsClause :: "string \<Rightarrow> pstate \<Rightarrow> exprError + keyClause \<times> pstate" where
  "parseBeginsClause what ps =
     bindE (expect tokLParen ''( after begins_with'' ps) (\<lambda>(_, ps1).
     bindE (parseKeyName what ps1) (\<lambda>(name, ps2).
     bindE (expect tokComma '', in begins_with'' ps2) (\<lambda>(_, ps3).
     bindE (parseKeyValue ps3) (\<lambda>(v, ps4).
     bindE (expect tokRParen '')'' ps4) (\<lambda>(_, ps5).
       Inr (\<lparr>kcName = name, kcOp = ''begins_with'', kcV1 = v, kcV2 = None\<rparr>, ps5))))))"

definition parseKeyClause :: "string \<Rightarrow> pstate \<Rightarrow> exprError + keyClause \<times> pstate" where
  "parseKeyClause what ps =
     bindE (nextTok ps) (\<lambda>(t, ps1).
     if tkind t = tokIdent \<and> sameWord (ttext t) ''begins_with'' then parseBeginsClause what ps1
     else
       bindE (parseKeyName what ps) (\<lambda>(name, ps2).
       bindE (keyword [''BETWEEN''] ps2) (\<lambda>kb.
       case kb of
         Some (_, ps3) \<Rightarrow>
           bindE (parseKeyValue ps3) (\<lambda>(lo, ps4).
           bindE (keyword [''AND''] ps4) (\<lambda>ka.
           case ka of
             None \<Rightarrow> Inl BetweenNeedsAnd
           | Some (_, ps5) \<Rightarrow>
               bindE (parseKeyValue ps5) (\<lambda>(hi, ps6).
                 Inr (\<lparr>kcName = name, kcOp = ''BETWEEN'', kcV1 = lo, kcV2 = Some hi\<rparr>, ps6))))
       | None \<Rightarrow>
           bindE (nextTok ps2) (\<lambda>(c, ps3).
             if tkind c \<noteq> tokCompare \<or> ttext c = ''<>'' then Inl KeyOperators
             else bindE (parseKeyValue ps3) (\<lambda>(v, ps4).
               Inr (\<lparr>kcName = name, kcOp = ttext c, kcV1 = v, kcV2 = None\<rparr>, ps4))))))"

text \<open>The first clause that is an equality is the one on the partition key.\<close>

definition pickClauses :: "keyClause \<Rightarrow> keyClause option \<Rightarrow> exprError + keyCondition" where
  "pickClauses c1 c2 =
     (if kcOp c1 = ''='' then Inr \<lparr>PKName = kcName c1, PKValue = kcV1 c1, SortClause = c2\<rparr>
      else case c2 of
             Some c \<Rightarrow>
               if kcOp c = ''='' then Inr \<lparr>PKName = kcName c, PKValue = kcV1 c, SortClause = Some c1\<rparr>
               else Inl NoPartitionKey
           | None \<Rightarrow> Inl NoPartitionKey)"

definition ParseKeyCondition :: "string \<Rightarrow> exprEnv \<Rightarrow> exprError + keyCondition \<times> exprEnv" where
  "ParseKeyCondition src e =
     (let what = ''KeyConditionExpression'' in
      bindE (lex_expr src) (\<lambda>ts.
      bindE (parseKeyClause what \<lparr>toks = ts, env = e\<rparr>) (\<lambda>(c1, ps1).
      bindE (keyword [''AND''] ps1) (\<lambda>k.
      bindE (case k of
               None \<Rightarrow> Inr (None, ps1)
             | Some (_, ps2) \<Rightarrow> bindE (parseKeyClause what ps2) (\<lambda>(c2, ps3). Inr (Some c2, ps3))) (\<lambda>(c2, ps).
      bindE (peek ps) (\<lambda>t.
        if tkind t \<noteq> tokEOF then Inl (UnexpectedToken t)
        else bindE (pickClauses c1 c2) (\<lambda>kc. Inr (kc, env ps))))))))"

subsection \<open>Projections\<close>

function parsePaths :: "string \<Rightarrow> path list \<Rightarrow> pstate \<Rightarrow> exprError + path list \<times> pstate" where
  "parsePaths what paths ps =
     bindE (parsePath what ps) (\<lambda>(p, ps1).
     bindE (nextTok ps1) (\<lambda>(t, ps2).
       if tkind t = tokComma then parsePaths what (paths @ [p]) ps2 else Inr (paths @ [p], ps1)))"
  by pat_completeness auto
termination
  by (relation "measure (\<lambda>(_, _, ps). length (toks ps))") (auto dest!: nextTok_length parsePath_length)

declare parsePaths.simps [simp del]

definition ParseProjection :: "string \<Rightarrow> exprEnv \<Rightarrow> exprError + path list \<times> exprEnv" where
  "ParseProjection src e =
     bindE (lex_expr src) (\<lambda>ts.
     bindE (parsePaths ''ProjectionExpression'' [] \<lparr>toks = ts, env = e\<rparr>) (\<lambda>(paths, ps).
     bindE (peek ps) (\<lambda>t. if tkind t \<noteq> tokEOF then Inl (UnexpectedToken t) else Inr (paths, env ps))))"

end
