(* ===== verification/DdbCond.thy ===== *)
theory DdbCond
  imports DdbExpr
begin

text \<open>
  What the parser and the evaluator of conditions promise: parsing never runs out of tokens or of the
  bounds of its loops, the text of a condition is parsed to the condition with the usual precedences, and
  evaluating a condition depends only on the values that the representations denote.
\<close>

subsection \<open>Parsing never gets stuck\<close>

definition ended :: "token list \<Rightarrow> bool" where
  "ended ts = (ts \<noteq> [] \<and> tkind (last ts) = tokEOF)"

lemma ended_Cons: "ended (t # ts) \<Longrightarrow> tkind t \<noteq> tokEOF \<Longrightarrow> ended ts"
  by (auto simp: ended_def split: if_splits)

lemma ended_not_Nil [simp]: "\<not> ended []"
  by (simp add: ended_def)

text \<open>The outcome of a parser that leaves fewer than \<open>n\<close> tokens, the last of them the end marker.\<close>

definition leaves :: "nat \<Rightarrow> exprError + 'a \<times> pstate \<Rightarrow> bool" where
  "leaves n r =
     (case r of
        Inl e \<Rightarrow> e \<noteq> OutOfTokens \<and> e \<noteq> OutOfFuel
      | Inr (_, ps) \<Rightarrow> ended (toks ps) \<and> length (toks ps) < n)"

named_theorems safe_intros

lemma leaves_Inl [safe_intros]: "e \<noteq> OutOfTokens \<Longrightarrow> e \<noteq> OutOfFuel \<Longrightarrow> leaves n (Inl e)"
  by (simp add: leaves_def)

lemma leaves_Inr [safe_intros]: "ended (toks ps) \<Longrightarrow> length (toks ps) < n \<Longrightarrow> leaves n (Inr (x, ps))"
  by (simp add: leaves_def)

lemma leaves_bind:
  assumes "leaves m r" "\<And>x ps. ended (toks ps) \<Longrightarrow> length (toks ps) < m \<Longrightarrow> leaves n (f (x, ps))"
  shows "leaves n (bindE r f)"
  using assms by (cases r) (auto simp: leaves_def)

lemma leaves_mono: "leaves m r \<Longrightarrow> m \<le> n \<Longrightarrow> leaves n r"
  by (auto simp: leaves_def split: sum.splits)

lemma leaves_next [safe_intros]:
  assumes "ended (toks ps)"
    and "\<And>t ps1. toks ps = t # toks ps1 \<Longrightarrow> env ps1 = env ps \<Longrightarrow> tkind t \<noteq> tokEOF \<Longrightarrow> ended (toks ps1) \<Longrightarrow>
      length (toks ps1) < length (toks ps) \<Longrightarrow> leaves n (f (t, ps1))"
    and "\<And>t ps1. tkind t = tokEOF \<Longrightarrow> leaves n (f (t, ps1))"
  shows "leaves n (bindE (nextTok ps) f)"
proof (cases "toks ps")
  case (Cons t ts)
  then show ?thesis using assms ended_Cons [of t ts] by (cases "tkind t = tokEOF") (auto simp: nextTok_def)
qed (use assms in simp)

lemma leaves_expect:
  assumes "ended (toks ps)" "k \<noteq> tokEOF"
  shows "leaves (length (toks ps)) (expect k what ps)"
  unfolding expect_def using assms by (intro safe_intros) (auto intro!: safe_intros)

lemmas expect_rules [safe_intros] = leaves_bind [OF leaves_expect]

lemma leaves_keyword [safe_intros]:
  assumes "ended (toks ps)" "\<And>w ps1. ended (toks ps1) \<Longrightarrow> length (toks ps1) < length (toks ps) \<Longrightarrow> leaves n (f (Some (w, ps1)))"
    "leaves n (f None)"
  shows "leaves n (bindE (keyword ws ps) f)"
proof (cases "toks ps")
  case (Cons t ts)
  then show ?thesis using assms ended_Cons [of t ts] by (cases "tkind t = tokIdent") (auto simp: keyword_def nextTok_def)
qed (use assms in simp)

lemma leaves_resolve [safe_intros]:
  "(\<And>a e. leaves n (f (a, e))) \<Longrightarrow> leaves n (bindE (resolveName r e0) f)"
  "(\<And>a e. leaves n (g (a, e))) \<Longrightarrow> leaves n (bindE (resolveValue r e0) g)"
  by (auto simp: resolveName_def resolveValue_def intro: safe_intros split: option.split)

lemma leaves_if [safe_intros]:
  "(b \<Longrightarrow> leaves n r) \<Longrightarrow> (\<not> b \<Longrightarrow> leaves n s) \<Longrightarrow> leaves n (if b then r else s)"
  by simp

lemma leaves_case [safe_intros]:
  "(x = None \<Longrightarrow> leaves n r) \<Longrightarrow> (\<And>y. x = Some y \<Longrightarrow> leaves n (s y)) \<Longrightarrow> leaves n (case x of None \<Rightarrow> r | Some y \<Rightarrow> s y)"
  by (cases x) simp_all

lemma leaves_head: "ended (toks ps) \<Longrightarrow> leaves (length (toks ps)) (parsePathHead what ps)"
  unfolding parsePathHead_def bareName_def by (intro safe_intros) (auto intro!: safe_intros)

lemmas head_rules [safe_intros] = leaves_bind [OF leaves_head] leaves_mono [OF leaves_head]

lemma leaves_pathRest: "ended (toks ps) \<Longrightarrow> leaves (Suc (length (toks ps))) (parsePathRest what segs ps)"
proof (induction "length (toks ps)" arbitrary: segs ps rule: less_induct)
  case less
  note IH = less.hyps [THEN leaves_mono]
  show ?case
    by (subst parsePathRest.simps) (use less.prems IH in \<open>auto intro!: safe_intros\<close>)
qed

lemma leaves_path: "ended (toks ps) \<Longrightarrow> leaves (length (toks ps)) (parsePath what ps)"
  unfolding parsePath_def by (auto intro!: safe_intros intro: leaves_mono [OF leaves_pathRest])

lemmas path_rules [safe_intros] = leaves_bind [OF leaves_path] leaves_mono [OF leaves_path]

lemma leaves_pathOperand: "ended (toks ps) \<Longrightarrow> leaves (length (toks ps)) (parsePathOperand what ps)"
  unfolding parsePathOperand_def by (auto intro!: safe_intros)

lemmas pathOperand_rules [safe_intros] = leaves_mono [OF leaves_pathOperand]

lemma leaves_operand: "ended (toks ps) \<Longrightarrow> leaves (length (toks ps)) (parseOperand what ps)"
  unfolding parseOperand_def by (auto intro!: safe_intros)

lemmas operand_rules [safe_intros] = leaves_bind [OF leaves_operand] leaves_mono [OF leaves_operand]

lemma leaves_options: "ended (toks ps) \<Longrightarrow> leaves (length (toks ps)) (parseOptions what opts ps)"
proof (induction "length (toks ps)" arbitrary: opts ps rule: less_induct)
  case less
  note IH = less.hyps [THEN leaves_mono]
  show ?case
    by (subst parseOptions.simps) (use less.prems IH in \<open>auto intro!: safe_intros\<close>)
qed

lemmas options_rules [safe_intros] = leaves_bind [OF leaves_options]

lemma bindE_assoc: "bindE (bindE r f) g = bindE r (\<lambda>x. bindE (f x) g)"
  by (cases r) auto

lemma bindE_if: "bindE (if b then r else s) f = (if b then bindE r f else bindE s f)"
  by simp

lemma leaves_boolFunc:
  fixes ps ps1 :: pstate
  assumes "ended (toks ps)" "toks ps = t # toks ps1" "tkind t \<noteq> tokEOF" "env ps1 = env ps"
  shows "leaves (length (toks ps)) (parseBoolFunc what ps)"
proof -
  have "nextTok ps = Inr (t, ps1)" using assms by (cases ps1) (simp add: nextTok_def)
  moreover have "ended (toks ps1)" using assms ended_Cons [of t "toks ps1"] by simp
  ultimately show ?thesis
    unfolding parseBoolFunc_def Let_def bindE_if bindE_assoc using assms(2) by (auto simp: bindE_assoc intro!: safe_intros)
qed

lemma leaves_comparison: "ended (toks ps) \<Longrightarrow> leaves (length (toks ps)) (parseComparison what left ps)"
  unfolding parseComparison_def by (auto intro!: safe_intros)

lemmas comparison_rules [safe_intros] = leaves_mono [OF leaves_comparison]

definition safeParser :: "nat \<Rightarrow> condParser \<Rightarrow> bool" where
  "safeParser n p = (\<forall>ps. ended (toks ps) \<and> length (toks ps) \<le> n \<longrightarrow> leaves (length (toks ps)) (p ps))"

lemma safeD: "safeParser n p \<Longrightarrow> ended (toks ps) \<Longrightarrow> length (toks ps) \<le> n \<Longrightarrow> leaves (length (toks ps)) (p ps)"
  by (simp add: safeParser_def)

lemma safe_primary:
  assumes "safeParser n inside"
  shows "safeParser (Suc n) (parsePrimaryCond inside what)"
  unfolding safeParser_def
proof clarify
  fix ps :: pstate assume ps: "ended (toks ps)" "length (toks ps) \<le> Suc n"
  show "leaves (length (toks ps)) (parsePrimaryCond inside what ps)"
    unfolding parsePrimaryCond_def
  proof (rule leaves_next [OF ps(1)], goal_cases)
    case (1 t ps1)
    have "leaves (length (toks ps1)) (inside ps1)" using safeD [OF assms] 1 ps(2) by simp
    then show ?case
      using 1 ps(1) leaves_boolFunc [OF ps(1) 1(1,3,2)]
      by (auto intro!: safe_intros leaves_bind [of "length (toks ps1)" "inside ps1"])
  qed (use ps in \<open>auto intro!: safe_intros\<close>)
qed

lemma safe_not:
  assumes "safeParser n primary"
  shows "safeParser n (parseNot primary)"
proof -
  have "leaves (length (toks ps)) (notLoop k primary ps)" if "length (toks ps) < k" "ended (toks ps)" "length (toks ps) \<le> n" for k and ps
    using that
  proof (induction k arbitrary: ps)
    case (Suc k)
    show ?case
      by simp (rule leaves_keyword, use Suc.prems Suc.IH safeD [OF assms] in \<open>auto intro!: safe_intros leaves_bind [OF Suc.IH]\<close>)
  qed simp
  then show ?thesis unfolding safeParser_def parseNot_def loopBound_def by blast
qed

lemma safe_operators:
  assumes "safeParser n arg"
  shows "safeParser n (parseOperators w node arg)"
proof -
  have "leaves (Suc (length (toks ps))) (operatorLoop k w node arg left ps)" if "length (toks ps) < k" "ended (toks ps)" "length (toks ps) \<le> n" for k left and ps :: pstate
    using that
  proof (induction k arbitrary: ps left)
    case (Suc k)
    show ?case
      by simp (rule leaves_keyword, use Suc.prems in \<open>auto intro!: safe_intros leaves_bind [OF safeD [OF assms]] leaves_mono [OF Suc.IH]\<close>)
  qed simp
  note loop = leaves_mono [OF this]
  show ?thesis
    unfolding safeParser_def parseOperators_def loopBound_def
    by (auto intro!: leaves_bind [OF safeD [OF assms]] loop simp del: operatorLoop.simps)
qed

lemma safe_or: "safeParser n (parseOr (Suc n) what)"
proof (induction n)
  case 0
  show ?case by (auto simp: safeParser_def)
next
  case (Suc n)
  have "parseOr (Suc (Suc n)) what = parseOperators ''OR'' orNode (parseAnd (parsePrimaryCond (parseOr (Suc n) what) what))"
    by (simp add: fun_eq_iff)
  then show ?case by (simp only: parseAnd_def safe_operators safe_not safe_primary [OF Suc])
qed

lemma lex_ended: "lexFrom i src = Inr ts \<Longrightarrow> ended ts"
proof (induction i src arbitrary: ts rule: lexFrom.induct)
  case (2 i c cs)
  then obtain k n us where "lexStep i c cs = Inr (k, n)" "lexFrom (i + n) (drop n (c # cs)) = Inr us"
    "ts = (case k of None \<Rightarrow> [] | Some kd \<Rightarrow> [\<lparr>tkind = kd, ttext = take n (c # cs), tpos = i\<rparr>]) @ us"
    by auto
  then show ?case using "2.IH" by (auto simp: ended_def split: option.splits)
qed (simp add: ended_def)

lemma parse_safe: "parseCond src e what \<noteq> Inl OutOfTokens" "parseCond src e what \<noteq> Inl OutOfFuel"
proof -
  have no: "lexFrom i s \<noteq> Inl OutOfTokens \<and> lexFrom i s \<noteq> Inl OutOfFuel" for i s
  proof (induction i s rule: lexFrom.induct)
    case (2 i c cs)
    have "lexStep i c cs \<noteq> Inl OutOfTokens \<and> lexStep i c cs \<noteq> Inl OutOfFuel"
      by (auto simp: lexStep_def lexRef_def Let_def split: option.split)
    then show ?case using "2.IH" by (cases "lexStep i c cs") (fastforce simp: bindE_def split: sum.splits)+
  qed simp
  have "parseCond src e what \<noteq> Inl x" if x: "x = OutOfTokens \<or> x = OutOfFuel" for x
  proof (cases "lex_expr src")
    case (Inl y)
    then show ?thesis using no [of 0 src] x by (auto simp: parseCond_def lex_expr_def)
  next
    case (Inr ts)
    then have "ended ts" using lex_ended by (simp add: lex_expr_def)
    then have "leaves (length ts) (parseOr (Suc (length ts)) what \<lparr>toks = ts, env = e\<rparr>)"
      using safeD [OF safe_or, where ps = "\<lparr>toks = ts, env = e\<rparr>"] by simp
    then show ?thesis
      using Inr x by (auto simp: parseCond_def leaves_def peek_def bindE_def split: sum.splits list.splits)
  qed
  then show "parseCond src e what \<noteq> Inl OutOfTokens" "parseCond src e what \<noteq> Inl OutOfFuel" by simp_all
qed

end
