(* ===== verification/DdbSyntax.thy ===== *)
theory DdbSyntax
  imports DdbCond
begin

text \<open>
  The concrete syntax of conditions and what a text means. A condition is written with bare names and
  references to names, values as references, and parentheses exactly where \<open>SGroup\<close> stands; the theorem
  of this theory says that the parser reads it back, with \<^verbatim>\<open>OR\<close> weaker than \<^verbatim>\<open>AND\<close> weaker than \<^verbatim>\<open>NOT\<close> and
  both operators grouping to the left.
\<close>

subsection \<open>Concrete syntax\<close>

datatype srcName = Bare string | Ref string

type_synonym srcPath = "srcName \<times> (srcName + nat) list"

datatype srcOperand = SPath srcPath | SValue string | SSize srcPath

datatype srcCond =
    SAnd srcCond srcCond
  | SOr srcCond srcCond
  | SNot srcCond
  | SGroup srcCond
  | SCmp string srcOperand srcOperand
  | SBetween srcOperand srcOperand srcOperand
  | SIn srcOperand srcOperand "srcOperand list"
  | SFunc string srcPath "srcOperand option"

type_synonym tok = "tokKind \<times> string"

fun nameTok :: "srcName \<Rightarrow> tok" where
  "nameTok (Bare w) = (tokIdent, w)"
| "nameTok (Ref r) = (tokNameRef, r)"

fun stepToks :: "srcName + nat \<Rightarrow> tok list" where
  "stepToks (Inl n) = [(tokDot, ''.''), nameTok n]"
| "stepToks (Inr i) = [(tokLBracket, ''[''), (tokNumber, natStr i), (tokRBracket, '']'')]"

definition pathToks :: "srcPath \<Rightarrow> tok list" where
  "pathToks p = nameTok (fst p) # concat (map stepToks (snd p))"

fun operandToks :: "srcOperand \<Rightarrow> tok list" where
  "operandToks (SPath p) = pathToks p"
| "operandToks (SValue r) = [(tokValueRef, r)]"
| "operandToks (SSize p) = [(tokIdent, ''size''), (tokLParen, ''('')] @ pathToks p @ [(tokRParen, '')'')]"

fun moreToks :: "srcOperand list \<Rightarrow> tok list" where
  "moreToks [] = []"
| "moreToks (q # qs) = (tokComma, '','') # operandToks q @ moreToks qs"

fun condToks :: "srcCond \<Rightarrow> tok list" where
  "condToks (SAnd l r) = condToks l @ [(tokIdent, ''AND'')] @ condToks r"
| "condToks (SOr l r) = condToks l @ [(tokIdent, ''OR'')] @ condToks r"
| "condToks (SNot c) = (tokIdent, ''NOT'') # condToks c"
| "condToks (SGroup c) = [(tokLParen, ''('')] @ condToks c @ [(tokRParen, '')'')]"
| "condToks (SCmp w l r) = operandToks l @ [(tokCompare, w)] @ operandToks r"
| "condToks (SBetween v lo hi) =
     operandToks v @ [(tokIdent, ''BETWEEN'')] @ operandToks lo @ [(tokIdent, ''AND'')] @ operandToks hi"
| "condToks (SIn v q qs) =
     operandToks v @ [(tokIdent, ''IN''), (tokLParen, ''('')] @ operandToks q @ moreToks qs @ [(tokRParen, '')'')]"
| "condToks (SFunc name p a) =
     [(tokIdent, name), (tokLParen, ''('')] @ pathToks p @
     (case a of None \<Rightarrow> [] | Some q \<Rightarrow> (tokComma, '','') # operandToks q) @ [(tokRParen, '')'')]"

text \<open>The text of a condition: its tokens with blanks between them.\<close>

fun textOf :: "tok list \<Rightarrow> string" where
  "textOf [] = []"
| "textOf [t] = snd t"
| "textOf (t # ts) = snd t @ '' '' @ textOf ts"

subsection \<open>Meaning\<close>

fun nameOf :: "exprEnv \<Rightarrow> srcName \<Rightarrow> string" where
  "nameOf e (Bare w) = w"
| "nameOf e (Ref r) = (case map_of (Names e) r of None \<Rightarrow> [] | Some n \<Rightarrow> n)"

fun segOf :: "exprEnv \<Rightarrow> srcName + nat \<Rightarrow> pathSeg" where
  "segOf e (Inl n) = attrSeg (nameOf e n)"
| "segOf e (Inr i) = indexSeg (int i)"

definition pathOf :: "exprEnv \<Rightarrow> srcPath \<Rightarrow> path" where
  "pathOf e p = attrSeg (nameOf e (fst p)) # map (segOf e) (snd p)"

fun operandOf :: "exprEnv \<Rightarrow> srcOperand \<Rightarrow> operand" where
  "operandOf e (SPath p) = pathOperand (pathOf e p)"
| "operandOf e (SValue r) = valueOperand r (case map_of (Values e) r of None \<Rightarrow> VNull | Some v \<Rightarrow> v)"
| "operandOf e (SSize p) = sizeOperand (pathOf e p)"

fun condOf :: "exprEnv \<Rightarrow> srcCond \<Rightarrow> condNode" where
  "condOf e (SAnd l r) = andNode (condOf e l) (condOf e r)"
| "condOf e (SOr l r) = orNode (condOf e l) (condOf e r)"
| "condOf e (SNot c) = notNode (condOf e c)"
| "condOf e (SGroup c) = groupNode (condOf e c)"
| "condOf e (SCmp w l r) = cmpNode w (operandOf e l) (operandOf e r)"
| "condOf e (SBetween v lo hi) = betweenNode (operandOf e v) (operandOf e lo) (operandOf e hi)"
| "condOf e (SIn v q qs) = inNode (operandOf e v) (map (operandOf e) (q # qs))"
| "condOf e (SFunc name p a) = funcNode name (pathOf e p) (map_option (operandOf e) a)"

text \<open>The references a text uses, in order.\<close>

fun nameRefs :: "srcName \<Rightarrow> string list" where
  "nameRefs (Bare w) = []"
| "nameRefs (Ref r) = [r]"

definition pathRefs :: "srcPath \<Rightarrow> string list" where
  "pathRefs p = nameRefs (fst p) @ concat (map (\<lambda>s. case s of Inl n \<Rightarrow> nameRefs n | Inr _ \<Rightarrow> []) (snd p))"

fun operandRefs :: "srcOperand \<Rightarrow> string list" where
  "operandRefs (SPath p) = pathRefs p"
| "operandRefs (SValue r) = []"
| "operandRefs (SSize p) = pathRefs p"

fun operandVals :: "srcOperand \<Rightarrow> string list" where
  "operandVals (SValue r) = [r]"
| "operandVals _ = []"

fun condRefs :: "srcCond \<Rightarrow> string list" where
  "condRefs (SAnd l r) = condRefs l @ condRefs r"
| "condRefs (SOr l r) = condRefs l @ condRefs r"
| "condRefs (SNot c) = condRefs c"
| "condRefs (SGroup c) = condRefs c"
| "condRefs (SCmp w l r) = operandRefs l @ operandRefs r"
| "condRefs (SBetween v lo hi) = operandRefs v @ operandRefs lo @ operandRefs hi"
| "condRefs (SIn v q qs) = operandRefs v @ concat (map operandRefs (q # qs))"
| "condRefs (SFunc name p a) = pathRefs p @ (case a of None \<Rightarrow> [] | Some q \<Rightarrow> operandRefs q)"

fun condVals :: "srcCond \<Rightarrow> string list" where
  "condVals (SAnd l r) = condVals l @ condVals r"
| "condVals (SOr l r) = condVals l @ condVals r"
| "condVals (SNot c) = condVals c"
| "condVals (SGroup c) = condVals c"
| "condVals (SCmp w l r) = operandVals l @ operandVals r"
| "condVals (SBetween v lo hi) = operandVals v @ operandVals lo @ operandVals hi"
| "condVals (SIn v q qs) = operandVals v @ concat (map operandVals (q # qs))"
| "condVals (SFunc name p a) = (case a of None \<Rightarrow> [] | Some q \<Rightarrow> operandVals q)"

subsection \<open>Which texts are conditions\<close>

fun identText :: "string \<Rightarrow> bool" where
  "identText [] = False"
| "identText (c # cs) = (isIdentStart c \<and> list_all isIdentChar cs)"

fun refText :: "char \<Rightarrow> string \<Rightarrow> bool" where
  "refText m [] = False"
| "refText m (c # cs) = (c = m \<and> cs \<noteq> [] \<and> list_all isIdentChar cs)"

fun nameOk :: "exprEnv \<Rightarrow> srcName \<Rightarrow> bool" where
  "nameOk e (Bare w) = (identText w \<and> upperText w \<notin> set reservedList)"
| "nameOk e (Ref r) = (refText (CHR ''#'') r \<and> map_of (Names e) r \<noteq> None)"

fun stepOk :: "exprEnv \<Rightarrow> srcName + nat \<Rightarrow> bool" where
  "stepOk e (Inl n) = nameOk e n"
| "stepOk e (Inr i) = (i < 2 ^ 63)"

definition pathOk :: "exprEnv \<Rightarrow> srcPath \<Rightarrow> bool" where
  "pathOk e p = (nameOk e (fst p) \<and> list_all (stepOk e) (snd p))"

fun operandOk :: "exprEnv \<Rightarrow> srcOperand \<Rightarrow> bool" where
  "operandOk e (SPath p) = pathOk e p"
| "operandOk e (SValue r) = (refText (CHR '':'') r \<and> map_of (Values e) r \<noteq> None)"
| "operandOk e (SSize p) = pathOk e p"

text \<open>At the start of a condition a bare name that is also the name of a function is read as the function.\<close>

fun startOk :: "srcOperand \<Rightarrow> bool" where
  "startOk (SPath (Bare w, _)) = (lowerText w \<notin> set boolFuncs)"
| "startOk _ = True"

fun isOr :: "srcCond \<Rightarrow> bool" where "isOr (SOr _ _) = True" | "isOr _ = False"
fun isAnd :: "srcCond \<Rightarrow> bool" where "isAnd (SAnd _ _) = True" | "isAnd _ = False"

definition comparators :: "string list" where
  "comparators = [''='', ''<>'', ''<'', ''<='', ''>'', ''>='']"

fun condOk :: "exprEnv \<Rightarrow> srcCond \<Rightarrow> bool" where
  "condOk e (SAnd l r) = (condOk e l \<and> condOk e r \<and> \<not> isOr l \<and> \<not> isOr r \<and> \<not> isAnd r)"
| "condOk e (SOr l r) = (condOk e l \<and> condOk e r \<and> \<not> isOr r)"
| "condOk e (SNot c) = (condOk e c \<and> \<not> isOr c \<and> \<not> isAnd c)"
| "condOk e (SGroup c) = condOk e c"
| "condOk e (SCmp w l r) = (w \<in> set comparators \<and> operandOk e l \<and> startOk l \<and> operandOk e r)"
| "condOk e (SBetween v lo hi) = (operandOk e v \<and> startOk v \<and> operandOk e lo \<and> operandOk e hi)"
| "condOk e (SIn v q qs) = (operandOk e v \<and> startOk v \<and> operandOk e q \<and> list_all (operandOk e) qs)"
| "condOk e (SFunc name p a) =
     (name \<in> set boolFuncs \<and> pathOk e p \<and>
      (case a of
         None \<Rightarrow> name \<in> {''attribute_exists'', ''attribute_not_exists''}
       | Some q \<Rightarrow> name \<notin> {''attribute_exists'', ''attribute_not_exists''} \<and> operandOk e q))"

subsection \<open>Reading tokens\<close>

definition shape :: "token list \<Rightarrow> tok list" where
  "shape ts = map (\<lambda>t. (tkind t, ttext t)) ts"

definition mark :: "string list \<Rightarrow> string list \<Rightarrow> exprEnv \<Rightarrow> exprEnv" where
  "mark ns vs e = e\<lparr>usedN := rev ns @ usedN e, usedV := rev vs @ usedV e\<rparr>"

definition same :: "exprEnv \<Rightarrow> exprEnv \<Rightarrow> bool" where
  "same e f = (Names f = Names e \<and> Values f = Values e)"

lemma mark_simps [simp]:
  "mark [] [] e = e" "mark ns2 vs2 (mark ns1 vs1 e) = mark (ns1 @ ns2) (vs1 @ vs2) e" "same e (mark ns vs f) = same e f"
  by (simp_all add: mark_def same_def)

definition follows :: "tok list \<Rightarrow> bool" where
  "follows us = (us \<noteq> [] \<and> fst (hd us) \<noteq> tokDot \<and> fst (hd us) \<noteq> tokLBracket)"

lemma follows_Cons [simp]: "follows ((k, w) # us) \<longleftrightarrow> k \<noteq> tokDot \<and> k \<noteq> tokLBracket"
  by (simp add: follows_def)

text \<open>A parser reads the tokens \<open>us\<close>, whatever follows them, with a result in \<open>Q\<close>.\<close>

definition reads ::
  "(pstate \<Rightarrow> exprError + 'a \<times> pstate) \<Rightarrow> exprEnv \<Rightarrow> tok list \<Rightarrow> ('a \<Rightarrow> bool) \<Rightarrow> string list \<Rightarrow> string list \<Rightarrow> bool" where
  "reads p e us Q ns vs =
     (\<forall>ps rest. same e (env ps) \<and> shape (toks ps) = us @ rest \<and> follows rest \<longrightarrow>
        (\<exists>x ps1. p ps = Inr (x, ps1) \<and> Q x \<and> shape (toks ps1) = rest \<and> env ps1 = mark ns vs (env ps)))"

lemma readsI:
  assumes "\<And>ps rest. same e (env ps) \<Longrightarrow> shape (toks ps) = us @ rest \<Longrightarrow> follows rest \<Longrightarrow>
    \<exists>x ps1. p ps = Inr (x, ps1) \<and> Q x \<and> shape (toks ps1) = rest \<and> env ps1 = mark ns vs (env ps)"
  shows "reads p e us Q ns vs"
  using assms by (simp add: reads_def)

lemma readsD:
  assumes "reads p e us Q ns vs" "same e (env ps)" "shape (toks ps) = us @ rest" "follows rest"
  obtains x ps1 where "p ps = Inr (x, ps1)" "Q x" "shape (toks ps1) = rest" "env ps1 = mark ns vs (env ps)"
  using assms unfolding reads_def by blast

lemma reads_bind:
  assumes "reads p e us Q ns vs" "\<And>x. Q x \<Longrightarrow> reads (\<lambda>ps. f (x, ps)) e us' R ns' vs'" "us' = [] \<or> follows us'"
    and "us2 = us @ us'" "ns2 = ns @ ns'" "vs2 = vs @ vs'"
  shows "reads (\<lambda>ps. bindE (p ps) f) e us2 R ns2 vs2"
proof (rule readsI)
  fix ps :: pstate and rest assume a: "same e (env ps)" "shape (toks ps) = us2 @ rest" "follows rest"
  have f: "follows (us' @ rest)" using assms(3) a(3) by (cases us') auto
  from a(2) assms(4) have s: "shape (toks ps) = us @ (us' @ rest)" by simp
  obtain x ps1 where 1: "p ps = Inr (x, ps1)" "Q x" "shape (toks ps1) = us' @ rest" "env ps1 = mark ns vs (env ps)"
    using readsD [OF assms(1) a(1) s f] .
  have "same e (env ps1)" using a(1) 1(4) by simp
  then obtain y ps2 where "f (x, ps1) = Inr (y, ps2)" "R y" "shape (toks ps2) = rest" "env ps2 = mark ns' vs' (env ps1)"
    using readsD [OF assms(2) [OF 1(2)]] 1(3) a(3) by metis
  then show "\<exists>x ps1. bindE (p ps) f = Inr (x, ps1) \<and> R x \<and> shape (toks ps1) = rest \<and> env ps1 = mark ns2 vs2 (env ps)"
    using 1(1,4) assms(5,6) by simp
qed

lemma reads_Inr: "Q x \<Longrightarrow> reads (\<lambda>ps. Inr (x, ps)) e [] Q [] []"
  by (simp add: reads_def)

lemma next_shape:
  assumes "shape (toks ps) = (k, w) # us"
  obtains t ps1 where "nextTok ps = Inr (t, ps1)" "tkind t = k" "ttext t = w" "shape (toks ps1) = us" "env ps1 = env ps"
  using assms by (cases "toks ps") (auto simp: nextTok_def shape_def)

lemma reads_token:
  assumes "\<And>t ps. tkind t = k \<Longrightarrow> ttext t = w \<Longrightarrow> reads (\<lambda>ps1. g t ps1 ps) e us R ns vs"
  shows "reads (\<lambda>ps. bindE (nextTok ps) (\<lambda>(t, ps1). g t ps1 ps)) e ((k, w) # us) R ns vs"
proof (rule readsI)
  fix ps :: pstate and rest assume a: "same e (env ps)" "shape (toks ps) = ((k, w) # us) @ rest" "follows rest"
  from a(2) have s: "shape (toks ps) = (k, w) # (us @ rest)" by simp
  obtain t ps1 where 1: "nextTok ps = Inr (t, ps1)" "tkind t = k" "ttext t = w" "shape (toks ps1) = us @ rest" "env ps1 = env ps"
    using next_shape [OF s] .
  have "same e (env ps1)" using a(1) 1(5) by simp
  then obtain x ps2 where "g t ps1 ps = Inr (x, ps2)" "R x" "shape (toks ps2) = rest" "env ps2 = mark ns vs (env ps1)"
    using readsD [OF assms [OF 1(2,3)] _ 1(4) a(3)] by metis
  then show "\<exists>x ps1. bindE (nextTok ps) (\<lambda>(t, ps1). g t ps1 ps) = Inr (x, ps1) \<and> R x \<and> shape (toks ps1) = rest \<and> env ps1 = mark ns vs (env ps)"
    using 1 by auto
qed

lemma reads_expect: "reads (expect k what) e [(k, w)] (\<lambda>t. ttext t = w) [] []"
  unfolding expect_def by (rule reads_token) (auto simp: reads_Inr)

text \<open>Looking at a token without reading it.\<close>

lemma reads_peek:
  assumes "\<And>t ps1 ps. tkind t = k \<Longrightarrow> ttext t = w \<Longrightarrow> g t ps1 ps = p ps" "reads p e ((k, w) # us) R ns vs"
  shows "reads (\<lambda>ps. bindE (nextTok ps) (\<lambda>(t, ps1). g t ps1 ps)) e ((k, w) # us) R ns vs"
proof (rule readsI)
  fix ps :: pstate and rest assume a: "same e (env ps)" "shape (toks ps) = ((k, w) # us) @ rest" "follows rest"
  from a(2) have s: "shape (toks ps) = (k, w) # (us @ rest)" by simp
  obtain t ps1 where "nextTok ps = Inr (t, ps1)" "tkind t = k" "ttext t = w" using next_shape [OF s] by metis
  then show "\<exists>x ps1. bindE (nextTok ps) (\<lambda>(t, ps1). g t ps1 ps) = Inr (x, ps1) \<and> R x \<and> shape (toks ps1) = rest \<and> env ps1 = mark ns vs (env ps)"
    using readsD [OF assms(2) a] assms(1) by (metis (no_types, lifting) bindE_simps(2) case_prod_conv)
qed

lemma skip_word:
  assumes "shape (toks ps) = (k, w) # us" "\<not> (k = tokIdent \<and> (\<exists>x\<in>set ws. sameWord w x))"
  shows "keyword ws ps = Inr None"
proof -
  obtain t ps1 where "nextTok ps = Inr (t, ps1)" "tkind t = k" "ttext t = w" using next_shape [OF assms(1)] by metis
  then show ?thesis using assms(2) by (auto simp: keyword_def)
qed

lemma read_word:
  assumes "shape (toks ps) = (tokIdent, w) # us" "x \<in> set ws" "sameWord w x"
  obtains v ps1 where "keyword ws ps = Inr (Some (v, ps1))" "shape (toks ps1) = us" "env ps1 = env ps"
proof -
  obtain t ps1 where "nextTok ps = Inr (t, ps1)" "tkind t = tokIdent" "ttext t = w" "shape (toks ps1) = us" "env ps1 = env ps"
    using next_shape [OF assms(1)] .
  then show ?thesis using assms(2,3) by (intro that [of "upperText w" ps1]) (auto simp: keyword_def)
qed

subsection \<open>Paths and operands\<close>

lemma read_head:
  assumes "nameOk e n" "same e (env ps)" "shape (toks ps) = nameTok n # rest"
  obtains ps1 where "parsePathHead what ps = Inr (attrSeg (nameOf e n), ps1)" "shape (toks ps1) = rest" "env ps1 = mark (nameRefs n) [] (env ps)"
proof (cases n)
  case (Bare w)
  then have "shape (toks ps) = (tokIdent, w) # rest" using assms(3) by simp
  then obtain t ps1 where "nextTok ps = Inr (t, ps1)" "tkind t = tokIdent" "ttext t = w" "shape (toks ps1) = rest" "env ps1 = env ps"
    by (rule next_shape)
  then show ?thesis using assms(1) Bare by (intro that [of ps1]) (simp_all add: parsePathHead_def bareName_def)
next
  case (Ref r)
  then obtain a where a: "map_of (Names e) r = Some a" using assms by auto
  have "shape (toks ps) = (tokNameRef, r) # rest" using Ref assms(3) by simp
  then obtain t ps1 where "nextTok ps = Inr (t, ps1)" "tkind t = tokNameRef" "ttext t = r" "shape (toks ps1) = rest" "env ps1 = env ps"
    by (rule next_shape)
  then show ?thesis using assms(2) Ref a
    by (intro that [of "ps1\<lparr>env := mark [r] [] (env ps)\<rparr>"]) (simp_all add: parsePathHead_def resolveName_def same_def mark_def)
qed

lemma read_expect:
  assumes "shape (toks ps) = (k, w) # rest"
  obtains t ps1 where "expect k what ps = Inr (t, ps1)" "ttext t = w" "shape (toks ps1) = rest" "env ps1 = env ps"
proof -
  obtain t ps1 where "nextTok ps = Inr (t, ps1)" "tkind t = k" "ttext t = w" "shape (toks ps1) = rest" "env ps1 = env ps"
    using next_shape [OF assms] .
  then show ?thesis by (intro that [of t ps1]) (simp_all add: expect_def)
qed

lemma listIndex_natStr: "i < 2 ^ 63 \<Longrightarrow> listIndex (natStr i) = int i"
  using parseBig_intStr [of "int i"] by (simp add: listIndex_def intStr_def min_def)

lemma steps_start: "us = concat (map stepToks st) \<Longrightarrow> st \<noteq> [] \<Longrightarrow> fst (hd us) = tokDot \<or> fst (hd us) = tokLBracket"
  by (cases st; cases "hd st") auto

text \<open>The steps of a path are read until a token follows that continues none.\<close>

lemma read_steps:
  "list_all (stepOk e) st \<Longrightarrow> same e (env ps) \<Longrightarrow> shape (toks ps) = concat (map stepToks st) @ rest \<Longrightarrow> follows rest \<Longrightarrow>
   \<exists>ps1. parsePathRest what segs ps = Inr (segs @ map (segOf e) st, ps1) \<and> shape (toks ps1) = rest \<and>
     env ps1 = mark (concat (map (\<lambda>s. case s of Inl n \<Rightarrow> nameRefs n | Inr _ \<Rightarrow> []) st)) [] (env ps)"
proof (induction st arbitrary: segs ps)
  case Nil
  then obtain k w us where r: "rest = (k, w) # us" "k \<noteq> tokDot" "k \<noteq> tokLBracket" by (cases rest) (auto simp: follows_def)
  then have s: "shape (toks ps) = (k, w) # us" using Nil by simp
  obtain t ps1 where "nextTok ps = Inr (t, ps1)" "tkind t = k" using next_shape [OF s] by metis
  then show ?case using r Nil by (simp add: parsePathRest.simps [of what segs ps])
next
  case (Cons x st)
  let ?rest = "concat (map stepToks st) @ rest"
  show ?case
  proof (cases x)
    case (Inl n)
    have s: "shape (toks ps) = (tokDot, ''.'') # nameTok n # ?rest" using Cons.prems(3) Inl by simp
    obtain t ps1 where 1: "nextTok ps = Inr (t, ps1)" "tkind t = tokDot" "shape (toks ps1) = nameTok n # ?rest" "env ps1 = env ps"
      using next_shape [OF s] by metis
    have ok: "nameOk e n" "same e (env ps1)" using Cons.prems Inl 1(4) by simp_all
    obtain ps2 where 2: "parsePathHead what ps1 = Inr (attrSeg (nameOf e n), ps2)" "shape (toks ps2) = ?rest" "env ps2 = mark (nameRefs n) [] (env ps1)"
      using read_head [OF ok 1(3)] .
    show ?thesis using Cons.IH [of ps2 "segs @ [attrSeg (nameOf e n)]"] Cons.prems 1 2 Inl by (simp add: parsePathRest.simps [of what segs ps])
  next
    case (Inr i)
    have s: "shape (toks ps) = (tokLBracket, ''['') # (tokNumber, natStr i) # (tokRBracket, '']'') # ?rest" using Cons.prems(3) Inr by simp
    obtain t ps1 where 1: "nextTok ps = Inr (t, ps1)" "tkind t = tokLBracket" "shape (toks ps1) = (tokNumber, natStr i) # (tokRBracket, '']'') # ?rest" "env ps1 = env ps"
      using next_shape [OF s] by metis
    obtain u ps2 where 2: "expect tokNumber ''a list index'' ps1 = Inr (u, ps2)" "ttext u = natStr i" "shape (toks ps2) = (tokRBracket, '']'') # ?rest" "env ps2 = env ps1"
      using read_expect [OF 1(3)] .
    obtain v ps3 where 3: "expect tokRBracket '']'' ps2 = Inr (v, ps3)" "shape (toks ps3) = ?rest" "env ps3 = env ps2"
      using read_expect [OF 2(3)] by metis
    show ?thesis using Cons.IH [of ps3 "segs @ [indexSeg (int i)]"] Cons.prems 1 2 3 Inr
      by (simp add: parsePathRest.simps [of what segs ps] listIndex_natStr)
  qed
qed

lemma reads_path: "pathOk e p \<Longrightarrow> reads (parsePath what) e (pathToks p) (\<lambda>x. x = pathOf e p) (pathRefs p) []"
proof (rule readsI)
  fix ps :: pstate and rest assume a: "pathOk e p" "same e (env ps)" "shape (toks ps) = pathToks p @ rest" "follows rest"
  let ?rest = "concat (map stepToks (snd p)) @ rest"
  have s: "shape (toks ps) = nameTok (fst p) # ?rest" using a(3) by (simp add: pathToks_def)
  have ok: "nameOk e (fst p)" "list_all (stepOk e) (snd p)" using a(1) by (simp_all add: pathOk_def)
  obtain ps1 where 1: "parsePathHead what ps = Inr (attrSeg (nameOf e (fst p)), ps1)" "shape (toks ps1) = ?rest" "env ps1 = mark (nameRefs (fst p)) [] (env ps)"
    using read_head [OF ok(1) a(2) s] .
  have "same e (env ps1)" using a(2) 1(3) by simp
  then show "\<exists>x ps1. parsePath what ps = Inr (x, ps1) \<and> x = pathOf e p \<and> shape (toks ps1) = rest \<and> env ps1 = mark (pathRefs p) [] (env ps)"
    using read_steps [OF ok(2) _ 1(2) a(4), of what "[attrSeg (nameOf e (fst p))]"] 1
    by (auto simp: parsePath_def pathOf_def pathRefs_def)
qed

lemma path_start: "pathToks p = nameTok (fst p) # tl (pathToks p)"
  by (simp add: pathToks_def)

lemma name_follows [simp]: "follows (pathToks p @ us)" "follows (pathToks p)"
  by (cases "fst p"; simp add: pathToks_def)+

lemma reserved_members:
  "''SIZE'' \<in> set reservedList" "''NOT'' \<in> set reservedList" "''AND'' \<in> set reservedList" "''OR'' \<in> set reservedList"
  "''BETWEEN'' \<in> set reservedList" "''IN'' \<in> set reservedList"
  by (simp_all add: reservedList_def)

lemma reserved_words: "upperText w \<notin> set reservedList \<Longrightarrow> x \<in> set [''size'', ''NOT'', ''AND'', ''OR'', ''BETWEEN'', ''IN''] \<Longrightarrow> \<not> sameWord w x"
proof
  assume a: "upperText w \<notin> set reservedList" "x \<in> set [''size'', ''NOT'', ''AND'', ''OR'', ''BETWEEN'', ''IN'']" "sameWord w x"
  have "upperByte (lowerByte c) = upperByte c" for c
    by (cases "65 \<le> (of_char c :: nat) \<and> of_char c \<le> (90 :: nat)") (auto simp: upperByte_def lowerByte_def)
  then have u: "upperText (lowerText y) = upperText y" for y by (simp add: upperText_def lowerText_def)
  have "upperText w = upperText x" using a(3) u [of w] u [of x] by (simp add: sameWord_def)
  moreover have "map upperText [''size'', ''NOT'', ''AND'', ''OR'', ''BETWEEN'', ''IN''] = [''SIZE'', ''NOT'', ''AND'', ''OR'', ''BETWEEN'', ''IN'']"
    by code_simp
  ultimately show False using a(1,2) reserved_members by auto
qed

lemma reads_pathOperand:
  "pathOk e p \<Longrightarrow> reads (parsePathOperand what) e (pathToks p) (\<lambda>x. x = pathOperand (pathOf e p)) (pathRefs p) []"
  unfolding parsePathOperand_def by (rule reads_bind [OF reads_path]) (auto intro: reads_Inr)

lemma reads_operand:
  assumes "operandOk e q"
  shows "reads (parseOperand what) e (operandToks q) (\<lambda>x. x = operandOf e q) (operandRefs q) (operandVals q)"
proof (cases q)
  case (SPath p)
  then have ok: "pathOk e p" using assms by simp
  have "reads (parseOperand what) e (nameTok (fst p) # tl (pathToks p)) (\<lambda>x. x = operandOf e q) (operandRefs q) (operandVals q)"
  proof (cases "fst p")
    case (Bare w)
    have n: "\<not> sameWord w ''size''" using ok Bare reserved_words [of w "''size''"] by (simp add: pathOk_def)
    show ?thesis unfolding parseOperand_def Bare nameTok.simps
      by (rule reads_peek [where p = "parsePathOperand what"])
        (use n reads_pathOperand [OF ok, of what] path_start [of p] Bare SPath in simp_all)
  next
    case (Ref r)
    show ?thesis unfolding parseOperand_def Ref nameTok.simps
      by (rule reads_peek [where p = "parsePathOperand what"])
        (use reads_pathOperand [OF ok, of what] path_start [of p] Ref SPath in simp_all)
  qed
  then show ?thesis using SPath path_start [of p] by simp
next
  case (SValue r)
  then obtain a where a: "map_of (Values e) r = Some a" using assms by auto
  have "reads (\<lambda>ps1. bindE (resolveValue r (env ps1)) (\<lambda>(v, e). Inr (valueOperand r v, ps1\<lparr>env := e\<rparr>))) e [] (\<lambda>x. x = valueOperand r a) [] [r]"
    by (rule readsI) (use a in \<open>auto simp: resolveValue_def same_def mark_def\<close>)
  then have r: "reads (\<lambda>ps1. bindE (resolveValue r (env ps1)) (\<lambda>(v, e). Inr (valueOperand r v, ps1\<lparr>env := e\<rparr>))) e [] (\<lambda>x. x = operandOf e q) [] [r]"
    using SValue a by simp
  show ?thesis unfolding parseOperand_def SValue operandToks.simps
    by (rule reads_token) (use r SValue in simp)
next
  case (SSize p)
  then have ok: "pathOk e p" using assms by simp
  have e: "lowerText ''size'' = ''size''" by code_simp
  have r: "reads (\<lambda>ps2. bindE (parsePath what ps2) (\<lambda>(p, ps3). bindE (expect tokRParen '')'' ps3) (\<lambda>(_, ps4). Inr (sizeOperand p, ps4))))
      e (pathToks p @ [(tokRParen, '')'')]) (\<lambda>x. x = sizeOperand (pathOf e p)) (pathRefs p) []"
    by (rule reads_bind [OF reads_path [OF ok]])
      (auto intro!: reads_bind [OF reads_expect, where us' = "[]"] reads_Inr)
  show ?thesis unfolding SSize parseOperand_def operandToks.simps append_Cons append_Nil
    by (rule reads_token, simp add: sameWord_def e, rule reads_token, simp add: r)
qed

subsection \<open>Comparisons and functions\<close>

lemma operand_follows [simp]: "follows (operandToks q @ us)"
  by (cases q) auto

lemma reads_comma_operand:
  "operandOk e q \<Longrightarrow> reads (\<lambda>ps3. bindE (expect tokComma what2 ps3) (\<lambda>(_, ps4). bindE (parseOperand what ps4) (\<lambda>(q, ps5). Inr (Some q, ps5))))
     e ((tokComma, '','') # operandToks q) (\<lambda>x. x = Some (operandOf e q)) (operandRefs q) (operandVals q)"
  by (rule reads_bind [OF reads_expect, where us' = "operandToks q"])
    (use operand_follows [of q "[]"] in \<open>auto intro!: reads_bind [OF reads_operand, where us' = "[]"] reads_Inr\<close>)

lemma reads_options:
  "operandOk e q \<Longrightarrow> list_all (operandOk e) qs \<Longrightarrow> same e (env ps) \<Longrightarrow>
   shape (toks ps) = operandToks q @ moreToks qs @ (tokRParen, '')'') # rest \<Longrightarrow>
   \<exists>ps1. parseOptions what opts ps = Inr (opts @ map (operandOf e) (q # qs), ps1) \<and> shape (toks ps1) = (tokRParen, '')'') # rest \<and>
     env ps1 = mark (concat (map operandRefs (q # qs))) (concat (map operandVals (q # qs))) (env ps)"
proof (induction qs arbitrary: q opts ps)
  case Nil
  then have s: "shape (toks ps) = operandToks q @ (tokRParen, '')'') # rest" by simp
  obtain x ps1 where 1: "parseOperand what ps = Inr (x, ps1)" "x = operandOf e q" "shape (toks ps1) = (tokRParen, '')'') # rest"
    "env ps1 = mark (operandRefs q) (operandVals q) (env ps)"
    using readsD [OF reads_operand [OF Nil(1)] Nil(3) s] by auto
  obtain t ps2 where "nextTok ps1 = Inr (t, ps2)" "tkind t = tokRParen" using next_shape [OF 1(3)] by metis
  then show ?case using 1 by (simp add: parseOptions.simps [of what opts ps])
next
  case (Cons r qs)
  let ?rest = "operandToks r @ moreToks qs @ (tokRParen, '')'') # rest"
  have s: "shape (toks ps) = operandToks q @ (tokComma, '','') # ?rest" using Cons.prems(4) by simp
  obtain x ps1 where 1: "parseOperand what ps = Inr (x, ps1)" "x = operandOf e q" "shape (toks ps1) = (tokComma, '','') # ?rest"
    "env ps1 = mark (operandRefs q) (operandVals q) (env ps)"
    using readsD [OF reads_operand [OF Cons.prems(1)] Cons.prems(3) s] by auto
  obtain t ps2 where 2: "nextTok ps1 = Inr (t, ps2)" "tkind t = tokComma" "shape (toks ps2) = ?rest" "env ps2 = env ps1"
    using next_shape [OF 1(3)] by metis
  have "same e (env ps2)" using Cons.prems(3) 1(4) 2(4) by simp
  then show ?case using Cons.IH [of r ps2 "opts @ [x]"] Cons.prems(2) 1 2 by (simp add: parseOptions.simps [of what opts ps])
qed

lemma word_names: "lowerText ''BETWEEN'' = ''between''" "lowerText ''AND'' = ''and''" "lowerText ''IN'' = ''in''" "lowerText ''NOT'' = ''not''" "lowerText ''OR'' = ''or''"
  by code_simp+

lemma reads_cmp:
  "operandOk e r \<Longrightarrow> reads (parseComparison what x) e ((tokCompare, w) # operandToks r) (\<lambda>n. n = cmpNode w x (operandOf e r)) (operandRefs r) (operandVals r)"
  unfolding parseComparison_def
  by (rule reads_token) (auto intro!: reads_bind [OF reads_operand, where us' = "[]"] reads_Inr)

lemma read_operand:
  assumes "operandOk e q" "same e (env ps)" "shape (toks ps) = operandToks q @ rest" "follows rest"
  obtains ps1 where "parseOperand what ps = Inr (operandOf e q, ps1)" "shape (toks ps1) = rest"
    "env ps1 = mark (operandRefs q) (operandVals q) (env ps)" "same e (env ps1)"
proof -
  obtain x ps1 where "parseOperand what ps = Inr (x, ps1)" "x = operandOf e q" "shape (toks ps1) = rest" "env ps1 = mark (operandRefs q) (operandVals q) (env ps)"
    using readsD [OF reads_operand [OF assms(1)] assms(2-4)] .
  then show ?thesis using assms(2) by (intro that [of ps1]) simp_all
qed

lemma reads_between:
  assumes "operandOk e lo" "operandOk e hi"
  shows "reads (parseComparison what x) e ((tokIdent, ''BETWEEN'') # operandToks lo @ (tokIdent, ''AND'') # operandToks hi)
    (\<lambda>n. n = betweenNode x (operandOf e lo) (operandOf e hi)) (operandRefs lo @ operandRefs hi) (operandVals lo @ operandVals hi)"
proof (rule readsI)
  fix ps :: pstate and rest
  assume a: "same e (env ps)" "shape (toks ps) = ((tokIdent, ''BETWEEN'') # operandToks lo @ (tokIdent, ''AND'') # operandToks hi) @ rest" "follows rest"
  let ?hi = "operandToks hi @ rest" and ?lo = "operandToks lo @ (tokIdent, ''AND'') # operandToks hi @ rest"
  have s: "shape (toks ps) = (tokIdent, ''BETWEEN'') # ?lo" using a(2) by simp
  obtain t ps1 where 1: "nextTok ps = Inr (t, ps1)" "tkind t = tokIdent" using next_shape [OF s] by metis
  obtain v ps2 where 2: "keyword [''BETWEEN''] ps = Inr (Some (v, ps2))" "shape (toks ps2) = ?lo" "env ps2 = env ps"
    using read_word [OF s, of "''BETWEEN''" "[''BETWEEN'']"] by (auto simp: sameWord_def)
  have e2: "same e (env ps2)" using a(1) 2(3) by simp
  obtain ps3 where 3: "parseOperand what ps2 = Inr (operandOf e lo, ps3)" "shape (toks ps3) = (tokIdent, ''AND'') # ?hi"
    "env ps3 = mark (operandRefs lo) (operandVals lo) (env ps2)" "same e (env ps3)"
    using read_operand [OF assms(1) e2 2(2)] by auto
  obtain w ps4 where 4: "keyword [''AND''] ps3 = Inr (Some (w, ps4))" "shape (toks ps4) = ?hi" "env ps4 = env ps3"
    using read_word [OF 3(2), of "''AND''" "[''AND'']"] by (auto simp: sameWord_def)
  have e4: "same e (env ps4)" using 3(4) 4(3) by simp
  obtain ps5 where "parseOperand what ps4 = Inr (operandOf e hi, ps5)" "shape (toks ps5) = rest" "env ps5 = mark (operandRefs hi) (operandVals hi) (env ps4)"
    using read_operand [OF assms(2) e4 4(2) a(3)] by metis
  then show "\<exists>y ps1. parseComparison what x ps = Inr (y, ps1) \<and> y = betweenNode x (operandOf e lo) (operandOf e hi) \<and> shape (toks ps1) = rest \<and>
      env ps1 = mark (operandRefs lo @ operandRefs hi) (operandVals lo @ operandVals hi) (env ps)"
    using 1 2 3 4 by (simp add: parseComparison_def)
qed

lemma reads_in:
  assumes "operandOk e q" "list_all (operandOk e) qs"
  shows "reads (parseComparison what x) e ([(tokIdent, ''IN''), (tokLParen, ''('')] @ operandToks q @ moreToks qs @ [(tokRParen, '')'')])
    (\<lambda>n. n = inNode x (map (operandOf e) (q # qs))) (concat (map operandRefs (q # qs))) (concat (map operandVals (q # qs)))"
proof (rule readsI)
  fix ps :: pstate and rest
  assume a: "same e (env ps)" "shape (toks ps) = ([(tokIdent, ''IN''), (tokLParen, ''('')] @ operandToks q @ moreToks qs @ [(tokRParen, '')'')]) @ rest" "follows rest"
  let ?opts = "operandToks q @ moreToks qs @ (tokRParen, '')'') # rest"
  have s: "shape (toks ps) = (tokIdent, ''IN'') # (tokLParen, ''('') # ?opts" using a(2) by simp
  obtain t ps1 where 1: "nextTok ps = Inr (t, ps1)" "tkind t = tokIdent" using next_shape [OF s] by metis
  have b: "keyword [''BETWEEN''] ps = Inr None" by (rule skip_word [OF s]) (simp add: sameWord_def word_names)
  obtain v ps2 where 2: "keyword [''IN''] ps = Inr (Some (v, ps2))" "shape (toks ps2) = (tokLParen, ''('') # ?opts" "env ps2 = env ps"
    using read_word [OF s, of "''IN''" "[''IN'']"] by (auto simp: sameWord_def)
  obtain u ps3 where 3: "expect tokLParen ''( after IN'' ps2 = Inr (u, ps3)" "shape (toks ps3) = ?opts" "env ps3 = env ps2"
    using read_expect [OF 2(2)] by metis
  have e3: "same e (env ps3)" using a(1) 2(3) 3(3) by simp
  obtain ps4 where 4: "parseOptions what [] ps3 = Inr (map (operandOf e) (q # qs), ps4)" "shape (toks ps4) = (tokRParen, '')'') # rest"
    "env ps4 = mark (concat (map operandRefs (q # qs))) (concat (map operandVals (q # qs))) (env ps3)"
    using reads_options [OF assms e3 3(2), of what "[]"] by auto
  obtain z ps5 where "expect tokRParen '')'' ps4 = Inr (z, ps5)" "shape (toks ps5) = rest" "env ps5 = env ps4"
    using read_expect [OF 4(2)] by metis
  then show "\<exists>y ps1. parseComparison what x ps = Inr (y, ps1) \<and> y = inNode x (map (operandOf e) (q # qs)) \<and> shape (toks ps1) = rest \<and>
      env ps1 = mark (concat (map operandRefs (q # qs))) (concat (map operandVals (q # qs))) (env ps)"
    using 1 2 3 4 b by (simp add: parseComparison_def)
qed

lemma boolFuncs_lower: "name \<in> set boolFuncs \<Longrightarrow> lowerText name = name"
proof -
  have "list_all (\<lambda>n. lowerText n = n) boolFuncs" by code_simp
  then show "name \<in> set boolFuncs \<Longrightarrow> lowerText name = name" by (simp add: list_all_iff)
qed

lemma reads_func:
  assumes "condOk e (SFunc name p a)"
  shows "reads (parseBoolFunc what) e (condToks (SFunc name p a)) (\<lambda>n. n = condOf e (SFunc name p a)) (condRefs (SFunc name p a)) (condVals (SFunc name p a))"
proof -
  have ok: "pathOk e p" "lowerText name = name" using assms boolFuncs_lower by simp_all
  let ?args = "case a of None \<Rightarrow> [] | Some q \<Rightarrow> (tokComma, '','') # operandToks q"
  let ?arg = "\<lambda>ps3. if name \<noteq> ''attribute_exists'' \<and> name \<noteq> ''attribute_not_exists'' then
              bindE (expect tokComma '', between arguments'' ps3) (\<lambda>(_, ps4).
              bindE (parseOperand what ps4) (\<lambda>(q, ps5). Inr (Some q, ps5)))
            else Inr (None, ps3)"
  have arg: "reads ?arg e ?args (\<lambda>x. x = map_option (operandOf e) a)
      (case a of None \<Rightarrow> [] | Some q \<Rightarrow> operandRefs q) (case a of None \<Rightarrow> [] | Some q \<Rightarrow> operandVals q)"
    using assms by (cases a) (auto intro: reads_Inr reads_comma_operand)
  have close: "reads (\<lambda>ps6. bindE (expect tokRParen '')'' ps6) (\<lambda>(_, ps7). Inr (funcNode name q r, ps7))) e [(tokRParen, '')'')] (\<lambda>n. n = funcNode name q r) [] []" for q r
    by (rule reads_bind [OF reads_expect, where us' = "[]"]) (auto intro!: reads_Inr)
  have tail: "reads (\<lambda>ps3. bindE (?arg ps3) (\<lambda>(r, ps6). bindE (expect tokRParen '')'' ps6) (\<lambda>(_, ps7). Inr (funcNode name q r, ps7))))
      e (?args @ [(tokRParen, '')'')]) (\<lambda>n. n = funcNode name q (map_option (operandOf e) a))
      (case a of None \<Rightarrow> [] | Some q \<Rightarrow> operandRefs q) (case a of None \<Rightarrow> [] | Some q \<Rightarrow> operandVals q)" for q
    by (rule reads_bind [OF arg, where us' = "[(tokRParen, '')'')]"]) (use close in auto)
  let ?refs = "pathRefs p @ (case a of None \<Rightarrow> [] | Some q \<Rightarrow> operandRefs q)" and ?vals = "case a of None \<Rightarrow> [] | Some q \<Rightarrow> operandVals q"
  have mid: "reads (\<lambda>ps2. bindE (parsePath what ps2) (\<lambda>(q, ps3). bindE (?arg ps3) (\<lambda>(r, ps6). bindE (expect tokRParen '')'' ps6) (\<lambda>(_, ps7). Inr (funcNode name q r, ps7)))))
      e (pathToks p @ ?args @ [(tokRParen, '')'')]) (\<lambda>n. n = condOf e (SFunc name p a)) ?refs ?vals"
    by (rule reads_bind [OF reads_path [OF ok(1)], where us' = "?args @ [(tokRParen, '')'')]" and vs' = ?vals])
      (use tail in \<open>auto split: option.split\<close>)
  show ?thesis
    unfolding parseBoolFunc_def condToks.simps append_Cons append_Nil
  proof (rule reads_token, goal_cases)
    case (1 t ps)
    show ?case
      unfolding 1 ok Let_def
      by (rule reads_bind [OF reads_expect, where us' = "pathToks p @ ?args @ [(tokRParen, '')'')]" and ns' = ?refs and vs' = ?vals]) (use mid in simp_all)
  qed
qed

subsection \<open>Precedence\<close>

lemma comparison_start:
  assumes "operandOk e l" "startOk l" "reads (parseComparison what (operandOf e l)) e us (\<lambda>n. n = node) ns vs" "follows us"
  shows "reads (parsePrimaryCond inside what) e (operandToks l @ us) (\<lambda>n. n = node) (operandRefs l @ ns) (operandVals l @ vs)"
proof -
  have body: "reads (\<lambda>ps. bindE (parseOperand what ps) (\<lambda>(left, ps2). parseComparison what left ps2)) e (operandToks l @ us) (\<lambda>n. n = node)
      (operandRefs l @ ns) (operandVals l @ vs)"
    by (rule reads_bind [OF reads_operand [OF assms(1)], where us' = us]) (use assms in auto)
  obtain k w ts where t: "operandToks l = (k, w) # ts" "k \<noteq> tokLParen" "k = tokIdent \<Longrightarrow> lowerText w \<notin> set boolFuncs"
  proof (cases l)
    case (SPath p)
    then show ?thesis using assms(2) that by (cases p; cases "fst p") (auto simp: pathToks_def)
  next
    case (SSize p)
    have "lowerText ''size'' \<notin> set boolFuncs" by code_simp
    then show ?thesis using SSize that by auto
  qed (use that in auto)
  show ?thesis
    unfolding parsePrimaryCond_def using body unfolding t(1) append_Cons
    by (intro reads_peek [where p = "\<lambda>ps. bindE (parseOperand what ps) (\<lambda>(left, ps2). parseComparison what left ps2)"]) (use t in auto)
qed

lemma reads_leaf:
  assumes "condOk e c" "c = SCmp w l r \<or> c = SBetween l lo hi \<or> c = SIn l q qs \<or> c = SFunc name p a"
  shows "reads (parsePrimaryCond inside what) e (condToks c) (\<lambda>n. n = condOf e c) (condRefs c) (condVals c)"
  using assms(2)
proof (elim disjE)
  assume c: "c = SCmp w l r"
  show ?thesis using comparison_start [OF _ _ reads_cmp [of e r what "operandOf e l" w]] assms(1) c by simp
next
  assume c: "c = SBetween l lo hi"
  show ?thesis using comparison_start [OF _ _ reads_between [of e lo hi what "operandOf e l"]] assms(1) c by simp
next
  assume c: "c = SIn l q qs"
  show ?thesis using comparison_start [OF _ _ reads_in [of e q qs what "operandOf e l"]] assms(1) c by simp
next
  assume c: "c = SFunc name p a"
  have n: "name \<in> set boolFuncs" using assms(1) c by simp
  show ?thesis
    unfolding parsePrimaryCond_def c condToks.simps append_Cons append_Nil
    by (rule reads_peek [where p = "parseBoolFunc what"])
      (use n boolFuncs_lower [OF n] reads_func [of e name p a what] assms(1) c in simp_all)
qed

fun depth :: "srcCond \<Rightarrow> nat" where
  "depth (SAnd l r) = max (depth l) (depth r)"
| "depth (SOr l r) = max (depth l) (depth r)"
| "depth (SNot c) = depth c"
| "depth (SGroup c) = Suc (depth c)"
| "depth _ = 0"

definition startsWith :: "string \<Rightarrow> tok list \<Rightarrow> bool" where
  "startsWith w us = (us \<noteq> [] \<and> fst (hd us) = tokIdent \<and> sameWord (snd (hd us)) w)"

lemma loop_ends: "0 < k \<Longrightarrow> follows (shape (toks ps)) \<Longrightarrow> \<not> startsWith w (shape (toks ps)) \<Longrightarrow> operatorLoop k w node arg left ps = Inr (left, ps)"
proof -
  assume a: "0 < k" "follows (shape (toks ps))" "\<not> startsWith w (shape (toks ps))"
  then obtain j v us where s: "shape (toks ps) = (j, v) # us" by (cases "shape (toks ps)") (auto simp: follows_def)
  have "keyword [w] ps = Inr None" by (rule skip_word [OF s]) (use a(3) s in \<open>simp add: startsWith_def\<close>)
  then show ?thesis using a(1) by (cases k) auto
qed

lemma leaf_start:
  assumes "condOk e c" "\<not> isOr c" "\<not> isAnd c" "\<nexists>d. c = SNot d"
  shows "\<exists>k w us. condToks c = (k, w) # us \<and> \<not> (k = tokIdent \<and> sameWord w ''NOT'')"
proof -
  have q: "\<exists>k w us. operandToks l = (k, w) # us \<and> \<not> (k = tokIdent \<and> sameWord w ''NOT'')" if ok: "operandOk e l" for l
  proof (cases l)
    case (SPath p)
    have "\<not> sameWord w ''NOT''" if "fst p = Bare w" for w
      using reserved_words [of w "''NOT''"] ok SPath that by (simp add: pathOk_def)
    then show ?thesis using SPath by (cases "fst p") (auto simp: pathToks_def)
  next
    case (SSize p)
    have "\<not> sameWord ''size'' ''NOT''" by code_simp
    then show ?thesis using SSize by simp
  qed simp
  have f: "\<not> sameWord name ''NOT''" if "name \<in> set boolFuncs" for name
  proof -
    have "list_all (\<lambda>n. \<not> sameWord n ''NOT'') boolFuncs" by code_simp
    then show ?thesis using that by (simp add: list_all_iff)
  qed
  show ?thesis
  proof (cases c)
    case (SCmp w l r)
    then show ?thesis using q [of l] assms(1) by auto
  next
    case (SBetween v lo hi)
    then show ?thesis using q [of v] assms(1) by auto
  next
    case (SIn v x xs)
    then show ?thesis using q [of v] assms(1) by auto
  qed (use assms f in auto)
qed

lemma reads_not:
  assumes "condOk e c" "\<not> isOr c" "\<not> isAnd c" "\<nexists>d. c = SNot d" "reads primary e (condToks c) Q ns vs"
  shows "reads (parseNot primary) e (condToks c) Q ns vs"
proof (rule readsI)
  fix ps :: pstate and rest assume a: "same e (env ps)" "shape (toks ps) = condToks c @ rest" "follows rest"
  obtain k w us where s: "condToks c = (k, w) # us" "\<not> (k = tokIdent \<and> sameWord w ''NOT'')" using leaf_start [OF assms(1-4)] by blast
  have "shape (toks ps) = (k, w) # (us @ rest)" using a(2) s(1) by simp
  then have "keyword [''NOT''] ps = Inr None" by (rule skip_word) (use s(2) in simp)
  then have "parseNot primary ps = primary ps" by (simp add: parseNot_def loopBound_def)
  then show "\<exists>x ps1. parseNot primary ps = Inr (x, ps1) \<and> Q x \<and> shape (toks ps1) = rest \<and> env ps1 = mark ns vs (env ps)"
    using assms(5) a unfolding reads_def by metis
qed

lemma reads_not_not:
  assumes "reads (parseNot primary) e us (\<lambda>x. x = node) ns vs"
  shows "reads (parseNot primary) e ((tokIdent, ''NOT'') # us) (\<lambda>x. x = notNode node) ns vs"
proof (rule readsI)
  fix ps :: pstate and rest assume a: "same e (env ps)" "shape (toks ps) = ((tokIdent, ''NOT'') # us) @ rest" "follows rest"
  have s: "shape (toks ps) = (tokIdent, ''NOT'') # (us @ rest)" using a(2) by simp
  obtain v ps1 where 1: "keyword [''NOT''] ps = Inr (Some (v, ps1))" "shape (toks ps1) = us @ rest" "env ps1 = env ps"
    using read_word [OF s, of "''NOT''" "[''NOT'']"] by (auto simp: sameWord_def)
  have "loopBound ps = Suc (loopBound ps1)" using keyword_length [OF 1(1)] by (simp add: loopBound_def)
  then have "parseNot primary ps = bindE (parseNot primary ps1) (\<lambda>(inner, ps2). Inr (notNode inner, ps2))"
    using 1(1) by (simp add: parseNot_def)
  moreover have e1: "same e (env ps1)" using a(1) 1(3) by simp
  moreover obtain x ps2 where "parseNot primary ps1 = Inr (x, ps2)" "x = node" "shape (toks ps2) = rest" "env ps2 = mark ns vs (env ps1)"
    using readsD [OF assms e1 1(2) a(3)] .
  ultimately show "\<exists>x ps1. parseNot primary ps = Inr (x, ps1) \<and> x = notNode node \<and> shape (toks ps1) = rest \<and> env ps1 = mark ns vs (env ps)"
    using 1(3) by simp
qed

text \<open>A level of left-grouping operators has read \<open>us\<close> and goes on with what follows.\<close>

definition enters ::
  "string \<Rightarrow> (condNode \<Rightarrow> condNode \<Rightarrow> condNode) \<Rightarrow> condParser \<Rightarrow> exprEnv \<Rightarrow> (tok list \<Rightarrow> bool) \<Rightarrow> tok list \<Rightarrow> condNode \<Rightarrow> string list \<Rightarrow> string list \<Rightarrow> bool" where
  "enters w node arg e ok us x ns vs =
     (\<forall>ps rest. same e (env ps) \<and> shape (toks ps) = us @ rest \<and> follows rest \<and> ok rest \<longrightarrow>
        (\<exists>k ps1. parseOperators w node arg ps = operatorLoop k w node arg x ps1 \<and> length rest < k \<and> shape (toks ps1) = rest \<and>
           env ps1 = mark ns vs (env ps)))"

lemma entersD:
  assumes "enters w node arg e ok us x ns vs" "same e (env ps)" "shape (toks ps) = us @ rest" "follows rest" "ok rest"
  obtains k ps1 where "parseOperators w node arg ps = operatorLoop k w node arg x ps1" "length rest < k" "shape (toks ps1) = rest" "env ps1 = mark ns vs (env ps)"
  using assms unfolding enters_def by blast

lemma enters_first:
  assumes "\<And>ps rest. same e (env ps) \<Longrightarrow> shape (toks ps) = us @ rest \<Longrightarrow> follows rest \<Longrightarrow> ok rest \<Longrightarrow>
    \<exists>ps1. arg ps = Inr (x, ps1) \<and> shape (toks ps1) = rest \<and> env ps1 = mark ns vs (env ps)"
  shows "enters w node arg e ok us x ns vs"
  unfolding enters_def
proof clarify
  fix ps :: pstate and rest assume a: "same e (env ps)" "shape (toks ps) = us @ rest" "follows rest" "ok rest"
  obtain ps1 where "arg ps = Inr (x, ps1)" "shape (toks ps1) = rest" "env ps1 = mark ns vs (env ps)" using assms [OF a] by blast
  then show "\<exists>k ps1. parseOperators w node arg ps = operatorLoop k w node arg x ps1 \<and> length rest < k \<and> shape (toks ps1) = rest \<and>
           env ps1 = mark ns vs (env ps)"
    by (intro exI [of _ "loopBound ps1"] exI [of _ ps1]) (auto simp: parseOperators_def loopBound_def shape_def)
qed

lemma enters_more:
  assumes "enters w node arg e ok us x ns vs" "\<And>r. ok ((tokIdent, w) # r)"
    "\<And>ps rest. same e (env ps) \<Longrightarrow> shape (toks ps) = us' @ rest \<Longrightarrow> follows rest \<Longrightarrow> ok rest \<Longrightarrow>
      \<exists>ps1. arg ps = Inr (y, ps1) \<and> shape (toks ps1) = rest \<and> env ps1 = mark ns' vs' (env ps)"
  shows "enters w node arg e ok (us @ [(tokIdent, w)] @ us') (node x y) (ns @ ns') (vs @ vs')"
  unfolding enters_def
proof clarify
  fix ps :: pstate and rest assume a: "same e (env ps)" "shape (toks ps) = (us @ [(tokIdent, w)] @ us') @ rest" "follows rest" "ok rest"
  have s: "shape (toks ps) = us @ ((tokIdent, w) # us' @ rest)" using a(2) by simp
  obtain k ps1 where 1: "parseOperators w node arg ps = operatorLoop k w node arg x ps1" "length ((tokIdent, w) # us' @ rest) < k"
    "shape (toks ps1) = (tokIdent, w) # us' @ rest" "env ps1 = mark ns vs (env ps)"
    using entersD [OF assms(1) a(1) s _ assms(2)] by auto
  obtain v ps2 where 2: "keyword [w] ps1 = Inr (Some (v, ps2))" "shape (toks ps2) = us' @ rest" "env ps2 = env ps1"
    using read_word [OF 1(3), of w "[w]"] by (auto simp: sameWord_def)
  have "same e (env ps2)" using a(1) 1(4) 2(3) by simp
  then obtain ps3 where "arg ps2 = Inr (y, ps3)" "shape (toks ps3) = rest" "env ps3 = mark ns' vs' (env ps2)"
    using assms(3) [OF _ 2(2) a(3,4)] by blast
  then show "\<exists>k ps1. parseOperators w node arg ps = operatorLoop k w node arg (node x y) ps1 \<and> length rest < k \<and> shape (toks ps1) = rest \<and>
           env ps1 = mark (ns @ ns') (vs @ vs') (env ps)"
    using 1 2 by (intro exI [of _ "k - 1"] exI [of _ ps3]) (cases k, auto)
qed

lemma enters_done:
  assumes "enters w node arg e ok us x ns vs" "same e (env ps)" "shape (toks ps) = us @ rest" "follows rest" "ok rest" "\<not> startsWith w rest"
  shows "\<exists>ps1. parseOperators w node arg ps = Inr (x, ps1) \<and> shape (toks ps1) = rest \<and> env ps1 = mark ns vs (env ps)"
proof -
  obtain k ps1 where "parseOperators w node arg ps = operatorLoop k w node arg x ps1" "length rest < k" "shape (toks ps1) = rest" "env ps1 = mark ns vs (env ps)"
    using entersD [OF assms(1-5)] .
  then show ?thesis using loop_ends [of k ps1 w node arg x] assms(4,6) by auto
qed

abbreviation primaryAt :: "nat \<Rightarrow> string \<Rightarrow> condParser" where
  "primaryAt n what \<equiv> parsePrimaryCond (parseOr n what) what"

definition plain :: "tok list \<Rightarrow> bool" where "plain us = (\<not> startsWith ''AND'' us)"

lemma plain_simps [simp]:
  "plain ((tokRParen, w) # us)" "plain ((tokIdent, ''OR'') # us)" "\<not> startsWith ''OR'' ((tokRParen, w) # us)" "plain ((tokEOF, w) # us)"
  "\<not> startsWith ''OR'' ((tokEOF, w) # us)"
  by (simp_all add: plain_def startsWith_def sameWord_def word_names)

definition parsedAs :: "exprEnv \<Rightarrow> string \<Rightarrow> nat \<Rightarrow> srcCond \<Rightarrow> bool" where
  "parsedAs e what n c =
    ((\<not> isOr c \<and> \<not> isAnd c \<longrightarrow> reads (parseNot (primaryAt n what)) e (condToks c) (\<lambda>x. x = condOf e c) (condRefs c) (condVals c)) \<and>
     (\<not> isOr c \<longrightarrow> enters ''AND'' andNode (parseNot (primaryAt n what)) e (\<lambda>_. True) (condToks c) (condOf e c) (condRefs c) (condVals c)) \<and>
     enters ''OR'' orNode (parseAnd (primaryAt n what)) e plain (condToks c) (condOf e c) (condRefs c) (condVals c))"

lemma and_level:
  assumes "reads (parseNot (primaryAt n what)) e us (\<lambda>y. y = x) ns vs"
  shows "enters ''AND'' andNode (parseNot (primaryAt n what)) e (\<lambda>_. True) us x ns vs"
  by (rule enters_first) (use assms in \<open>auto simp: reads_def\<close>)

lemma or_level:
  assumes "enters ''AND'' andNode (parseNot (primaryAt n what)) e (\<lambda>_. True) us x ns vs"
  shows "enters ''OR'' orNode (parseAnd (primaryAt n what)) e plain us x ns vs"
  by (rule enters_first) (use enters_done [OF assms] in \<open>simp add: parseAnd_def plain_def\<close>)

lemma all_levels:
  assumes "reads (parseNot (primaryAt n what)) e (condToks c) (\<lambda>x. x = condOf e c) (condRefs c) (condVals c)"
  shows "parsedAs e what n c"
  using assms and_level [OF assms] or_level [OF and_level [OF assms]] by (simp add: parsedAs_def)

lemma primary_levels:
  assumes "condOk e c" "\<not> isOr c" "\<not> isAnd c" "\<nexists>d. c = SNot d"
    and "reads (primaryAt n what) e (condToks c) (\<lambda>x. x = condOf e c) (condRefs c) (condVals c)"
  shows "parsedAs e what n c"
  by (rule all_levels) (rule reads_not [OF assms])

lemma reads_group:
  assumes "parsedAs e what m c"
  shows "reads (primaryAt (Suc m) what) e (condToks (SGroup c)) (\<lambda>x. x = condOf e (SGroup c)) (condRefs (SGroup c)) (condVals (SGroup c))"
  unfolding parsePrimaryCond_def [of "parseOr (Suc m) what"] condToks.simps append_Cons append_Nil
proof (rule reads_token, goal_cases)
  case (1 t ps0)
  have in_or: "enters ''OR'' orNode (parseAnd (primaryAt m what)) e plain (condToks c) (condOf e c) (condRefs c) (condVals c)"
    using assms by (simp add: parsedAs_def)
  show ?case
  proof (rule readsI)
    fix ps :: pstate and rest assume a: "same e (env ps)" "shape (toks ps) = (condToks c @ [(tokRParen, '')'')]) @ rest" "follows rest"
    have s: "shape (toks ps) = condToks c @ (tokRParen, '')'') # rest" using a(2) by simp
    obtain ps1 where 2: "parseOr (Suc m) what ps = Inr (condOf e c, ps1)" "shape (toks ps1) = (tokRParen, '')'') # rest" "env ps1 = mark (condRefs c) (condVals c) (env ps)"
      using enters_done [OF in_or a(1) s] by auto
    obtain u ps2 where "expect tokRParen '')'' ps1 = Inr (u, ps2)" "shape (toks ps2) = rest" "env ps2 = env ps1"
      using read_expect [OF 2(2)] by metis
    then show "\<exists>x ps1. (if tkind t = tokLParen then bindE (parseOr (Suc m) what ps) (\<lambda>(inner, ps2). bindE (expect tokRParen '')'' ps2) (\<lambda>(_, ps3). Inr (groupNode inner, ps3)))
        else if tkind t = tokIdent \<and> lowerText (ttext t) \<in> set boolFuncs then parseBoolFunc what ps0
        else bindE (parseOperand what ps0) (\<lambda>(left, ps2). parseComparison what left ps2)) = Inr (x, ps1) \<and> x = condOf e (SGroup c) \<and> shape (toks ps1) = rest \<and>
        env ps1 = mark (condRefs (SGroup c)) (condVals (SGroup c)) (env ps)"
      using 1 2 by (simp del: parseOr.simps)
  qed
qed

lemma precedence: "condOk e c \<Longrightarrow> depth c \<le> n \<Longrightarrow> parsedAs e what n c"
proof (induction c arbitrary: n)
  case (SAnd l r)
  have "enters ''AND'' andNode (parseNot (primaryAt n what)) e (\<lambda>_. True) (condToks (SAnd l r)) (condOf e (SAnd l r)) (condRefs (SAnd l r)) (condVals (SAnd l r))"
    unfolding condToks.simps condOf.simps condRefs.simps condVals.simps
    by (rule enters_more) (use SAnd in \<open>auto simp: parsedAs_def reads_def\<close>)
  then show ?case using or_level by (simp add: parsedAs_def)
next
  case (SOr l r)
  have "enters ''AND'' andNode (parseNot (primaryAt n what)) e (\<lambda>_. True) (condToks r) (condOf e r) (condRefs r) (condVals r)"
    using SOr by (simp add: parsedAs_def)
  note r = enters_done [OF this, folded plain_def]
  have "enters ''OR'' orNode (parseAnd (primaryAt n what)) e plain (condToks (SOr l r)) (condOf e (SOr l r)) (condRefs (SOr l r)) (condVals (SOr l r))"
    unfolding condToks.simps condOf.simps condRefs.simps condVals.simps
    by (rule enters_more) (use SOr r in \<open>auto simp: parsedAs_def parseAnd_def\<close>)
  then show ?case by (simp add: parsedAs_def)
next
  case (SNot c)
  then show ?case using all_levels [of n what e "SNot c"] reads_not_not [of "primaryAt n what" e "condToks c"] by (simp add: parsedAs_def)
next
  case (SGroup c)
  then obtain m where "n = Suc m" "depth c \<le> m" by (cases n) auto
  then show ?case using primary_levels [OF SGroup.prems(1)] reads_group SGroup by simp
next
  case (SCmp w l r)
  then show ?case using primary_levels [of e "SCmp w l r"] reads_leaf [of e "SCmp w l r" w l r] by simp
next
  case (SBetween v lo hi)
  then show ?case using primary_levels [of e "SBetween v lo hi"] reads_leaf [of e "SBetween v lo hi" _ v _ lo hi] by simp
next
  case (SIn v q qs)
  then show ?case using primary_levels [of e "SIn v q qs"] reads_leaf [of e "SIn v q qs" _ v _ _ _ q qs] by simp
next
  case (SFunc name p a)
  then show ?case using primary_levels [of e "SFunc name p a"] reads_leaf [of e "SFunc name p a" _ _ _ _ _ _ _ name p a] by simp
qed

subsection \<open>Texts\<close>

definition goodTok :: "tok \<Rightarrow> bool" where
  "goodTok t =
     (\<forall>i rest. rest = [] \<or> hd rest = CHR '' '' \<longrightarrow>
        snd t \<noteq> [] \<and> lexStep i (hd (snd t)) (tl (snd t) @ rest) = Inr (Some (fst t), length (snd t)))"

lemma goodTokD:
  assumes "goodTok t" "rest = [] \<or> hd rest = CHR '' ''"
  obtains c cs where "snd t = c # cs" "lexStep i c (cs @ rest) = Inr (Some (fst t), Suc (length cs))"
proof -
  have "snd t \<noteq> [] \<and> lexStep i (hd (snd t)) (tl (snd t) @ rest) = Inr (Some (fst t), length (snd t))" using assms unfolding goodTok_def by blast
  then show ?thesis using that by (cases "snd t") auto
qed

lemma lex_text: "list_all goodTok us \<Longrightarrow> \<exists>ts. lexFrom i (textOf us) = Inr ts \<and> shape ts = us @ [(tokEOF, [])]"
proof (induction us arbitrary: i rule: textOf.induct)
  case 1
  show ?case by (simp add: shape_def)
next
  case (2 t)
  then have g: "goodTok t" by simp
  obtain c cs where "snd t = c # cs" "lexStep i c (cs @ []) = Inr (Some (fst t), Suc (length cs))"
    by (rule goodTokD [OF g, of "[]"]) auto
  then show ?case by (cases t) (simp add: shape_def)
next
  case (3 t u us)
  have g: "goodTok t" using "3.prems" by simp
  obtain c cs where t: "snd t = c # cs" "lexStep i c (cs @ '' '' @ textOf (u # us)) = Inr (Some (fst t), Suc (length cs))"
    by (rule goodTokD [OF g, of "'' '' @ textOf (u # us)"]) auto
  obtain ts where ts: "lexFrom (Suc (i + Suc (length cs))) (textOf (u # us)) = Inr ts" "shape ts = (u # us) @ [(tokEOF, [])]"
    using "3.IH" "3.prems" by fastforce
  have "lexStep (i + Suc (length cs)) (CHR '' '') (textOf (u # us)) = Inr (None, 1)" by (simp add: lexStep_def isSpace_def)
  then have "lexFrom (i + Suc (length cs)) (CHR '' '' # textOf (u # us)) = Inr ts" using ts(1) by simp
  then have "lexFrom i (c # (cs @ '' '' @ textOf (u # us))) = Inr (\<lparr>tkind = fst t, ttext = c # cs, tpos = i\<rparr> # ts)"
    using t(2) unfolding lexFrom.simps(2) [of i c "cs @ '' '' @ textOf (u # us)"] by (simp del: lexFrom.simps)
  then show ?case using t(1) ts(2) by (cases t) (simp add: shape_def del: lexFrom.simps)
qed

lemma space_not: "\<not> isIdentChar (CHR '' '')" "\<not> isDigit (CHR '' '')"
  by code_simp+

lemma taken: "list_all p cs \<Longrightarrow> \<not> p (CHR '' '') \<Longrightarrow> rest = [] \<or> hd rest = CHR '' '' \<Longrightarrow> takeWhile p (cs @ rest) = cs"
  using takeWhile_eq_all_conv [of p cs] by (cases rest) (auto simp: takeWhile_append2 list_all_iff)

lemmas taken_all = taken [where rest = "[]", simplified]

lemma ident_start:
  assumes "isIdentStart c"
  shows "\<not> isSpace c" "map_of punctuation c = None" "c \<noteq> CHR ''<''" "c \<noteq> CHR ''>''" "c \<noteq> CHR ''#''" "c \<noteq> CHR '':''" "\<not> isDigit c"
proof -
  have no: "\<not> isIdentStart (CHR '' '') \<and> \<not> isIdentStart (CHR 0x09) \<and> \<not> isIdentStart (CHR 0x0A) \<and> \<not> isIdentStart (CHR 0x0D) \<and>
    \<not> isIdentStart (CHR ''<'') \<and> \<not> isIdentStart (CHR ''>'') \<and> \<not> isIdentStart (CHR ''#'') \<and> \<not> isIdentStart (CHR '':'')" by code_simp
  then show "c \<noteq> CHR ''<''" "c \<noteq> CHR ''>''" "c \<noteq> CHR ''#''" "c \<noteq> CHR '':''" "\<not> isSpace c" using assms by (auto simp: isSpace_def)
  have "list_all (\<lambda>(d, _). \<not> isIdentStart d) punctuation" by code_simp
  then show "map_of punctuation c = None" using assms by (auto simp: map_of_eq_None_iff list_all_iff)
  show "\<not> isDigit c" using assms by (auto simp: isIdentStart_def isDigit_def less_eq_char_def)
qed

lemma good_ident: "identText w \<Longrightarrow> goodTok (tokIdent, w)"
  by (cases w) (auto simp: goodTok_def lexStep_def ident_start taken taken_all space_not)

lemma good_number: "goodTok (tokNumber, natStr n)"
proof -
  obtain c cs where n: "natStr n = c # cs" by (cases "natStr n") auto
  then have d: "isDigit c" "list_all isDigit cs" using natStr_isDigit [of _ n] by (auto simp: list_all_iff)
  have no: "\<not> isDigit (CHR '' '') \<and> \<not> isDigit (CHR 0x09) \<and> \<not> isDigit (CHR 0x0A) \<and> \<not> isDigit (CHR 0x0D) \<and>
    \<not> isDigit (CHR ''<'') \<and> \<not> isDigit (CHR ''>'') \<and> \<not> isDigit (CHR ''#'') \<and> \<not> isDigit (CHR '':'')" by code_simp
  have "list_all (\<lambda>(d, _). \<not> isDigit d) punctuation" by code_simp
  then have "map_of punctuation c = None" using d(1) by (auto simp: map_of_eq_None_iff list_all_iff)
  moreover have l: "length (takeWhile isDigit (cs @ rest)) = length cs" if "rest = [] \<or> hd rest = CHR '' ''" for rest
    using taken [OF d(2) space_not(2) that] by simp
  moreover have "length (takeWhile isDigit cs) = length cs" using l [of "[]"] by simp
  ultimately show ?thesis using d(1) no unfolding goodTok_def lexStep_def by (auto simp: n isSpace_def simp del: takeWhile_append)
qed

lemma good_ref: "refText (CHR ''#'') w \<Longrightarrow> goodTok (tokNameRef, w)" "refText (CHR '':'') w \<Longrightarrow> goodTok (tokValueRef, w)"
  by (cases w; auto simp: goodTok_def lexStep_def lexRef_def Let_def taken taken_all space_not isSpace_def punctuation_def)+

lemma good_punctuation:
  "goodTok (tokLParen, ''('')" "goodTok (tokRParen, '')'')" "goodTok (tokComma, '','')" "goodTok (tokDot, ''.'')" "goodTok (tokLBracket, ''['')" "goodTok (tokRBracket, '']'')"
  by (simp_all add: goodTok_def lexStep_def isSpace_def punctuation_def)

lemma good_compare: "w \<in> set comparators \<Longrightarrow> goodTok (tokCompare, w)"
proof -
  have e: "HasPrefix rest ''>'' = False" "HasPrefix rest ''='' = False" if "rest = [] \<or> hd rest = CHR '' ''" for rest
    using that by (cases rest; simp add: HasPrefix_def)+
  have one: "goodTok (tokCompare, ''='')" "goodTok (tokCompare, ''<>'')" "goodTok (tokCompare, ''<='')" "goodTok (tokCompare, ''>='')"
    by (simp_all add: goodTok_def lexStep_def isSpace_def punctuation_def HasPrefix_def)
  have two: "goodTok (tokCompare, ''<'')" "goodTok (tokCompare, ''>'')"
    using e by (simp_all add: goodTok_def lexStep_def isSpace_def punctuation_def)
  show "w \<in> set comparators \<Longrightarrow> goodTok (tokCompare, w)" using one two unfolding comparators_def by auto
qed

lemma good_words: "list_all (\<lambda>w. goodTok (tokIdent, w)) ([''AND'', ''OR'', ''NOT'', ''BETWEEN'', ''IN'', ''size''] @ boolFuncs)"
proof -
  have "list_all identText ([''AND'', ''OR'', ''NOT'', ''BETWEEN'', ''IN'', ''size''] @ boolFuncs)" by code_simp
  then show ?thesis by (simp add: list_all_iff good_ident)
qed

lemma good_name: "nameOk e n \<Longrightarrow> goodTok (nameTok n)"
  by (cases n) (auto simp: good_ident good_ref)

lemma good_path: "pathOk e p \<Longrightarrow> list_all goodTok (pathToks p)"
proof -
  have "list_all goodTok (concat (map stepToks st))" if "list_all (stepOk e) st" for st
    using that
  proof (induction st)
    case (Cons x st)
    then show ?case by (cases x) (auto simp: good_name good_number good_punctuation)
  qed simp
  then show "pathOk e p \<Longrightarrow> list_all goodTok (pathToks p)" by (auto simp: pathOk_def pathToks_def good_name)
qed

lemma good_operand: "operandOk e q \<Longrightarrow> list_all goodTok (operandToks q)"
  using good_words by (cases q) (auto simp: good_path good_ref good_punctuation)

lemma good_cond: "condOk e c \<Longrightarrow> list_all goodTok (condToks c)"
proof (induction c)
  case (SIn v q qs)
  have "list_all goodTok (moreToks qs)" if "list_all (operandOk e) qs" for qs
    using that by (induction qs) (auto simp: good_operand good_punctuation)
  then show ?case using SIn good_words by (auto simp: good_operand good_punctuation)
next
  case (SFunc name p a)
  moreover have "goodTok (tokIdent, name)" using SFunc good_words unfolding list_all_append by (simp add: list_all_iff [of _ boolFuncs])
  ultimately show ?case using good_path [of e p] good_operand [of e] by (cases a) (simp_all add: good_punctuation)
qed (use good_words in \<open>auto simp: good_operand good_punctuation good_compare\<close>)

lemma depth_length: "depth c < length (condToks c)"
proof (induction c)
  case (SCmp w l r)
  show ?case by (cases l) (auto simp: pathToks_def)
next
  case (SBetween v lo hi)
  show ?case by (cases v) (auto simp: pathToks_def)
next
  case (SIn v q qs)
  show ?case by (cases v) (auto simp: pathToks_def)
qed auto

text \<open>C13: The text of a condition is parsed to that condition, and exactly its references are marked as used:
  \<^verbatim>\<open>NOT\<close> binds tighter than \<^verbatim>\<open>AND\<close>, \<^verbatim>\<open>AND\<close> tighter than \<^verbatim>\<open>OR\<close>, both group to the left, and parentheses override.\<close>

theorem parseCond_text:
  assumes "condOk e c"
  shows "parseCond (textOf (condToks c)) e what = Inr (condOf e c, mark (condRefs c) (condVals c) e)"
proof -
  obtain ts where ts: "lex_expr (textOf (condToks c)) = Inr ts" "shape ts = condToks c @ [(tokEOF, [])]"
    using lex_text [OF good_cond [OF assms], of 0] by (auto simp: lex_expr_def)
  have len: "length ts = Suc (length (condToks c))" using ts(2) by (metis length_append_singleton length_map shape_def)
  have "parsedAs e what (length ts) c" using precedence [OF assms] depth_length [of c] len by simp
  then have "enters ''OR'' orNode (parseAnd (primaryAt (length ts) what)) e plain (condToks c) (condOf e c) (condRefs c) (condVals c)"
    by (simp add: parsedAs_def)
  from enters_done [OF this, of "\<lparr>toks = ts, env = e\<rparr>" "[(tokEOF, [])]"]
  obtain ps1 where ps1: "parseOr (Suc (length ts)) what \<lparr>toks = ts, env = e\<rparr> = Inr (condOf e c, ps1)" "shape (toks ps1) = [(tokEOF, [])]"
    "env ps1 = mark (condRefs c) (condVals c) e"
    using ts(2) by (auto simp: same_def)
  then obtain t where "peek ps1 = Inr t" "tkind t = tokEOF" by (cases "toks ps1") (auto simp: peek_def shape_def)
  then show ?thesis using ts(1) ps1(1,3) by (simp add: parseCond_def del: parseOr.simps)
qed

definition sampleEnv2 :: exprEnv where
  "sampleEnv2 = NewEnv [(''#s'', ''status''), (''#t'', ''tags'')] [('':v'', VS ''open''), ('':n'', VBool True)]"

definition sampleCond :: srcCond where
  "sampleCond =
     SOr (SCmp ''='' (SPath (Ref ''#s'', [])) (SValue '':v''))
       (SAnd (SNot (SFunc ''attribute_exists'' (Ref ''#t'', [Inr 0]) None)) (SIn (SSize (Ref ''#t'', [])) (SValue '':v'') [SValue '':n'']))"

theorem parseCond_text_witness:
  "parseCond ''#s = :v OR NOT attribute_exists ( #t [ 0 ] ) AND size ( #t ) IN ( :v , :n )'' sampleEnv2 ''ConditionExpression'' =
     Inr (condOf sampleEnv2 sampleCond, mark [''#s'', ''#t'', ''#t''] ['':v'', '':v'', '':n''] sampleEnv2)"
proof -
  have "textOf (condToks sampleCond) = ''#s = :v OR NOT attribute_exists ( #t [ 0 ] ) AND size ( #t ) IN ( :v , :n )''" by code_simp
  moreover have "condOk sampleEnv2 sampleCond"
    by (simp add: sampleCond_def sampleEnv2_def NewEnv_def pathOk_def comparators_def boolFuncs_def isIdentChar_def isIdentStart_def less_eq_char_def)
  moreover have "condRefs sampleCond = [''#s'', ''#t'', ''#t'']" "condVals sampleCond = ['':v'', '':v'', '':n'']" by code_simp+
  ultimately show ?thesis using parseCond_text [of sampleEnv2 sampleCond "''ConditionExpression''"] by simp
qed

end
