(* ===== verification/DdbEval.thy ===== *)
theory DdbEval
  imports DdbCond
begin

text \<open>
  What evaluating a condition means. The values of \<open>Item\<close> denote numbers, sets and maps; a condition has a
  truth value over the denoted item, and the evaluator computes it whatever the representation.
\<close>

subsection \<open>Conditions over denoted values\<close>

fun atype :: "avalue \<Rightarrow> attrType" where
  "atype (AS _) = TypeS" | "atype (AN _) = TypeN" | "atype (AB _) = TypeB" | "atype (ABool _) = TypeBool" | "atype ANull = TypeNull"
| "atype (AM _) = TypeM" | "atype (AL _) = TypeL" | "atype (ASS _) = TypeSS" | "atype (ANS _) = TypeNS" | "atype (ABS _) = TypeBS"

type_synonym aitem = "string \<Rightarrow> avalue option"

fun awalk :: "avalue \<Rightarrow> path \<Rightarrow> avalue option" where
  "awalk cur [] = Some cur"
| "awalk cur (s # ss) =
     (if segAttr s \<noteq> [] then (case cur of AM m \<Rightarrow> Option.bind (m (segAttr s)) (\<lambda>v. awalk v ss) | _ \<Rightarrow> None)
      else (case cur of
              AL l \<Rightarrow> if segIndex s < 0 \<or> segIndex s \<ge> int (length l) then None else awalk (l ! nat (segIndex s)) ss
            | _ \<Rightarrow> None))"

definition aget :: "path \<Rightarrow> aitem \<Rightarrow> avalue option" where
  "aget p it = (case p of [] \<Rightarrow> None | s # ss \<Rightarrow> Option.bind (it (segAttr s)) (\<lambda>v. awalk v ss))"

definition asize :: "avalue \<Rightarrow> exprError + nat" where
  "asize v =
     (case v of
        AS s \<Rightarrow> Inr (length s) | AB b \<Rightarrow> Inr (length b) | AL l \<Rightarrow> Inr (length l) | AM m \<Rightarrow> Inr (card (dom m))
      | ASS s \<Rightarrow> Inr (card s) | ANS s \<Rightarrow> Inr (card s) | ABS s \<Rightarrow> Inr (card s) | _ \<Rightarrow> Inl (NoSize (atype v)))"

definition aoperand :: "operand \<Rightarrow> aitem \<Rightarrow> exprError + avalue option" where
  "aoperand q it =
     (case q of
        pathOperand p \<Rightarrow> Inr (aget p it)
      | valueOperand _ v \<Rightarrow> Inr (Some (denote v))
      | sizeOperand p \<Rightarrow>
          (case aget p it of
             None \<Rightarrow> Inr None
           | Some v \<Rightarrow> bindE (asize v) (\<lambda>n. Inr (Some (AN (val (countDecimal n)))))))"

definition aless :: "avalue \<Rightarrow> avalue \<Rightarrow> bool" where
  "aless l r = (case (l, r) of (AS a, AS b) \<Rightarrow> a < b | (AN a, AN b) \<Rightarrow> a < b | (AB a, AB b) \<Rightarrow> a < b | _ \<Rightarrow> False)"

definition aordered :: "avalue \<Rightarrow> avalue \<Rightarrow> bool" where
  "aordered l r = (atype l = atype r \<and> atype l \<in> {TypeS, TypeN, TypeB})"

definition acompare :: "string \<Rightarrow> avalue \<Rightarrow> avalue \<Rightarrow> exprError + bool" where
  "acompare c l r =
     (if c = ''='' then Inr (l = r)
      else if c = ''<>'' then Inr (l \<noteq> r)
      else if \<not> aordered l r then Inr False
      else if c = ''<'' then Inr (aless l r)
      else if c = ''<='' then Inr (aless l r \<or> l = r)
      else if c = ''>'' then Inr (aless r l)
      else if c = ''>='' then Inr (aless r l \<or> l = r)
      else Inl (UnknownComparator c))"

definition acmp :: "string \<Rightarrow> operand \<Rightarrow> operand \<Rightarrow> aitem \<Rightarrow> exprError + bool" where
  "acmp c left right it =
     bindE (aoperand left it) (\<lambda>lv. bindE (aoperand right it) (\<lambda>rv.
     case (lv, rv) of (Some l, Some r) \<Rightarrow> acompare c l r | _ \<Rightarrow> Inr False))"

fun ain :: "avalue \<Rightarrow> operand list \<Rightarrow> aitem \<Rightarrow> exprError + bool" where
  "ain v [] it = Inr False"
| "ain v (q # qs) it = bindE (aoperand q it) (\<lambda>w. if w = Some v then Inr True else ain v qs it)"

definition abegins :: "avalue \<Rightarrow> avalue option \<Rightarrow> bool" where
  "abegins v p = (case (v, p) of (AS s, Some (AS q)) \<Rightarrow> prefix q s | (AB s, Some (AB q)) \<Rightarrow> prefix q s | _ \<Rightarrow> False)"

definition acontains :: "avalue \<Rightarrow> avalue option \<Rightarrow> bool" where
  "acontains v needle =
     (case (v, needle) of
        (AS s, Some (AS q)) \<Rightarrow> sublist q s
      | (ASS ss, Some (AS q)) \<Rightarrow> q \<in> ss
      | (ANS ds, Some (AN d)) \<Rightarrow> d \<in> ds
      | (ABS bs, Some (AB b)) \<Rightarrow> b \<in> bs
      | (AL l, Some n) \<Rightarrow> n \<in> set l
      | _ \<Rightarrow> False)"

definition afunc :: "string \<Rightarrow> path \<Rightarrow> operand option \<Rightarrow> aitem \<Rightarrow> exprError + bool" where
  "afunc name p a it =
     (if name = ''attribute_exists'' then Inr (aget p it \<noteq> None)
      else if name = ''attribute_not_exists'' then Inr (aget p it = None)
      else if name \<in> {''attribute_type'', ''begins_with'', ''contains''} then
        (case aget p it of
           None \<Rightarrow> Inr False
         | Some v \<Rightarrow>
             bindE (case a of None \<Rightarrow> Inr None | Some q \<Rightarrow> aoperand q it) (\<lambda>w.
               if name = ''attribute_type'' then
                 (case w of Some (AS s) \<Rightarrow> Inr (wireTag (atype v) = s) | _ \<Rightarrow> Inl TypeNameNotString)
               else if name = ''begins_with'' then Inr (abegins v w)
               else Inr (acontains v w)))
      else Inl (UnknownFunction name))"

fun holds :: "condNode \<Rightarrow> aitem \<Rightarrow> exprError + bool" where
  "holds (andNode l r) it = bindE (holds l it) (\<lambda>b. if b then holds r it else Inr False)"
| "holds (orNode l r) it = bindE (holds l it) (\<lambda>b. if b then Inr True else holds r it)"
| "holds (notNode n) it = bindE (holds n it) (\<lambda>b. Inr (\<not> b))"
| "holds (groupNode n) it = holds n it"
| "holds (cmpNode c l r) it = acmp c l r it"
| "holds (betweenNode v lo hi) it = bindE (acmp ''>='' v lo it) (\<lambda>a. if a then acmp ''<='' v hi it else Inr False)"
| "holds (inNode v opts) it =
     bindE (aoperand v it) (\<lambda>w. case w of None \<Rightarrow> Inr False | Some u \<Rightarrow> ain u opts it)"
| "holds (funcNode name p a) it = afunc name p a it"

subsection \<open>The evaluator computes it\<close>

definition wfItem :: "item \<Rightarrow> bool" where
  "wfItem it = (distinct (map fst it) \<and> list_all (\<lambda>(_, v). wfValue v) it)"

definition denoteItem :: "item \<Rightarrow> aitem" where
  "denoteItem it = map_of (map (\<lambda>(k, v). (k, denote v)) it)"

fun wfOperand :: "operand \<Rightarrow> bool" where
  "wfOperand (valueOperand _ v) = wfValue v"
| "wfOperand _ = True"

fun wfCond :: "condNode \<Rightarrow> bool" where
  "wfCond (andNode l r) = (wfCond l \<and> wfCond r)"
| "wfCond (orNode l r) = (wfCond l \<and> wfCond r)"
| "wfCond (notNode n) = wfCond n"
| "wfCond (groupNode n) = wfCond n"
| "wfCond (cmpNode _ l r) = (wfOperand l \<and> wfOperand r)"
| "wfCond (betweenNode v lo hi) = (wfOperand v \<and> wfOperand lo \<and> wfOperand hi)"
| "wfCond (inNode v opts) = (wfOperand v \<and> list_all wfOperand opts)"
| "wfCond (funcNode _ _ a) = (case a of None \<Rightarrow> True | Some q \<Rightarrow> wfOperand q)"

lemma denote_map_lookup: "map_of (map (\<lambda>(k, v). (k, f v)) m) k = map_option f (map_of m k)"
  by (induction m) auto

lemma walk_denote: "wfValue v \<Longrightarrow> map_option denote (walkSegs v p) = awalk (denote v) p \<and> (\<forall>w. walkSegs v p = Some w \<longrightarrow> wfValue w)"
proof (induction v p rule: walkSegs.induct)
  case (2 v s p)
  show ?case
  proof (cases v)
    case (VM m)
    show ?thesis
    proof (cases "map_of m (segAttr s)")
      case (Some w)
      then have "wfValue w" using "2.prems" VM map_of_SomeD [OF Some] by (auto simp: list_all_iff)
      then show ?thesis using "2.IH"(1) [OF _ VM Some] VM Some by (auto simp: denote_map_lookup)
    qed (use VM in \<open>auto simp: denote_map_lookup\<close>)
  next
    case (VL l)
    show ?thesis
    proof (cases "segAttr s = [] \<and> \<not> (segIndex s < 0 \<or> segIndex s \<ge> int (length l))")
      case True
      then have "nat (segIndex s) < length l" by linarith
      then show ?thesis using "2.IH"(2) [OF _ VL] "2.prems" True VL by (auto simp: list_all_iff)
    qed (use VL in auto)
  qed auto
qed simp

lemma get_denote: "wfItem it \<Longrightarrow> map_option denote (Get p it) = aget p (denoteItem it) \<and> (\<forall>w. Get p it = Some w \<longrightarrow> wfValue w)"
proof (cases p)
  case (Cons s ss)
  assume wf: "wfItem it"
  show ?thesis
  proof (cases "map_of it (segAttr s)")
    case (Some v)
    then have "wfValue v" using wf map_of_SomeD [OF Some] by (auto simp: wfItem_def list_all_iff)
    then show ?thesis using Some Cons walk_denote [of v ss] by (simp add: Get_def aget_def denoteItem_def denote_map_lookup)
  qed (simp add: Get_def aget_def denoteItem_def denote_map_lookup Cons)
qed (simp add: Get_def aget_def)

lemma count_wf: "wfValue (VN (countDecimal n))"
proof (cases "ParseDecimal (natStr n)")
  case (Inr d)
  then show ?thesis using ParseDecimal_sound [OF Inr] by (simp add: countDecimal_def)
qed (use normal_Zero in \<open>simp add: countDecimal_def inRange_def Zero_def\<close>)

lemma size_denote: "wfValue v \<Longrightarrow> asize (denote v) = sizeOf v"
proof (cases v)
  case (VM m)
  assume "wfValue v"
  then have "distinct (map fst m)" using VM by simp
  moreover have "dom (map_of (map (\<lambda>(k, v). (k, denote v)) m)) = set (map fst m)" by (force simp: dom_map_of_conv_image_fst)
  ultimately show ?thesis using VM distinct_card [of "map fst m"] by (simp add: asize_def sizeOf_def)
next
  case (VNS ds)
  assume "wfValue v"
  then have "inj_on val (set ds)" "distinct ds" using VNS val_inject by (auto simp: inj_on_def list_all_iff)
  then show ?thesis using VNS by (simp add: asize_def sizeOf_def card_image distinct_card)
qed (auto simp: asize_def sizeOf_def distinct_card)

definition denoted :: "exprError + attrValue option \<Rightarrow> exprError + avalue option \<Rightarrow> bool" where
  "denoted r s = (map_sum id (map_option denote) r = s \<and> (\<forall>v. r = Inr (Some v) \<longrightarrow> wfValue v))"

lemma operand_denote: "wfItem it \<Longrightarrow> wfOperand q \<Longrightarrow> denoted (operandValue q it) (aoperand q (denoteItem it))"
proof (cases q)
  case (sizeOperand p)
  assume "wfItem it"
  note g = get_denote [OF this, of p]
  show ?thesis
  proof (cases "Get p it")
    case (Some v)
    then have "aget p (denoteItem it) = Some (denote v)" "wfValue v" using g by auto
    then show ?thesis using sizeOperand Some size_denote [of v] count_wf
      by (cases "sizeOf v") (auto simp: denoted_def operandValue_def aoperand_def)
  qed (use g sizeOperand in \<open>auto simp: denoted_def operandValue_def aoperand_def\<close>)
qed (use get_denote [of it] in \<open>auto simp: denoted_def operandValue_def aoperand_def\<close>)

lemma compare_denote:
  assumes "wfValue l" "wfValue r"
  shows "(case orderedCompare l r of None \<Rightarrow> \<not> aordered (denote l) (denote r)
    | Some n \<Rightarrow> aordered (denote l) (denote r) \<and> (n < 0 \<longleftrightarrow> aless (denote l) (denote r)) \<and> (n > 0 \<longleftrightarrow> aless (denote r) (denote l)) \<and>
        (n = 0 \<longleftrightarrow> denote l = denote r))"
  using assms
  by (cases l; cases r) (auto simp: orderedCompare_def aordered_def aless_def strCompare_def bytesCompare_def Compare_cmp cmp_def)

lemma denoted_cases:
  assumes "denoted r s"
  obtains x where "r = Inl x" "s = Inl x" | "r = Inr None" "s = Inr None" | v where "r = Inr (Some v)" "s = Inr (Some (denote v))" "wfValue v"
proof (cases r)
  case (Inr w)
  then show ?thesis using assms that by (cases w) (auto simp: denoted_def)
qed (use assms that in \<open>auto simp: denoted_def\<close>)

lemma ordered_denote:
  assumes "wfValue x" "wfValue y"
  shows "(if c = ''='' then Inr (Equal x y) else if c = ''<>'' then Inr (\<not> Equal x y)
     else case orderedCompare x y of
            None \<Rightarrow> Inr False
          | Some n \<Rightarrow>
              if c = ''<'' then Inr (n < 0) else if c = ''<='' then Inr (n \<le> 0) else if c = ''>'' then Inr (n > 0)
              else if c = ''>='' then Inr (n \<ge> 0) else Inl (UnknownComparator c)) = acompare c (denote x) (denote y)"
  using compare_denote [OF assms] Equal_denote_iff [OF assms] by (cases "orderedCompare x y") (auto simp: acompare_def)

lemma cmp_denote:
  assumes "wfItem it" "wfOperand l" "wfOperand r"
  shows "evalCmp c l r it = acmp c l r (denoteItem it)"
proof -
  have two: "denoted (operandValue l it) (aoperand l (denoteItem it))" "denoted (operandValue r it) (aoperand r (denoteItem it))"
    using operand_denote assms by blast+
  show ?thesis
    by (rule denoted_cases [OF two(1)]; rule denoted_cases [OF two(2)])
      (simp_all add: evalCmp_def acmp_def ordered_denote cong: if_cong)
qed

lemma in_denote:
  assumes "wfItem it" "wfValue v"
  shows "list_all wfOperand qs \<Longrightarrow> evalIn v qs it = ain (denote v) qs (denoteItem it)"
proof (induction qs)
  case (Cons q qs)
  then have "denoted (operandValue q it) (aoperand q (denoteItem it))" using operand_denote [OF assms(1)] by simp
  then show ?case
    by (rule denoted_cases) (use Cons assms(2) in \<open>auto simp: Equal_denote_iff\<close>)
qed simp

lemma begins_denote: "beginsWith v w = abegins (denote v) (map_option denote w)"
  by (cases v; cases w; cases "the w") (auto simp: beginsWith_def abegins_def)

lemma contains_denote:
  assumes "wfValue v" "\<And>u. w = Some u \<Longrightarrow> wfValue u"
  shows "containsValue v w = acontains (denote v) (map_option denote w)"
proof (cases w)
  case (Some u)
  have u: "wfValue u" using assms(2) Some by simp
  show ?thesis
  proof (cases v)
    case (VL l)
    then have "list_ex (\<lambda>x. Equal x u) l \<longleftrightarrow> denote u \<in> set (map denote l)"
      using u assms(1) Equal_denote_iff by (auto simp: list_ex_iff list_all_iff image_iff eq_commute [of "denote u"])
    then show ?thesis using Some VL by (cases "denote u") (auto simp: containsValue_def acontains_def)
  next
    case (VNS ds)
    have "(\<exists>x\<in>set ds. Compare x d = 0) \<longleftrightarrow> val d \<in> val ` set ds" if "u = VN d" for d
      using that u assms(1) VNS Compare_cmp by (auto simp: cmp_def list_all_iff image_iff split: if_splits) metis+
    then show ?thesis using Some VNS by (cases u) (auto simp: containsValue_def acontains_def list_ex_iff)
  qed (use Some in \<open>cases u; auto simp: containsValue_def acontains_def\<close>)+
qed (cases v; simp add: containsValue_def acontains_def)

lemma type_denote [simp]: "atype (denote v) = typeOf v"
  by (cases v) auto

lemma func_denote:
  assumes "wfItem it" "case a of None \<Rightarrow> True | Some q \<Rightarrow> wfOperand q"
  shows "evalFunc name p a it = afunc name p a (denoteItem it)"
proof -
  note g = get_denote [OF assms(1), of p]
  show ?thesis
  proof (cases "Get p it")
    case (Some v)
    then have v: "aget p (denoteItem it) = Some (denote v)" "wfValue v" using g by auto
    have "denoted (argValue a it) (case a of None \<Rightarrow> Inr None | Some q \<Rightarrow> aoperand q (denoteItem it))"
      using operand_denote [OF assms(1)] assms(2) by (cases a) (auto simp: argValue_def denoted_def)
    then show ?thesis
    proof (rule denoted_cases)
      fix u assume u: "argValue a it = Inr (Some u)" "(case a of None \<Rightarrow> Inr None | Some q \<Rightarrow> aoperand q (denoteItem it)) = Inr (Some (denote u))" "wfValue u"
      have "(case Some u of Some (VS s) \<Rightarrow> Inr (wireTag (typeOf v) = s) | _ \<Rightarrow> Inl TypeNameNotString) =
          (case Some (denote u) of Some (AS s) \<Rightarrow> Inr (wireTag (atype (denote v)) = s) | _ \<Rightarrow> Inl TypeNameNotString)"
        by (cases u) simp_all
      moreover have "containsValue v (Some u) = acontains (denote v) (Some (denote u))" using contains_denote [OF v(2), of "Some u"] u(3) by simp
      ultimately show ?thesis using Some v(1) u(1,2) by (simp add: evalFunc_def afunc_def begins_denote)
    qed (use Some v(1) contains_denote [OF v(2), of None] in \<open>simp_all add: evalFunc_def afunc_def begins_denote\<close>)
  next
    case None
    then have "aget p (denoteItem it) = None" using g by simp
    then show ?thesis using None by (simp add: evalFunc_def afunc_def)
  qed
qed

text \<open>C14: Evaluating a condition gives its truth over the denoted values: numbers compare as numbers however
  many digits they were written with, sets and maps compare without regard to order, sizes count members.\<close>

theorem eval_denotes:
  assumes "wfItem it" "wfCond c"
  shows "eval c it = holds c (denoteItem it)"
  using assms(2)
proof (induction c)
  case (inNode v opts)
  then have "denoted (operandValue v it) (aoperand v (denoteItem it))" using operand_denote [OF assms(1)] by simp
  then show ?case by (rule denoted_cases) (use in_denote [OF assms(1)] inNode in simp_all)
qed (use assms(1) in \<open>simp_all add: cmp_denote func_denote cong: if_cong\<close>)

text \<open>The set \<open>{a, b}\<close> equals the set written the other way round.\<close>

theorem eval_denotes_witness:
  "wfItem [(''s'', VSS [''a'', ''b''])]
   \<and> wfCond (cmpNode ''='' (pathOperand [attrSeg ''s'']) (valueOperand '':v'' (VSS [''b'', ''a''])))
   \<and> eval (cmpNode ''='' (pathOperand [attrSeg ''s'']) (valueOperand '':v'' (VSS [''b'', ''a'']))) [(''s'', VSS [''a'', ''b''])]
     = holds (cmpNode ''='' (pathOperand [attrSeg ''s'']) (valueOperand '':v'' (VSS [''b'', ''a''])))
         (denoteItem [(''s'', VSS [''a'', ''b''])])
   \<and> eval (cmpNode ''='' (pathOperand [attrSeg ''s'']) (valueOperand '':v'' (VSS [''b'', ''a'']))) [(''s'', VSS [''a'', ''b''])] = Inr True"
proof -
  let ?it = "[(''s'', VSS [''a'', ''b''])]"
  let ?c = "cmpNode ''='' (pathOperand [attrSeg ''s'']) (valueOperand '':v'' (VSS [''b'', ''a'']))"
  have "wfItem ?it" by (simp add: wfItem_def)
  moreover have "wfCond ?c" by simp
  moreover have "eval ?c ?it = Inr True" by code_simp
  ultimately show ?thesis using eval_denotes [of ?it ?c] by simp
qed

end
