(* ===== verification/Bolt.thy ===== *)
theory Bolt
  imports Prelude
begin

text \<open>
  The key/value store under every service, \<^verbatim>\<open>go.etcd.io/bbolt\<close>, is not part of the repository: it
  is a parameter of the model. The record \<open>bolt\<close> holds the operations of a transaction that the
  sources call (top-level buckets only), over an unknown type of transactions and with values kept
  decoded. The locale \<open>bolt_store\<close> states what bbolt documents of them, over the contents
  \<open>view tx\<close> of a transaction: which buckets exist, the sequence number of each and its pairs.
\<close>

record ('tx, 'v) bolt =
  hasBucket :: "'tx \<Rightarrow> string \<Rightarrow> bool"
  createBucket :: "'tx \<Rightarrow> string \<Rightarrow> 'tx option"
  deleteBucket :: "'tx \<Rightarrow> string \<Rightarrow> 'tx option"
  bucketGet :: "'tx \<Rightarrow> string \<Rightarrow> string \<Rightarrow> 'v option"
  bucketPut :: "'tx \<Rightarrow> string \<Rightarrow> string \<Rightarrow> 'v \<Rightarrow> 'tx option"
  bucketDelete :: "'tx \<Rightarrow> string \<Rightarrow> string \<Rightarrow> 'tx"
  bucketItems :: "'tx \<Rightarrow> string \<Rightarrow> (string \<times> 'v) list"
  nextSequence :: "'tx \<Rightarrow> string \<Rightarrow> 64 word \<times> 'tx"

type_synonym 'v contents = "string \<Rightarrow> (64 word \<times> (string \<Rightarrow> 'v option)) option"

text \<open>
  \<^verbatim>\<open>db.Update\<close>: a transaction whose function returns an error is rolled back. Reading transactions
  (\<^verbatim>\<open>db.View\<close>) are applications of a function that returns no new transaction.
\<close>

definition Update :: "('tx \<Rightarrow> ('e + 'a) \<times> 'tx) \<Rightarrow> 'tx \<Rightarrow> ('e + 'a) \<times> 'tx" where
  "Update f tx = (case f tx of (Inl e, _) \<Rightarrow> (Inl e, tx) | (Inr r, tx') \<Rightarrow> (Inr r, tx'))"

locale bolt_store =
  fixes K :: "('tx, 'v) bolt" and view :: "'tx \<Rightarrow> 'v contents"
  assumes hasBucket: "hasBucket K tx b \<longleftrightarrow> view tx b \<noteq> None"
    and createBucket: "createBucket K tx b = Some tx' \<Longrightarrow>
      view tx' = (if view tx b = None then (view tx)(b \<mapsto> (0, Map.empty)) else view tx)"
    and createBucket_ok: "b \<noteq> [] \<Longrightarrow> createBucket K tx b \<noteq> None"
    and deleteBucket: "deleteBucket K tx b = Some tx' \<Longrightarrow> view tx' = (view tx)(b := None)"
    and deleteBucket_ok: "deleteBucket K tx b = None \<longleftrightarrow> view tx b = None"
    and bucketGet: "view tx b = Some (n, m) \<Longrightarrow> bucketGet K tx b k = m k"
    and bucketPut: "view tx b = Some (n, m) \<Longrightarrow> bucketPut K tx b k v = Some tx' \<Longrightarrow>
      view tx' = (view tx)(b \<mapsto> (n, m(k \<mapsto> v)))"
    and bucketDelete: "view tx b = Some (n, m) \<Longrightarrow>
      view (bucketDelete K tx b k) = (view tx)(b \<mapsto> (n, m(k := None)))"
    and bucketItems: "view tx b = Some (n, m) \<Longrightarrow> map_of (bucketItems K tx b) = m"
    and bucketItems_sorted: "view tx b = Some (n, m) \<Longrightarrow> sorted_wrt (<) (map fst (bucketItems K tx b))"
    and nextSequence: "view tx b = Some (n, m) \<Longrightarrow> nextSequence K tx b = (seq, tx') \<Longrightarrow>
      seq = n + 1 \<and> view tx' = (view tx)(b \<mapsto> (n + 1, m))"
begin

lemma items_iff:
  assumes "view tx b = Some (n, m)"
  shows "(k, v) \<in> set (bucketItems K tx b) \<longleftrightarrow> m k = Some v"
proof -
  have "distinct (map fst (bucketItems K tx b))"
    using bucketItems_sorted [OF assms] by (simp add: strict_sorted_iff)
  then show ?thesis using bucketItems [OF assms] by auto
qed

lemma items_distinct: "view tx b = Some (n, m) \<Longrightarrow> distinct (map fst (bucketItems K tx b))"
  using bucketItems_sorted [of tx b n m] by (simp add: strict_sorted_iff)

text \<open>Deleting a list of keys one after the other.\<close>

lemma delete_keys:
  "view tx b = Some (n, m) \<Longrightarrow>
   view (fold (\<lambda>k t. bucketDelete K t b k) ks tx) = (view tx)(b \<mapsto> (n, m |` (- set ks)))"
proof (induction ks arbitrary: tx m)
  case (Cons k ks)
  have v: "view (bucketDelete K tx b k) = (view tx)(b \<mapsto> (n, m(k := None)))"
    using Cons.prems by (rule bucketDelete)
  have r: "(m(k := None)) |` (- set ks) = m |` (- set (k # ks))" by (auto simp: restrict_map_def fun_eq_iff)
  have "view (bucketDelete K tx b k) b = Some (n, m(k := None))" by (simp add: v)
  from Cons.IH [OF this] show ?case unfolding r by (simp add: v fun_eq_iff)
qed (auto simp: fun_eq_iff restrict_map_def)

end

subsection \<open>An instance\<close>

text \<open>
  The laws have a model: transactions that are their contents, with sorted association lists as
  buckets. It is the instance at which the witnesses below are evaluated.
\<close>

type_synonym 'v memory = "(string \<times> 64 word \<times> (string \<times> 'v) list) list"

fun insertPair :: "string \<Rightarrow> 'v \<Rightarrow> (string \<times> 'v) list \<Rightarrow> (string \<times> 'v) list" where
  "insertPair k v [] = [(k, v)]"
| "insertPair k v ((l, w) # xs) =
     (if k < l then (k, v) # (l, w) # xs else if k = l then (k, v) # xs else (l, w) # insertPair k v xs)"

definition normalPairs :: "(string \<times> 'v) list \<Rightarrow> (string \<times> 'v) list" where
  "normalPairs xs = foldr (\<lambda>(k, v) ys. insertPair k v ys) xs []"

definition memView :: "'v memory \<Rightarrow> 'v contents" where
  "memView tx b = map_option (\<lambda>(n, xs). (n, map_of xs)) (map_of tx b)"

definition memBolt :: "('v memory, 'v) bolt" where
  "memBolt =
     \<lparr>hasBucket = (\<lambda>tx b. map_of tx b \<noteq> None),
      createBucket = (\<lambda>tx b. if b = [] then None else if map_of tx b = None then Some ((b, 0, []) # tx) else Some tx),
      deleteBucket = (\<lambda>tx b. if map_of tx b = None then None else Some (AList.delete b tx)),
      bucketGet = (\<lambda>tx b k. case map_of tx b of None \<Rightarrow> None | Some (_, xs) \<Rightarrow> map_of xs k),
      bucketPut = (\<lambda>tx b k v. if k = [] \<or> int (length k) > 32768 then None
        else case map_of tx b of None \<Rightarrow> None | Some (n, xs) \<Rightarrow> Some (AList.update b (n, (k, v) # AList.delete k xs) tx)),
      bucketDelete = (\<lambda>tx b k. case map_of tx b of None \<Rightarrow> tx | Some (n, xs) \<Rightarrow> AList.update b (n, AList.delete k xs) tx),
      bucketItems = (\<lambda>tx b. case map_of tx b of None \<Rightarrow> [] | Some (_, xs) \<Rightarrow> normalPairs xs),
      nextSequence = (\<lambda>tx b. case map_of tx b of None \<Rightarrow> (0, tx)
        | Some (n, xs) \<Rightarrow> (n + 1, AList.update b (n + 1, xs) tx))\<rparr>"

lemma insertPair_lookup: "map_of (insertPair k v xs) = (map_of xs)(k \<mapsto> v)" if "sorted_wrt (<) (map fst xs)"
  using that by (induction k v xs rule: insertPair.induct) (auto simp: fun_eq_iff)

lemma insertPair_keys: "set (map fst (insertPair k v xs)) = insert k (set (map fst xs))"
  by (induction k v xs rule: insertPair.induct) auto

lemma insertPair_sorted: "sorted_wrt (<) (map fst xs) \<Longrightarrow> sorted_wrt (<) (map fst (insertPair k v xs))"
proof (induction k v xs rule: insertPair.induct)
  case (2 k v l w xs)
  then show ?case using insertPair_keys [of k v xs] by (fastforce dest: less_trans)
qed simp

lemma normalPairs: "sorted_wrt (<) (map fst (normalPairs xs)) \<and> map_of (normalPairs xs) = map_of xs"
  by (induction xs) (auto simp: normalPairs_def insertPair_sorted insertPair_lookup)

lemma normalPairs_sorted: "sorted_wrt (<) (map fst (normalPairs xs))"
  using normalPairs by blast

lemma normalPairs_lookup: "map_of (normalPairs xs) = map_of xs"
  using normalPairs by blast

interpretation mem: bolt_store memBolt memView
  by unfold_locales
    (auto simp: memBolt_def memView_def fun_eq_iff update_conv' delete_conv' normalPairs_lookup normalPairs_sorted
      split: option.splits if_splits)

end
