(* ===== verification/SeqKey.thy ===== *)
theory SeqKey
  imports Prelude
begin

text \<open>
  Keys of messages and records: a 64-bit sequence number as eight big-endian bytes
  (\<^verbatim>\<open>seqKey\<close> of \<^verbatim>\<open>sqs/store.go\<close> and of \<^verbatim>\<open>kinesis/store.go\<close>), so that a bucket's key order is the order
  of the numbers.
\<close>

text \<open>\<^verbatim>\<open>binary.BigEndian.PutUint64\<close> and \<^verbatim>\<open>PutUint32\<close>.\<close>

fun bigEndian :: "nat \<Rightarrow> nat \<Rightarrow> string" where
  "bigEndian 0 n = []"
| "bigEndian (Suc k) n = char_of (n div 256 ^ k) # bigEndian k (n mod 256 ^ k)"

definition seqKey :: "64 word \<Rightarrow> string" where
  "seqKey seq = bigEndian 8 (unat seq)"

text \<open>The same bytes computed on binary integers, for evaluation.\<close>

fun bigEndianInt :: "nat \<Rightarrow> int \<Rightarrow> string" where
  "bigEndianInt 0 n = []"
| "bigEndianInt (Suc k) n = char_of (n div 256 ^ k) # bigEndianInt k (n mod 256 ^ k)"

lemma bigEndianInt: "bigEndianInt k (int n) = bigEndian k n"
proof (induction k arbitrary: n)
  case (Suc k)
  have "(char_of (int m) :: char) = char_of m" for m by (simp add: char_of_def bit_of_nat_iff_bit)
  moreover have "int n div 256 ^ k = int (n div 256 ^ k)" "int n mod 256 ^ k = int (n mod 256 ^ k)"
    by (simp_all add: of_nat_div of_nat_mod)
  ultimately show ?case by (simp add: Suc.IH)
qed simp

lemma seqKey_code [code]: "seqKey seq = bigEndianInt 8 (uint seq)"
  using bigEndianInt [of 8 "unat seq"] by (simp add: seqKey_def)

subsection \<open>Order\<close>

lemma less_div_mod: "m < n \<longleftrightarrow> m div b < n div b \<or> m div b = n div b \<and> m mod b < n mod b" for m n b :: nat
proof (cases "m div b = n div b")
  case True
  then show ?thesis using div_mult_mod_eq [of m b] div_mult_mod_eq [of n b] by (metis less_irrefl nat_add_left_cancel_less)
next
  case False
  then show ?thesis using div_le_mono [of m n b] div_le_mono [of n m b] by linarith
qed

lemma bigEndian_less:
  "m < 256 ^ k \<Longrightarrow> n < 256 ^ k \<Longrightarrow> bigEndian k m < bigEndian k n \<longleftrightarrow> m < n"
proof (induction k arbitrary: m n)
  case (Suc k)
  have d: "m div 256 ^ k < 256" "n div 256 ^ k < 256" using Suc.prems by (simp_all add: less_mult_imp_div_less mult.commute)
  have "(char_of (m div 256 ^ k) :: char) < char_of (n div 256 ^ k) \<longleftrightarrow> m div 256 ^ k < n div 256 ^ k"
    "(char_of (m div 256 ^ k) :: char) = char_of (n div 256 ^ k) \<longleftrightarrow> m div 256 ^ k = n div 256 ^ k"
    using d by (auto simp: less_char_def char_of_eq_iff take_bit_eq_mod)
  moreover have "bigEndian k (m mod 256 ^ k) < bigEndian k (n mod 256 ^ k) \<longleftrightarrow> m mod 256 ^ k < n mod 256 ^ k"
    by (rule Suc.IH) simp_all
  moreover have "m < n \<longleftrightarrow> m div 256 ^ k < n div 256 ^ k \<or> m div 256 ^ k = n div 256 ^ k \<and> m mod 256 ^ k < n mod 256 ^ k"
    by (rule less_div_mod)
  ultimately show ?case by auto
qed simp

lemma length_bigEndian [simp]: "length (bigEndian k n) = k"
  by (induction k arbitrary: n) simp_all

lemma length_seqKey [simp]: "length (seqKey s) = 8"
  by (simp add: seqKey_def)

lemma seqKey_less: "seqKey s < seqKey t \<longleftrightarrow> s < t"
proof -
  have "unat x < 256 ^ 8" for x :: "64 word" using unsigned_less [of x] by simp
  then show ?thesis by (simp add: seqKey_def bigEndian_less word_less_nat_alt)
qed

lemma seqKey_inject [simp]: "seqKey s = seqKey t \<longleftrightarrow> s = t"
  by (metis seqKey_less less_irrefl not_less_iff_gr_or_eq)

end
