(* ===== verification/EventPattern.thy ===== *)
theory EventPattern
  imports Glob
begin

text \<open>
  EventBridge event patterns, \<^verbatim>\<open>internal/eventpattern/eventpattern.go\<close>: a pattern document is
  compiled to a tree of object nodes and condition lists, which is then matched against decoded
  events. A \<^verbatim>\<open>json.RawMessage\<close> is the piece of the syntax tree it spells, so the tests for a leading
  brace or bracket are tests of its constructor.
\<close>

text \<open>A value decoded into an \<^verbatim>\<open>any\<close>: numbers are float64, and a number that does not fit is an error.\<close>

datatype anyv =
    AnyNull | AnyBool bool | AnyNum go_float | AnyStr string | AnyArr "anyv list"
  | AnyObj "(string \<times> anyv) list"

function decodeAny :: "go_ext \<Rightarrow> json \<Rightarrow> anyv option" where
  "decodeAny G JNull = Some AnyNull"
| "decodeAny G (JBool b) = Some (AnyBool b)"
| "decodeAny G (JNum s) = map_option AnyNum (ParseFloat G s)"
| "decodeAny G (JStr s) = Some (AnyStr s)"
| "decodeAny G (JArr js) = map_option AnyArr (those (map (decodeAny G) js))"
| "decodeAny G (JObj kvs) =
     map_option (\<lambda>vs. AnyObj (goMap (zip (map fst kvs) vs))) (those (map (\<lambda>kv. decodeAny G (snd kv)) kvs))"
  by pat_completeness auto
termination
proof (relation "measure (\<lambda>(_, j). size j)", goal_cases)
  case (2 G js x)
  then show ?case by (simp add: size_list_estimation' less_Suc_eq_le)
next
  case (3 G kvs kv)
  then have "size_prod (\<lambda>_. 0) size kv \<le> size_list (size_prod (\<lambda>_. 0) size) kvs" by (simp add: size_list_estimation')
  then show ?case by (cases kv) simp
qed simp

datatype condition =
    exactCond anyv
  | prefixCond string bool
  | suffixCond string bool
  | ignoreCaseCond string
  | wildcardCond string
  | notCond condition
  | anyOfCond "condition list"
  | numericCond "(string \<times> go_float) list"
  | existsCond bool
  | cidrCond "nat list \<Rightarrow> bool"

datatype patternNode =
    objectNode "(string \<times> patternNode) list" "patternNode list list"
  | leafNode "condition list"

datatype patternError =
    NotAnObject
  | EmptyPattern
  | OrNotAnArray
  | OrEmpty
  | NotALeaf string
  | EmptyLeaf string
  | NotSingleKey string
  | BadValue string
  | NotAStringArg string string
  | NotABoolArg string
  | BadCIDR string
  | UnknownOperator string string
  | UnsupportedInAnythingBut string string
  | NumericNotAnArray string
  | NumericArity string
  | NumericOperatorNotAString string
  | NumericBoundNotANumber string
  | UnknownNumericOperator string string

subsection \<open>Compiling patterns\<close>

fun toFloat :: "anyv \<Rightarrow> go_float option" where
  "toFloat (AnyNum f) = Some f"
| "toFloat _ = None"

text \<open>\<^verbatim>\<open>json.Unmarshal\<close> into a \<^verbatim>\<open>map[string]string\<close>.\<close>

fun unmarshalStringMap :: "json \<Rightarrow> (string \<times> string) list option" where
  "unmarshalStringMap (JObj kvs) =
     map_option (\<lambda>vs. goMap (zip (map fst kvs) vs)) (those (map (\<lambda>kv. unmarshalString (snd kv)) kvs))"
| "unmarshalStringMap JNull = Some []"
| "unmarshalStringMap _ = None"

definition affixArg :: "json \<Rightarrow> (string \<times> bool) option" where
  "affixArg arg =
     (case unmarshalString arg of
        Some s \<Rightarrow> Some (s, False)
      | None \<Rightarrow>
          (case unmarshalStringMap arg of
             Some sub \<Rightarrow> map_option (\<lambda>ic. (ic, True)) (map_of sub ''equals-ignore-case'')
           | None \<Rightarrow> None))"

text \<open>The four operators on strings, which are also the ones allowed under \<^verbatim>\<open>anything-but\<close>.\<close>

definition stringOperators :: "string list" where
  "stringOperators = [''prefix'', ''suffix'', ''equals-ignore-case'', ''wildcard'']"

definition parseStringOperator :: "string \<Rightarrow> string \<Rightarrow> json \<Rightarrow> patternError + condition" where
  "parseStringOperator key name arg =
     (if name = ''prefix'' then
        (case affixArg arg of Some (s, ic) \<Rightarrow> Inr (prefixCond s ic) | None \<Rightarrow> Inl (NotAStringArg key name))
      else if name = ''suffix'' then
        (case affixArg arg of Some (s, ic) \<Rightarrow> Inr (suffixCond s ic) | None \<Rightarrow> Inl (NotAStringArg key name))
      else if name = ''equals-ignore-case'' then
        (case unmarshalString arg of Some s \<Rightarrow> Inr (ignoreCaseCond s) | None \<Rightarrow> Inl (NotAStringArg key name))
      else
        (case unmarshalString arg of Some s \<Rightarrow> Inr (wildcardCond s) | None \<Rightarrow> Inl (NotAStringArg key name)))"

definition parseExact :: "go_ext \<Rightarrow> string \<Rightarrow> json \<Rightarrow> patternError + condition" where
  "parseExact G key raw = (case decodeAny G raw of None \<Rightarrow> Inl (BadValue key) | Some v \<Rightarrow> Inr (exactCond v))"

definition parseAnythingBut :: "go_ext \<Rightarrow> string \<Rightarrow> json \<Rightarrow> patternError + condition" where
  "parseAnythingBut G key arg =
     (case arg of
        JObj kvs \<Rightarrow>
          (case goMap kvs of
             [(name, sub)] \<Rightarrow>
               if name \<in> set stringOperators then parseStringOperator key name sub
               else Inl (UnsupportedInAnythingBut key name)
           | _ \<Rightarrow> Inl (NotSingleKey key))
      | JArr items \<Rightarrow>
          (case traverse (parseExact G key) items of Inl e \<Rightarrow> Inl e | Inr conds \<Rightarrow> Inr (anyOfCond conds))
      | _ \<Rightarrow> parseExact G key arg)"

definition numericOperators :: "string list" where
  "numericOperators = [''='', ''<'', ''<='', ''>'', ''>='']"

fun parseBounds :: "string \<Rightarrow> anyv list \<Rightarrow> (string \<times> go_float) list \<Rightarrow> patternError + condition" where
  "parseBounds key (p # q # rest) bounds =
     (case p of
        AnyStr op \<Rightarrow>
          (case toFloat q of
             None \<Rightarrow> Inl (NumericBoundNotANumber key)
           | Some n \<Rightarrow>
               if op \<in> set numericOperators then parseBounds key rest (bounds @ [(op, n)])
               else Inl (UnknownNumericOperator key op))
      | _ \<Rightarrow> Inl (NumericOperatorNotAString key))"
| "parseBounds key _ bounds = Inr (numericCond bounds)"

definition parseNumeric :: "go_ext \<Rightarrow> string \<Rightarrow> json \<Rightarrow> patternError + condition" where
  "parseNumeric G key arg =
     (case unmarshalList arg of
        None \<Rightarrow> Inl (NumericNotAnArray key)
      | Some js \<Rightarrow>
          (case those (map (decodeAny G) js) of
             None \<Rightarrow> Inl (NumericNotAnArray key)
           | Some parts \<Rightarrow>
               if length parts \<noteq> 2 \<and> length parts \<noteq> 4 then Inl (NumericArity key)
               else parseBounds key parts []))"

definition parseOperator :: "go_ext \<Rightarrow> string \<Rightarrow> string \<Rightarrow> json \<Rightarrow> patternError + condition" where
  "parseOperator G key name arg =
     (if name \<in> set stringOperators then parseStringOperator key name arg
      else if name = ''anything-but'' then
        (case parseAnythingBut G key arg of Inl e \<Rightarrow> Inl e | Inr inner \<Rightarrow> Inr (notCond inner))
      else if name = ''numeric'' then parseNumeric G key arg
      else if name = ''exists'' then
        (case unmarshalBool arg of None \<Rightarrow> Inl (NotABoolArg key) | Some b \<Rightarrow> Inr (existsCond b))
      else if name = ''cidr'' then
        (case unmarshalString arg of
           None \<Rightarrow> Inl (NotAStringArg key name)
         | Some s \<Rightarrow> (case ParseCIDR G s of None \<Rightarrow> Inl (BadCIDR key) | Some n \<Rightarrow> Inr (cidrCond n)))
      else Inl (UnknownOperator key name))"

definition parseCondition :: "go_ext \<Rightarrow> string \<Rightarrow> json \<Rightarrow> patternError + condition" where
  "parseCondition G key raw =
     (case raw of
        JObj kvs \<Rightarrow>
          (case goMap kvs of [(name, arg)] \<Rightarrow> parseOperator G key name arg | _ \<Rightarrow> Inl (NotSingleKey key))
      | _ \<Rightarrow> parseExact G key raw)"

definition parseLeaf :: "go_ext \<Rightarrow> string \<Rightarrow> json \<Rightarrow> patternError + patternNode" where
  "parseLeaf G key val =
     (case unmarshalList val of
        None \<Rightarrow> Inl (NotALeaf key)
      | Some list \<Rightarrow>
          if list = [] then Inl (EmptyLeaf key)
          else case traverse (parseCondition G key) list of Inl e \<Rightarrow> Inl e | Inr conds \<Rightarrow> Inr (leafNode conds))"

text \<open>
  One entry of a pattern object: the alternatives of a \<^verbatim>\<open>$or\<close>, or the node of a field. The entries
  are visited in the order written, one of the orders of Go's map iteration; the order only decides
  which of several errors is reported.
\<close>

datatype entry = OrEntry "patternNode list" | FieldEntry string patternNode

definition entryFields :: "entry list \<Rightarrow> (string \<times> patternNode) list" where
  "entryFields es = concat (map (\<lambda>e. case e of FieldEntry k n \<Rightarrow> [(k, n)] | OrEntry _ \<Rightarrow> []) es)"

definition entryOrs :: "entry list \<Rightarrow> patternNode list list" where
  "entryOrs es = concat (map (\<lambda>e. case e of FieldEntry _ _ \<Rightarrow> [] | OrEntry alts \<Rightarrow> [alts]) es)"

function parseObject :: "go_ext \<Rightarrow> json \<Rightarrow> patternError + patternNode"
  and parseEntry :: "go_ext \<Rightarrow> string \<times> json \<Rightarrow> patternError + entry" where
  "parseObject G j =
     (case unmarshalMap j of
        None \<Rightarrow> Inl NotAnObject
      | Some raw \<Rightarrow>
          (case traverse (parseEntry G) raw of
             Inl e \<Rightarrow> Inl e
           | Inr es \<Rightarrow> Inr (objectNode (entryFields es) (entryOrs es))))"
| "parseEntry G kv =
     (if fst kv = ''$or'' then
        (case unmarshalList (snd kv) of
           None \<Rightarrow> Inl OrNotAnArray
         | Some alts \<Rightarrow>
             if list_ex (\<lambda>alt. unmarshalMap alt = None) alts then Inl OrNotAnArray
             else case traverse (parseObject G) alts of
                    Inl e \<Rightarrow> Inl e
                  | Inr parsed \<Rightarrow> if parsed = [] then Inl OrEmpty else Inr (OrEntry parsed))
      else case snd kv of
             JObj nested \<Rightarrow>
               (case parseObject G (JObj nested) of
                  Inl e \<Rightarrow> Inl e
                | Inr sub \<Rightarrow> Inr (FieldEntry (fst kv) sub))
           | _ \<Rightarrow>
               (case parseLeaf G (fst kv) (snd kv) of
                  Inl e \<Rightarrow> Inl e
                | Inr leaf \<Rightarrow> Inr (FieldEntry (fst kv) leaf)))"
  by pat_completeness auto
termination
  by (relation "measure (\<lambda>x. case x of Inl (_, j) \<Rightarrow> 2 * size j | Inr (_, kv) \<Rightarrow> 2 * size (snd kv) + 1)")
    (auto dest: unmarshalMap_size unmarshalList_size)

definition Parse :: "go_ext \<Rightarrow> string \<Rightarrow> patternError + patternNode" where
  "Parse G src =
     (case parseJSON G src of
        None \<Rightarrow> Inl NotAnObject
      | Some j \<Rightarrow>
          (case unmarshalMap j of
             None \<Rightarrow> Inl NotAnObject
           | Some raw \<Rightarrow> if raw = [] then Inl EmptyPattern else parseObject G j))"

subsection \<open>Matching\<close>

fun exactMatches :: "anyv \<Rightarrow> anyv \<Rightarrow> bool" where
  "exactMatches want v =
     (case toFloat want of
        Some w \<Rightarrow> (case toFloat v of Some f \<Rightarrow> feq w f | None \<Rightarrow> False)
      | None \<Rightarrow>
          (case want of
             AnyStr w \<Rightarrow> v = AnyStr w
           | AnyBool w \<Rightarrow> v = AnyBool w
           | AnyNull \<Rightarrow> v = AnyNull
           | _ \<Rightarrow> False))"

definition boundHolds :: "go_float \<Rightarrow> string \<times> go_float \<Rightarrow> bool" where
  "boundHolds v b =
     (let (op, n) = b in
      if op = ''='' then feq v n
      else if op = ''<'' then flt v n
      else if op = ''<='' then fle v n
      else if op = ''>'' then flt n v
      else if op = ''>='' then fle n v
      else True)"

fun condMatches :: "go_ext \<Rightarrow> condition \<Rightarrow> anyv \<Rightarrow> bool \<Rightarrow> bool" where
  "condMatches G (exactCond want) v present = (present \<and> exactMatches want v)"
| "condMatches G (prefixCond p ic) v present =
     (case v of
        AnyStr s \<Rightarrow>
          if ic then length s \<ge> length p \<and> EqualFold G (take (length p) s) p else HasPrefix s p
      | _ \<Rightarrow> False)"
| "condMatches G (suffixCond p ic) v present =
     (case v of
        AnyStr s \<Rightarrow>
          if ic then length s \<ge> length p \<and> EqualFold G (drop (length s - length p) s) p else HasSuffix s p
      | _ \<Rightarrow> False)"
| "condMatches G (ignoreCaseCond p) v present = (case v of AnyStr s \<Rightarrow> EqualFold G s p | _ \<Rightarrow> False)"
| "condMatches G (wildcardCond p) v present = (case v of AnyStr s \<Rightarrow> wildcardMatch p s | _ \<Rightarrow> False)"
| "condMatches G (notCond inner) v present = (present \<and> \<not> condMatches G inner v present)"
| "condMatches G (anyOfCond cs) v present = list_ex (\<lambda>c. condMatches G c v present) cs"
| "condMatches G (numericCond bounds) v present =
     (case toFloat v of None \<Rightarrow> False | Some f \<Rightarrow> list_all (boundHolds f) bounds)"
| "condMatches G (existsCond want) v present = (present = want)"
| "condMatches G (cidrCond net) v present =
     (case v of
        AnyStr s \<Rightarrow> (case ParseIP G s of None \<Rightarrow> False | Some ip \<Rightarrow> net ip)
      | _ \<Rightarrow> False)"

definition isExists :: "condition \<Rightarrow> bool" where
  "isExists c = (case c of existsCond _ \<Rightarrow> True | _ \<Rightarrow> False)"

definition matchValue :: "go_ext \<Rightarrow> condition list \<Rightarrow> anyv option \<Rightarrow> bool" where
  "matchValue G conds val =
     (let candidates = (case val of None \<Rightarrow> [AnyNull] | Some (AnyArr arr) \<Rightarrow> arr | Some v \<Rightarrow> [v]);
          present = (val \<noteq> None)
      in list_ex
           (\<lambda>cond.
              if isExists cond then condMatches G cond AnyNull present
              else present \<and> list_ex (\<lambda>cand. condMatches G cond cand present) candidates)
           conds)"

function match :: "go_ext \<Rightarrow> patternNode \<Rightarrow> anyv \<Rightarrow> bool" where
  "match G (leafNode conds) doc = matchValue G conds (Some doc)"
| "match G (objectNode fs ors) doc =
     (case doc of
        AnyObj obj \<Rightarrow>
          list_all
            (\<lambda>f. case snd f of
                   leafNode conds \<Rightarrow> matchValue G conds (map_of obj (fst f))
                 | objectNode _ _ \<Rightarrow>
                     (case map_of obj (fst f) of None \<Rightarrow> False | Some v \<Rightarrow> match G (snd f) v))
            fs \<and>
          list_all (\<lambda>alts. list_ex (\<lambda>alt. match G alt doc) alts) ors
      | _ \<Rightarrow> False)"
  by pat_completeness auto
termination
proof (relation "measure (\<lambda>(_, n, _). size n)", goal_cases)
  case (2 G fs ors doc obj f)
  then have "size_prod (\<lambda>_. 0) size f \<le> size_list (size_prod (\<lambda>_. 0) size) fs" by (simp add: size_list_estimation')
  then show ?case by (cases f) simp
next
  case (3 G fs ors doc obj alts alt)
  then have "size alt \<le> size_list size alts" "size_list size alts \<le> size_list (size_list size) ors"
    by (auto intro: size_list_estimation')
  then show ?case by simp
qed simp

definition Match :: "go_ext \<Rightarrow> patternNode \<Rightarrow> string \<Rightarrow> bool option" where
  "Match G p event =
     (case parseJSON G event of
        None \<Rightarrow> None
      | Some j \<Rightarrow> (case decodeAny G j of None \<Rightarrow> None | Some doc \<Rightarrow> Some (match G p doc)))"

subsection \<open>What compiling guarantees\<close>

text \<open>
  The invariant of compiled patterns: no condition list and no list of alternatives is empty, a
  numeric condition has one or two bounds with known operators, a negation holds string operators,
  exact values or a list of exact values, and no field has two nodes.
\<close>

fun wfInner :: "condition \<Rightarrow> bool" where
  "wfInner (exactCond _) = True"
| "wfInner (prefixCond _ _) = True"
| "wfInner (suffixCond _ _) = True"
| "wfInner (ignoreCaseCond _) = True"
| "wfInner (wildcardCond _) = True"
| "wfInner (anyOfCond cs) = list_all (\<lambda>c. \<exists>v. c = exactCond v) cs"
| "wfInner _ = False"

fun wfCond :: "condition \<Rightarrow> bool" where
  "wfCond (notCond c) = wfInner c"
| "wfCond (anyOfCond _) = False"
| "wfCond (numericCond bs) = (length bs \<in> {1, 2} \<and> list_all (\<lambda>(op, _). op \<in> set numericOperators) bs)"
| "wfCond _ = True"

fun isObject :: "patternNode \<Rightarrow> bool" where
  "isObject (objectNode _ _) = True"
| "isObject (leafNode _) = False"

fun wfNode :: "patternNode \<Rightarrow> bool" where
  "wfNode (leafNode cs) = (cs \<noteq> [] \<and> list_all wfCond cs)"
| "wfNode (objectNode fs ors) =
     (distinct (map fst fs) \<and> ''$or'' \<notin> set (map fst fs) \<and> list_all (\<lambda>(_, n). wfNode n) fs \<and>
      list_all (\<lambda>alts. alts \<noteq> [] \<and> list_all isObject alts \<and> list_all wfNode alts) ors)"

lemma parseStringOperator_wf: "parseStringOperator key name arg = Inr c \<Longrightarrow> wfInner c \<and> wfCond c"
  by (auto simp: parseStringOperator_def split: if_splits option.splits)

lemma parseExact_wf: "parseExact G key raw = Inr c \<Longrightarrow> \<exists>v. c = exactCond v"
  by (auto simp: parseExact_def split: option.splits)

lemma parseAnythingBut_wf: "parseAnythingBut G key arg = Inr c \<Longrightarrow> wfInner c"
proof -
  assume c: "parseAnythingBut G key arg = Inr c"
  show ?thesis
  proof (cases arg)
    case (JArr items)
    then obtain cs where cs: "traverse (parseExact G key) items = Inr cs" "c = anyOfCond cs"
      using c by (auto simp: parseAnythingBut_def split: sum.splits)
    have "list_all (\<lambda>c. \<exists>v. c = exactCond v) cs" using cs(1) by (rule traverse_all) (rule parseExact_wf)
    then show ?thesis using cs(2) by simp
  next
    case (JObj kvs)
    then show ?thesis using c parseStringOperator_wf
      by (auto simp: parseAnythingBut_def split: list.splits if_splits)
  qed (use c parseExact_wf in \<open>fastforce simp: parseAnythingBut_def\<close>)+
qed

lemma parseBounds_wf:
  "parseBounds key parts bounds = Inr c \<Longrightarrow> list_all (\<lambda>(op, _). op \<in> set numericOperators) bounds \<Longrightarrow>
   even (length parts) \<Longrightarrow>
   \<exists>bs. c = numericCond bs \<and> length bs = length bounds + length parts div 2 \<and>
        list_all (\<lambda>(op, _). op \<in> set numericOperators) bs"
proof (induction key parts bounds rule: parseBounds.induct)
  case (1 key p q rest bounds)
  then show ?case by (auto split: anyv.splits option.splits if_splits)
qed auto

lemma parseNumeric_wf: "parseNumeric G key arg = Inr c \<Longrightarrow> wfCond c"
  using parseBounds_wf [of key _ "[]" c]
  by (fastforce simp: parseNumeric_def split: option.splits if_splits)

lemma parseCondition_wf: "parseCondition G key raw = Inr c \<Longrightarrow> wfCond c"
proof -
  have op: "wfCond c" if "parseOperator G key name arg = Inr c" for name arg
    using that parseStringOperator_wf parseAnythingBut_wf parseNumeric_wf
    by (auto simp: parseOperator_def split: if_splits sum.splits option.splits)
  show "parseCondition G key raw = Inr c \<Longrightarrow> wfCond c"
    using op parseExact_wf by (fastforce simp: parseCondition_def split: json.splits list.splits)
qed

lemma parseLeaf_wf: "parseLeaf G key val = Inr n \<Longrightarrow> wfNode n"
proof -
  assume "parseLeaf G key val = Inr n"
  then obtain list cs where cs: "list \<noteq> []" "traverse (parseCondition G key) list = Inr cs" "n = leafNode cs"
    by (auto simp: parseLeaf_def split: option.splits if_splits sum.splits)
  have "list_all wfCond cs" using cs(2) by (rule traverse_all) (rule parseCondition_wf)
  then show ?thesis using cs by (auto simp: traverse_Inr)
qed

fun wfEntry :: "entry \<Rightarrow> bool" where
  "wfEntry (OrEntry alts) = (alts \<noteq> [] \<and> list_all isObject alts \<and> list_all wfNode alts)"
| "wfEntry (FieldEntry k n) = (k \<noteq> ''$or'' \<and> wfNode n)"

lemma parseObject_isObject: "parseObject G j = Inr n \<Longrightarrow> isObject n"
  by (auto split: option.splits sum.splits simp del: parseEntry.simps)

lemma entryFields_simps [simp]:
  "entryFields [] = []" "entryFields (OrEntry alts # es) = entryFields es"
  "entryFields (FieldEntry k n # es) = (k, n) # entryFields es"
  by (simp_all add: entryFields_def)

lemma entryFields_keys:
  "list_all2 (\<lambda>kv e. \<forall>k n. e = FieldEntry k n \<longrightarrow> k = fst kv) raw es \<Longrightarrow> distinct (map fst raw) \<Longrightarrow>
   distinct (map fst (entryFields es)) \<and> set (map fst (entryFields es)) \<subseteq> set (map fst raw)"
proof (induction rule: list_all2_induct)
  case (Cons kv raw e es)
  then show ?case by (cases e) auto
qed simp

lemma wf_entries:
  "list_all wfEntry es \<Longrightarrow> distinct (map fst (entryFields es)) \<Longrightarrow> wfNode (objectNode (entryFields es) (entryOrs es))"
  by (auto simp: entryFields_def entryOrs_def list_all_iff split: entry.splits)

lemma parseEntry_key: "parseEntry G kv = Inr (FieldEntry k n) \<Longrightarrow> k = fst kv"
  by (auto split: if_splits option.splits sum.splits json.splits simp del: parseObject.simps)

lemma parse_wf:
  "parseObject G j = Inr n \<Longrightarrow> wfNode n" "parseEntry G kv = Inr e \<Longrightarrow> wfEntry e"
proof (induction G j and G kv arbitrary: n and e rule: parseObject_parseEntry.induct)
  case (1 G j)
  then obtain raw es where r: "unmarshalMap j = Some raw" "traverse (parseEntry G) raw = Inr es"
    "n = objectNode (entryFields es) (entryOrs es)"
    by (auto split: option.splits sum.splits simp del: parseEntry.simps)
  have "list_all wfEntry es" using r(2) by (rule traverse_all) (use 1(1) r(1) in blast)
  moreover have "distinct (map fst (entryFields es))"
  proof -
    have "list_all2 (\<lambda>kv e. \<forall>k n. e = FieldEntry k n \<longrightarrow> k = fst kv) raw es"
      using r(2) unfolding traverse_Inr by (rule list_all2_mono) (use parseEntry_key in blast)
    moreover have "distinct (map fst raw)" using r(1) by (cases j) auto
    ultimately show ?thesis using entryFields_keys by blast
  qed
  ultimately show ?case using r(3) wf_entries by blast
next
  case (2 G kv)
  show ?case
  proof (cases "fst kv = ''$or''")
    case True
    then obtain alts parsed where a: "unmarshalList (snd kv) = Some alts" "traverse (parseObject G) alts = Inr parsed"
      "\<not> list_ex (\<lambda>alt. unmarshalMap alt = None) alts" "parsed \<noteq> []" "e = OrEntry parsed"
      using 2(3) by (auto split: option.splits sum.splits if_splits simp del: parseObject.simps)
    have "list_all wfNode parsed" using a(2) by (rule traverse_all) (use 2(1) True a(1,3) in blast)
    moreover have "list_all isObject parsed" using a(2) by (rule traverse_all) (rule parseObject_isObject)
    ultimately show ?thesis using a by simp
  next
    case False
    show ?thesis
    proof (cases "snd kv")
      case (JObj nested)
      then show ?thesis using 2(2) [OF False JObj] 2(3) False
        by (auto split: sum.splits simp del: parseObject.simps)
    qed (use 2(3) False parseLeaf_wf in \<open>auto split: sum.splits simp del: parseObject.simps\<close>)
  qed
qed

subsection \<open>Matching depends only on the named fields\<close>

fun names :: "patternNode \<Rightarrow> string list" where
  "names (leafNode _) = []"
| "names (objectNode fs ors) = map fst fs @ concat (map (\<lambda>alts. concat (map names alts)) ors)"

lemma match_frame:
  assumes "\<And>k. k \<in> set (names n) \<Longrightarrow> map_of ob k = map_of ob' k" "isObject n" "wfNode n"
  shows "match G n (AnyObj ob) = match G n (AnyObj ob')"
  using assms
proof (induction n)
  case (objectNode fs ors)
  have "match G alt (AnyObj ob) = match G alt (AnyObj ob')" if "alts \<in> set ors" "alt \<in> set alts" for alts alt
    using objectNode.IH(2) [OF that] objectNode.prems that by (auto simp: list_all_iff)
  moreover have "map_of ob (fst f) = map_of ob' (fst f)" if "f \<in> set fs" for f
    using objectNode.prems(1) that by auto
  ultimately show ?case by (auto simp: list_all_iff list_ex_iff cong: patternNode.case_cong)
qed simp

subsection \<open>Properties\<close>


text \<open>whether an event matches a compiled pattern depends only on the fields the pattern names
  (at the top level and in its $or alternatives): two events that agree on them, with whatever other
  fields and in whatever order of members, are matched alike.\<close>

theorem match_named_fields:
  "Parse G src = Inr n \<Longrightarrow> (\<forall>k\<in>set (names n). map_of ob k = map_of ob' k) \<Longrightarrow>
   match G n (AnyObj ob) = match G n (AnyObj ob')"
  by (intro match_frame)
    (auto simp del: parseObject.simps simp: Parse_def split: option.splits if_splits
      dest: parseObject_isObject parse_wf(1))

text \<open>The list of conditions that an \<^verbatim>\<open>anything-but\<close> argument negates.\<close>

fun positive :: "json \<Rightarrow> json" where
  "positive (JArr vs) = JArr vs"
| "positive arg = JArr [arg]"

fun plainMembers :: "json \<Rightarrow> bool" where
  "plainMembers (JArr vs) = list_all (\<lambda>v. \<forall>kvs. v \<noteq> JObj kvs) vs"
| "plainMembers _ = True"

fun notArray :: "anyv \<Rightarrow> bool" where
  "notArray (AnyArr _) = False"
| "notArray _ = True"

lemma matchValue_scalar:
  "notArray v \<Longrightarrow> \<not> list_ex isExists cs \<Longrightarrow> matchValue G cs (Some v) = list_ex (\<lambda>c. condMatches G c v True) cs"
  by (cases v) (auto simp: matchValue_def list_ex_iff)

lemma parseConditions_plain:
  "list_all (\<lambda>v. \<forall>kvs. v \<noteq> JObj kvs) vs \<Longrightarrow> traverse (parseCondition G key) vs = traverse (parseExact G key) vs"
  by (intro traverse_cong) (auto simp: parseCondition_def list_all_iff split: json.splits)

lemma parse_positive:
  assumes "parseAnythingBut G key arg = Inr inner" "parseLeaf G key (positive arg) = Inr (leafNode ds)" "plainMembers arg"
  shows "list_ex (\<lambda>d. condMatches G d v True) ds = condMatches G inner v True \<and> \<not> list_ex isExists ds"
proof (cases arg)
  case (JArr vs)
  then have t: "traverse (parseExact G key) vs = Inr ds" "inner = anyOfCond ds"
    using assms by (auto simp: parseLeaf_def parseAnythingBut_def parseConditions_plain split: sum.splits if_splits)
  have "list_all (\<lambda>c. \<exists>v. c = exactCond v) ds" using t(1) by (rule traverse_all) (rule parseExact_wf)
  then show ?thesis using t(2) by (auto simp: list_ex_iff list_all_iff isExists_def)
next
  case (JObj kvs)
  obtain name sub where s: "goMap kvs = [(name, sub)]" "name \<in> set stringOperators"
    "parseStringOperator key name sub = Inr inner"
    using assms(1) JObj by (auto simp: parseAnythingBut_def split: list.splits if_splits)
  then have "ds = [inner]"
    using assms(2) JObj by (auto simp: parseLeaf_def parseCondition_def parseOperator_def split: sum.splits)
  moreover have "\<not> isExists inner"
    using parseStringOperator_wf [OF s(3)] by (auto simp: isExists_def split: condition.splits)
  ultimately show ?thesis by simp
qed (use assms parseExact_wf in
    \<open>fastforce simp: parseLeaf_def parseCondition_def parseAnythingBut_def isExists_def split: sum.splits\<close>)+

text \<open>anything-but is the complement of the conditions it names: on a field that is present and
  not an array, a leaf with \<^verbatim>\<open>anything-but\<close> of a value, a list of values or a string operator matches
  exactly when the leaf that lists them directly does not. On a missing field it never matches, and
  on an array it matches when some element escapes the conditions.\<close>

theorem anything_but_complement:
  assumes "parseCondition G key (JObj [(''anything-but'', arg)]) = Inr c"
    and "parseLeaf G key (positive arg) = Inr (leafNode ds)" and "plainMembers arg"
  shows "(notArray v \<longrightarrow> matchValue G [c] (Some v) = (\<not> matchValue G ds (Some v))) \<and>
     \<not> matchValue G [c] None \<and>
     (list_all notArray vs \<longrightarrow>
        matchValue G [c] (Some (AnyArr vs)) = list_ex (\<lambda>v. \<not> matchValue G ds (Some v)) vs)"
proof -
  obtain inner where i: "parseAnythingBut G key arg = Inr inner" "c = notCond inner"
    using assms(1) by (auto simp: parseCondition_def goMap_def parseOperator_def stringOperators_def split: sum.splits)
  note p = parse_positive [OF i(1) assms(2,3)]
  have m: "matchValue G ds (Some w) = condMatches G inner w True" if "notArray w" for w
    using that p [of w] by (simp add: matchValue_scalar)
  have "matchValue G [c] (Some w) = (\<not> condMatches G inner w True)" if "notArray w" for w
    using that i(2) by (simp add: matchValue_scalar isExists_def)
  moreover have "\<not> matchValue G [c] None" by (simp add: matchValue_def i(2) isExists_def)
  moreover have "matchValue G [c] (Some (AnyArr vs)) = list_ex (\<lambda>v. \<not> condMatches G inner v True) vs"
    by (simp add: matchValue_def i(2) isExists_def)
  ultimately show ?thesis using m by (auto simp: list_ex_iff list_all_iff)
qed

text \<open>A two-sided numeric condition matches exactly the numbers within both bounds, with the
  strictness each operator asks for, and no value that is not a number; comparisons follow IEEE
  rules.\<close>

theorem numeric_range:
  assumes "parseCondition G key (JObj [(''numeric'', JArr [JStr lo, JNum a, JStr hi, JNum b])]) = Inr c"
    and "lo \<in> {''>'', ''>=''}" and "hi \<in> {''<'', ''<=''}" and "notArray v"
  shows "\<exists>x y. ParseFloat G a = Some x \<and> ParseFloat G b = Some y \<and>
     (matchValue G [c] (Some v) \<longleftrightarrow>
        (\<exists>f. v = AnyNum f \<and> (if lo = ''>'' then flt x f else fle x f) \<and> (if hi = ''<'' then flt f y else fle f y)))"
proof -
  have pn: "parseNumeric G key (JArr [JStr lo, JNum a, JStr hi, JNum b]) = Inr c"
    using assms(1) by (simp add: parseCondition_def goMap_def parseOperator_def stringOperators_def)
  have ops: "lo \<in> set numericOperators" "hi \<in> set numericOperators"
    using assms(2,3) by (auto simp: numericOperators_def)
  obtain x y where xy: "ParseFloat G a = Some x" "ParseFloat G b = Some y" "c = numericCond [(lo, x), (hi, y)]"
    using pn ops by (cases "ParseFloat G a"; cases "ParseFloat G b") (simp_all add: parseNumeric_def)
  then have "matchValue G [c] (Some v) = condMatches G c v True"
    using assms(4) by (simp add: matchValue_scalar isExists_def)
  also have "\<dots> \<longleftrightarrow> (\<exists>f. v = AnyNum f \<and> boundHolds f (lo, x) \<and> boundHolds f (hi, y))"
    using xy(3) by (cases v) simp_all
  also have "\<dots> \<longleftrightarrow> (\<exists>f. v = AnyNum f \<and> (if lo = ''>'' then flt x f else fle x f) \<and>
      (if hi = ''<'' then flt f y else fle f y))"
    using assms(2,3) by (elim insertE) (simp_all add: boundHolds_def)
  finally show ?thesis using xy(1,2) by blast
qed

subsection \<open>Instances\<close>

definition samplePatternJSON :: json where
  "samplePatternJSON =
     JObj [(''source'', JArr [JStr ''orders'']),
           (''detail'', JObj [(''state'', JArr [JObj [(''anything-but'', JArr [JStr ''done''])]])]),
           (''$or'', JArr [JObj [(''region'', JArr [JObj [(''exists'', JBool False)]])]])]"

definition samplePattern :: patternNode where
  "samplePattern =
     objectNode
       [(''source'', leafNode [exactCond (AnyStr ''orders'')]),
        (''detail'', objectNode [(''state'', leafNode [notCond (anyOfCond [exactCond (AnyStr ''done'')])])] [])]
       [[objectNode [(''region'', leafNode [existsCond False])] []]]"

definition patternExt :: go_ext where
  "patternExt = sampleExt\<lparr>parseJSON := \<lambda>_. Some samplePatternJSON, ParseFloat := \<lambda>s. Some (Fin (real (length s)))\<rparr>"

lemma Parse_sample: "Parse patternExt ''pattern'' = Inr samplePattern"
  by (simp add: Parse_def patternExt_def samplePatternJSON_def samplePattern_def goMap_def parseLeaf_def parseCondition_def
      parseExact_def parseOperator_def stringOperators_def parseAnythingBut_def entryOrs_def)


theorem match_named_fields_witness:
  "match patternExt samplePattern (AnyObj [(''source'', AnyStr ''orders''), (''id'', AnyStr ''7'')]) =
   match patternExt samplePattern (AnyObj [(''version'', AnyStr ''0''), (''source'', AnyStr ''orders'')])"
  by (rule match_named_fields [OF Parse_sample]) (simp add: samplePattern_def)

theorem anything_but_complement_witness:
  "matchValue patternExt [notCond (anyOfCond [exactCond (AnyStr ''done'')])] (Some (AnyStr ''open'')) =
   (\<not> matchValue patternExt [exactCond (AnyStr ''done'')] (Some (AnyStr ''open'')))"
  using anything_but_complement [of patternExt "''state''" "JArr [JStr ''done'']"
      "notCond (anyOfCond [exactCond (AnyStr ''done'')])" "[exactCond (AnyStr ''done'')]" "AnyStr ''open''" "[]"]
  by (simp add: parseLeaf_def parseCondition_def parseExact_def parseOperator_def stringOperators_def
      parseAnythingBut_def goMap_def)

theorem numeric_range_witness:
  "matchValue patternExt [numericCond [(''>'', Fin 1), (''<='', Fin 3)]] (Some (AnyNum (Fin 2)))"
proof -
  have "parseCondition patternExt ''price'' (JObj [(''numeric'', JArr [JStr ''>'', JNum ''5'', JStr ''<='', JNum ''100''])])
      = Inr (numericCond [(''>'', Fin 1), (''<='', Fin 3)])"
    by (simp add: parseCondition_def goMap_def parseOperator_def stringOperators_def parseNumeric_def
        numericOperators_def patternExt_def)
  from numeric_range [OF this, of "AnyNum (Fin 2)"] show ?thesis by (simp add: patternExt_def fle_def)
qed

end
