(* ===== verification/SqsModel.thy ===== *)
theory SqsModel
  imports Bolt SeqKey Base64 Ident EventPattern
begin

text \<open>
  The SQS store, first part: the records kept in bbolt, queue attributes, the queue lifecycle,
  sending and the long-poll notifier (\<^verbatim>\<open>sqs/store.go\<close>, \<^verbatim>\<open>sqs/attrs.go\<close>, \<^verbatim>\<open>sqs/md5.go\<close>,
  \<^verbatim>\<open>sqs/errors.go\<close>, \<^verbatim>\<open>sqs/notify.go\<close>).

  Operations take the bbolt operations \<open>K\<close>, the library parameters \<open>G\<close> and the clock reading
  \<open>now\<close> in nanoseconds (one reading per transaction), and return a result together with the
  transaction, so that what an operation leaves behind when it fails is visible. Random bytes are
  arguments. A value in a bucket is kept decoded; \<open>Undecodable\<close> stands for bytes that
  \<^verbatim>\<open>json.Unmarshal\<close> refuses.
\<close>

unbundle bit_operations_syntax

record attr =
  DataType :: string
  StringValue :: string
  BinaryValue :: bytes

record queue =
  Name :: string
  FIFO :: bool
  ContentBasedDedup :: bool
  VisibilityTimeout :: int
  DelaySeconds :: int
  RetentionPeriod :: int
  MaxMessageSize :: int
  WaitTimeSeconds :: int
  DeadLetterTarget :: string
  MaxReceiveCount :: int
  Created :: int
  Modified :: int
  queueAttrs :: "(string \<times> string) list"
  Tags :: "(string \<times> string) list"

record message =
  ID :: string
  Body :: string
  Attrs :: "(string \<times> attr) list"
  MD5Body :: string
  MD5Attrs :: string
  Sent :: int
  VisibleAt :: int
  ReceiveCount :: int
  FirstReceived :: int
  SysAttrs :: "(string \<times> string) list"
  GroupID :: string
  DedupID :: string
  Seq :: "64 word"

record dedupRec =
  At :: int
  recID :: string
  recMD5 :: string

record moveTask =
  Handle :: string
  Status :: string
  Source :: string
  Destination :: string
  Moved :: nat
  StartedAt :: int

datatype stored = QueueRec queue | MessageRec message | DedupEntry dedupRec | TaskRec moveTask | Undecodable

datatype sqsError =
    QueueMissing string
  | QueueExists string
  | InvalidParameter string
  | InvalidAttributeValue string string
  | InvalidAttributeName string
  | BatchError string
  | TaskNotActive
  | BadRecord
  | StoreFailure

type_synonym 'tx sqsBolt = "('tx, stored) bolt"

definition metaBucket :: string where "metaBucket = ''queues''"
definition msgBucket :: "string \<Rightarrow> string" where "msgBucket q = ''q:'' @ q"
definition dedupBucket :: "string \<Rightarrow> string" where "dedupBucket q = ''dedup:'' @ q"
definition moveTasksBucket :: string where "moveTasksBucket = ''movetasks''"

definition defVisibilityTimeout :: int where "defVisibilityTimeout = 30"
definition defRetentionPeriod :: int where "defRetentionPeriod = 345600"
definition defMaxMessageSize :: int where "defMaxMessageSize = 262144"
definition dedupWindow :: int where "dedupWindow = 5 * 60"
definition maxReceiveBatch :: int where "maxReceiveBatch = 10"
definition queueNameMax :: nat where "queueNameMax = 80"

text \<open>
  Times are int64 nanoseconds. \<^verbatim>\<open>now.Add(time.Duration(n) * time.Second).UnixNano()\<close> wraps in the
  product and in the sum.
\<close>

definition second :: int where "second = 1000000000"

definition nanoAfter :: "int \<Rightarrow> int \<Rightarrow> int" where
  "nanoAfter now secs = wrap64 (now + wrap64 (secs * second))"

definition unixSeconds :: "int \<Rightarrow> int" where
  "unixSeconds now = now div second"

subsection \<open>Reading and writing queues\<close>

definition getQueue :: "'tx sqsBolt \<Rightarrow> 'tx \<Rightarrow> string \<Rightarrow> sqsError + queue" where
  "getQueue K tx name =
     (if \<not> hasBucket K tx metaBucket then Inl (QueueMissing name)
      else case bucketGet K tx metaBucket name of
             None \<Rightarrow> Inl (QueueMissing name)
           | Some r \<Rightarrow> (case r of QueueRec q \<Rightarrow> Inr q | _ \<Rightarrow> Inl BadRecord))"

definition putQueue :: "'tx sqsBolt \<Rightarrow> 'tx \<Rightarrow> queue \<Rightarrow> (sqsError + unit) \<times> 'tx" where
  "putQueue K tx q =
     (case createBucket K tx metaBucket of
        None \<Rightarrow> (Inl StoreFailure, tx)
      | Some tx1 \<Rightarrow>
          (case bucketPut K tx1 metaBucket (Name q) (QueueRec q) of
             None \<Rightarrow> (Inl StoreFailure, tx1)
           | Some tx2 \<Rightarrow> (Inr (), tx2)))"

subsection \<open>Queue attributes\<close>

definition attrRange :: "string \<Rightarrow> (int \<times> int) option" where
  "attrRange =
     map_of [(''VisibilityTimeout'', (0, 43200)), (''DelaySeconds'', (0, 900)),
             (''MessageRetentionPeriod'', (60, 1209600)), (''MaximumMessageSize'', (1024, 262144)),
             (''ReceiveMessageWaitTimeSeconds'', (0, 20))]"

definition atoiAttr :: "go_ext \<Rightarrow> string \<Rightarrow> string \<Rightarrow> sqsError + int" where
  "atoiAttr G a v =
     (case ParseInt64 (TrimSpace G v) of
        None \<Rightarrow> Inl (InvalidAttributeValue a ''must be an integer'')
      | Some n \<Rightarrow>
          (case attrRange a of
             Some (lo, hi) \<Rightarrow>
               if n < lo \<or> n > hi then Inl (InvalidAttributeValue a ''out of range'') else Inr n
           | None \<Rightarrow> Inr n))"

definition storedAttrs :: "string list" where
  "storedAttrs =
     [''Policy'', ''RedriveAllowPolicy'', ''KmsMasterKeyId'', ''KmsDataKeyReusePeriodSeconds'',
      ''SqsManagedSseEnabled'', ''DeduplicationScope'', ''FifoThroughputLimit'']"

definition computedAttrs :: "string list" where
  "computedAttrs =
     [''QueueArn'', ''CreatedTimestamp'', ''LastModifiedTimestamp'', ''ApproximateNumberOfMessages'',
      ''ApproximateNumberOfMessagesNotVisible'', ''ApproximateNumberOfMessagesDelayed'']"

text \<open>The text after the last colon.\<close>

definition arnQueueName :: "string \<Rightarrow> string" where
  "arnQueueName arn = rev (takeWhile (\<lambda>c. c \<noteq> CHR '':'') (rev arn))"

text \<open>
  The redrive policy struct: field names match without regard to case, null leaves a field alone,
  and the count is kept as it was written (a number, or a string between quotes).
\<close>

fun redriveFields :: "go_ext \<Rightarrow> (string \<times> json) list \<Rightarrow> string \<Rightarrow> json option \<Rightarrow> (string \<times> json option) option" where
  "redriveFields G [] target count = Some (target, count)"
| "redriveFields G ((k, j) # rest) target count =
     (if EqualFold G k ''deadLetterTargetArn'' then
        (case j of
           JStr s \<Rightarrow> redriveFields G rest s count
         | JNull \<Rightarrow> redriveFields G rest target count
         | _ \<Rightarrow> None)
      else if EqualFold G k ''maxReceiveCount'' then redriveFields G rest target (Some j)
      else redriveFields G rest target count)"

definition decodeRedrive :: "go_ext \<Rightarrow> string \<Rightarrow> (string \<times> json option) option" where
  "decodeRedrive G v =
     (case parseJSON G v of
        Some (JObj kvs) \<Rightarrow> redriveFields G kvs [] None
      | Some JNull \<Rightarrow> Some ([], None)
      | _ \<Rightarrow> None)"

definition countText :: "json option \<Rightarrow> string" where
  "countText j =
     (case j of
        Some (JNum s) \<Rightarrow> s
      | Some (JStr s) \<Rightarrow> s
      | _ \<Rightarrow> [])"

type_synonym queueLookup = "string \<Rightarrow> sqsError + queue"

definition applyRedrive :: "go_ext \<Rightarrow> queue \<Rightarrow> string \<Rightarrow> queueLookup option \<Rightarrow> sqsError + queue" where
  "applyRedrive G q v lookup =
     (case decodeRedrive G v of
        None \<Rightarrow> Inl (InvalidParameter ''invalid RedrivePolicy'')
      | Some (arn, rawCount) \<Rightarrow>
          if TrimSpace G arn = [] then
            Inl (InvalidAttributeValue ''RedrivePolicy'' ''deadLetterTargetArn is required'')
          else case ParseInt64 (countText rawCount) of
                 None \<Rightarrow> Inl (InvalidAttributeValue ''RedrivePolicy'' ''maxReceiveCount must be an integer'')
               | Some count \<Rightarrow>
                   if count < 1 \<or> count > 1000 then
                     Inl (InvalidAttributeValue ''RedrivePolicy'' ''maxReceiveCount must be between 1 and 1000'')
                   else
                     let target = arnQueueName arn in
                     if target = Name q then
                       Inl (InvalidAttributeValue ''RedrivePolicy'' ''a queue cannot be its own dead-letter queue'')
                     else
                       let done = Inr (q\<lparr>DeadLetterTarget := target, MaxReceiveCount := count\<rparr>) in
                       case lookup of
                         None \<Rightarrow> done
                       | Some lk \<Rightarrow>
                           (case lk target of
                              Inl _ \<Rightarrow> Inl (InvalidAttributeValue ''RedrivePolicy'' ''dead-letter target does not exist'')
                            | Inr dlq \<Rightarrow>
                                if FIFO dlq \<noteq> FIFO q then
                                  Inl (InvalidAttributeValue ''RedrivePolicy''
                                    ''dead-letter queue must be the same type as the source queue'')
                                else done))"

definition setNumber :: "go_ext \<Rightarrow> string \<Rightarrow> string \<Rightarrow> (int \<Rightarrow> queue) \<Rightarrow> sqsError + queue" where
  "setNumber G k v upd = (case atoiAttr G k v of Inl e \<Rightarrow> Inl e | Inr n \<Rightarrow> Inr (upd n))"

definition applyAttr :: "go_ext \<Rightarrow> queue \<Rightarrow> string \<Rightarrow> string \<Rightarrow> queueLookup option \<Rightarrow> sqsError + queue" where
  "applyAttr G q k v lookup =
     (if k = ''FifoQueue'' then Inr (q\<lparr>FIFO := (v = ''true'')\<rparr>)
      else if k = ''ContentBasedDeduplication'' then Inr (q\<lparr>ContentBasedDedup := (v = ''true'')\<rparr>)
      else if k = ''VisibilityTimeout'' then setNumber G k v (\<lambda>n. q\<lparr>VisibilityTimeout := n\<rparr>)
      else if k = ''DelaySeconds'' then setNumber G k v (\<lambda>n. q\<lparr>DelaySeconds := n\<rparr>)
      else if k = ''MessageRetentionPeriod'' then setNumber G k v (\<lambda>n. q\<lparr>RetentionPeriod := n\<rparr>)
      else if k = ''MaximumMessageSize'' then setNumber G k v (\<lambda>n. q\<lparr>MaxMessageSize := n\<rparr>)
      else if k = ''ReceiveMessageWaitTimeSeconds'' then setNumber G k v (\<lambda>n. q\<lparr>WaitTimeSeconds := n\<rparr>)
      else if k = ''RedrivePolicy'' then
        (if v = [] then Inr (q\<lparr>DeadLetterTarget := [], MaxReceiveCount := 0\<rparr>) else applyRedrive G q v lookup)
      else if k \<in> set computedAttrs then Inr q
      else if k \<notin> set storedAttrs then Inl (InvalidAttributeName k)
      else if v = [] then Inr (q\<lparr>queueAttrs := AList.delete k (queueAttrs q)\<rparr>)
      else Inr (q\<lparr>queueAttrs := AList.update k v (queueAttrs q)\<rparr>))"

text \<open>The loop over the attribute map, in the order in which the map is iterated.\<close>

fun applyAttrs :: "go_ext \<Rightarrow> queue \<Rightarrow> (string \<times> string) list \<Rightarrow> queueLookup option \<Rightarrow> sqsError + queue" where
  "applyAttrs G q [] lookup = Inr q"
| "applyAttrs G q ((k, v) # rest) lookup =
     (case applyAttr G q k v lookup of Inl e \<Rightarrow> Inl e | Inr q' \<Rightarrow> applyAttrs G q' rest lookup)"

definition attrOf :: "(string \<times> string) list \<Rightarrow> string \<Rightarrow> string" where
  "attrOf m k = (case map_of m k of None \<Rightarrow> [] | Some v \<Rightarrow> v)"

definition formatBool :: "bool \<Rightarrow> string" where
  "formatBool b = (if b then ''true'' else ''false'')"

definition queueARN :: "identity \<Rightarrow> string \<Rightarrow> string" where
  "queueARN i name = ARN i ''sqs'' name"

definition configuredAttrs :: "go_ext \<Rightarrow> identity \<Rightarrow> queue \<Rightarrow> (string \<times> string) list" where
  "configuredAttrs G i q =
     (let out = foldl (\<lambda>m (k, v). AList.update k v m) []
            (queueAttrs q @
             [(''VisibilityTimeout'', intStr (VisibilityTimeout q)), (''DelaySeconds'', intStr (DelaySeconds q)),
              (''MessageRetentionPeriod'', intStr (RetentionPeriod q)),
              (''MaximumMessageSize'', intStr (MaxMessageSize q)),
              (''ReceiveMessageWaitTimeSeconds'', intStr (WaitTimeSeconds q))]);
          out1 = (if map_of out ''SqsManagedSseEnabled'' = None
                  then AList.update ''SqsManagedSseEnabled'' (formatBool (attrOf out ''KmsMasterKeyId'' = [])) out
                  else out);
          out2 = (if FIFO q
                  then AList.update ''ContentBasedDeduplication'' (formatBool (ContentBasedDedup q))
                         (AList.update ''FifoQueue'' ''true'' out1)
                  else out1)
      in if DeadLetterTarget q \<noteq> [] then
           AList.update ''RedrivePolicy''
             (marshalJSON G (JObj [(''deadLetterTargetArn'', JStr (queueARN i (DeadLetterTarget q))),
                                   (''maxReceiveCount'', JNum (intStr (MaxReceiveCount q)))])) out2
         else out2)"

fun looseJSON :: "go_ext \<Rightarrow> anyv \<Rightarrow> anyv" where
  "looseJSON G (AnyObj kvs) = AnyObj (map (\<lambda>(k, e). (k, looseJSON G e)) kvs)"
| "looseJSON G (AnyArr xs) = AnyArr (map (looseJSON G) xs)"
| "looseJSON G (AnyNum f) = AnyStr (FormatFloat G f)"
| "looseJSON G v = v"

text \<open>\<^verbatim>\<open>reflect.DeepEqual\<close> on decoded JSON without numbers: maps are equal when they agree key by key.\<close>

function deepEqual :: "anyv \<Rightarrow> anyv \<Rightarrow> bool" where
  "deepEqual AnyNull v = (v = AnyNull)"
| "deepEqual (AnyBool b) v = (v = AnyBool b)"
| "deepEqual (AnyNum f) v = (case v of AnyNum g \<Rightarrow> feq f g | _ \<Rightarrow> False)"
| "deepEqual (AnyStr s) v = (v = AnyStr s)"
| "deepEqual (AnyArr xs) v =
     (case v of
        AnyArr ys \<Rightarrow> length xs = length ys \<and> list_all (\<lambda>p. deepEqual (fst p) (snd p)) (zip xs ys)
      | _ \<Rightarrow> False)"
| "deepEqual (AnyObj m) v =
     (case v of
        AnyObj m' \<Rightarrow>
          length m = length m' \<and>
          list_all (\<lambda>kv. case map_of m' (fst kv) of None \<Rightarrow> False | Some w \<Rightarrow> deepEqual (snd kv) w) m
      | _ \<Rightarrow> False)"
  by pat_completeness auto
termination
proof (relation "measure (\<lambda>(a, _). size a)", goal_cases)
  case (2 xs v ys p)
  then have "fst p \<in> set xs" by (metis in_set_zipE prod.collapse)
  then show ?case by (cases p) (simp add: size_list_estimation' less_Suc_eq_le)
next
  case (3 m v m' kv w)
  then have "size_prod (\<lambda>_. 0) size kv \<le> size_list (size_prod (\<lambda>_. 0) size) m" by (simp add: size_list_estimation')
  then show ?case by (cases kv) simp
qed simp

definition sameAttrValue :: "go_ext \<Rightarrow> string \<Rightarrow> string \<Rightarrow> bool" where
  "sameAttrValue G a b =
     (a = b \<or>
      (case (Option.bind (parseJSON G a) (decodeAny G), Option.bind (parseJSON G b) (decodeAny G)) of
         (Some ja, Some jb) \<Rightarrow> deepEqual (looseJSON G ja) (looseJSON G jb)
       | _ \<Rightarrow> False))"

subsection \<open>Identifiers, digests and receipt handles\<close>

text \<open>\<^verbatim>\<open>newID\<close> on the sixteen random bytes it drew.\<close>

definition newID :: "bytes \<Rightarrow> string" where
  "newID rnd =
     (let b = rnd[6 := (rnd ! 6 AND 0x0F) OR 0x40, 8 := (rnd ! 8 AND 0x3F) OR 0x80];
          part = (\<lambda>i j. hexStr (take (j - i) (drop i b)))
      in part 0 4 @ ''-'' @ part 4 6 @ ''-'' @ part 6 8 @ ''-'' @ part 8 10 @ ''-'' @ part 10 16)"

definition md5hex :: "go_ext \<Rightarrow> string \<Rightarrow> string" where
  "md5hex G s = hexStr (md5Sum G s)"

definition writeField :: "string \<Rightarrow> string" where
  "writeField b = bigEndian 4 (length b mod 2 ^ 32) @ b"

definition attrDigest :: "string \<times> attr \<Rightarrow> string" where
  "attrDigest na =
     (let (name, a) = na in
      writeField name @ writeField (DataType a) @
      (if length (BinaryValue a) > 0
       then CHR 0x02 # writeField (bytesStr (BinaryValue a))
       else CHR 0x01 # writeField (StringValue a)))"

definition md5Attributes :: "go_ext \<Rightarrow> (string \<times> attr) list \<Rightarrow> string" where
  "md5Attributes G attrs =
     (if attrs = [] then []
      else hexStr (md5Sum G (concat (map attrDigest (sort_key fst attrs)))))"

definition encodeHandle :: "string \<Rightarrow> string \<Rightarrow> string" where
  "encodeHandle key mid = EncodeToString StdEncoding (strBytes (key @ mid))"

definition decodeHandle :: "string \<Rightarrow> (string \<times> string) option" where
  "decodeHandle h =
     (case DecodeString StdEncoding h of
        None \<Rightarrow> None
      | Some b \<Rightarrow> if length b < 8 then None else Some (bytesStr (take 8 b), bytesStr (drop 8 b)))"

definition receiptHandle :: "message \<Rightarrow> string" where
  "receiptHandle m = encodeHandle (seqKey (Seq m)) (ID m)"

subsection \<open>Queue lifecycle\<close>

definition nameChar :: "char \<Rightarrow> bool" where
  "nameChar c =
     (CHR ''a'' \<le> c \<and> c \<le> CHR ''z'' \<or> CHR ''A'' \<le> c \<and> c \<le> CHR ''Z'' \<or> CHR ''0'' \<le> c \<and> c \<le> CHR ''9'' \<or>
      c = CHR ''-'' \<or> c = CHR ''_'')"

definition validQueueName :: "string \<Rightarrow> sqsError option" where
  "validQueueName name =
     (let body = TrimSuffix name ''.fifo'' in
      if length name > queueNameMax then Some (InvalidParameter ''queue name is longer than 80 characters'')
      else if body = [] then Some (InvalidParameter ''queue name is required'')
      else if list_all nameChar body then None
      else Some (InvalidParameter ''queue name may contain only alphanumeric characters, hyphens and underscores''))"

fun firstDifference :: "go_ext \<Rightarrow> (string \<times> string) list \<Rightarrow> (string \<times> string) list \<Rightarrow> string list \<Rightarrow> string option" where
  "firstDifference G have attrs [] = None"
| "firstDifference G have attrs (k # ks) =
     (if sameAttrValue G (attrOf have k) (attrOf attrs k) then firstDifference G have attrs ks else Some k)"

definition newQueue :: "string \<Rightarrow> bool \<Rightarrow> int \<Rightarrow> queue" where
  "newQueue name fifo created =
     \<lparr>Name = name, FIFO = fifo, ContentBasedDedup = False, VisibilityTimeout = defVisibilityTimeout,
      DelaySeconds = 0, RetentionPeriod = defRetentionPeriod, MaxMessageSize = defMaxMessageSize,
      WaitTimeSeconds = 0, DeadLetterTarget = [], MaxReceiveCount = 0, Created = created, Modified = 0,
      queueAttrs = [], Tags = []\<rparr>"

definition mergeTags :: "(string \<times> string) list \<Rightarrow> (string \<times> string) list \<Rightarrow> (string \<times> string) list" where
  "mergeTags old tags = foldl (\<lambda>m (k, v). AList.update k v m) old tags"

definition createIn ::
  "'tx sqsBolt \<Rightarrow> go_ext \<Rightarrow> identity \<Rightarrow> int \<Rightarrow> string \<Rightarrow> (string \<times> string) list \<Rightarrow> (string \<times> string) list \<Rightarrow>
   'tx \<Rightarrow> (sqsError + queue) \<times> 'tx" where
  "createIn K G i now name attrs tags tx =
     (case getQueue K tx name of
        Inr q \<Rightarrow>
          (case firstDifference G (configuredAttrs G i q) attrs (sort (map fst attrs)) of
             Some k \<Rightarrow> (Inl (QueueExists k), tx)
           | None \<Rightarrow> (Inr q, tx))
      | Inl _ \<Rightarrow>
          (case applyAttrs G (newQueue name (attrOf attrs ''FifoQueue'' = ''true'') (unixSeconds now)) attrs
                  (Some (getQueue K tx)) of
             Inl e \<Rightarrow> (Inl e, tx)
           | Inr q \<Rightarrow>
               let q' = q\<lparr>Tags := mergeTags (Tags q) tags\<rparr> in
               case putQueue K tx q' of (Inl e, tx1) \<Rightarrow> (Inl e, tx1) | (Inr _, tx1) \<Rightarrow> (Inr q', tx1)))"

definition CreateQueue ::
  "'tx sqsBolt \<Rightarrow> go_ext \<Rightarrow> identity \<Rightarrow> int \<Rightarrow> string \<Rightarrow> (string \<times> string) list \<Rightarrow> (string \<times> string) list \<Rightarrow>
   'tx \<Rightarrow> (sqsError + queue) \<times> 'tx" where
  "CreateQueue K G i now name attrs tags tx =
     (let fifoAttr = (attrOf attrs ''FifoQueue'' = ''true'') in
      if name = [] then (Inl (InvalidParameter ''queue name is required''), tx)
      else case validQueueName name of
             Some e \<Rightarrow> (Inl e, tx)
           | None \<Rightarrow>
               if HasSuffix name ''.fifo'' \<noteq> fifoAttr \<and> (fifoAttr \<or> HasSuffix name ''.fifo'') then
                 (Inl (InvalidParameter ''FIFO queue names must end in .fifo and only FIFO queues may''), tx)
               else Update (createIn K G i now name attrs tags) tx)"

text \<open>The errors of the two bucket deletions are ignored, as is that of the key deletion.\<close>

definition dropBucket :: "'tx sqsBolt \<Rightarrow> string \<Rightarrow> 'tx \<Rightarrow> 'tx" where
  "dropBucket K b tx = (case deleteBucket K tx b of None \<Rightarrow> tx | Some tx' \<Rightarrow> tx')"

definition deleteQueueIn :: "'tx sqsBolt \<Rightarrow> string \<Rightarrow> 'tx \<Rightarrow> (sqsError + unit) \<times> 'tx" where
  "deleteQueueIn K name tx =
     (case getQueue K tx name of
        Inl e \<Rightarrow> (Inl e, tx)
      | Inr _ \<Rightarrow>
          (Inr (), dropBucket K (dedupBucket name) (dropBucket K (msgBucket name) (bucketDelete K tx metaBucket name))))"

definition ListQueues :: "'tx sqsBolt \<Rightarrow> string \<Rightarrow> 'tx \<Rightarrow> string list" where
  "ListQueues K pre tx =
     (if \<not> hasBucket K tx metaBucket then []
      else sort (filter (\<lambda>k. pre = [] \<or> HasPrefix k pre) (map fst (bucketItems K tx metaBucket))))"

definition setAttributesIn ::
  "'tx sqsBolt \<Rightarrow> go_ext \<Rightarrow> int \<Rightarrow> string \<Rightarrow> (string \<times> string) list \<Rightarrow> 'tx \<Rightarrow> (sqsError + unit) \<times> 'tx" where
  "setAttributesIn K G now name attrs tx =
     (case getQueue K tx name of
        Inl e \<Rightarrow> (Inl e, tx)
      | Inr q \<Rightarrow>
          (case applyAttrs G q attrs (Some (getQueue K tx)) of
             Inl e \<Rightarrow> (Inl e, tx)
           | Inr q' \<Rightarrow> putQueue K tx (q'\<lparr>Modified := unixSeconds now\<rparr>)))"

definition SetAttributes ::
  "'tx sqsBolt \<Rightarrow> go_ext \<Rightarrow> int \<Rightarrow> string \<Rightarrow> (string \<times> string) list \<Rightarrow> 'tx \<Rightarrow> (sqsError + unit) \<times> 'tx" where
  "SetAttributes K G now name attrs tx = Update (setAttributesIn K G now name attrs) tx"

definition TagQueue :: "'tx sqsBolt \<Rightarrow> string \<Rightarrow> (string \<times> string) list \<Rightarrow> 'tx \<Rightarrow> (sqsError + unit) \<times> 'tx" where
  "TagQueue K name tags tx =
     Update (\<lambda>tx. case getQueue K tx name of
                    Inl e \<Rightarrow> (Inl e, tx)
                  | Inr q \<Rightarrow> putQueue K tx (q\<lparr>Tags := mergeTags (Tags q) tags\<rparr>)) tx"

definition UntagQueue :: "'tx sqsBolt \<Rightarrow> string \<Rightarrow> string list \<Rightarrow> 'tx \<Rightarrow> (sqsError + unit) \<times> 'tx" where
  "UntagQueue K name ks tx =
     Update (\<lambda>tx. case getQueue K tx name of
                    Inl e \<Rightarrow> (Inl e, tx)
                  | Inr q \<Rightarrow> putQueue K tx (q\<lparr>Tags := foldl (\<lambda>m k. AList.delete k m) (Tags q) ks\<rparr>)) tx"

definition queueTags :: "'tx sqsBolt \<Rightarrow> string \<Rightarrow> 'tx \<Rightarrow> sqsError + (string \<times> string) list" where
  "queueTags K name tx = (case getQueue K tx name of Inl e \<Rightarrow> Inl e | Inr q \<Rightarrow> Inr (Tags q))"

definition DeadLetterSourceQueues :: "'tx sqsBolt \<Rightarrow> string \<Rightarrow> 'tx \<Rightarrow> sqsError + string list" where
  "DeadLetterSourceQueues K dlq tx =
     (case getQueue K tx dlq of
        Inl e \<Rightarrow> Inl e
      | Inr _ \<Rightarrow>
          Inr (if \<not> hasBucket K tx metaBucket then []
               else sort (concat (map (\<lambda>(_, r). case r of
                                                  QueueRec q \<Rightarrow> if DeadLetterTarget q = dlq then [Name q] else []
                                                | _ \<Rightarrow> []) (bucketItems K tx metaBucket)))))"

subsection \<open>Deduplication and sending\<close>

definition zeroMessage :: message where
  "zeroMessage =
     \<lparr>ID = [], Body = [], Attrs = [], MD5Body = [], MD5Attrs = [], Sent = 0, VisibleAt = 0, ReceiveCount = 0,
      FirstReceived = 0, SysAttrs = [], GroupID = [], DedupID = [], Seq = 0\<rparr>"

definition lookupDedup :: "'tx sqsBolt \<Rightarrow> int \<Rightarrow> 'tx \<Rightarrow> string \<Rightarrow> string \<Rightarrow> message option" where
  "lookupDedup K now tx q dedupID =
     (if \<not> hasBucket K tx (dedupBucket q) then None
      else case bucketGet K tx (dedupBucket q) dedupID of
             Some (DedupEntry r) \<Rightarrow>
               if unixSeconds now - At r > dedupWindow then None
               else Some (zeroMessage\<lparr>ID := recID r, MD5Body := recMD5 r\<rparr>)
           | _ \<Rightarrow> None)"

definition staleDedup :: "int \<Rightarrow> string \<times> stored \<Rightarrow> bool" where
  "staleDedup now kv =
     (case snd kv of DedupEntry r \<Rightarrow> At r < unixSeconds now - dedupWindow | _ \<Rightarrow> False)"

definition gcDedup :: "'tx sqsBolt \<Rightarrow> int \<Rightarrow> string \<Rightarrow> 'tx \<Rightarrow> 'tx" where
  "gcDedup K now b tx =
     fold (\<lambda>k t. bucketDelete K t b k) (map fst (filter (staleDedup now) (bucketItems K tx b))) tx"

definition recordDedup :: "'tx sqsBolt \<Rightarrow> int \<Rightarrow> 'tx \<Rightarrow> string \<Rightarrow> string \<Rightarrow> message \<Rightarrow> (sqsError + unit) \<times> 'tx" where
  "recordDedup K now tx q dedupID m =
     (case createBucket K tx (dedupBucket q) of
        None \<Rightarrow> (Inl StoreFailure, tx)
      | Some tx1 \<Rightarrow>
          let tx2 = gcDedup K now (dedupBucket q) tx1 in
          case bucketPut K tx2 (dedupBucket q) dedupID
                 (DedupEntry \<lparr>At = unixSeconds now, recID = ID m, recMD5 = MD5Body m\<rparr>) of
            None \<Rightarrow> (Inl StoreFailure, tx2)
          | Some tx3 \<Rightarrow> (Inr (), tx3))"

definition putMessage :: "'tx sqsBolt \<Rightarrow> string \<Rightarrow> message \<Rightarrow> 'tx \<Rightarrow> 'tx option" where
  "putMessage K b m tx = bucketPut K tx b (seqKey (Seq m)) (MessageRec m)"

record sendItem =
  itBody :: string
  itAttrs :: "(string \<times> attr) list"
  itDelay :: int
  itGroupID :: string
  itDedupID :: string
  itSysAttrs :: "(string \<times> string) list"

definition enqueue ::
  "'tx sqsBolt \<Rightarrow> go_ext \<Rightarrow> int \<Rightarrow> bytes \<Rightarrow> 'tx \<Rightarrow> queue \<Rightarrow> sendItem \<Rightarrow> int \<Rightarrow> string \<Rightarrow> (sqsError + message \<times> bool) \<times> 'tx" where
  "enqueue K G now rnd tx q it delay dedupID =
     (case createBucket K tx (msgBucket (Name q)) of
        None \<Rightarrow> (Inl StoreFailure, tx)
      | Some tx1 \<Rightarrow>
          let (seq, tx2) = nextSequence K tx1 (msgBucket (Name q));
              m = \<lparr>ID = newID rnd, Body = itBody it, Attrs = itAttrs it, MD5Body = md5hex G (itBody it),
                   MD5Attrs = md5Attributes G (itAttrs it), Sent = now, VisibleAt = nanoAfter now delay,
                   ReceiveCount = 0, FirstReceived = 0, SysAttrs = itSysAttrs it, GroupID = itGroupID it,
                   DedupID = dedupID, Seq = seq\<rparr>
          in case putMessage K (msgBucket (Name q)) m tx2 of
               None \<Rightarrow> (Inl StoreFailure, tx2)
             | Some tx3 \<Rightarrow>
                 if FIFO q then
                   (case recordDedup K now tx3 (Name q) dedupID m of
                      (Inl e, tx4) \<Rightarrow> (Inl e, tx4)
                    | (Inr _, tx4) \<Rightarrow> (Inr (m, True), tx4))
                 else (Inr (m, True), tx3))"

definition sendIn ::
  "'tx sqsBolt \<Rightarrow> go_ext \<Rightarrow> int \<Rightarrow> bytes \<Rightarrow> 'tx \<Rightarrow> queue \<Rightarrow> sendItem \<Rightarrow> (sqsError + message \<times> bool) \<times> 'tx" where
  "sendIn K G now rnd tx q it =
     (if MaxMessageSize q > 0 \<and> int (length (itBody it)) > MaxMessageSize q then
        (Inl (InvalidParameter ''message length exceeds MaximumMessageSize''), tx)
      else if FIFO q \<and> itGroupID it = [] then
        (Inl (InvalidParameter ''MessageGroupId is required for FIFO queues''), tx)
      else
        let delay = (if itDelay it < 0 then DelaySeconds q else itDelay it) in
        if FIFO q then
          let dedupID = (if itDedupID it = [] \<and> ContentBasedDedup q then md5hex G (itBody it) else itDedupID it) in
          if dedupID = [] then
            (Inl (InvalidParameter ''MessageDeduplicationId is required''), tx)
          else case lookupDedup K now tx (Name q) dedupID of
                 Some dm \<Rightarrow> (Inr (dm, False), tx)
               | None \<Rightarrow> enqueue K G now rnd tx q it delay dedupID
        else enqueue K G now rnd tx q it delay (itDedupID it))"

definition sendTx ::
  "'tx sqsBolt \<Rightarrow> go_ext \<Rightarrow> int \<Rightarrow> bytes \<Rightarrow> string \<Rightarrow> sendItem \<Rightarrow> 'tx \<Rightarrow> (sqsError + message \<times> bool) \<times> 'tx" where
  "sendTx K G now rnd q it tx =
     Update (\<lambda>tx. case getQueue K tx q of
                    Inl e \<Rightarrow> (Inl e, tx)
                  | Inr qu \<Rightarrow> sendIn K G now rnd tx qu it) tx"

fun sendEach ::
  "'tx sqsBolt \<Rightarrow> go_ext \<Rightarrow> int \<Rightarrow> queue \<Rightarrow> (bytes \<times> sendItem) list \<Rightarrow> 'tx \<Rightarrow> (sqsError + message \<times> bool) list \<times> 'tx" where
  "sendEach K G now q [] tx = ([], tx)"
| "sendEach K G now q ((rnd, it) # rest) tx =
     (let (r, tx1) = sendIn K G now rnd tx q it; (rs, tx2) = sendEach K G now q rest tx1 in (r # rs, tx2))"

definition sendBatchTx ::
  "'tx sqsBolt \<Rightarrow> go_ext \<Rightarrow> int \<Rightarrow> string \<Rightarrow> (bytes \<times> sendItem) list \<Rightarrow> 'tx \<Rightarrow>
   (sqsError + (sqsError + message \<times> bool) list) \<times> 'tx" where
  "sendBatchTx K G now q items tx =
     Update (\<lambda>tx. case getQueue K tx q of
                    Inl e \<Rightarrow> (Inl e, tx)
                  | Inr qu \<Rightarrow> (let (rs, tx1) = sendEach K G now qu items tx in (Inr rs, tx1))) tx"

definition Purge :: "'tx sqsBolt \<Rightarrow> string \<Rightarrow> 'tx \<Rightarrow> (sqsError + unit) \<times> 'tx" where
  "Purge K q tx =
     Update (\<lambda>tx. case getQueue K tx q of
                    Inl e \<Rightarrow> (Inl e, tx)
                  | Inr _ \<Rightarrow>
                      if hasBucket K tx (msgBucket q) then
                        (case deleteBucket K tx (msgBucket q) of
                           None \<Rightarrow> (Inl StoreFailure, tx)
                         | Some tx1 \<Rightarrow> (Inr (), tx1))
                      else (Inr (), tx)) tx"

end
