(* ===== verification/Notifier.thy ===== *)
theory Notifier
  imports Prelude
begin

text \<open>
  The notifier that wakes long-poll receivers (\<^verbatim>\<open>sqs/notify.go\<close>): a broadcast channel per queue. The
  notifier of \<^verbatim>\<open>kinesis/errors.go\<close> has the same \<^verbatim>\<open>signal\<close> and no one who waits.
\<close>

text \<open>Channels are numbers; \<open>closed\<close> are the ones a signal has closed.\<close>

record notifier =
  chans :: "(string \<times> nat) list"
  closed :: "nat list"
  fresh :: nat

definition newNotifier :: notifier where
  "newNotifier = \<lparr>chans = [], closed = [], fresh = 0\<rparr>"

definition waitOn :: "string \<Rightarrow> notifier \<Rightarrow> nat \<times> notifier" where
  "waitOn q n =
     (case map_of (chans n) q of
        Some ch \<Rightarrow> (ch, n)
      | None \<Rightarrow> (fresh n, n\<lparr>chans := AList.update q (fresh n) (chans n), fresh := Suc (fresh n)\<rparr>))"

definition signal :: "string \<Rightarrow> notifier \<Rightarrow> notifier" where
  "signal q n =
     (case map_of (chans n) q of
        Some ch \<Rightarrow> n\<lparr>closed := ch # closed n, chans := AList.delete q (chans n)\<rparr>
      | None \<Rightarrow> n)"

definition forget :: "string \<Rightarrow> notifier \<Rightarrow> notifier" where
  "forget q n = n\<lparr>chans := AList.delete q (chans n)\<rparr>"

text \<open>The operations on the notifier, in the order its mutex admits them.\<close>

datatype notifyOp = WaitFor string | Signal string | Forget string

fun notifyRun :: "notifyOp list \<Rightarrow> notifier \<Rightarrow> notifier" where
  "notifyRun [] n = n"
| "notifyRun (WaitFor q # ops) n = notifyRun ops (snd (waitOn q n))"
| "notifyRun (Signal q # ops) n = notifyRun ops (signal q n)"
| "notifyRun (Forget q # ops) n = notifyRun ops (forget q n)"

definition notifierOk :: "notifier \<Rightarrow> bool" where
  "notifierOk n = ((\<forall>q ch. map_of (chans n) q = Some ch \<longrightarrow> ch < fresh n \<and> ch \<notin> set (closed n)) \<and>
     (\<forall>q1 q2 ch. map_of (chans n) q1 = Some ch \<longrightarrow> map_of (chans n) q2 = Some ch \<longrightarrow> q1 = q2) \<and>
     (\<forall>ch\<in>set (closed n). ch < fresh n))"

lemma notifierOk_ops:
  assumes "notifierOk n"
  shows "notifierOk (snd (waitOn q n))" "notifierOk (signal q n)" "notifierOk (forget q n)"
proof -
  show "notifierOk (forget q n)" using assms by (auto simp: notifierOk_def forget_def delete_conv')
  show "notifierOk (snd (waitOn q n))"
    using assms by (fastforce simp: notifierOk_def waitOn_def update_conv' less_Suc_eq split: option.splits if_splits)
  show "notifierOk (signal q n)"
    using assms by (fastforce simp: notifierOk_def signal_def delete_conv' split: option.splits if_splits)
qed

lemma notifierOk_run: "notifierOk n \<Longrightarrow> notifierOk (notifyRun ops n)"
  by (induction ops n rule: notifyRun.induct) (simp_all add: notifierOk_ops)

lemma closed_run: "ch \<in> set (closed n) \<Longrightarrow> ch \<in> set (closed (notifyRun ops n))"
  by (induction ops n rule: notifyRun.induct) (auto simp: waitOn_def signal_def forget_def split: option.splits)

lemma signal_other: "map_of (chans n) q = Some ch \<Longrightarrow> p \<noteq> q \<Longrightarrow> map_of (chans (signal p n)) q = Some ch"
  by (simp add: signal_def delete_conv' split: option.splits)

lemma waitOn_other: "map_of (chans n) q = Some ch \<Longrightarrow> map_of (chans (snd (waitOn p n))) q = Some ch"
  by (auto simp: waitOn_def update_conv' split: option.splits)

lemma registered_run:
  "map_of (chans n) q = Some ch \<Longrightarrow> Forget q \<notin> set ops \<Longrightarrow>
   (if Signal q \<in> set ops then ch \<in> set (closed (notifyRun ops n))
    else map_of (chans (notifyRun ops n)) q = Some ch)"
proof (induction ops n rule: notifyRun.induct)
  case (2 p ops n)
  then show ?case using waitOn_other [of n q ch p] by simp
next
  case (3 p ops n)
  show ?case
  proof (cases "p = q")
    case True
    then show ?thesis using closed_run [of ch "signal p n" ops] "3.prems" by (simp add: signal_def)
  qed (use 3 signal_other [of n q ch p] in simp)
next
  case (4 p ops n)
  then show ?case by (auto simp: forget_def delete_conv')
qed simp



end
