(* ===== verification/SqsReceive.thy ===== *)
theory SqsReceive
  imports SqsModel Notifier
begin

text \<open>
  The SQS store, second part: delivery with visibility timeouts, FIFO group locks, dead-letter
  redrive and retention (\<^verbatim>\<open>sqs/receive.go\<close>), message move tasks (\<^verbatim>\<open>sqs/store_ext.go\<close>), the sweeper
  (\<^verbatim>\<open>sqs/sweeper.go\<close>), the counters of \<^verbatim>\<open>GetQueueAttributes\<close>, batch checks, the long-poll
  notifier and the operations of the server on both.
\<close>

subsection \<open>Receiving\<close>

definition expired :: "queue \<Rightarrow> int \<Rightarrow> message \<Rightarrow> bool" where
  "expired q now m = (RetentionPeriod q > 0 \<and> now - Sent m > RetentionPeriod q * second)"

definition inFlightGroups :: "int \<Rightarrow> (string \<times> stored) list \<Rightarrow> string list" where
  "inFlightGroups now items =
     concat (map (\<lambda>(_, r). case r of
                             MessageRec m \<Rightarrow> if VisibleAt m > now \<and> GroupID m \<noteq> [] then [GroupID m] else []
                           | _ \<Rightarrow> []) items)"

record scan =
  expireKeys :: "string list"
  dlqMsgs :: "message list"
  deliver :: "message list"
  locked :: "string list"
  minVisible :: int

definition delivered :: "int \<Rightarrow> int \<Rightarrow> message \<Rightarrow> message" where
  "delivered now vis m =
     m\<lparr>ReceiveCount := ReceiveCount m + 1,
       FirstReceived := (if FirstReceived m = 0 then now else FirstReceived m),
       VisibleAt := nanoAfter now vis\<rparr>"

definition scanMessage :: "queue \<Rightarrow> int \<Rightarrow> int \<Rightarrow> string \<Rightarrow> message \<Rightarrow> scan \<Rightarrow> scan" where
  "scanMessage q now vis k m s =
     (if expired q now m then s\<lparr>expireKeys := expireKeys s @ [k]\<rparr>
      else if VisibleAt m > now then
        (if minVisible s = 0 \<or> VisibleAt m < minVisible s then s\<lparr>minVisible := VisibleAt m\<rparr> else s)
      else if FIFO q \<and> GroupID m \<in> set (locked s) then s
      else if DeadLetterTarget q \<noteq> [] \<and> MaxReceiveCount q > 0 \<and> ReceiveCount m \<ge> MaxReceiveCount q then
        s\<lparr>dlqMsgs := dlqMsgs s @ [m]\<rparr>
      else
        s\<lparr>deliver := deliver s @ [delivered now vis m],
          locked := (if FIFO q then GroupID m # locked s else locked s)\<rparr>)"

fun scanItems :: "queue \<Rightarrow> int \<Rightarrow> int \<Rightarrow> nat \<Rightarrow> (string \<times> stored) list \<Rightarrow> scan \<Rightarrow> scan" where
  "scanItems q now vis mx [] s = s"
| "scanItems q now vis mx ((k, r) # rest) s =
     (if length (deliver s) < mx then
        scanItems q now vis mx rest (case r of MessageRec m \<Rightarrow> scanMessage q now vis k m s | _ \<Rightarrow> s)
      else s)"

definition moveToDLQ :: "'tx sqsBolt \<Rightarrow> int \<Rightarrow> 'tx \<Rightarrow> string \<Rightarrow> message \<Rightarrow> (sqsError + bool) \<times> 'tx" where
  "moveToDLQ K now tx dlq m =
     (case getQueue K tx dlq of
        Inl _ \<Rightarrow> (Inr False, tx)
      | Inr _ \<Rightarrow>
          (case createBucket K tx (msgBucket dlq) of
             None \<Rightarrow> (Inl StoreFailure, tx)
           | Some tx1 \<Rightarrow>
               let (seq, tx2) = nextSequence K tx1 (msgBucket dlq) in
               case putMessage K (msgBucket dlq) (m\<lparr>Seq := seq, ReceiveCount := 0, VisibleAt := now\<rparr>) tx2 of
                 None \<Rightarrow> (Inl StoreFailure, tx2)
               | Some tx3 \<Rightarrow> (Inr True, tx3)))"

text \<open>The redrive loop: every moved message leaves the source queue; one that could not move stays.\<close>

fun redrive :: "'tx sqsBolt \<Rightarrow> int \<Rightarrow> string \<Rightarrow> string \<Rightarrow> message list \<Rightarrow> 'tx \<Rightarrow> (sqsError + string list) \<times> 'tx" where
  "redrive K now b dlq [] tx = (Inr [], tx)"
| "redrive K now b dlq (m # ms) tx =
     (case moveToDLQ K now tx dlq m of
        (Inl e, tx1) \<Rightarrow> (Inl e, tx1)
      | (Inr moved, tx1) \<Rightarrow>
          let tx2 = (if moved then bucketDelete K tx1 b (seqKey (Seq m)) else tx1) in
          (case redrive K now b dlq ms tx2 of
             (Inl e, tx3) \<Rightarrow> (Inl e, tx3)
           | (Inr hits, tx3) \<Rightarrow> (Inr (if moved then dlq # hits else hits), tx3)))"

fun putAll :: "'tx sqsBolt \<Rightarrow> string \<Rightarrow> message list \<Rightarrow> 'tx \<Rightarrow> (sqsError + unit) \<times> 'tx" where
  "putAll K b [] tx = (Inr (), tx)"
| "putAll K b (m # ms) tx =
     (case putMessage K b m tx of None \<Rightarrow> (Inl StoreFailure, tx) | Some tx1 \<Rightarrow> putAll K b ms tx1)"

definition scanQueue :: "'tx sqsBolt \<Rightarrow> int \<Rightarrow> 'tx \<Rightarrow> queue \<Rightarrow> string \<Rightarrow> nat \<Rightarrow> int \<Rightarrow> scan" where
  "scanQueue K now tx qu b mx visOverride =
     (let items = bucketItems K tx b;
          vis = (if visOverride \<ge> 0 then visOverride else VisibilityTimeout qu)
      in scanItems qu now vis mx items
           \<lparr>expireKeys = [], dlqMsgs = [], deliver = [],
            locked = (if FIFO qu then inFlightGroups now items else []), minVisible = 0\<rparr>)"

text \<open>The messages delivered, the earliest time another becomes visible (0 if none) and the queues to wake.\<close>

definition receiveIn ::
  "'tx sqsBolt \<Rightarrow> int \<Rightarrow> string \<Rightarrow> nat \<Rightarrow> int \<Rightarrow> 'tx \<Rightarrow> (sqsError + message list \<times> int \<times> string list) \<times> 'tx" where
  "receiveIn K now q mx visOverride tx =
     (case getQueue K tx q of
        Inl e \<Rightarrow> (Inl e, tx)
      | Inr qu \<Rightarrow>
          if \<not> hasBucket K tx (msgBucket q) then (Inr ([], 0, []), tx)
          else
            let b = msgBucket q;
                s = scanQueue K now tx qu b mx visOverride;
                tx1 = fold (\<lambda>k t. bucketDelete K t b k) (expireKeys s) tx
            in case redrive K now b (DeadLetterTarget qu) (dlqMsgs s) tx1 of
                 (Inl e, tx2) \<Rightarrow> (Inl e, tx2)
               | (Inr hits, tx2) \<Rightarrow>
                   (case putAll K b (deliver s) tx2 of
                      (Inl e, tx3) \<Rightarrow> (Inl e, tx3)
                    | (Inr _, tx3) \<Rightarrow> (Inr (deliver s, minVisible s, hits), tx3)))"

definition receiveOnce ::
  "'tx sqsBolt \<Rightarrow> int \<Rightarrow> string \<Rightarrow> nat \<Rightarrow> int \<Rightarrow> 'tx \<Rightarrow> (sqsError + message list \<times> int \<times> string list) \<times> 'tx" where
  "receiveOnce K now q mx visOverride tx = Update (receiveIn K now q mx visOverride) tx"

fun peekItems :: "queue \<Rightarrow> int \<Rightarrow> nat \<Rightarrow> (string \<times> stored) list \<Rightarrow> message list \<Rightarrow> message list" where
  "peekItems q now mx [] out = out"
| "peekItems q now mx ((k, r) # rest) out =
     (if length out < mx then
        peekItems q now mx rest
          (case r of
             MessageRec m \<Rightarrow> if VisibleAt m > now \<or> expired q now m then out else out @ [m]
           | _ \<Rightarrow> out)
      else out)"

definition Peek :: "'tx sqsBolt \<Rightarrow> int \<Rightarrow> string \<Rightarrow> int \<Rightarrow> 'tx \<Rightarrow> sqsError + message list" where
  "Peek K now q mx tx =
     (case getQueue K tx q of
        Inl e \<Rightarrow> Inl e
      | Inr qu \<Rightarrow>
          if \<not> hasBucket K tx (msgBucket q) then Inr []
          else Inr (peekItems qu now (if mx \<le> 0 then 10 else nat mx) (bucketItems K tx (msgBucket q)) []))"

subsection \<open>Receipt handles\<close>

definition deleteIn :: "'tx sqsBolt \<Rightarrow> string \<Rightarrow> string \<Rightarrow> 'tx \<Rightarrow> (sqsError + unit) \<times> 'tx" where
  "deleteIn K q handle tx =
     (case decodeHandle handle of
        None \<Rightarrow> (Inl (InvalidParameter ''invalid receipt handle''), tx)
      | Some (key, mid) \<Rightarrow>
          if \<not> hasBucket K tx (msgBucket q) then (Inr (), tx)
          else case bucketGet K tx (msgBucket q) key of
                 None \<Rightarrow> (Inr (), tx)
               | Some r \<Rightarrow>
                   (case r of
                      MessageRec m \<Rightarrow>
                        if ID m \<noteq> mid then (Inr (), tx)
                        else (Inr (), bucketDelete K tx (msgBucket q) key)
                    | _ \<Rightarrow> (Inl BadRecord, tx)))"

definition DeleteMessage :: "'tx sqsBolt \<Rightarrow> string \<Rightarrow> string \<Rightarrow> 'tx \<Rightarrow> (sqsError + unit) \<times> 'tx" where
  "DeleteMessage K q handle tx =
     Update (\<lambda>tx. case getQueue K tx q of Inl e \<Rightarrow> (Inl e, tx) | Inr _ \<Rightarrow> deleteIn K q handle tx) tx"

text \<open>The loop of the batch operations: every entry's own result, and the transaction goes on.\<close>

fun eachIn :: "('a \<Rightarrow> 'tx \<Rightarrow> (sqsError + unit) \<times> 'tx) \<Rightarrow> 'a list \<Rightarrow> 'tx \<Rightarrow> (sqsError + unit) list \<times> 'tx" where
  "eachIn f [] tx = ([], tx)"
| "eachIn f (x # xs) tx = (let (r, tx1) = f x tx; (rs, tx2) = eachIn f xs tx1 in (r # rs, tx2))"

definition DeleteBatch ::
  "'tx sqsBolt \<Rightarrow> string \<Rightarrow> string list \<Rightarrow> 'tx \<Rightarrow> (sqsError + (sqsError + unit) list) \<times> 'tx" where
  "DeleteBatch K q handles tx =
     Update (\<lambda>tx. case getQueue K tx q of
                    Inl e \<Rightarrow> (Inl e, tx)
                  | Inr _ \<Rightarrow> (let (rs, tx1) = eachIn (deleteIn K q) handles tx in (Inr rs, tx1))) tx"

definition changeVisibilityIn ::
  "'tx sqsBolt \<Rightarrow> int \<Rightarrow> string \<Rightarrow> string \<times> int \<Rightarrow> 'tx \<Rightarrow> (sqsError + unit) \<times> 'tx" where
  "changeVisibilityIn K now q item tx =
     (let (handle, timeout) = item in
      case decodeHandle handle of
        None \<Rightarrow> (Inl (InvalidParameter ''invalid receipt handle''), tx)
      | Some (key, mid) \<Rightarrow>
          if timeout < 0 \<or> timeout > 43200 then
            (Inl (InvalidParameter ''VisibilityTimeout must be between 0 and 43200''), tx)
          else if \<not> hasBucket K tx (msgBucket q) then (Inr (), tx)
          else case bucketGet K tx (msgBucket q) key of
                 None \<Rightarrow> (Inr (), tx)
               | Some r \<Rightarrow>
                   (case r of
                      MessageRec m \<Rightarrow>
                        if ID m \<noteq> mid then (Inr (), tx)
                        else (case putMessage K (msgBucket q) (m\<lparr>VisibleAt := nanoAfter now timeout\<rparr>) tx of
                                None \<Rightarrow> (Inl StoreFailure, tx)
                              | Some tx1 \<Rightarrow> (Inr (), tx1))
                    | _ \<Rightarrow> (Inl BadRecord, tx)))"

definition ChangeVisibility ::
  "'tx sqsBolt \<Rightarrow> int \<Rightarrow> string \<Rightarrow> string \<Rightarrow> int \<Rightarrow> 'tx \<Rightarrow> (sqsError + unit) \<times> 'tx" where
  "ChangeVisibility K now q handle timeout tx =
     Update (\<lambda>tx. case getQueue K tx q of
                    Inl e \<Rightarrow> (Inl e, tx)
                  | Inr _ \<Rightarrow> changeVisibilityIn K now q (handle, timeout) tx) tx"

definition ChangeVisibilityBatch ::
  "'tx sqsBolt \<Rightarrow> int \<Rightarrow> string \<Rightarrow> (string \<times> int) list \<Rightarrow> 'tx \<Rightarrow> (sqsError + (sqsError + unit) list) \<times> 'tx" where
  "ChangeVisibilityBatch K now q items tx =
     Update (\<lambda>tx. case getQueue K tx q of
                    Inl e \<Rightarrow> (Inl e, tx)
                  | Inr _ \<Rightarrow> (let (rs, tx1) = eachIn (changeVisibilityIn K now q) items tx in (Inr rs, tx1))) tx"

subsection \<open>Move tasks\<close>

definition taskKey :: "moveTask \<Rightarrow> string" where
  "taskKey t =
     (let n = intStr (StartedAt t) in replicate (20 - length n) (CHR ''0'') @ n @ '':'' @ Handle t)"

definition recordMoveTask :: "'tx sqsBolt \<Rightarrow> 'tx \<Rightarrow> moveTask \<Rightarrow> (sqsError + moveTask) \<times> 'tx" where
  "recordMoveTask K tx t =
     (case createBucket K tx moveTasksBucket of
        None \<Rightarrow> (Inl StoreFailure, tx)
      | Some tx1 \<Rightarrow>
          (case bucketPut K tx1 moveTasksBucket (taskKey t) (TaskRec t) of
             None \<Rightarrow> (Inl StoreFailure, tx1)
           | Some tx2 \<Rightarrow> (Inr t, tx2)))"

text \<open>
  The loop over the source bucket. The keys moved so far are returned even when a write fails: the
  error of \<^verbatim>\<open>ForEach\<close> is ignored.
\<close>

fun moveEach :: "'tx sqsBolt \<Rightarrow> int \<Rightarrow> string \<Rightarrow> (string \<times> stored) list \<Rightarrow> 'tx \<Rightarrow> string list \<times> 'tx" where
  "moveEach K now dst [] tx = ([], tx)"
| "moveEach K now dst ((k, r) # rest) tx =
     (case r of
        MessageRec m \<Rightarrow>
          let (seq, tx1) = nextSequence K tx dst in
          (case putMessage K dst (m\<lparr>Seq := seq, ReceiveCount := 0, VisibleAt := now\<rparr>) tx1 of
             None \<Rightarrow> ([], tx1)
           | Some tx2 \<Rightarrow> (let (ks, tx3) = moveEach K now dst rest tx2 in (k # ks, tx3)))
      | _ \<Rightarrow> moveEach K now dst rest tx)"

definition moveIn ::
  "'tx sqsBolt \<Rightarrow> int \<Rightarrow> bytes \<Rightarrow> string \<Rightarrow> string \<Rightarrow> 'tx \<Rightarrow> (sqsError + moveTask) \<times> 'tx" where
  "moveIn K now rnd source dest tx =
     (let t = \<lparr>Handle = newID rnd, Status = ''COMPLETED'', Source = source, Destination = dest, Moved = 0,
               StartedAt = unixSeconds now\<rparr> in
      case getQueue K tx source of
        Inl e \<Rightarrow> (Inl e, tx)
      | Inr _ \<Rightarrow>
          (case getQueue K tx dest of
             Inl e \<Rightarrow> (Inl e, tx)
           | Inr _ \<Rightarrow>
               if \<not> hasBucket K tx (msgBucket source) then recordMoveTask K tx t
               else case createBucket K tx (msgBucket dest) of
                      None \<Rightarrow> (Inl StoreFailure, tx)
                    | Some tx1 \<Rightarrow>
                        let (ks, tx2) = moveEach K now (msgBucket dest) (bucketItems K tx1 (msgBucket source)) tx1;
                            tx3 = fold (\<lambda>k t. bucketDelete K t (msgBucket source) k) ks tx2
                        in recordMoveTask K tx3 (t\<lparr>Moved := length ks\<rparr>)))"

definition moveTx ::
  "'tx sqsBolt \<Rightarrow> int \<Rightarrow> bytes \<Rightarrow> string \<Rightarrow> string \<Rightarrow> 'tx \<Rightarrow> (sqsError + moveTask) \<times> 'tx" where
  "moveTx K now rnd source dest tx = Update (moveIn K now rnd source dest) tx"

definition ListMessageMoveTasks :: "'tx sqsBolt \<Rightarrow> string \<Rightarrow> int \<Rightarrow> 'tx \<Rightarrow> sqsError + moveTask list" where
  "ListMessageMoveTasks K source mx tx =
     (case getQueue K tx source of
        Inl e \<Rightarrow> Inl e
      | Inr _ \<Rightarrow>
          if \<not> hasBucket K tx moveTasksBucket then Inr []
          else Inr (take (if mx \<le> 0 then 1 else nat mx)
                      (concat (map (\<lambda>(_, r). case r of
                                               TaskRec t \<Rightarrow> if Source t = source then [t] else []
                                             | _ \<Rightarrow> []) (rev (bucketItems K tx moveTasksBucket))))))"

definition CancelMessageMoveTask :: "string \<Rightarrow> sqsError" where
  "CancelMessageMoveTask handle = TaskNotActive"

subsection \<open>The sweeper\<close>

definition sweepQueue :: "'tx sqsBolt \<Rightarrow> int \<Rightarrow> string \<Rightarrow> 'tx \<Rightarrow> 'tx" where
  "sweepQueue K now qn tx =
     (case getQueue K tx qn of
        Inl _ \<Rightarrow> tx
      | Inr q \<Rightarrow>
          let tx1 =
            (if hasBucket K tx (msgBucket qn) \<and> RetentionPeriod q > 0 then
               fold (\<lambda>k t. bucketDelete K t (msgBucket qn) k)
                 (map fst (filter (\<lambda>kv. case snd kv of MessageRec m \<Rightarrow> expired q now m | _ \<Rightarrow> False)
                             (bucketItems K tx (msgBucket qn)))) tx
             else tx)
          in if hasBucket K tx1 (dedupBucket qn) then gcDedup K now (dedupBucket qn) tx1 else tx1)"

definition Sweep :: "'tx sqsBolt \<Rightarrow> int \<Rightarrow> 'tx \<Rightarrow> 'tx" where
  "Sweep K now tx =
     (if \<not> hasBucket K tx metaBucket then tx
      else fold (sweepQueue K now) (map fst (bucketItems K tx metaBucket)) tx)"

subsection \<open>Counters\<close>

definition countMessages :: "(message \<Rightarrow> bool) \<Rightarrow> (string \<times> stored) list \<Rightarrow> nat" where
  "countMessages p items = length (filter (\<lambda>kv. case snd kv of MessageRec m \<Rightarrow> p m | _ \<Rightarrow> False) items)"

definition Attributes :: "'tx sqsBolt \<Rightarrow> go_ext \<Rightarrow> identity \<Rightarrow> int \<Rightarrow> string \<Rightarrow> 'tx \<Rightarrow> sqsError + (string \<times> string) list" where
  "Attributes K G i now name tx =
     (case getQueue K tx name of
        Inl e \<Rightarrow> Inl e
      | Inr q \<Rightarrow>
          let items = (if hasBucket K tx (msgBucket name) then bucketItems K tx (msgBucket name) else []);
              visible = countMessages (\<lambda>m. VisibleAt m \<le> now) items;
              delayed = countMessages (\<lambda>m. \<not> VisibleAt m \<le> now \<and> ReceiveCount m = 0) items;
              inflight = countMessages (\<lambda>m. \<not> VisibleAt m \<le> now \<and> ReceiveCount m \<noteq> 0) items;
              modified = (if Modified q = 0 then Created q else Modified q)
          in Inr (foldl (\<lambda>m (k, v). AList.update k v m) (configuredAttrs G i q)
                    [(''CreatedTimestamp'', intStr (Created q)), (''LastModifiedTimestamp'', intStr modified),
                     (''ApproximateNumberOfMessages'', intStr (int visible)),
                     (''ApproximateNumberOfMessagesNotVisible'', intStr (int inflight)),
                     (''ApproximateNumberOfMessagesDelayed'', intStr (int delayed)),
                     (''QueueArn'', queueARN i name)]))"

subsection \<open>Batch checks\<close>

definition batchEntryID :: "string \<Rightarrow> bool" where
  "batchEntryID s = (1 \<le> length s \<and> length s \<le> 80 \<and> list_all nameChar s)"

fun checkIds :: "string list \<Rightarrow> string list \<Rightarrow> sqsError option" where
  "checkIds seen [] = None"
| "checkIds seen (i # rest) =
     (if \<not> batchEntryID i then Some (BatchError ''InvalidBatchEntryId'')
      else if i \<in> set seen then Some (BatchError ''BatchEntryIdsNotDistinct'')
      else checkIds (i # seen) rest)"

definition checkBatch :: "string list \<Rightarrow> sqsError option" where
  "checkBatch ids =
     (if ids = [] then Some (BatchError ''EmptyBatchRequest'')
      else if length ids > 10 then Some (BatchError ''TooManyEntriesInBatchRequest'')
      else checkIds [] ids)"

subsection \<open>The server's operations\<close>

record 'tx store =
  db :: 'tx
  notify :: notifier

definition Send ::
  "'tx sqsBolt \<Rightarrow> go_ext \<Rightarrow> int \<Rightarrow> bytes \<Rightarrow> string \<Rightarrow> sendItem \<Rightarrow> 'tx store \<Rightarrow> (sqsError + message) \<times> 'tx store" where
  "Send K G now rnd q it s =
     (case sendTx K G now rnd q it (db s) of
        (Inl e, tx) \<Rightarrow> (Inl e, s\<lparr>db := tx\<rparr>)
      | (Inr (m, enqueued), tx) \<Rightarrow>
          (Inr m, s\<lparr>db := tx, notify := (if enqueued then signal q (notify s) else notify s)\<rparr>))"

definition SendBatch ::
  "'tx sqsBolt \<Rightarrow> go_ext \<Rightarrow> int \<Rightarrow> string \<Rightarrow> (bytes \<times> sendItem) list \<Rightarrow> 'tx store \<Rightarrow>
   (sqsError + (sqsError + message) list) \<times> 'tx store" where
  "SendBatch K G now q items s =
     (case sendBatchTx K G now q items (db s) of
        (Inl e, tx) \<Rightarrow> (Inl e, s\<lparr>db := tx\<rparr>)
      | (Inr rs, tx) \<Rightarrow>
          let enqueued = list_ex (\<lambda>r. case r of Inr (_, sent) \<Rightarrow> sent | Inl _ \<Rightarrow> False) rs in
          (Inr (map (\<lambda>r. case r of Inl e \<Rightarrow> Inl e | Inr (m, _) \<Rightarrow> Inr m) rs),
           s\<lparr>db := tx, notify := (if enqueued then signal q (notify s) else notify s)\<rparr>))"

definition DeleteQueue :: "'tx sqsBolt \<Rightarrow> string \<Rightarrow> 'tx store \<Rightarrow> (sqsError + unit) \<times> 'tx store" where
  "DeleteQueue K name s =
     (case Update (deleteQueueIn K name) (db s) of
        (Inl e, tx) \<Rightarrow> (Inl e, s\<lparr>db := tx\<rparr>)
      | (Inr u, tx) \<Rightarrow> (Inr u, s\<lparr>db := tx, notify := forget name (notify s)\<rparr>))"

definition StartMessageMoveTask ::
  "'tx sqsBolt \<Rightarrow> int \<Rightarrow> bytes \<Rightarrow> string \<Rightarrow> string \<Rightarrow> 'tx store \<Rightarrow> (sqsError + moveTask) \<times> 'tx store" where
  "StartMessageMoveTask K now rnd source dest s =
     (case moveTx K now rnd source dest (db s) of
        (Inl e, tx) \<Rightarrow> (Inl e, s\<lparr>db := tx\<rparr>)
      | (Inr t, tx) \<Rightarrow> (Inr t, s\<lparr>db := tx, notify := signal dest (notify s)\<rparr>))"

text \<open>One pass of the loop of \<^verbatim>\<open>Receive\<close>: register interest, look, and drop the interest on an error.\<close>

definition receivePass ::
  "'tx sqsBolt \<Rightarrow> int \<Rightarrow> string \<Rightarrow> nat \<Rightarrow> int \<Rightarrow> 'tx store \<Rightarrow>
   nat \<times> (sqsError + message list \<times> int) \<times> 'tx store" where
  "receivePass K now q mx visOverride s =
     (let (ch, n1) = waitOn q (notify s) in
      case receiveOnce K now q mx visOverride (db s) of
        (Inl e, tx) \<Rightarrow> (ch, Inl e, s\<lparr>db := tx, notify := forget q n1\<rparr>)
      | (Inr (msgs, nextVisible, hits), tx) \<Rightarrow>
          (ch, Inr (msgs, nextVisible), s\<lparr>db := tx, notify := fold signal hits n1\<rparr>))"

subsection \<open>The long-poll loop\<close>

definition maxWaitTimeSeconds :: int where "maxWaitTimeSeconds = 20"

definition queueDefaultWait :: "'tx sqsBolt \<Rightarrow> string \<Rightarrow> 'tx \<Rightarrow> int" where
  "queueDefaultWait K q tx = (case getQueue K tx q of Inl _ \<Rightarrow> 0 | Inr qu \<Rightarrow> WaitTimeSeconds qu)"

definition receiveMax :: "int \<Rightarrow> nat" where
  "receiveMax mx = nat (if mx \<le> 0 \<or> mx > maxReceiveBatch then 1 else mx)"

definition receiveWait :: "'tx sqsBolt \<Rightarrow> string \<Rightarrow> int \<Rightarrow> 'tx \<Rightarrow> int" where
  "receiveWait K q waitSec tx =
     (let w = (if waitSec < 0 then queueDefaultWait K q tx else waitSec)
      in if w > maxWaitTimeSeconds then maxWaitTimeSeconds else w)"

definition receiveDeadline :: "'tx sqsBolt \<Rightarrow> int \<Rightarrow> string \<Rightarrow> int \<Rightarrow> 'tx \<Rightarrow> int" where
  "receiveDeadline K now q waitSec tx = now + receiveWait K q waitSec tx * second"

text \<open>
  What one turn of the loop ends in: an answer, or sleep until the channel is closed or the timer
  runs out. \<open>now\<close> is the clock of the pass, \<open>now2\<close> the later reading that is compared with the
  deadline.
\<close>

datatype poll = Returned "sqsError + message list" | Sleeping nat int

definition receiveTurn ::
  "'tx sqsBolt \<Rightarrow> string \<Rightarrow> nat \<Rightarrow> int \<Rightarrow> int \<Rightarrow> int \<Rightarrow> int \<Rightarrow> 'tx store \<Rightarrow> poll \<times> 'tx store" where
  "receiveTurn K q mx visOverride deadline now now2 s =
     (case receivePass K now q mx visOverride s of
        (ch, Inl e, s') \<Rightarrow> (Returned (Inl e), s')
      | (ch, Inr (msgs, nextVisible), s') \<Rightarrow>
          if msgs \<noteq> [] then (Returned (Inr msgs), s')
          else if now2 \<ge> deadline then (Returned (Inr []), s')
          else (Sleeping ch (if nextVisible \<noteq> 0 \<and> nextVisible < deadline then nextVisible else deadline), s'))"

text \<open>The sleeper is runnable again when its channel is closed or its timer has fired.\<close>

definition awake :: "nat \<Rightarrow> int \<Rightarrow> int \<Rightarrow> notifier \<Rightarrow> bool" where
  "awake ch wakeAt now n = (ch \<in> set (closed n) \<or> now \<ge> wakeAt)"

text \<open>
  The loop of \<^verbatim>\<open>Receive\<close> over the turns it is scheduled for; each turn finds the store as the other
  operations of the server have left it. \<open>None\<close>: still waiting after the last turn.
\<close>

fun longPoll ::
  "'tx sqsBolt \<Rightarrow> string \<Rightarrow> nat \<Rightarrow> int \<Rightarrow> int \<Rightarrow> (int \<times> int \<times> 'tx store) list \<Rightarrow> (sqsError + message list) option" where
  "longPoll K q mx visOverride deadline [] = None"
| "longPoll K q mx visOverride deadline ((now, now2, s) # turns) =
     (case receiveTurn K q mx visOverride deadline now now2 s of
        (Returned r, _) \<Rightarrow> Some r
      | (Sleeping _ _, _) \<Rightarrow> longPoll K q mx visOverride deadline turns)"

definition Receive ::
  "'tx sqsBolt \<Rightarrow> int \<Rightarrow> string \<Rightarrow> int \<Rightarrow> int \<Rightarrow> int \<Rightarrow> 'tx \<Rightarrow> (int \<times> int \<times> 'tx store) list \<Rightarrow>
   (sqsError + message list) option" where
  "Receive K now q mx waitSec visOverride tx turns =
     longPoll K q (receiveMax mx) visOverride (receiveDeadline K now q waitSec tx) turns"

end
