(* ===== verification/SqsInvariant.thy ===== *)
theory SqsInvariant
  imports SqsReceive
begin

text \<open>
  The invariant of the SQS store: every record sits in a bucket of its kind, under its own key, and
  every queue's attributes are within the ranges SQS documents. It is proved for each operation
  from the laws of bbolt (locale \<open>sqs_store\<close>) and then, by rule induction, for every state that a
  sequence of operations can reach.
\<close>

definition queueOk :: "queue \<Rightarrow> bool" where
  "queueOk q =
     (0 \<le> VisibilityTimeout q \<and> VisibilityTimeout q \<le> 43200 \<and> 0 \<le> DelaySeconds q \<and> DelaySeconds q \<le> 900 \<and>
      60 \<le> RetentionPeriod q \<and> RetentionPeriod q \<le> 1209600 \<and> 1024 \<le> MaxMessageSize q \<and> MaxMessageSize q \<le> 262144 \<and>
      0 \<le> WaitTimeSeconds q \<and> WaitTimeSeconds q \<le> 20 \<and>
      (if DeadLetterTarget q = [] then MaxReceiveCount q \<ge> 0
       else 1 \<le> MaxReceiveCount q \<and> MaxReceiveCount q \<le> 1000 \<and> DeadLetterTarget q \<noteq> Name q))"

definition fits :: "string \<Rightarrow> string \<Rightarrow> stored \<Rightarrow> bool" where
  "fits b k r =
     ((\<forall>q. b = msgBucket q \<longrightarrow> (\<exists>m. r = MessageRec m \<and> k = seqKey (Seq m))) \<and>
      (\<forall>q. b = dedupBucket q \<longrightarrow> (\<exists>d. r = DedupEntry d)) \<and>
      (b = metaBucket \<longrightarrow> (\<exists>q. r = QueueRec q \<and> k = Name q \<and> queueOk q)) \<and>
      (b = moveTasksBucket \<longrightarrow> (\<exists>t. r = TaskRec t \<and> k = taskKey t)))"

definition sqsInv :: "stored contents \<Rightarrow> bool" where
  "sqsInv c = (\<forall>b n m k r. c b = Some (n, m) \<longrightarrow> m k = Some r \<longrightarrow> fits b k r)"

lemma bucket_names [simp]:
  "msgBucket a = msgBucket b \<longleftrightarrow> a = b" "dedupBucket a = dedupBucket b \<longleftrightarrow> a = b"
  "msgBucket a \<noteq> dedupBucket b" "dedupBucket b \<noteq> msgBucket a" "msgBucket a \<noteq> metaBucket" "metaBucket \<noteq> msgBucket a"
  "dedupBucket a \<noteq> metaBucket" "metaBucket \<noteq> dedupBucket a" "moveTasksBucket \<noteq> metaBucket" "metaBucket \<noteq> moveTasksBucket"
  "moveTasksBucket \<noteq> msgBucket a" "msgBucket a \<noteq> moveTasksBucket" "moveTasksBucket \<noteq> dedupBucket a"
  "dedupBucket a \<noteq> moveTasksBucket"
  by (simp_all add: msgBucket_def dedupBucket_def metaBucket_def moveTasksBucket_def)

lemma bucket_nonempty [simp]:
  "msgBucket a \<noteq> []" "dedupBucket a \<noteq> []" "metaBucket \<noteq> []" "moveTasksBucket \<noteq> []"
  by (simp_all add: msgBucket_def dedupBucket_def metaBucket_def moveTasksBucket_def)

lemma fits_simps [simp]:
  "fits (msgBucket q) k r \<longleftrightarrow> (\<exists>m. r = MessageRec m \<and> k = seqKey (Seq m))"
  "fits (dedupBucket q) k r \<longleftrightarrow> (\<exists>d. r = DedupEntry d)"
  "fits metaBucket k r \<longleftrightarrow> (\<exists>q. r = QueueRec q \<and> k = Name q \<and> queueOk q)"
  "fits moveTasksBucket k r \<longleftrightarrow> (\<exists>t. r = TaskRec t \<and> k = taskKey t)"
  by (auto simp: fits_def)

subsection \<open>Attributes stay in range\<close>

lemma atoiAttr_range:
  "atoiAttr G a v = Inr n \<Longrightarrow> attrRange a = Some (lo, hi) \<Longrightarrow> lo \<le> n \<and> n \<le> hi"
  by (auto simp: atoiAttr_def split: option.splits if_splits)

lemma applyRedrive_ok:
  assumes "applyRedrive G q v lookup = Inr q'" "queueOk q"
  shows "queueOk q' \<and> Name q' = Name q"
proof -
  obtain target count where q': "q' = q\<lparr>DeadLetterTarget := target, MaxReceiveCount := count\<rparr>"
    and c: "1 \<le> count" "count \<le> 1000" "target \<noteq> Name q"
    using assms(1) by (auto simp: applyRedrive_def Let_def not_less split: option.splits if_splits sum.splits)
  show ?thesis using assms(2) c by (auto simp: q' queueOk_def)
qed

lemma setNumber_ok:
  "setNumber G k v upd = Inr q' \<Longrightarrow> attrRange k = Some (lo, hi) \<Longrightarrow> (\<And>n. lo \<le> n \<Longrightarrow> n \<le> hi \<Longrightarrow> P (upd n)) \<Longrightarrow> P q'"
  by (auto simp: setNumber_def split: sum.splits dest: atoiAttr_range)

lemma applyAttr_ok:
  assumes "applyAttr G q k v lookup = Inr q'" "queueOk q"
  shows "queueOk q' \<and> Name q' = Name q"
proof -
  consider (vis) "k = ''VisibilityTimeout''" | (delay) "k = ''DelaySeconds''" | (ret) "k = ''MessageRetentionPeriod''"
    | (size) "k = ''MaximumMessageSize''" | (poll) "k = ''ReceiveMessageWaitTimeSeconds''"
    | (redrive) "k = ''RedrivePolicy''"
    | (other) "q' = q\<lparr>FIFO := (v = ''true'')\<rparr> \<or> q' = q\<lparr>ContentBasedDedup := (v = ''true'')\<rparr> \<or> q' = q \<or>
         (\<exists>as. q' = q\<lparr>queueAttrs := as\<rparr>)"
    using assms(1) unfolding applyAttr_def by (auto split: if_splits)
  then show ?thesis
  proof cases
    case vis
    then have "setNumber G k v (\<lambda>n. q\<lparr>VisibilityTimeout := n\<rparr>) = Inr q'" using assms(1) by (simp add: applyAttr_def)
    then show ?thesis by (rule setNumber_ok [of _ _ _ _ _ 0 43200]) (use assms(2) vis in \<open>auto simp: attrRange_def queueOk_def\<close>)
  next
    case delay
    then have "setNumber G k v (\<lambda>n. q\<lparr>DelaySeconds := n\<rparr>) = Inr q'" using assms(1) by (simp add: applyAttr_def)
    then show ?thesis by (rule setNumber_ok [of _ _ _ _ _ 0 900]) (use assms(2) delay in \<open>auto simp: attrRange_def queueOk_def\<close>)
  next
    case ret
    then have "setNumber G k v (\<lambda>n. q\<lparr>RetentionPeriod := n\<rparr>) = Inr q'" using assms(1) by (simp add: applyAttr_def)
    then show ?thesis by (rule setNumber_ok [of _ _ _ _ _ 60 1209600]) (use assms(2) ret in \<open>auto simp: attrRange_def queueOk_def\<close>)
  next
    case size
    then have "setNumber G k v (\<lambda>n. q\<lparr>MaxMessageSize := n\<rparr>) = Inr q'" using assms(1) by (simp add: applyAttr_def)
    then show ?thesis by (rule setNumber_ok [of _ _ _ _ _ 1024 262144]) (use assms(2) size in \<open>auto simp: attrRange_def queueOk_def\<close>)
  next
    case poll
    then have "setNumber G k v (\<lambda>n. q\<lparr>WaitTimeSeconds := n\<rparr>) = Inr q'" using assms(1) by (simp add: applyAttr_def)
    then show ?thesis by (rule setNumber_ok [of _ _ _ _ _ 0 20]) (use assms(2) poll in \<open>auto simp: attrRange_def queueOk_def\<close>)
  next
    case redrive
    show ?thesis
    proof (cases "v = []")
      case True
      then have "q' = q\<lparr>DeadLetterTarget := [], MaxReceiveCount := 0\<rparr>"
        using assms(1) redrive by (simp add: applyAttr_def)
      then show ?thesis using assms(2) by (simp add: queueOk_def)
    next
      case False
      then have "applyRedrive G q v lookup = Inr q'" using assms(1) redrive by (simp add: applyAttr_def)
      then show ?thesis using assms(2) by (rule applyRedrive_ok)
    qed
  next
    case other
    then show ?thesis using assms(2) by (auto simp: queueOk_def)
  qed
qed

lemma applyAttrs_ok:
  "applyAttrs G q attrs lookup = Inr q' \<Longrightarrow> queueOk q \<Longrightarrow> queueOk q' \<and> Name q' = Name q"
proof (induction G q attrs lookup rule: applyAttrs.induct)
  case (2 G q k v rest lookup)
  obtain q1 where q1: "applyAttr G q k v lookup = Inr q1" "applyAttrs G q1 rest lookup = Inr q'"
    using 2(2) by (cases "applyAttr G q k v lookup") simp_all
  have "queueOk q1 \<and> Name q1 = Name q" using q1(1) 2(3) by (rule applyAttr_ok)
  then show ?case using 2(1) [OF q1] by simp
qed simp

lemma snd_relabel [simp]:
  "snd (case p of (Inl e, t) \<Rightarrow> (Inl e, t) | (Inr x, t) \<Rightarrow> (Inr (f x), t)) = snd p"
  by (simp split: prod.splits sum.splits)

lemma queueOk_update [simp]: "queueOk (q\<lparr>Modified := x\<rparr>) = queueOk q" "queueOk (q\<lparr>Tags := ts\<rparr>) = queueOk q"
  by (simp_all add: queueOk_def)

lemma newQueue_ok: "queueOk (newQueue name fifo created) \<and> Name (newQueue name fifo created) = name"
  by (simp add: queueOk_def newQueue_def defVisibilityTimeout_def defRetentionPeriod_def defMaxMessageSize_def)


subsection \<open>The primitive steps\<close>

locale sqs_store = bolt_store K view for K :: "('tx, stored) bolt" and view :: "'tx \<Rightarrow> stored contents"
begin

abbreviation inv :: "'tx \<Rightarrow> bool" where
  "inv tx \<equiv> sqsInv (view tx)"

lemma invD: "inv tx \<Longrightarrow> view tx b = Some (n, m) \<Longrightarrow> m k = Some r \<Longrightarrow> fits b k r"
  unfolding sqsInv_def by blast

lemma inv_create:
  "inv tx \<Longrightarrow> createBucket K tx b = Some tx' \<Longrightarrow> inv tx' \<and> dom (view tx') = insert b (dom (view tx))"
  unfolding sqsInv_def using createBucket [of tx b tx'] by (auto simp: domIff split: if_splits)

lemma inv_put:
  assumes "inv tx" "b \<in> dom (view tx)" "bucketPut K tx b k r = Some tx'" "fits b k r"
  shows "inv tx' \<and> dom (view tx') = dom (view tx)"
proof -
  obtain n m where v: "view tx b = Some (n, m)" using assms(2) by auto
  show ?thesis
    using assms(1,4) v bucketPut [OF v assms(3)] unfolding sqsInv_def by (auto split: if_splits)
qed

lemma inv_delete:
  assumes "inv tx" "b \<in> dom (view tx)"
  shows "inv (bucketDelete K tx b k) \<and> dom (view (bucketDelete K tx b k)) = dom (view tx)"
proof -
  obtain n m where v: "view tx b = Some (n, m)" using assms(2) by auto
  show ?thesis
    using assms(1) v bucketDelete [OF v, of k] unfolding sqsInv_def by (auto split: if_splits)
qed

lemma inv_delete_keys:
  "inv tx \<Longrightarrow> b \<in> dom (view tx) \<Longrightarrow>
   inv (fold (\<lambda>k t. bucketDelete K t b k) ks tx) \<and> dom (view (fold (\<lambda>k t. bucketDelete K t b k) ks tx)) = dom (view tx)"
proof (induction ks arbitrary: tx)
  case (Cons k ks)
  then show ?case using inv_delete [of tx b k] by simp
qed simp

lemma inv_drop: "inv tx \<Longrightarrow> inv (dropBucket K b tx)"
  using deleteBucket [of tx b] unfolding sqsInv_def dropBucket_def by (auto split: option.splits if_splits)

lemma inv_next:
  assumes "inv tx" "b \<in> dom (view tx)" "nextSequence K tx b = (seq, tx')"
  shows "inv tx' \<and> dom (view tx') = dom (view tx)"
proof -
  obtain n m where v: "view tx b = Some (n, m)" using assms(2) by auto
  show ?thesis
    using assms(1) v nextSequence [OF v assms(3)] unfolding sqsInv_def by (auto split: if_splits)
qed

lemma inv_putMessage:
  "inv tx \<Longrightarrow> msgBucket q \<in> dom (view tx) \<Longrightarrow> putMessage K (msgBucket q) m tx = Some tx' \<Longrightarrow>
   inv tx' \<and> dom (view tx') = dom (view tx)"
  unfolding putMessage_def by (rule inv_put) auto

lemma hasBucket_dom: "hasBucket K tx b \<longleftrightarrow> b \<in> dom (view tx)"
  by (auto simp: hasBucket)

lemma getQueue_ok:
  assumes "inv tx" "getQueue K tx name = Inr q"
  shows "queueOk q \<and> Name q = name \<and> metaBucket \<in> dom (view tx)"
proof -
  have "metaBucket \<in> dom (view tx)" "bucketGet K tx metaBucket name = Some (QueueRec q)"
    using assms(2) by (auto simp: getQueue_def hasBucket_dom split: if_splits option.splits stored.splits)
  then show ?thesis using invD [OF assms(1)] bucketGet by (fastforce simp: dom_def)
qed

lemma inv_putQueue:
  assumes "inv tx" "queueOk q"
  shows "inv (snd (putQueue K tx q))"
proof (cases "createBucket K tx metaBucket")
  case (Some tx1)
  then have t: "inv tx1" "metaBucket \<in> dom (view tx1)" using inv_create [OF assms(1)] by auto
  have "fits metaBucket (Name q) (QueueRec q)" using assms(2) by simp
  then show ?thesis
    using inv_put [OF t] t Some by (auto simp: putQueue_def split: option.splits)
qed (use assms in \<open>simp add: putQueue_def\<close>)

lemma inv_Update: "inv tx \<Longrightarrow> (inv tx \<Longrightarrow> inv (snd (f tx))) \<Longrightarrow> inv (snd (Update f tx))"
  by (auto simp: Update_def split: prod.splits sum.splits)

subsection \<open>Queue operations\<close>

lemma inv_CreateQueue:
  assumes "inv tx"
  shows "inv (snd (CreateQueue K G i now name attrs tags tx))"
proof -
  have c: "inv (snd (createIn K G i now name attrs tags tx))"
  proof (cases "getQueue K tx name")
    case (Inl e)
    show ?thesis
    proof (cases "applyAttrs G (newQueue name (attrOf attrs ''FifoQueue'' = ''true'') (unixSeconds now)) attrs
          (Some (getQueue K tx))")
      case (Inr q)
      then have "queueOk q" using applyAttrs_ok newQueue_ok by blast
      then have "queueOk (q\<lparr>Tags := mergeTags (Tags q) tags\<rparr>)" by simp
      then have "inv (snd (putQueue K tx (q\<lparr>Tags := mergeTags (Tags q) tags\<rparr>)))" using inv_putQueue [OF assms] by blast
      then show ?thesis using Inl Inr by (simp add: createIn_def Let_def)
    qed (use assms Inl in \<open>simp add: createIn_def\<close>)
  qed (use assms in \<open>simp add: createIn_def split: option.splits\<close>)
  show ?thesis
    using assms inv_Update [OF assms, of "createIn K G i now name attrs tags"] c by (simp add: CreateQueue_def Let_def split: option.splits)
qed

lemma inv_with_queue:
  assumes "inv tx" "\<And>q. queueOk q \<Longrightarrow> Name q = name \<Longrightarrow> metaBucket \<in> dom (view tx) \<Longrightarrow> inv (snd (f q tx))"
  shows "inv (snd (Update (\<lambda>tx. case getQueue K tx name of Inl e \<Rightarrow> (Inl e, tx) | Inr q \<Rightarrow> f q tx) tx))"
  using assms getQueue_ok [OF assms(1), of name] by (intro inv_Update) (auto split: sum.splits)

lemma inv_SetAttributes: "inv tx \<Longrightarrow> inv (snd (SetAttributes K G now name attrs tx))"
  unfolding SetAttributes_def setAttributesIn_def
proof (rule inv_with_queue)
  fix q assume a: "inv tx" "queueOk q"
  show "inv (snd (case applyAttrs G q attrs (Some (getQueue K tx)) of Inl e \<Rightarrow> (Inl e, tx)
      | Inr q' \<Rightarrow> putQueue K tx (q'\<lparr>Modified := unixSeconds now\<rparr>)))"
  proof (cases "applyAttrs G q attrs (Some (getQueue K tx))")
    case (Inr q')
    then have "queueOk (q'\<lparr>Modified := unixSeconds now\<rparr>)" using applyAttrs_ok a(2) by simp
    then show ?thesis using Inr inv_putQueue [OF a(1)] by simp
  qed (use a in simp)
qed

lemma inv_TagQueue: "inv tx \<Longrightarrow> inv (snd (TagQueue K name tags tx))"
  unfolding TagQueue_def by (rule inv_with_queue) (auto intro!: inv_putQueue)

lemma inv_UntagQueue: "inv tx \<Longrightarrow> inv (snd (UntagQueue K name ks tx))"
  unfolding UntagQueue_def by (rule inv_with_queue) (auto intro!: inv_putQueue)

lemma inv_deleteQueue: "inv tx \<Longrightarrow> inv (snd (Update (deleteQueueIn K name) tx))"
  unfolding deleteQueueIn_def by (rule inv_with_queue) (auto intro!: inv_drop dest: inv_delete)

lemma inv_Purge:
  assumes "inv tx"
  shows "inv (snd (Purge K q tx))"
  unfolding Purge_def using assms
  by (intro inv_with_queue) (use inv_drop [OF assms, of "msgBucket q"] assms in
      \<open>auto simp: dropBucket_def split: option.splits\<close>)

end

subsection \<open>Message operations\<close>

context sqs_store
begin

text \<open>A step that keeps the invariant and drops no bucket.\<close>

definition keeps :: "'tx \<Rightarrow> 'tx \<Rightarrow> bool" where
  "keeps tx tx' = (inv tx' \<and> dom (view tx) \<subseteq> dom (view tx'))"

lemma keeps_refl: "inv tx \<Longrightarrow> keeps tx tx"
  by (simp add: keeps_def)

lemma keeps_trans: "keeps a b \<Longrightarrow> keeps b c \<Longrightarrow> keeps a c"
  by (auto simp: keeps_def)

lemma keeps_inv: "keeps a b \<Longrightarrow> inv b"
  by (simp add: keeps_def)

lemma keeps_dom: "keeps a b \<Longrightarrow> x \<in> dom (view a) \<Longrightarrow> x \<in> dom (view b)"
  by (auto simp: keeps_def)

lemma keeps_create:
  "inv tx \<Longrightarrow> createBucket K tx b = Some tx' \<Longrightarrow> keeps tx tx' \<and> b \<in> dom (view tx')"
  using inv_create [of tx b tx'] by (auto simp: keeps_def)

lemma keeps_delete_keys:
  "inv tx \<Longrightarrow> b \<in> dom (view tx) \<Longrightarrow> keeps tx (fold (\<lambda>k t. bucketDelete K t b k) ks tx)"
  using inv_delete_keys [of tx b ks] by (simp add: keeps_def)

lemma keeps_delete: "inv tx \<Longrightarrow> b \<in> dom (view tx) \<Longrightarrow> keeps tx (bucketDelete K tx b k)"
  using inv_delete [of tx b k] by (simp add: keeps_def)

lemma keeps_put:
  "inv tx \<Longrightarrow> b \<in> dom (view tx) \<Longrightarrow> bucketPut K tx b k r = Some tx' \<Longrightarrow> fits b k r \<Longrightarrow> keeps tx tx'"
  using inv_put [of tx b k r tx'] by (simp add: keeps_def)

lemma keeps_putMessage:
  "inv tx \<Longrightarrow> msgBucket q \<in> dom (view tx) \<Longrightarrow> putMessage K (msgBucket q) m tx = Some tx' \<Longrightarrow> keeps tx tx'"
  using inv_putMessage [of tx q m tx'] by (simp add: keeps_def)

lemma keeps_next: "inv tx \<Longrightarrow> b \<in> dom (view tx) \<Longrightarrow> nextSequence K tx b = (seq, tx') \<Longrightarrow> keeps tx tx'"
  using inv_next [of tx b seq tx'] by (simp add: keeps_def)

lemma keeps_recordDedup:
  assumes "inv tx"
  shows "keeps tx (snd (recordDedup K now tx q dedupID m))"
proof (cases "createBucket K tx (dedupBucket q)")
  case (Some tx1)
  then have t: "keeps tx tx1" "dedupBucket q \<in> dom (view tx1)" using keeps_create [OF assms] by auto
  define tx2 where "tx2 = gcDedup K now (dedupBucket q) tx1"
  have k: "keeps tx tx2" "dedupBucket q \<in> dom (view tx2)"
    unfolding tx2_def gcDedup_def using t keeps_delete_keys keeps_inv keeps_trans keeps_dom by blast+
  show ?thesis
  proof (cases "bucketPut K tx2 (dedupBucket q) dedupID (DedupEntry \<lparr>At = unixSeconds now, recID = ID m, recMD5 = MD5Body m\<rparr>)")
    case None
    then show ?thesis using k Some by (simp add: recordDedup_def tx2_def [symmetric])
  next
    case (Some tx3)
    then have "keeps tx tx3" using keeps_put [of tx2 "dedupBucket q" dedupID] k keeps_inv keeps_trans by fastforce
    then show ?thesis using Some \<open>createBucket K tx (dedupBucket q) = Some tx1\<close>
      by (simp add: recordDedup_def tx2_def [symmetric])
  qed
qed (use assms keeps_refl in \<open>simp add: recordDedup_def\<close>)

lemma keeps_enqueue:
  assumes "inv tx"
  shows "keeps tx (snd (enqueue K G now rnd tx q it delay dedupID))"
proof (cases "createBucket K tx (msgBucket (Name q))")
  case (Some tx1)
  then have t: "keeps tx tx1" "msgBucket (Name q) \<in> dom (view tx1)" using keeps_create [OF assms] by auto
  obtain seq tx2 where n: "nextSequence K tx1 (msgBucket (Name q)) = (seq, tx2)" by fastforce
  have t2: "keeps tx tx2" "msgBucket (Name q) \<in> dom (view tx2)"
    using keeps_next [OF keeps_inv [OF t(1)] t(2) n] t keeps_trans keeps_dom by blast+
  have p: "keeps tx tx3" if "putMessage K (msgBucket (Name q)) m tx2 = Some tx3" for m tx3
    using keeps_putMessage [OF keeps_inv [OF t2(1)] t2(2) that] t2(1) keeps_trans by blast
  have d: "keeps tx (snd (recordDedup K now tx3 (Name q) dedupID m))" if "keeps tx tx3" for m tx3
    using that keeps_recordDedup [OF keeps_inv [OF that]] keeps_trans by blast
  show ?thesis
    using Some n t2 p d by (simp add: enqueue_def Let_def split: option.splits)
qed (use assms keeps_refl in \<open>simp add: enqueue_def\<close>)

lemma keeps_sendIn: "inv tx \<Longrightarrow> keeps tx (snd (sendIn K G now rnd tx q it))"
  using keeps_enqueue keeps_refl by (simp add: sendIn_def Let_def split: option.splits)

lemma inv_sendTx: "inv tx \<Longrightarrow> inv (snd (sendTx K G now rnd q it tx))"
  unfolding sendTx_def by (rule inv_with_queue) (auto intro: keeps_inv keeps_sendIn)

lemma inv_sendEach: "inv tx \<Longrightarrow> inv (snd (sendEach K G now q items tx))"
proof (induction items arbitrary: tx)
  case (Cons x items)
  obtain rnd it where x: "x = (rnd, it)" by fastforce
  have "inv (snd (sendIn K G now rnd tx q it))" using keeps_sendIn [OF Cons.prems] keeps_inv by blast
  from Cons.IH [OF this] show ?case by (simp add: x case_prod_beta Let_def)
qed simp

lemma inv_sendBatchTx: "inv tx \<Longrightarrow> inv (snd (sendBatchTx K G now q items tx))"
  unfolding sendBatchTx_def
  by (rule inv_with_queue) (auto simp: case_prod_beta Let_def intro: inv_sendEach)

lemma keeps_moveToDLQ:
  assumes "inv tx"
  shows "keeps tx (snd (moveToDLQ K now tx dlq m))"
proof (cases "createBucket K tx (msgBucket dlq)")
  case (Some tx1)
  then have t: "keeps tx tx1" "msgBucket dlq \<in> dom (view tx1)" using keeps_create [OF assms] by auto
  obtain seq tx2 where n: "nextSequence K tx1 (msgBucket dlq) = (seq, tx2)" by fastforce
  have t2: "keeps tx tx2" "msgBucket dlq \<in> dom (view tx2)"
    using keeps_next [OF keeps_inv [OF t(1)] t(2) n] t keeps_trans keeps_dom by blast+
  have p: "keeps tx tx3" if "putMessage K (msgBucket dlq) m tx2 = Some tx3" for m tx3
    using keeps_putMessage [OF keeps_inv [OF t2(1)] t2(2) that] t2(1) keeps_trans by blast
  show ?thesis
    using Some n t2 p keeps_refl [OF assms] by (simp add: moveToDLQ_def Let_def split: option.splits sum.splits)
qed (use assms keeps_refl in \<open>simp add: moveToDLQ_def split: sum.splits\<close>)

lemma keeps_redrive:
  "inv tx \<Longrightarrow> b \<in> dom (view tx) \<Longrightarrow> keeps tx (snd (redrive K now b dlq ms tx))"
proof (induction ms arbitrary: tx)
  case (Cons m ms)
  obtain r tx1 where r: "moveToDLQ K now tx dlq m = (r, tx1)" by fastforce
  then have k: "keeps tx tx1" using keeps_moveToDLQ [OF Cons.prems(1), of now dlq m] by simp
  define tx2 where "tx2 moved = (if moved then bucketDelete K tx1 b (seqKey (Seq m)) else tx1)" for moved
  have k2: "keeps tx (tx2 moved)" for moved
    using k keeps_delete [of tx1 b] keeps_dom Cons.prems keeps_inv keeps_trans unfolding tx2_def by (cases moved) auto
  have "keeps tx (snd (redrive K now b dlq ms (tx2 moved)))" for moved
    using Cons.IH [of "tx2 moved"] k2 [of moved] keeps_dom Cons.prems(2) keeps_inv keeps_trans by blast
  then show ?case using k r by (cases r) (simp_all add: tx2_def [symmetric])
qed (simp add: keeps_refl)

lemma keeps_putAll: "inv tx \<Longrightarrow> msgBucket q \<in> dom (view tx) \<Longrightarrow> keeps tx (snd (putAll K (msgBucket q) ms tx))"
proof (induction ms arbitrary: tx)
  case (Cons m ms)
  have "keeps tx (snd (putAll K (msgBucket q) ms tx1))" if "putMessage K (msgBucket q) m tx = Some tx1" for tx1
  proof -
    have k: "keeps tx tx1" using keeps_putMessage [OF Cons.prems that] .
    then show ?thesis using Cons.IH [of tx1] keeps_dom Cons.prems(2) keeps_inv keeps_trans by blast
  qed
  then show ?case using Cons.prems(1) keeps_refl by (auto split: option.splits)
qed (simp add: keeps_refl)

end

context sqs_store
begin

lemma inv_existing:
  assumes "inv tx" "hasBucket K tx b"
  shows "inv (bucketDelete K tx b k)" "inv (fold (\<lambda>k t. bucketDelete K t b k) ks tx)" "inv (gcDedup K now b tx)"
    "b = msgBucket q \<Longrightarrow> putMessage K b m tx = Some tx' \<Longrightarrow> inv tx'"
  using assms keeps_delete keeps_delete_keys keeps_putMessage keeps_inv unfolding hasBucket_dom gcDedup_def by metis+

lemma inv_receiveOnce:
  assumes "inv tx"
  shows "inv (snd (receiveOnce K now q mx vo tx))"
  unfolding receiveOnce_def receiveIn_def
proof (rule inv_with_queue)
  fix qu assume "queueOk qu"
  show "inv (snd (if \<not> hasBucket K tx (msgBucket q) then (Inr ([], 0, []), tx)
      else let b = msgBucket q; s = scanQueue K now tx qu b mx vo;
             tx1 = fold (\<lambda>k t. bucketDelete K t b k) (expireKeys s) tx
           in case redrive K now b (DeadLetterTarget qu) (dlqMsgs s) tx1 of
                (Inl e, tx2) \<Rightarrow> (Inl e, tx2)
              | (Inr hits, tx2) \<Rightarrow>
                  (case putAll K b (deliver s) tx2 of
                     (Inl e, tx3) \<Rightarrow> (Inl e, tx3)
                   | (Inr _, tx3) \<Rightarrow> (Inr (deliver s, minVisible s, hits), tx3))))"
  proof (cases "hasBucket K tx (msgBucket q)")
    case True
    define s where "s = scanQueue K now tx qu (msgBucket q) mx vo"
    define tx1 where "tx1 = fold (\<lambda>k t. bucketDelete K t (msgBucket q) k) (expireKeys s) tx"
    obtain r tx2 where r: "redrive K now (msgBucket q) (DeadLetterTarget qu) (dlqMsgs s) tx1 = (r, tx2)" by fastforce
    have k1: "keeps tx tx1" "msgBucket q \<in> dom (view tx1)"
      using keeps_delete_keys [OF assms] True keeps_dom unfolding tx1_def hasBucket_dom by blast+
    then have k2: "keeps tx1 tx2" "msgBucket q \<in> dom (view tx2)"
      using keeps_redrive [OF keeps_inv [OF k1(1)] k1(2)] r keeps_dom by (metis snd_conv)+
    then have "inv (snd (putAll K (msgBucket q) (deliver s) tx2))" "inv tx2"
      using keeps_putAll keeps_inv by blast+
    then show ?thesis using True r
      by (simp add: s_def [symmetric] tx1_def [symmetric] Let_def split: sum.splits)
  qed (use assms in simp)
qed (rule assms)

lemma inv_deleteIn: "inv tx \<Longrightarrow> inv (snd (deleteIn K q handle tx))"
  by (simp add: deleteIn_def inv_existing split: option.splits stored.splits prod.splits)

lemma inv_changeVisibilityIn: "inv tx \<Longrightarrow> inv (snd (changeVisibilityIn K now q item tx))"
  using inv_existing(4)
  by (auto simp: changeVisibilityIn_def split: prod.splits option.splits stored.splits)

lemma inv_eachIn:
  "inv tx \<Longrightarrow> (\<And>x tx. inv tx \<Longrightarrow> inv (snd (f x tx))) \<Longrightarrow> inv (snd (eachIn f xs tx))"
  by (induction xs arbitrary: tx) (simp_all add: case_prod_beta Let_def)

lemma inv_handles:
  assumes "inv tx"
  shows "inv (snd (DeleteMessage K q handle tx))" "inv (snd (ChangeVisibility K now q handle timeout tx))"
    "inv (snd (DeleteBatch K q handles tx))" "inv (snd (ChangeVisibilityBatch K now q items tx))"
  unfolding DeleteMessage_def ChangeVisibility_def DeleteBatch_def ChangeVisibilityBatch_def
  using assms
  by (intro inv_with_queue inv_deleteIn inv_changeVisibilityIn;
      auto simp: case_prod_beta Let_def intro: inv_eachIn inv_deleteIn inv_changeVisibilityIn)+

lemma inv_recordMoveTask:
  assumes "inv tx"
  shows "inv (snd (recordMoveTask K tx t))"
proof (cases "createBucket K tx moveTasksBucket")
  case (Some tx1)
  then have t: "inv tx1" "moveTasksBucket \<in> dom (view tx1)" using keeps_create [OF assms] keeps_inv by blast+
  have "inv tx2" if "bucketPut K tx1 moveTasksBucket (taskKey t) (TaskRec t) = Some tx2" for tx2
    using inv_put [OF t that] by simp
  then show ?thesis using t Some by (simp add: recordMoveTask_def split: option.splits)
qed (use assms in \<open>simp add: recordMoveTask_def\<close>)

lemma keeps_moveEach:
  "inv tx \<Longrightarrow> msgBucket d \<in> dom (view tx) \<Longrightarrow> keeps tx (snd (moveEach K now (msgBucket d) items tx))"
proof (induction items arbitrary: tx)
  case (Cons x items)
  obtain k r where x: "x = (k, r)" by fastforce
  show ?case
  proof (cases r)
    case (MessageRec m)
    obtain seq tx1 where n: "nextSequence K tx (msgBucket d) = (seq, tx1)" by fastforce
    have k1: "keeps tx tx1" using keeps_next [OF Cons.prems n] .
    have "keeps tx (snd (moveEach K now (msgBucket d) items tx2))" if "putMessage K (msgBucket d) m' tx1 = Some tx2" for m' tx2
    proof -
      have k2: "keeps tx tx2"
        using keeps_putMessage [OF keeps_inv [OF k1] keeps_dom [OF k1 Cons.prems(2)] that] k1 keeps_trans by blast
      show ?thesis using Cons.IH [OF keeps_inv [OF k2] keeps_dom [OF k2 Cons.prems(2)]] k2 keeps_trans by blast
    qed
    then show ?thesis using x MessageRec n k1 by (auto simp: Let_def case_prod_beta split: option.splits)
  qed (use x Cons in auto)
qed (simp add: keeps_refl)

lemma inv_moveTx:
  assumes "inv tx"
  shows "inv (snd (moveTx K now rnd source dest tx))"
proof -
  have "inv (snd (moveIn K now rnd source dest tx))"
  proof (cases "hasBucket K tx (msgBucket source)")
    case True
    have "inv (snd (recordMoveTask K (fold (\<lambda>k t. bucketDelete K t (msgBucket source) k) ks tx2) t))"
      if c: "createBucket K tx (msgBucket dest) = Some tx1"
        "moveEach K now (msgBucket dest) (bucketItems K tx1 (msgBucket source)) tx1 = (ks, tx2)" for tx1 tx2 ks t
    proof -
      have k1: "keeps tx tx1" "msgBucket dest \<in> dom (view tx1)" using keeps_create [OF assms c(1)] by auto
      then have "keeps tx tx2" using keeps_moveEach [OF keeps_inv [OF k1(1)] k1(2)] c(2) keeps_trans by (metis snd_conv)
      then have "keeps tx (fold (\<lambda>k t. bucketDelete K t (msgBucket source) k) ks tx2)"
        using keeps_delete_keys keeps_dom keeps_inv keeps_trans True by (meson hasBucket_dom)
      then show ?thesis using inv_recordMoveTask keeps_inv by blast
    qed
    then show ?thesis using assms True
      by (auto simp: moveIn_def Let_def split: sum.splits option.splits prod.splits)
  qed (use assms inv_recordMoveTask in \<open>auto simp: moveIn_def Let_def split: sum.splits\<close>)
  then show ?thesis unfolding moveTx_def using inv_Update [OF assms, of "moveIn K now rnd source dest"] by simp
qed

lemma inv_sweepQueue:
  assumes "inv tx"
  shows "inv (sweepQueue K now qn tx)"
proof (cases "getQueue K tx qn")
  case (Inr q)
  define tx1 where "tx1 = (if hasBucket K tx (msgBucket qn) \<and> RetentionPeriod q > 0 then
      fold (\<lambda>k t. bucketDelete K t (msgBucket qn) k)
        (map fst (filter (\<lambda>kv. case snd kv of MessageRec m \<Rightarrow> expired q now m | _ \<Rightarrow> False)
           (bucketItems K tx (msgBucket qn)))) tx else tx)"
  have "inv tx1" unfolding tx1_def using assms by (simp add: inv_existing)
  then have "inv (if hasBucket K tx1 (dedupBucket qn) then gcDedup K now (dedupBucket qn) tx1 else tx1)"
    by (simp add: inv_existing)
  then show ?thesis unfolding sweepQueue_def Inr sum.case Let_def tx1_def [symmetric] .
qed (use assms in \<open>simp add: sweepQueue_def\<close>)

lemma inv_Sweep: "inv tx \<Longrightarrow> inv (Sweep K now tx)"
proof -
  have "inv tx \<Longrightarrow> inv (fold (sweepQueue K now) qs tx)" for qs
    by (induction qs arbitrary: tx) (simp_all add: inv_sweepQueue)
  then show "inv tx \<Longrightarrow> inv (Sweep K now tx)" by (simp add: Sweep_def)
qed

end

subsection \<open>Reachable states\<close>

text \<open>One operation of the server, with any arguments, clock reading and random bytes.\<close>

inductive sqsStep :: "'tx sqsBolt \<Rightarrow> go_ext \<Rightarrow> identity \<Rightarrow> 'tx store \<Rightarrow> 'tx store \<Rightarrow> bool"
  for K :: "'tx sqsBolt" and G :: go_ext and i :: identity where
  create: "sqsStep K G i s (s\<lparr>db := snd (CreateQueue K G i now name attrs tags (db s))\<rparr>)"
| deleteQueue: "sqsStep K G i s (snd (DeleteQueue K name s))"
| setAttributes: "sqsStep K G i s (s\<lparr>db := snd (SetAttributes K G now name attrs (db s))\<rparr>)"
| tag: "sqsStep K G i s (s\<lparr>db := snd (TagQueue K name tags (db s))\<rparr>)"
| untag: "sqsStep K G i s (s\<lparr>db := snd (UntagQueue K name ks (db s))\<rparr>)"
| send: "sqsStep K G i s (snd (Send K G now rnd q it s))"
| sendBatch: "sqsStep K G i s (snd (SendBatch K G now q items s))"
| receive: "sqsStep K G i s (snd (snd (receivePass K now q mx vo s)))"
| delete: "sqsStep K G i s (s\<lparr>db := snd (DeleteMessage K q handle (db s))\<rparr>)"
| deleteBatch: "sqsStep K G i s (s\<lparr>db := snd (DeleteBatch K q handles (db s))\<rparr>)"
| changeVisibility: "sqsStep K G i s (s\<lparr>db := snd (ChangeVisibility K now q handle timeout (db s))\<rparr>)"
| changeVisibilityBatch: "sqsStep K G i s (s\<lparr>db := snd (ChangeVisibilityBatch K now q vis (db s))\<rparr>)"
| purge: "sqsStep K G i s (s\<lparr>db := snd (Purge K q (db s))\<rparr>)"
| move: "sqsStep K G i s (snd (StartMessageMoveTask K now rnd source dest s))"
| sweep: "sqsStep K G i s (s\<lparr>db := Sweep K now (db s)\<rparr>)"

inductive sqsReach :: "'tx sqsBolt \<Rightarrow> go_ext \<Rightarrow> identity \<Rightarrow> 'tx store \<Rightarrow> 'tx store \<Rightarrow> bool"
  for K :: "'tx sqsBolt" and G :: go_ext and i :: identity and s0 :: "'tx store" where
  start: "sqsReach K G i s0 s0"
| step: "sqsReach K G i s0 s \<Longrightarrow> sqsStep K G i s s' \<Longrightarrow> sqsReach K G i s0 s'"

context sqs_store
begin

lemma inv_step: "sqsStep K G i s s' \<Longrightarrow> inv (db s) \<Longrightarrow> inv (db s')"
proof (induction rule: sqsStep.induct)
  case (deleteQueue s name)
  then show ?case using inv_deleteQueue [of "db s" name]
    by (auto simp: DeleteQueue_def split: prod.splits sum.splits)
next
  case (send s now rnd q it)
  then show ?case using inv_sendTx [of "db s" G now rnd q it]
    by (auto simp: Send_def split: prod.splits sum.splits)
next
  case (sendBatch s now q items)
  then show ?case using inv_sendBatchTx [of "db s" G now q items]
    by (auto simp: SendBatch_def Let_def split: prod.splits sum.splits)
next
  case (receive s now q mx vo)
  then show ?case using inv_receiveOnce [of "db s" now q mx vo]
    by (auto simp: receivePass_def split: prod.splits sum.splits)
next
  case (move s now rnd source dest)
  then show ?case using inv_moveTx [of "db s" now rnd source dest]
    by (auto simp: StartMessageMoveTask_def split: prod.splits sum.splits)
qed (simp_all add: inv_CreateQueue inv_SetAttributes inv_TagQueue inv_UntagQueue inv_handles inv_Purge inv_Sweep)

lemma inv_reach: "sqsReach K G i s0 s \<Longrightarrow> view (db s0) = Map.empty \<Longrightarrow> inv (db s)"
  by (induction rule: sqsReach.induct) (simp_all add: inv_step, simp add: sqsInv_def)

end

text \<open>The laws of bbolt are all the SQS store asks of its database.\<close>

interpretation memSqs: sqs_store "memBolt :: (stored memory, stored) bolt" memView ..

lemma sqs_storeI: "bolt_store K view \<Longrightarrow> sqs_store K view"
  by (simp add: sqs_store_def)

text \<open>C15: whatever sequence of operations a server performs from an empty database (creating,
  configuring, tagging and deleting queues, sending, receiving with redrive, deleting and hiding
  messages, batches, purges, move tasks and sweeps, failed ones included), every stored message sits
  in a queue's bucket under the key of its own sequence number, every deduplication record and move
  task in theirs, every queue under its own name with all its numeric attributes within the ranges
  SQS documents, and no queue is its own dead-letter queue.\<close>

theorem sqs_reachable_invariant:
  "bolt_store K view \<Longrightarrow> view (db s0) = Map.empty \<Longrightarrow> sqsReach K G i s0 s \<Longrightarrow> sqsInv (view (db s))"
  by (rule sqs_store.inv_reach [OF sqs_storeI])

definition emptyStore :: "stored memory store" where
  "emptyStore = \<lparr>db = [], notify = newNotifier\<rparr>"

definition plainItem :: sendItem where
  "plainItem = \<lparr>itBody = ''hello'', itAttrs = [], itDelay = - 1, itGroupID = [], itDedupID = [], itSysAttrs = []\<rparr>"

definition sampleIdentity :: identity where
  "sampleIdentity = \<lparr>Region = [], AccountID = []\<rparr>"

definition sampleStore :: "stored memory store" where
  "sampleStore =
     (let s1 = emptyStore\<lparr>db := snd (CreateQueue memBolt sampleExt sampleIdentity 0 ''jobs'' [(''DelaySeconds'', ''5'')] [] [])\<rparr>
      in snd (Send memBolt sampleExt 0 (replicate 16 7) ''jobs'' plainItem s1))"

theorem sqs_reachable_invariant_witness: "sqsInv (memView (db sampleStore))"
proof (rule sqs_reachable_invariant [OF mem.bolt_store_axioms])
  show "memView (db emptyStore) = Map.empty" by (simp add: emptyStore_def memView_def fun_eq_iff)
  show "sqsReach memBolt sampleExt sampleIdentity emptyStore sampleStore"
    unfolding sampleStore_def Let_def
    using sqsReach.step [OF sqsReach.step [OF sqsReach.start sqsStep.create] sqsStep.send]
    by (metis (no_types) store.select_convs(1) emptyStore_def)
qed

end
