(* ===== verification/SqsDelivery.thy ===== *)
theory SqsDelivery
  imports SqsInvariant
begin

text \<open>
  What receiving, sending, deleting and hiding do to the messages: delivery order and group locks,
  conservation of messages under redrive, deduplication, the identity check of receipt handles, and
  the wake-ups of the notifier.
\<close>

subsection \<open>Receipt handles decode\<close>

lemma decode_encodeHandle: "decodeHandle (encodeHandle (seqKey s) mid) = Some (seqKey s, mid)"
proof -
  have "take 8 (strBytes (seqKey s @ mid)) = strBytes (seqKey s)" "drop 8 (strBytes (seqKey s @ mid)) = strBytes mid"
    by (simp_all add: strBytes_def)
  then show ?thesis by (simp add: decodeHandle_def encodeHandle_def DecodeString_EncodeToString)
qed

subsection \<open>The scan\<close>

definition messagesOf :: "(string \<times> stored) list \<Rightarrow> message list" where
  "messagesOf items = concat (map (\<lambda>(_, r). case r of MessageRec m \<Rightarrow> [m] | _ \<Rightarrow> []) items)"

definition exhausted :: "queue \<Rightarrow> message \<Rightarrow> bool" where
  "exhausted q m = (DeadLetterTarget q \<noteq> [] \<and> MaxReceiveCount q > 0 \<and> ReceiveCount m \<ge> MaxReceiveCount q)"

definition ready :: "queue \<Rightarrow> int \<Rightarrow> message \<Rightarrow> bool" where
  "ready q now m = (\<not> expired q now m \<and> VisibleAt m \<le> now)"

lemma messagesOf_simps [simp]:
  "messagesOf [] = []" "messagesOf ((k, MessageRec m) # rest) = m # messagesOf rest"
  by (simp_all add: messagesOf_def)

lemma messagesOf_skip: "(\<And>m. r \<noteq> MessageRec m) \<Longrightarrow> messagesOf ((k, r) # rest) = messagesOf rest"
  by (cases r) (auto simp: messagesOf_def)

lemma messagesOf_mem: "m \<in> set (messagesOf items) \<longleftrightarrow> (\<exists>k. (k, MessageRec m) \<in> set items)"
  by (force simp: messagesOf_def split: stored.splits)

text \<open>What a scan adds to the three lists, and which messages it may have picked.\<close>

definition scanned :: "queue \<Rightarrow> int \<Rightarrow> int \<Rightarrow> (string \<times> stored) list \<Rightarrow> scan \<Rightarrow> scan \<Rightarrow> message list \<Rightarrow> message list \<Rightarrow> string list \<Rightarrow> bool" where
  "scanned q now vis items s s' ds xs es =
     (deliver s' = deliver s @ map (delivered now vis) ds \<and> dlqMsgs s' = dlqMsgs s @ xs \<and>
      expireKeys s' = expireKeys s @ es \<and> subseq ds (messagesOf items) \<and> subseq xs (messagesOf items) \<and>
      (\<forall>m\<in>set ds. ready q now m \<and> \<not> exhausted q m \<and> (FIFO q \<longrightarrow> GroupID m \<notin> set (locked s))) \<and>
      (FIFO q \<longrightarrow> distinct (map GroupID ds)) \<and>
      (\<forall>m\<in>set xs. ready q now m \<and> exhausted q m) \<and>
      (\<forall>k\<in>set es. \<exists>m. (k, MessageRec m) \<in> set items \<and> expired q now m) \<and>
      set (locked s') = (if FIFO q then GroupID ` set ds else {}) \<union> set (locked s))"

lemma scanMessage_scanned:
  "\<exists>ds xs es. scanned q now vis [(k, MessageRec m)] s (scanMessage q now vis k m s) ds xs es"
proof -
  consider (exp) "expired q now m" | (hid) "\<not> expired q now m" "VisibleAt m > now"
    | (lock) "ready q now m" "FIFO q \<and> GroupID m \<in> set (locked s)"
    | (dead) "ready q now m" "exhausted q m" "\<not> (FIFO q \<and> GroupID m \<in> set (locked s))"
    | (dlv) "ready q now m" "\<not> exhausted q m" "\<not> (FIFO q \<and> GroupID m \<in> set (locked s))"
    unfolding ready_def by linarith
  then show ?thesis
  proof cases
    case exp
    then have "scanned q now vis [(k, MessageRec m)] s (scanMessage q now vis k m s) [] [] [k]"
      by (simp add: scanned_def scanMessage_def)
    then show ?thesis by blast
  next
    case hid
    then have "scanned q now vis [(k, MessageRec m)] s (scanMessage q now vis k m s) [] [] []"
      by (simp add: scanned_def scanMessage_def)
    then show ?thesis by blast
  next
    case lock
    then have "scanMessage q now vis k m s = s" by (simp add: scanMessage_def ready_def)
    then have "scanned q now vis [(k, MessageRec m)] s (scanMessage q now vis k m s) [] [] []"
      by (simp add: scanned_def)
    then show ?thesis by blast
  next
    case dead
    then have "scanMessage q now vis k m s = s\<lparr>dlqMsgs := dlqMsgs s @ [m]\<rparr>"
      by (auto simp: scanMessage_def ready_def exhausted_def)
    then have "scanned q now vis [(k, MessageRec m)] s (scanMessage q now vis k m s) [] [m] []"
      using dead by (simp add: scanned_def)
    then show ?thesis by blast
  next
    case dlv
    then have "scanMessage q now vis k m s = s\<lparr>deliver := deliver s @ [delivered now vis m],
        locked := (if FIFO q then GroupID m # locked s else locked s)\<rparr>"
      by (auto simp: scanMessage_def ready_def exhausted_def)
    then have "scanned q now vis [(k, MessageRec m)] s (scanMessage q now vis k m s) [m] [] []"
      using dlv by (simp add: scanned_def)
    then show ?thesis by blast
  qed
qed

lemma scanned_trans:
  assumes a: "scanned q now vis i1 s s1 ds1 xs1 es1" and b: "scanned q now vis i2 s1 s2 ds2 xs2 es2"
  shows "scanned q now vis (i1 @ i2) s s2 (ds1 @ ds2) (xs1 @ xs2) (es1 @ es2)"
proof -
  have m: "messagesOf (i1 @ i2) = messagesOf i1 @ messagesOf i2" by (simp add: messagesOf_def)
  have l: "set (locked s1) = (if FIFO q then GroupID ` set ds1 else {}) \<union> set (locked s)"
    using a by (simp add: scanned_def)
  have "distinct (map GroupID (ds1 @ ds2))" if "FIFO q"
  proof -
    have "GroupID x \<noteq> GroupID y" if "x \<in> set ds1" "y \<in> set ds2" for x y
      using b l that \<open>FIFO q\<close> unfolding scanned_def by (metis UnI1 image_eqI)
    then show ?thesis using a b \<open>FIFO q\<close> unfolding scanned_def by fastforce
  qed
  moreover have "\<forall>x\<in>set (ds1 @ ds2). ready q now x \<and> \<not> exhausted q x \<and> (FIFO q \<longrightarrow> GroupID x \<notin> set (locked s))"
    using a b l unfolding scanned_def by auto
  moreover have "\<forall>k\<in>set (es1 @ es2). \<exists>x. (k, MessageRec x) \<in> set (i1 @ i2) \<and> expired q now x"
    using a b unfolding scanned_def by (metis Un_iff set_append)
  moreover have "subseq (ds1 @ ds2) (messagesOf (i1 @ i2))" "subseq (xs1 @ xs2) (messagesOf (i1 @ i2))"
    using a b unfolding scanned_def m by (auto intro: list_emb_append_mono)
  moreover have "\<forall>x\<in>set (xs1 @ xs2). ready q now x \<and> exhausted q x" using a b unfolding scanned_def by auto
  ultimately show ?thesis
    using a b l unfolding scanned_def by (simp add: image_Un Un_ac)
qed

lemma scanItems_scanned: "\<exists>ds xs es. scanned q now vis items s (scanItems q now vis mx items s) ds xs es"
proof (induction items arbitrary: s)
  case Nil
  have "scanned q now vis [] s s [] [] []" by (simp add: scanned_def)
  then show ?case by auto
next
  case (Cons x rest)
  obtain k r where x: "x = (k, r)" by fastforce
  define s1 where "s1 = (case r of MessageRec m \<Rightarrow> scanMessage q now vis k m s | _ \<Rightarrow> s)"
  have skip: "scanned q now vis items s s [] [] []" for items by (simp add: scanned_def)
  have "\<exists>ds xs es. scanned q now vis [x] s s1 ds xs es"
    using scanMessage_scanned skip by (cases r) (auto simp: x s1_def, blast+)
  then obtain ds xs es where one: "scanned q now vis [x] s s1 ds xs es" by blast
  obtain ds' xs' es' where two: "scanned q now vis rest s1 (scanItems q now vis mx rest s1) ds' xs' es'"
    using Cons.IH by blast
  show ?case
  proof (cases "length (deliver s) < mx")
    case True
    then have "scanItems q now vis mx (x # rest) s = scanItems q now vis mx rest s1" by (simp add: x s1_def)
    then show ?thesis using scanned_trans [OF one two] by auto
  next
    case False
    then have "scanItems q now vis mx (x # rest) s = s" by (simp add: x)
    then show ?thesis using skip by auto
  qed
qed

lemma scanItems_length: "length (deliver s) \<le> mx \<Longrightarrow> length (deliver (scanItems q now vis mx items s)) \<le> mx"
proof (induction items arbitrary: s)
  case (Cons x rest)
  obtain k r where x: "x = (k, r)" by fastforce
  define s1 where "s1 = (case r of MessageRec m \<Rightarrow> scanMessage q now vis k m s | _ \<Rightarrow> s)"
  have "length (deliver s1) \<le> Suc (length (deliver s))"
    by (auto simp: s1_def scanMessage_def split: stored.splits)
  then show ?case using Cons by (simp add: x s1_def [symmetric])
qed simp

subsection \<open>Moving to the dead-letter queue\<close>

text \<open>A copy of a message under another sequence number.\<close>

definition sameMessage :: "message \<Rightarrow> message \<Rightarrow> bool" where
  "sameMessage a b =
     (ID a = ID b \<and> Body a = Body b \<and> Attrs a = Attrs b \<and> GroupID a = GroupID b \<and> DedupID a = DedupID b \<and> Sent a = Sent b)"

definition contentsOf :: "(64 word \<times> (string \<Rightarrow> stored option)) option \<Rightarrow> 64 word \<times> (string \<Rightarrow> stored option)" where
  "contentsOf v = (case v of None \<Rightarrow> (0, Map.empty) | Some c \<Rightarrow> c)"

context sqs_store
begin

lemma getQueue_cong:
  "view tx metaBucket = view tx' metaBucket \<Longrightarrow> getQueue K tx name = getQueue K tx' name"
  using bucketGet [of tx metaBucket] bucketGet [of tx' metaBucket]
  by (cases "view tx metaBucket") (auto simp: getQueue_def hasBucket)

lemma create_contents:
  "createBucket K tx b = Some tx' \<Longrightarrow> view tx' = (view tx)(b \<mapsto> contentsOf (view tx b))"
  using createBucket [of tx b tx'] by (auto simp: contentsOf_def fun_eq_iff split: option.splits)

lemma moveToDLQ_effect:
  assumes "moveToDLQ K now tx dlq m = (Inr True, tx')" "contentsOf (view tx (msgBucket dlq)) = (d, md)"
  shows "view tx' = (view tx)(msgBucket dlq \<mapsto>
    (d + 1, md(seqKey (d + 1) \<mapsto> MessageRec (m\<lparr>Seq := d + 1, ReceiveCount := 0, VisibleAt := now\<rparr>))))"
proof -
  obtain tx1 seq tx2 where t: "createBucket K tx (msgBucket dlq) = Some tx1"
    "nextSequence K tx1 (msgBucket dlq) = (seq, tx2)"
    "putMessage K (msgBucket dlq) (m\<lparr>Seq := seq, ReceiveCount := 0, VisibleAt := now\<rparr>) tx2 = Some tx'"
    using assms(1) by (auto simp: moveToDLQ_def Let_def split: sum.splits option.splits prod.splits)
  have v1: "view tx1 = (view tx)(msgBucket dlq \<mapsto> (d, md))" using create_contents [OF t(1)] assms(2) by simp
  then have v2: "seq = d + 1" "view tx2 = (view tx)(msgBucket dlq \<mapsto> (d + 1, md))"
    using nextSequence [of tx1 "msgBucket dlq" d md, OF _ t(2)] by (simp_all add: fun_upd_def fun_eq_iff)
  show ?thesis
    using bucketPut [of tx2 "msgBucket dlq" "d + 1" md] t(3) v2 by (fastforce simp: putMessage_def fun_eq_iff)
qed

lemma moveToDLQ_False: "moveToDLQ K now tx dlq m = (Inr False, tx') \<Longrightarrow> tx' = tx \<and> (\<exists>e. getQueue K tx dlq = Inl e)"
  by (auto simp: moveToDLQ_def Let_def split: sum.splits option.splits prod.splits)

lemma moveToDLQ_missing: "getQueue K tx dlq = Inl e \<Longrightarrow> moveToDLQ K now tx dlq m = (Inr False, tx)"
  by (simp add: moveToDLQ_def)

lemma redrive_missing: "getQueue K tx dlq = Inl e \<Longrightarrow> redrive K now b dlq ms tx = (Inr [], tx)"
  by (induction ms) (simp_all add: moveToDLQ_missing)

lemma redrive_effect:
  assumes "redrive K now (msgBucket q) dlq ms tx = (Inr hits, tx')" "getQueue K tx dlq = Inr qd" "q \<noteq> dlq"
    "view tx (msgBucket q) = Some (n, mm)" "contentsOf (view tx (msgBucket dlq)) = (d, md)" "length ms < 2 ^ 64"
  shows "view tx' (msgBucket q) = Some (n, mm |` (- (seqKey \<circ> Seq) ` set ms)) \<and>
    (\<forall>b. b \<noteq> msgBucket q \<longrightarrow> b \<noteq> msgBucket dlq \<longrightarrow> view tx' b = view tx b) \<and>
    (\<exists>md'. contentsOf (view tx' (msgBucket dlq)) = (d + of_nat (length ms), md') \<and>
       (\<forall>j<length ms. \<exists>c. md' (seqKey (d + of_nat (Suc j))) = Some (MessageRec c) \<and> sameMessage c (ms ! j)) \<and>
       (\<forall>k. (\<forall>j<length ms. k \<noteq> seqKey (d + of_nat (Suc j))) \<longrightarrow> md' k = md k))"
  using assms
proof (induction ms arbitrary: tx hits mm d md)
  case Nil
  have "mm |` UNIV = mm" by (simp add: restrict_map_def)
  then show ?case using Nil by auto
next
  case (Cons m ms)
  obtain r tx1 where r: "moveToDLQ K now tx dlq m = (r, tx1)" by fastforce
  have "r = Inr True"
    using r Cons.prems(1,2) moveToDLQ_False [of now tx dlq m tx1] by (cases r) auto
  define c where "c = m\<lparr>Seq := d + 1, ReceiveCount := 0, VisibleAt := now\<rparr>"
  have v1: "view tx1 = (view tx)(msgBucket dlq \<mapsto> (d + 1, md(seqKey (d + 1) \<mapsto> MessageRec c)))"
    using moveToDLQ_effect [OF _ Cons.prems(5)] r \<open>r = Inr True\<close> by (simp add: c_def)
  define tx2 where "tx2 = bucketDelete K tx1 (msgBucket q) (seqKey (Seq m))"
  have "view tx1 (msgBucket q) = Some (n, mm)" using v1 Cons.prems(3,4) by simp
  from bucketDelete [OF this] have v2: "view tx2 = (view tx1)(msgBucket q \<mapsto> (n, mm(seqKey (Seq m) := None)))"
    by (simp add: tx2_def)
  obtain hits' where red: "redrive K now (msgBucket q) dlq ms tx2 = (Inr hits', tx')"
    using Cons.prems(1) r \<open>r = Inr True\<close> by (auto simp: tx2_def split: prod.splits sum.splits)
  have gq: "getQueue K tx2 dlq = Inr qd" using getQueue_cong [of tx2 tx] Cons.prems(2) by (simp add: v1 v2)
  have con: "contentsOf (view tx2 (msgBucket dlq)) = (d + 1, md(seqKey (d + 1) \<mapsto> MessageRec c))"
    using Cons.prems(3) by (simp add: v1 v2 contentsOf_def)
  have qv: "view tx2 (msgBucket q) = Some (n, mm(seqKey (Seq m) := None))" by (simp add: v2)
  have "length ms < 2 ^ 64" using Cons.prems(6) by simp
  from Cons.IH [OF red gq Cons.prems(3) qv con this] obtain md' where
    IH: "view tx' (msgBucket q) = Some (n, (mm(seqKey (Seq m) := None)) |` (- (seqKey \<circ> Seq) ` set ms))"
    "\<forall>b. b \<noteq> msgBucket q \<longrightarrow> b \<noteq> msgBucket dlq \<longrightarrow> view tx' b = view tx2 b"
    "contentsOf (view tx' (msgBucket dlq)) = (d + 1 + of_nat (length ms), md')"
    "\<forall>j<length ms. \<exists>c. md' (seqKey (d + 1 + of_nat (Suc j))) = Some (MessageRec c) \<and> sameMessage c (ms ! j)"
    "\<forall>k. (\<forall>j<length ms. k \<noteq> seqKey (d + 1 + of_nat (Suc j))) \<longrightarrow> md' k = (md(seqKey (d + 1) \<mapsto> MessageRec c)) k"
    by blast
  have sh: "d + 1 + of_nat j = d + of_nat (Suc j)" for j by simp
  have "(of_nat (Suc j) :: 64 word) \<noteq> 0" if "j < length ms" for j
    using that Cons.prems(6) by (auto simp: word_of_nat_eq_0_iff simp del: of_nat_Suc dest!: dvd_imp_le)
  then have first: "md' (seqKey (d + 1)) = Some (MessageRec c)" using IH(5) by (simp del: of_nat_Suc)
  have "\<exists>x. md' (seqKey (d + of_nat (Suc j))) = Some (MessageRec x) \<and> sameMessage x ((m # ms) ! j)"
    if "j < length (m # ms)" for j
  proof (cases j)
    case 0
    then show ?thesis using first by (auto simp: sameMessage_def c_def)
  next
    case (Suc i)
    then have "i < length ms" using that by simp
    then show ?thesis using IH(4) unfolding Suc sh [of "Suc i", symmetric] nth_Cons_Suc by blast
  qed
  moreover have "md' k = md k" if "\<forall>j<length (m # ms). k \<noteq> seqKey (d + of_nat (Suc j))" for k
  proof -
    have "k \<noteq> seqKey (d + 1)" using that by (metis One_nat_def length_greater_0_conv list.discI of_nat_1)
    moreover have "\<forall>j<length ms. k \<noteq> seqKey (d + 1 + of_nat (Suc j))" using that sh by (metis Suc_less_eq length_Cons)
    ultimately show ?thesis using IH(5) by simp
  qed
  moreover have "(mm(seqKey (Seq m) := None)) |` (- (seqKey \<circ> Seq) ` set ms) = mm |` (- (seqKey \<circ> Seq) ` set (m # ms))"
    by (auto simp: restrict_map_def fun_eq_iff)
  ultimately show ?case using IH(1,2,3) sh [of "length ms"] by (auto simp: v1 v2 simp del: of_nat_Suc)
qed

end

subsection \<open>The effect of a delivery pass\<close>

lemma find_SomeD: "find P xs = Some x \<Longrightarrow> x \<in> set xs \<and> P x"
  by (induction xs) (auto split: if_splits)

lemma fold_put_lookup:
  assumes "distinct (map (seqKey \<circ> Seq) ms)"
  shows "fold (\<lambda>m mm. mm(seqKey (Seq m) \<mapsto> MessageRec m)) ms mm k =
     (case find (\<lambda>m. seqKey (Seq m) = k) ms of Some m \<Rightarrow> Some (MessageRec m) | None \<Rightarrow> mm k)"
  using assms
proof (induction ms arbitrary: mm)
  case (Cons m ms)
  have "find (\<lambda>x. seqKey (Seq x) = k) ms = None" if "seqKey (Seq m) = k"
    using Cons.prems that by (auto simp: find_None_iff image_iff)
  then show ?case using Cons by (auto split: option.splits)
qed simp

context sqs_store
begin

lemma putAll_effect:
  "putAll K b ms tx = (Inr u, tx') \<Longrightarrow> view tx b = Some (n, mm) \<Longrightarrow>
   view tx' = (view tx)(b \<mapsto> (n, fold (\<lambda>m mm. mm(seqKey (Seq m) \<mapsto> MessageRec m)) ms mm))"
proof (induction ms arbitrary: tx mm)
  case (Cons m ms)
  then obtain tx1 where t: "putMessage K b m tx = Some tx1" "putAll K b ms tx1 = (Inr u, tx')"
    by (auto split: option.splits)
  have v: "view tx1 = (view tx)(b \<mapsto> (n, mm(seqKey (Seq m) \<mapsto> MessageRec m)))"
    using bucketPut [OF Cons.prems(2)] t(1) by (simp add: putMessage_def)
  then have "view tx1 b = Some (n, mm(seqKey (Seq m) \<mapsto> MessageRec m))" by simp
  from Cons.IH [OF t(2) this] show ?case unfolding v by (simp only: fun_upd_upd fold_simps)
qed (auto simp: fun_eq_iff)

lemma items_messages:
  assumes "inv tx" "view tx (msgBucket q) = Some (n, mm)"
  shows "map fst (bucketItems K tx (msgBucket q)) = map (seqKey \<circ> Seq) (messagesOf (bucketItems K tx (msgBucket q)))"
    and "m \<in> set (messagesOf (bucketItems K tx (msgBucket q))) \<longleftrightarrow> mm (seqKey (Seq m)) = Some (MessageRec m)"
proof -
  have key: "\<exists>m. r = MessageRec m \<and> k = seqKey (Seq m)" if "(k, r) \<in> set (bucketItems K tx (msgBucket q))" for k r
    using that invD [OF assms] items_iff [OF assms(2)] by fastforce
  have "map fst xs = map (seqKey \<circ> Seq) (messagesOf xs)"
    if "\<forall>(k, r)\<in>set xs. \<exists>m. r = MessageRec m \<and> k = seqKey (Seq m)" for xs
    using that by (induction xs) auto
  then show "map fst (bucketItems K tx (msgBucket q)) = map (seqKey \<circ> Seq) (messagesOf (bucketItems K tx (msgBucket q)))"
    using key by blast
  show "m \<in> set (messagesOf (bucketItems K tx (msgBucket q))) \<longleftrightarrow> mm (seqKey (Seq m)) = Some (MessageRec m)"
    using key items_iff [OF assms(2)] by (force simp: messagesOf_mem)
qed

lemma items_sorted_seq:
  assumes "inv tx" "view tx (msgBucket q) = Some (n, mm)"
  shows "sorted_wrt (<) (map Seq (messagesOf (bucketItems K tx (msgBucket q))))"
proof -
  have "sorted_wrt (<) (map (seqKey \<circ> Seq) (messagesOf (bucketItems K tx (msgBucket q))))"
    using bucketItems_sorted [OF assms(2)] items_messages(1) [OF assms] by simp
  then show ?thesis by (simp add: sorted_wrt_map seqKey_less)
qed

end

lemma Seq_delivered [simp]: "Seq (delivered now vis m) = Seq m"
  by (simp add: delivered_def)

lemma subseq_mem: "subseq xs ys \<Longrightarrow> x \<in> set xs \<Longrightarrow> x \<in> set ys"
  by (induction rule: list_emb.induct) auto

lemma sorted_wrt_subseq: "subseq xs ys \<Longrightarrow> sorted_wrt P ys \<Longrightarrow> sorted_wrt P xs"
  by (induction rule: list_emb.induct) (auto dest: list_emb_set)

text \<open>
  A successful pass in parts: the messages \<open>ds\<close> it delivers, the exhausted ones \<open>xs\<close>, the expired
  keys \<open>es\<close>, and the transaction between the redrive and the writes.
\<close>

definition visOf :: "queue \<Rightarrow> int \<Rightarrow> int" where
  "visOf qu vo = (if vo \<ge> 0 then vo else VisibilityTimeout qu)"

definition startScan :: "queue \<Rightarrow> int \<Rightarrow> (string \<times> stored) list \<Rightarrow> scan" where
  "startScan qu now items =
     \<lparr>expireKeys = [], dlqMsgs = [], deliver = [],
      locked = (if FIFO qu then inFlightGroups now items else []), minVisible = 0\<rparr>"

context sqs_store
begin

lemma pass_parts:
  assumes queue: "getQueue K tx q = Inr qu" and bucket: "view tx (msgBucket q) = Some (n, mm)"
    and pass: "receiveOnce K now q mx vo tx = (Inr (ms, nv, hits), tx')"
  obtains ds xs es s tx2 where
    "scanned qu now (visOf qu vo) (bucketItems K tx (msgBucket q)) (startScan qu now (bucketItems K tx (msgBucket q))) s ds xs es"
    "length ms \<le> mx" "ms = map (delivered now (visOf qu vo)) ds"
    "redrive K now (msgBucket q) (DeadLetterTarget qu) xs
       (fold (\<lambda>k t. bucketDelete K t (msgBucket q) k) es tx) = (Inr hits, tx2)"
    "putAll K (msgBucket q) ms tx2 = (Inr (), tx')"
proof -
  let ?b = "msgBucket q" and ?vis = "visOf qu vo"
  let ?s0 = "startScan qu now (bucketItems K tx ?b)"
  define s where "s = scanQueue K now tx qu ?b mx vo"
  have s: "s = scanItems qu now ?vis mx (bucketItems K tx ?b) ?s0"
    by (simp add: s_def scanQueue_def visOf_def startScan_def Let_def)
  obtain ds xs es where sc: "scanned qu now ?vis (bucketItems K tx ?b) ?s0 s ds xs es"
    unfolding s using scanItems_scanned by blast
  then have l: "deliver s = map (delivered now ?vis) ds" "dlqMsgs s = xs" "expireKeys s = es"
    by (simp_all add: scanned_def startScan_def)
  have "hasBucket K tx ?b" by (simp add: hasBucket bucket)
  then obtain tx2 where t: "redrive K now ?b (DeadLetterTarget qu) (dlqMsgs s) (fold (\<lambda>k t. bucketDelete K t ?b k) (expireKeys s) tx)
        = (Inr hits, tx2)" "putAll K ?b (deliver s) tx2 = (Inr (), tx')" "ms = deliver s"
    using pass queue
    by (auto simp: receiveOnce_def Update_def receiveIn_def Let_def s_def [symmetric] split: prod.splits sum.splits)
  have "length (deliver s) \<le> mx" unfolding s by (rule scanItems_length) (simp add: startScan_def)
  with that [OF sc] l t show thesis by simp
qed

text \<open>The contents of the source queue's bucket after a pass.\<close>

lemma pass_bucket:
  assumes i: "inv tx" and queue: "getQueue K tx q = Inr qu" and bucket: "view tx (msgBucket q) = Some (n, mm)"
    and red: "redrive K now (msgBucket q) (DeadLetterTarget qu) xs
       (fold (\<lambda>k t. bucketDelete K t (msgBucket q) k) es tx) = (Inr hits, tx2)"
    and few: "length xs < 2 ^ 64" and dlq: "xs \<noteq> [] \<Longrightarrow> DeadLetterTarget qu \<noteq> []"
  shows "\<exists>mm2. view tx2 (msgBucket q) = Some (n, mm2) \<and>
     (\<forall>k. k \<notin> set es \<longrightarrow> mm2 k \<noteq> mm k \<longrightarrow>
        mm2 k = None \<and> (\<exists>x\<in>set xs. k = seqKey (Seq x) \<and>
          (\<exists>d md k' c. view tx2 (msgBucket (DeadLetterTarget qu)) = Some (d, md) \<and>
             md k' = Some (MessageRec c) \<and> sameMessage c x)))"
proof -
  let ?b = "msgBucket q" and ?dlq = "DeadLetterTarget qu"
  define tx1 where "tx1 = fold (\<lambda>k t. bucketDelete K t ?b k) es tx"
  have v1: "view tx1 = (view tx)(?b \<mapsto> (n, mm |` (- set es)))" unfolding tx1_def by (rule delete_keys [OF bucket])
  have qok: "queueOk qu" "Name qu = q" using getQueue_ok [OF i queue] by auto
  show ?thesis
  proof (cases "xs = [] \<or> (\<exists>e. getQueue K tx1 ?dlq = Inl e)")
    case True
    then have "tx2 = tx1" using red redrive_missing by (auto simp: tx1_def)
    then show ?thesis using v1 by (simp add: restrict_map_def)
  next
    case False
    then obtain qd where qd: "getQueue K tx1 ?dlq = Inr qd" by (cases "getQueue K tx1 ?dlq") auto
    have ne: "q \<noteq> ?dlq" using qok dlq False by (auto simp: queueOk_def)
    obtain d md where c: "contentsOf (view tx1 (msgBucket ?dlq)) = (d, md)" by fastforce
    have b1: "view tx1 ?b = Some (n, mm |` (- set es))" by (simp add: v1)
    from redrive_effect [OF red [folded tx1_def] qd ne b1 c few] obtain md' where
      e: "view tx2 ?b = Some (n, (mm |` (- set es)) |` (- (seqKey \<circ> Seq) ` set xs))"
      "contentsOf (view tx2 (msgBucket ?dlq)) = (d + of_nat (length xs), md')"
      "\<forall>j<length xs. \<exists>c. md' (seqKey (d + of_nat (Suc j))) = Some (MessageRec c) \<and> sameMessage c (xs ! j)"
      by blast
    have land: "\<exists>d md k' c. view tx2 (msgBucket ?dlq) = Some (d, md) \<and> md k' = Some (MessageRec c) \<and> sameMessage c x"
      if "x \<in> set xs" for x
    proof -
      obtain j where "j < length xs" "xs ! j = x" using \<open>x \<in> set xs\<close> by (auto simp: in_set_conv_nth)
      then obtain k' c where "md' k' = Some (MessageRec c)" "sameMessage c x" using e(3) by blast
      moreover have "view tx2 (msgBucket ?dlq) = Some (d + of_nat (length xs), md')"
        using e(2) \<open>md' k' = Some (MessageRec c)\<close> by (cases "view tx2 (msgBucket ?dlq)") (auto simp: contentsOf_def)
      ultimately show ?thesis by blast
    qed
    show ?thesis using e(1) land by (auto simp: restrict_map_def)
  qed
qed

end

subsection \<open>Delivery\<close>

lemma inFlightGroups_mem:
  "(k, MessageRec m) \<in> set items \<Longrightarrow> VisibleAt m > now \<Longrightarrow> GroupID m \<noteq> [] \<Longrightarrow> GroupID m \<in> set (inFlightGroups now items)"
  by (force simp: inFlightGroups_def)

text \<open>C16: a successful pass over a queue delivers at most as many messages as asked for, in the order
  of their sequence numbers. Each one was stored, visible and within its retention period, and had
  not used up its receives; it leaves with its receive count one higher and hidden for the visibility
  timeout. In a FIFO queue no delivered message belongs to a group that has a message in flight, and
  no two belong to the same group.\<close>

theorem receive_delivers:
  assumes "bolt_store K view" "sqsInv (view tx)" "getQueue K tx q = Inr qu" "view tx (msgBucket q) = Some (n, mm)"
    and "receiveOnce K now q mx vo tx = (Inr (ms, nv, hits), tx')"
  shows "length ms \<le> mx \<and> sorted_wrt (<) (map Seq ms) \<and>
     (\<forall>m\<in>set ms. \<exists>m0. mm (seqKey (Seq m0)) = Some (MessageRec m0) \<and> m = delivered now (visOf qu vo) m0 \<and>
        VisibleAt m0 \<le> now \<and> \<not> expired qu now m0 \<and> \<not> exhausted qu m0 \<and>
        (FIFO qu \<longrightarrow> (\<forall>k m1. mm k = Some (MessageRec m1) \<longrightarrow> VisibleAt m1 > now \<longrightarrow> GroupID m1 \<noteq> [] \<longrightarrow>
           GroupID m1 \<noteq> GroupID m0))) \<and>
     (FIFO qu \<longrightarrow> distinct (map GroupID ms))"
proof -
  have S: "sqs_store K view" by (rule sqs_storeI [OF assms(1)])
  let ?items = "bucketItems K tx (msgBucket q)"
  obtain ds xs es s tx2 where p:
    "scanned qu now (visOf qu vo) ?items (startScan qu now ?items) s ds xs es"
    "length ms \<le> mx" "ms = map (delivered now (visOf qu vo)) ds"
    by (rule sqs_store.pass_parts [OF S assms(3,4,5)])
  have sub: "subseq ds (messagesOf ?items)" and pick: "\<forall>m\<in>set ds. ready qu now m \<and> \<not> exhausted qu m \<and>
      (FIFO qu \<longrightarrow> GroupID m \<notin> set (inFlightGroups now ?items))" and grp: "FIFO qu \<longrightarrow> distinct (map GroupID ds)"
    using p(1) by (auto simp: scanned_def startScan_def)
  have srt: "sorted_wrt (<) (map Seq ds)"
    using sorted_wrt_subseq [OF sub] sqs_store.items_sorted_seq [OF S assms(2,4)] by (simp add: sorted_wrt_map)
  have mem: "mm (seqKey (Seq m0)) = Some (MessageRec m0)" if "m0 \<in> set ds" for m0
    using subseq_mem [OF sub that] sqs_store.items_messages(2) [OF S assms(2,4)] by simp
  have grp': "GroupID m1 \<noteq> GroupID m0"
    if "m0 \<in> set ds" "FIFO qu" "mm k = Some (MessageRec m1)" "VisibleAt m1 > now" "GroupID m1 \<noteq> []" for k m0 m1
  proof -
    have "(k, MessageRec m1) \<in> set ?items" using that(3) bolt_store.items_iff [OF assms(1,4)] by simp
    then have "GroupID m1 \<in> set (inFlightGroups now ?items)" using that(4,5) by (rule inFlightGroups_mem)
    then show ?thesis using pick that(1,2) by auto
  qed
  have gids: "map GroupID ms = map GroupID ds" by (simp add: p(3) delivered_def)
  show ?thesis
  proof (intro conjI ballI impI)
    show "length ms \<le> mx" by (rule p(2))
    show "sorted_wrt (<) (map Seq ms)" using srt by (simp add: p(3) comp_def)
    show "distinct (map GroupID ms)" if "FIFO qu" using grp that gids by simp
    fix m assume "m \<in> set ms"
    then obtain m0 where m0: "m0 \<in> set ds" "m = delivered now (visOf qu vo) m0" using p(3) by auto
    have "ready qu now m0 \<and> \<not> exhausted qu m0" using pick m0(1) by blast
    then show "\<exists>m0. mm (seqKey (Seq m0)) = Some (MessageRec m0) \<and> m = delivered now (visOf qu vo) m0 \<and>
        VisibleAt m0 \<le> now \<and> \<not> expired qu now m0 \<and> \<not> exhausted qu m0 \<and>
        (FIFO qu \<longrightarrow> (\<forall>k m1. mm k = Some (MessageRec m1) \<longrightarrow> VisibleAt m1 > now \<longrightarrow> GroupID m1 \<noteq> [] \<longrightarrow>
           GroupID m1 \<noteq> GroupID m0))"
      using mem [OF m0(1)] m0(2) grp' [OF m0(1)] unfolding ready_def by blast
  qed
qed

text \<open>C18: a pass loses no message. Whatever it delivers, hides or redrives, every message of the queue
  that is not past its retention period is afterwards still in the queue under its own key, or is in
  the dead-letter queue with the same identity, body, attributes and group. In particular, when the
  dead-letter queue has been deleted, exhausted messages stay where they are.\<close>

theorem receive_conserves:
  assumes "bolt_store K view" "sqsInv (view tx)" "getQueue K tx q = Inr qu" "view tx (msgBucket q) = Some (n, mm)"
    and "receiveOnce K now q mx vo tx = (Inr (ms, nv, hits), tx')"
    and "mm k = Some (MessageRec m)" and "\<not> expired qu now m" and "card (dom mm) < 2 ^ 64"
  shows "(\<exists>mm' m'. view tx' (msgBucket q) = Some (n, mm') \<and> mm' k = Some (MessageRec m') \<and> sameMessage m' m \<and> Seq m' = Seq m) \<or>
     (\<exists>d md k' c. DeadLetterTarget qu \<noteq> [] \<and> view tx' (msgBucket (DeadLetterTarget qu)) = Some (d, md) \<and>
        md k' = Some (MessageRec c) \<and> sameMessage c m)"
proof -
  have S: "sqs_store K view" by (rule sqs_storeI [OF assms(1)])
  let ?items = "bucketItems K tx (msgBucket q)"
  obtain ds xs es s tx2 where p:
    "scanned qu now (visOf qu vo) ?items (startScan qu now ?items) s ds xs es"
    "length ms \<le> mx" "ms = map (delivered now (visOf qu vo)) ds"
    "redrive K now (msgBucket q) (DeadLetterTarget qu) xs
       (fold (\<lambda>k t. bucketDelete K t (msgBucket q) k) es tx) = (Inr hits, tx2)"
    "putAll K (msgBucket q) ms tx2 = (Inr (), tx')"
    by (rule sqs_store.pass_parts [OF S assms(3,4,5)])
  have sub: "subseq ds (messagesOf ?items)" "subseq xs (messagesOf ?items)"
    and es: "\<forall>k\<in>set es. \<exists>m. (k, MessageRec m) \<in> set ?items \<and> expired qu now m"
    and ex: "\<forall>m\<in>set xs. exhausted qu m"
    using p(1) by (auto simp: scanned_def)
  have "length ?items < 2 ^ 64"
    using assms(8) bolt_store.items_distinct [OF assms(1,4)] bolt_store.bucketItems [OF assms(1,4)]
    by (metis distinct_card dom_map_of_conv_image_fst length_map set_map)
  moreover have "length (messagesOf ?items) = length ?items"
    using arg_cong [OF sqs_store.items_messages(1) [OF S assms(2,4)], of length] by simp
  ultimately have few: "length xs < 2 ^ 64" using list_emb_length [OF sub(2)] by linarith
  have dlq: "xs \<noteq> [] \<Longrightarrow> DeadLetterTarget qu \<noteq> []" using ex by (cases xs) (auto simp: exhausted_def)
  have mk: "k = seqKey (Seq m)" using sqs_store.invD [OF S assms(2,4,6)] by simp
  have kes: "k \<notin> set es" using es bolt_store.items_iff [OF assms(1,4)] assms(6,7) by fastforce
  from sqs_store.pass_bucket [OF S assms(2-4) p(4) few dlq] obtain mm2 where
    v2: "view tx2 (msgBucket q) = Some (n, mm2)" and
    moved: "mm2 k \<noteq> mm k \<Longrightarrow> (\<exists>x\<in>set xs. k = seqKey (Seq x) \<and>
       (\<exists>d md k' c. view tx2 (msgBucket (DeadLetterTarget qu)) = Some (d, md) \<and> md k' = Some (MessageRec c) \<and> sameMessage c x))"
    using kes by blast
  have v': "view tx' = (view tx2)(msgBucket q \<mapsto> (n, fold (\<lambda>m mm. mm(seqKey (Seq m) \<mapsto> MessageRec m)) ms mm2))"
    by (rule sqs_store.putAll_effect [OF S p(5) v2])
  have inq: "x \<in> set (messagesOf ?items) \<longleftrightarrow> mm (seqKey (Seq x)) = Some (MessageRec x)" for x
    by (rule sqs_store.items_messages(2) [OF S assms(2,4)])
  show ?thesis
  proof (cases "mm2 k = mm k")
    case True
    have srt: "sorted_wrt (<) (map Seq ds)"
      using sorted_wrt_subseq [OF sub(1)] sqs_store.items_sorted_seq [OF S assms(2,4)] by (simp add: sorted_wrt_map)
    then have "distinct (map Seq ms)" by (simp add: p(3) comp_def strict_sorted_iff)
    then have dist: "distinct (map (seqKey \<circ> Seq) ms)" by (simp add: distinct_map inj_on_def)
    have same: "sameMessage x m \<and> Seq x = Seq m" if "find (\<lambda>m. seqKey (Seq m) = k) ms = Some x" for x
    proof -
      obtain x0 where x0: "x0 \<in> set ds" "x = delivered now (visOf qu vo) x0" "seqKey (Seq x) = k"
        using find_SomeD [OF \<open>find _ ms = Some x\<close>] p(3) by auto
      then have "mm k = Some (MessageRec x0)" using inq [of x0] subseq_mem [OF sub(1) x0(1)] by simp
      then show ?thesis using assms(6) x0(2) by (simp add: sameMessage_def delivered_def)
    qed
    have "\<exists>m'. fold (\<lambda>m mm. mm(seqKey (Seq m) \<mapsto> MessageRec m)) ms mm2 k = Some (MessageRec m') \<and>
        sameMessage m' m \<and> Seq m' = Seq m"
    proof (cases "find (\<lambda>m. seqKey (Seq m) = k) ms")
      case None
      then show ?thesis using fold_put_lookup [OF dist, of mm2 k] True assms(6) by (simp add: sameMessage_def)
    next
      case (Some x)
      then show ?thesis using fold_put_lookup [OF dist, of mm2 k] same by simp
    qed
    then show ?thesis using v' by auto
  next
    case False
    then obtain x d md k' c where x: "x \<in> set xs" "k = seqKey (Seq x)"
      "view tx2 (msgBucket (DeadLetterTarget qu)) = Some (d, md)" "md k' = Some (MessageRec c)" "sameMessage c x"
      using moved by blast
    then have "mm k = Some (MessageRec x)" using inq [of x] subseq_mem [OF sub(2) x(1)] by simp
    then have "x = m" using assms(6) by simp
    moreover have "DeadLetterTarget qu \<noteq> []" using dlq x(1) by (cases xs) auto
    moreover have "DeadLetterTarget qu \<noteq> q"
      using sqs_store.getQueue_ok [OF S assms(2,3)] \<open>DeadLetterTarget qu \<noteq> []\<close> by (auto simp: queueOk_def)
    ultimately show ?thesis using x v' by auto
  qed
qed

subsection \<open>Receipt handles\<close>

context sqs_store
begin

lemma deleteIn_handle:
  assumes "view tx (msgBucket q) = Some (n, mm)"
  shows "deleteIn K q (receiptHandle m) tx =
     (case mm (seqKey (Seq m)) of
        None \<Rightarrow> (Inr (), tx)
      | Some r \<Rightarrow> (case r of
            MessageRec m1 \<Rightarrow> if ID m1 = ID m then (Inr (), bucketDelete K tx (msgBucket q) (seqKey (Seq m))) else (Inr (), tx)
          | _ \<Rightarrow> (Inl BadRecord, tx)))"
  using bucketGet [OF assms]
  by (simp add: deleteIn_def receiptHandle_def decode_encodeHandle hasBucket assms split: option.splits stored.splits)

end

text \<open>C20: deleting with the handle of a message removes from the queue exactly the message of that
  identity at that position, and nothing else anywhere: if the position holds another message by
  now (its sequence number was reused after a purge), or none, the store is left as it was, and the
  deletion still succeeds.\<close>

theorem delete_by_handle:
  assumes "bolt_store K view" "sqsInv (view tx)" "getQueue K tx q = Inr qu" "view tx (msgBucket q) = Some (n, mm)"
  shows "fst (DeleteMessage K q (receiptHandle m) tx) = Inr () \<and>
     view (snd (DeleteMessage K q (receiptHandle m) tx)) =
       (if \<exists>m1. mm (seqKey (Seq m)) = Some (MessageRec m1) \<and> ID m1 = ID m
        then (view tx)(msgBucket q \<mapsto> (n, mm(seqKey (Seq m) := None))) else view tx)"
proof -
  have S: "sqs_store K view" by (rule sqs_storeI [OF assms(1)])
  have d: "DeleteMessage K q (receiptHandle m) tx = Update (deleteIn K q (receiptHandle m)) tx"
    using assms(3) by (simp add: DeleteMessage_def Update_def)
  show ?thesis
  proof (cases "mm (seqKey (Seq m))")
    case (Some r)
    then obtain m1 where "r = MessageRec m1" using sqs_store.invD [OF S assms(2,4)] by fastforce
    then show ?thesis
      using Some sqs_store.deleteIn_handle [OF S assms(4), of m] bolt_store.bucketDelete [OF assms(1,4)]
      by (auto simp: d Update_def)
  qed (use sqs_store.deleteIn_handle [OF S assms(4), of m] in \<open>auto simp: d Update_def\<close>)
qed

text \<open>C21: the visibility of a message changes only within SQS's bounds. With a timeout outside 0 to
  43200 seconds the call fails and the store is unchanged; within them, the message the handle names
  (and no other) becomes visible exactly that many seconds from now: the 64-bit sum does not wrap
  for any clock before the year 2262 less twelve hours.\<close>

theorem changeVisibility_bounds:
  assumes "bolt_store K view" "sqsInv (view tx)" "getQueue K tx q = Inr qu" "view tx (msgBucket q) = Some (n, mm)"
    and "mm (seqKey (Seq m)) = Some (MessageRec m1)" and "ID m1 = ID m"
    and "0 \<le> now" and "now < 2 ^ 63 - 43200 * second"
  shows "if timeout < 0 \<or> timeout > 43200
     then (\<exists>e. ChangeVisibility K now q (receiptHandle m) timeout tx = (Inl e, tx))
     else fst (ChangeVisibility K now q (receiptHandle m) timeout tx) = Inl StoreFailure \<or>
       ChangeVisibility K now q (receiptHandle m) timeout tx =
         (Inr (), snd (ChangeVisibility K now q (receiptHandle m) timeout tx)) \<and>
       view (snd (ChangeVisibility K now q (receiptHandle m) timeout tx)) =
         (view tx)(msgBucket q \<mapsto> (n, mm(seqKey (Seq m) \<mapsto> MessageRec (m1\<lparr>VisibleAt := now + timeout * second\<rparr>))))"
proof -
  have S: "sqs_store K view" by (rule sqs_storeI [OF assms(1)])
  have k: "Seq m1 = Seq m" using sqs_store.invD [OF S assms(2,4,5)] by simp
  have w: "nanoAfter now timeout = now + timeout * second" if "0 \<le> timeout" "timeout \<le> 43200"
    using that assms(7,8) by (simp add: nanoAfter_def wrap64_def second_def)
  have g: "bucketGet K tx (msgBucket q) (seqKey (Seq m)) = Some (MessageRec m1)"
    using bolt_store.bucketGet [OF assms(1,4)] assms(5) by simp
  have e: "ChangeVisibility K now q (receiptHandle m) timeout tx = Update (changeVisibilityIn K now q (receiptHandle m, timeout)) tx"
    using assms(3) by (simp add: ChangeVisibility_def Update_def)
  show ?thesis
  proof (cases "timeout < 0 \<or> timeout > 43200")
    case True
    then show ?thesis unfolding e
      by (auto simp: Update_def changeVisibilityIn_def receiptHandle_def decode_encodeHandle)
  next
    case False
    then have "changeVisibilityIn K now q (receiptHandle m, timeout) tx =
        (case putMessage K (msgBucket q) (m1\<lparr>VisibleAt := now + timeout * second\<rparr>) tx of
           None \<Rightarrow> (Inl StoreFailure, tx) | Some tx1 \<Rightarrow> (Inr (), tx1))"
      using g w assms(4,6) bolt_store.hasBucket [OF assms(1)]
      by (simp add: changeVisibilityIn_def receiptHandle_def decode_encodeHandle)
    then show ?thesis
      using False bolt_store.bucketPut [OF assms(1,4)] k by (auto simp: e Update_def putMessage_def split: option.splits)
  qed
qed

subsection \<open>Deduplication\<close>

context sqs_store
begin

lemma recordDedup_effect:
  assumes "recordDedup K now tx q dedupID m = (Inr u, tx')"
  shows "view tx' (msgBucket q) = view tx (msgBucket q) \<and> view tx' metaBucket = view tx metaBucket \<and>
     (\<exists>n mm. view tx' (dedupBucket q) = Some (n, mm) \<and>
        mm dedupID = Some (DedupEntry \<lparr>At = unixSeconds now, recID = ID m, recMD5 = MD5Body m\<rparr>))"
proof -
  let ?b = "dedupBucket q"
  obtain tx1 where c: "createBucket K tx ?b = Some tx1" using assms by (auto simp: recordDedup_def split: option.splits)
  obtain n mm where v1: "view tx1 = (view tx)(?b \<mapsto> (n, mm))" using create_contents [OF c] by (cases "contentsOf (view tx ?b)") auto
  obtain mm2 where v2: "view (gcDedup K now ?b tx1) = (view tx)(?b \<mapsto> (n, mm2))"
    using delete_keys [of tx1 ?b n mm] v1 unfolding gcDedup_def by (metis fun_upd_same fun_upd_upd)
  have "bucketPut K (gcDedup K now ?b tx1) ?b dedupID (DedupEntry \<lparr>At = unixSeconds now, recID = ID m, recMD5 = MD5Body m\<rparr>) = Some tx'"
    using assms c by (auto simp: recordDedup_def Let_def split: option.splits)
  from bucketPut [OF _ this, of n mm2] v2 show ?thesis by simp
qed

end

definition dedupKey :: "go_ext \<Rightarrow> queue \<Rightarrow> sendItem \<Rightarrow> string" where
  "dedupKey G q it = (if itDedupID it = [] \<and> ContentBasedDedup q then md5hex G (itBody it) else itDedupID it)"

definition acceptable :: "queue \<Rightarrow> sendItem \<Rightarrow> bool" where
  "acceptable q it = (\<not> (MaxMessageSize q > 0 \<and> int (length (itBody it)) > MaxMessageSize q) \<and> itGroupID it \<noteq> [])"

lemma sendIn_key:
  "FIFO q \<Longrightarrow> acceptable q it \<Longrightarrow> dedupKey G q it \<noteq> [] \<Longrightarrow> sendIn K G now rnd tx q it =
    (case lookupDedup K now tx (Name q) (dedupKey G q it) of Some dm \<Rightarrow> (Inr (dm, False), tx)
     | None \<Rightarrow> enqueue K G now rnd tx q it (if itDelay it < 0 then DelaySeconds q else itDelay it) (dedupKey G q it))"
  unfolding sendIn_def acceptable_def dedupKey_def Let_def by (simp only: if_True if_False simp_thms)

context sqs_store
begin

lemma enqueue_fifo:
  assumes "enqueue K G now rnd tx q it delay dedupID = (Inr (m, sent), tx')" "FIFO q"
  shows "sent \<and> view tx' metaBucket = view tx metaBucket \<and>
     (\<exists>n mm. view tx' (dedupBucket (Name q)) = Some (n, mm) \<and>
        mm dedupID = Some (DedupEntry \<lparr>At = unixSeconds now, recID = ID m, recMD5 = MD5Body m\<rparr>))"
proof -
  let ?b = "msgBucket (Name q)"
  obtain tx1 seq tx2 tx3 where t: "createBucket K tx ?b = Some tx1" "nextSequence K tx1 ?b = (seq, tx2)"
    "putMessage K ?b m tx2 = Some tx3" "recordDedup K now tx3 (Name q) dedupID m = (Inr (), tx')" "sent"
    using assms by (auto simp: enqueue_def Let_def split: option.splits prod.splits sum.splits)
  obtain n mm where v1: "view tx1 = (view tx)(?b \<mapsto> (n, mm))"
    using create_contents [OF t(1)] by (cases "contentsOf (view tx ?b)") auto
  then have v2: "view tx2 = (view tx)(?b \<mapsto> (n + 1, mm))"
    using nextSequence [OF _ t(2), of n mm] by simp
  then have "view tx3 = (view tx)(?b \<mapsto> (n + 1, mm(seqKey (Seq m) \<mapsto> MessageRec m)))"
    using bucketPut [of tx2 ?b "n + 1" mm] t(3) by (simp add: putMessage_def)
  then show ?thesis using recordDedup_effect [OF t(4)] t(5) by simp
qed

end


end
