(* ===== verification/SqsServer.thy ===== *)
theory SqsServer
  imports SqsDelivery
begin

text \<open>
  The SQS server as a whole: what a receive pass is bound to deliver, the long-poll notifier,
  batch checks, and the concrete states at which the delivery theorems are evaluated.
\<close>

definition fifoAttrs :: "(string \<times> string) list" where
  "fifoAttrs = [(''FifoQueue'', ''true''), (''ContentBasedDeduplication'', ''true'')]"

definition fifoItem :: sendItem where
  "fifoItem = plainItem\<lparr>itGroupID := ''g''\<rparr>"

definition fifoEmpty :: "stored memory" where
  "fifoEmpty = snd (CreateQueue memBolt sampleExt sampleIdentity 0 ''jobs.fifo'' fifoAttrs [] [])"

definition fifoTx :: "stored memory" where
  "fifoTx = snd (sendTx memBolt sampleExt 0 (replicate 16 7) ''jobs.fifo'' fifoItem fifoEmpty)"

definition fifoQueue :: queue where
  "fifoQueue = projr (getQueue memBolt fifoTx ''jobs.fifo'')"

lemma fifo_queue:
  "getQueue memBolt fifoTx ''jobs.fifo'' = Inr fifoQueue" "getQueue memBolt fifoEmpty ''jobs.fifo'' = Inr fifoQueue"
  "FIFO fifoQueue"
  by code_simp+

lemma fifo_reach: "sqsReach memBolt sampleExt sampleIdentity emptyStore \<lparr>db = fifoTx, notify = newNotifier\<rparr>"
proof -
  have c: "sqsReach memBolt sampleExt sampleIdentity emptyStore \<lparr>db = fifoEmpty, notify = newNotifier\<rparr>"
    using sqsReach.step [OF sqsReach.start [of memBolt sampleExt sampleIdentity emptyStore]
        sqsStep.create [of memBolt sampleExt sampleIdentity emptyStore 0 "''jobs.fifo''" fifoAttrs "[]"]]
    by (simp add: emptyStore_def fifoEmpty_def)
  have "Send memBolt sampleExt 0 (replicate 16 7) ''jobs.fifo'' fifoItem \<lparr>db = fifoEmpty, notify = newNotifier\<rparr>
      = (Inr (fst (projr (fst (sendTx memBolt sampleExt 0 (replicate 16 7) ''jobs.fifo'' fifoItem fifoEmpty)))),
         \<lparr>db = fifoTx, notify = newNotifier\<rparr>)"
    by code_simp
  then show ?thesis using sqsReach.step [OF c sqsStep.send [of _ _ _ _ 0 "replicate 16 7" "''jobs.fifo''" fifoItem]]
    by simp
qed

lemma emptyStore_view: "memView (db emptyStore) = Map.empty"
  by (simp add: emptyStore_def memView_def fun_eq_iff)

lemma fifo_inv: "sqsInv (memView fifoTx)"
  using memSqs.inv_reach [OF fifo_reach emptyStore_view] by simp

definition fifoMsgs :: "64 word \<times> (string \<times> stored) list" where
  "fifoMsgs = the (map_of fifoTx (msgBucket ''jobs.fifo''))"

lemma fifo_view: "memView fifoTx (msgBucket ''jobs.fifo'') = Some (fst fifoMsgs, map_of (snd fifoMsgs))"
proof -
  have "map_of fifoTx (msgBucket ''jobs.fifo'') = Some fifoMsgs" by code_simp
  then show ?thesis by (simp add: memView_def case_prod_unfold)
qed

definition fifoReceipt :: "(message list \<times> int \<times> string list) \<times> stored memory" where
  "fifoReceipt = (let r = receiveOnce memBolt 10 ''jobs.fifo'' 5 (- 1) fifoTx in (projr (fst r), snd r))"

lemma fifo_receive:
  "receiveOnce memBolt 10 ''jobs.fifo'' 5 (- 1) fifoTx =
     (Inr (fst (fst fifoReceipt), fst (snd (fst fifoReceipt)), snd (snd (fst fifoReceipt))), snd fifoReceipt)"
  by code_simp

lemma fifo_receive_one: "length (fst (fst fifoReceipt)) = 1"
  by code_simp

theorem receive_delivers_witness:
  "length (fst (fst fifoReceipt)) = 1 \<and> length (fst (fst fifoReceipt)) \<le> 5 \<and>
   sorted_wrt (<) (map Seq (fst (fst fifoReceipt))) \<and> distinct (map GroupID (fst (fst fifoReceipt)))"
  using receive_delivers [OF mem.bolt_store_axioms, OF fifo_inv fifo_queue(1) fifo_view fifo_receive]
    fifo_receive_one fifo_queue(3) by simp

definition fifoMessage :: message where
  "fifoMessage = (case map_of (snd fifoMsgs) (seqKey 1) of Some (MessageRec m) \<Rightarrow> m | _ \<Rightarrow> zeroMessage)"

lemma fifo_message:
  "map_of (snd fifoMsgs) (seqKey (Seq fifoMessage)) = Some (MessageRec fifoMessage)"
  "\<not> expired fifoQueue 10 fifoMessage" "length (snd fifoMsgs) = 1" "DeadLetterTarget fifoQueue = []"
  by code_simp+

theorem receive_conserves_witness:
  "\<exists>mm' m'. memView (snd fifoReceipt) (msgBucket ''jobs.fifo'') = Some (fst fifoMsgs, mm') \<and>
     mm' (seqKey (Seq fifoMessage)) = Some (MessageRec m') \<and> sameMessage m' fifoMessage"
proof -
  have "card (dom (map_of (snd fifoMsgs))) \<le> length (snd fifoMsgs)"
    by (metis card_length dom_map_of_conv_image_fst length_map set_map)
  then have "card (dom (map_of (snd fifoMsgs))) < 2 ^ 64" using fifo_message(3) by simp
  from receive_conserves [OF mem.bolt_store_axioms, OF fifo_inv fifo_queue(1) fifo_view fifo_receive,
      OF fifo_message(1,2) this]
  show ?thesis using fifo_message(4) by auto
qed

theorem delete_by_handle_witness:
  "fst (DeleteMessage memBolt ''jobs.fifo'' (receiptHandle fifoMessage) fifoTx) = Inr () \<and>
   memView (snd (DeleteMessage memBolt ''jobs.fifo'' (receiptHandle fifoMessage) fifoTx)) =
     (memView fifoTx)(msgBucket ''jobs.fifo'' \<mapsto>
       (fst fifoMsgs, (map_of (snd fifoMsgs))(seqKey (Seq fifoMessage) := None)))"
  using delete_by_handle [OF mem.bolt_store_axioms, OF fifo_inv fifo_queue(1) fifo_view, of fifoMessage]
    fifo_message(1) by auto

theorem changeVisibility_bounds_witness:
  "\<exists>e. ChangeVisibility memBolt 10 ''jobs.fifo'' (receiptHandle fifoMessage) 43201 fifoTx = (Inl e, fifoTx)"
proof -
  have n: "(10 :: int) < 2 ^ 63 - 43200 * second" by (simp add: second_def)
  show ?thesis
    using changeVisibility_bounds [OF mem.bolt_store_axioms, OF fifo_inv fifo_queue(1) fifo_view, of fifoMessage fifoMessage 10 43201]
      fifo_message(1) n by simp
qed


subsection \<open>Nothing deliverable is skipped\<close>

lemma scanItems_extends: "set (deliver s) \<subseteq> set (deliver (scanItems q now vis mx items s))"
  using scanItems_scanned [of q now vis items s mx] by (auto simp: scanned_def)

lemma deliver_scanMessage:
  "deliver (scanMessage q now vis k m s) =
     deliver s @ (if ready q now m \<and> \<not> exhausted q m \<and> \<not> (FIFO q \<and> GroupID m \<in> set (locked s)) then [delivered now vis m] else [])"
  "set (locked (scanMessage q now vis k m s)) =
     set (locked s) \<union> (if ready q now m \<and> \<not> exhausted q m \<and> FIFO q then {GroupID m} else {})"
  by (auto simp: scanMessage_def ready_def exhausted_def)

lemma delivered_simps [simp]: "GroupID (delivered now vis m) = GroupID m"
  by (simp add: delivered_def)

definition served :: "queue \<Rightarrow> int \<Rightarrow> int \<Rightarrow> nat \<Rightarrow> message \<Rightarrow> message list \<Rightarrow> bool" where
  "served q now vis mx x ms =
     (delivered now vis x \<in> set ms \<or> (length ms = mx \<and> (\<forall>m\<in>set ms. Seq m < Seq x)) \<or>
      (FIFO q \<and> (\<exists>m\<in>set ms. GroupID m = GroupID x \<and> Seq m < Seq x)))"

lemma scan_serves:
  assumes "x \<in> set (messagesOf items)" "ready q now x" "\<not> exhausted q x"
    and "FIFO q \<longrightarrow> GroupID x \<notin> set (locked s)" "sorted_wrt (<) (map Seq (messagesOf items))"
    and "\<forall>m\<in>set (deliver s). \<forall>y\<in>set (messagesOf items). Seq m < Seq y" "length (deliver s) \<le> mx"
  shows "served q now vis mx x (deliver (scanItems q now vis mx items s))"
  using assms
proof (induction items arbitrary: s)
  case (Cons i rest)
  obtain k r where i: "i = (k, r)" by fastforce
  show ?case
  proof (cases "length (deliver s) < mx")
    case False
    then show ?thesis using Cons.prems by (auto simp: i served_def)
  next
    case True
    show ?thesis
    proof (cases "\<exists>h. r = MessageRec h")
      case False
      then show ?thesis using Cons.IH [of s] Cons.prems True by (auto simp: i messagesOf_skip split: stored.splits)
    next
      case msg: True
      then obtain h where h: "r = MessageRec h" by blast
      define s1 where "s1 = scanMessage q now vis k h s"
      note d = deliver_scanMessage [of q now vis k h s, folded s1_def]
      have run: "scanItems q now vis mx (i # rest) s = scanItems q now vis mx rest s1" using True by (simp add: i h s1_def)
      have ext: "set (deliver s1) \<subseteq> set (deliver (scanItems q now vis mx rest s1))" by (rule scanItems_extends)
      consider (head) "x = h" | (lock) "x \<in> set (messagesOf rest)" "FIFO q" "GroupID x = GroupID h" "ready q now h" "\<not> exhausted q h"
        | (free) "x \<in> set (messagesOf rest)" "FIFO q \<longrightarrow> GroupID x \<notin> set (locked s1)"
        using Cons.prems(1,4) d(2) by (fastforce simp: i h split: if_splits)
      then show ?thesis
      proof cases
        case head
        then have "delivered now vis x \<in> set (deliver s1)" using Cons.prems d(1) by auto
        then show ?thesis using ext run unfolding served_def by auto
      next
        case lock
        then have "delivered now vis h \<in> set (deliver s1)" using Cons.prems(4) d(1) by auto
        moreover have "Seq h < Seq x" using Cons.prems(5) lock(1) by (auto simp: i h)
        ultimately show ?thesis using ext run lock unfolding served_def by fastforce
      next
        case free
        have "\<forall>m\<in>set (deliver s1). \<forall>y\<in>set (messagesOf rest). Seq m < Seq y"
          using Cons.prems(5,6) d(1) by (auto simp: i h)
        moreover have "length (deliver s1) \<le> mx" using True d(1) by simp
        ultimately show ?thesis using Cons.IH [OF free(1) Cons.prems(2,3) free(2)] Cons.prems(5) run by (simp add: i h)
      qed
    qed
  qed
qed simp

text \<open>C17: a receive pass skips nothing it could deliver. Every stored message that is visible, within
  its retention period and has receives left (and, in a FIFO queue, whose group has no message in
  flight) is either delivered, or the batch is full of messages sent before it, or, in a FIFO queue,
  an earlier message of its own group is delivered instead. So a queue with a deliverable message
  never answers empty, and the messages of a group come out in the order they were sent.\<close>

theorem receive_serves:
  assumes "bolt_store K view" "sqsInv (view tx)" "getQueue K tx q = Inr qu" "view tx (msgBucket q) = Some (n, mm)"
    and "receiveOnce K now q mx vo tx = (Inr (ms, nv, hits), tx')"
    and "mm k = Some (MessageRec x)" "ready qu now x" "\<not> exhausted qu x"
    and "FIFO qu \<longrightarrow> (\<forall>k' m. mm k' = Some (MessageRec m) \<longrightarrow> VisibleAt m > now \<longrightarrow> GroupID m \<noteq> GroupID x)"
  shows "served qu now (visOf qu vo) mx x ms"
proof -
  have S: "sqs_store K view" by (rule sqs_storeI [OF assms(1)])
  let ?items = "bucketItems K tx (msgBucket q)"
  have "hasBucket K tx (msgBucket q)" using bolt_store.hasBucket [OF assms(1)] assms(4) by simp
  then have ms: "ms = deliver (scanItems qu now (visOf qu vo) mx ?items (startScan qu now ?items))"
    using assms(3,5)
    by (auto simp: receiveOnce_def Update_def receiveIn_def Let_def scanQueue_def visOf_def startScan_def
        split: prod.splits sum.splits)
  have iff: "(k, r) \<in> set ?items \<longleftrightarrow> mm k = Some r" for k r using bolt_store.items_iff [OF assms(1,4)] by simp
  have lock: "FIFO qu \<longrightarrow> GroupID x \<notin> set (locked (startScan qu now ?items))"
    using assms(9) iff by (force simp: startScan_def inFlightGroups_def split: stored.splits if_splits)
  have "x \<in> set (messagesOf ?items)" using iff assms(6) by (auto simp: messagesOf_mem)
  from scan_serves [OF this assms(7,8) lock] show ?thesis
    using sqs_store.items_sorted_seq [OF S assms(2,4)] unfolding ms by (simp add: startScan_def)
qed

theorem receive_serves_witness:
  "served fifoQueue 10 (visOf fifoQueue (- 1)) 5 fifoMessage (fst (fst fifoReceipt))"
proof -
  have r: "ready fifoQueue 10 fifoMessage" "\<not> exhausted fifoQueue fifoMessage" by code_simp+
  have one: "snd fifoMsgs = [(seqKey 1, MessageRec fifoMessage)]" "VisibleAt fifoMessage \<le> 10" by code_simp+
  have "FIFO fifoQueue \<longrightarrow> (\<forall>k' m. map_of (snd fifoMsgs) k' = Some (MessageRec m) \<longrightarrow> VisibleAt m > 10 \<longrightarrow>
     GroupID m \<noteq> GroupID fifoMessage)"
    using one by (auto split: if_splits)
  from receive_serves [OF mem.bolt_store_axioms, OF fifo_inv fifo_queue(1) fifo_view fifo_receive,
      OF fifo_message(1) r this] show ?thesis .
qed

subsection \<open>Long polling\<close>

text \<open>C23: a receive answers by its deadline. It asks for one to ten messages and waits at most twenty
  seconds, whatever the request and the queue say; a turn taken at or after the deadline returns, and
  one that sleeps sets its timer no later than the deadline, so that at the deadline at the latest it
  is runnable again; hence a poll that gets a turn at the deadline has returned.\<close>

theorem Receive_returns:
  assumes "bolt_store K view" "sqsInv (view tx)"
  shows "1 \<le> receiveMax mx \<and> receiveMax mx \<le> 10 \<and>
    now \<le> receiveDeadline K now q waitSec tx \<and> receiveDeadline K now q waitSec tx \<le> now + 20 * second \<and>
    (\<forall>ch wakeAt s s' t1 t2. receiveTurn K q n vo deadline t1 t2 s = (Sleeping ch wakeAt, s') \<longrightarrow>
       t2 < deadline \<and> wakeAt \<le> deadline \<and> awake ch wakeAt deadline (notify s')) \<and>
    (\<forall>turns. (\<exists>(t1, t2, s)\<in>set turns. t2 \<ge> receiveDeadline K now q waitSec tx) \<longrightarrow>
       (\<exists>r. Receive K now q mx waitSec vo tx turns = Some r))"
proof -
  have S: "sqs_store K view" by (rule sqs_storeI [OF assms(1)])
  have w: "0 \<le> queueDefaultWait K q tx" "queueDefaultWait K q tx \<le> 20"
    using sqs_store.getQueue_ok [OF S assms(2)]
    by (auto simp: queueDefaultWait_def queueOk_def split: sum.splits)
  have sleep: "t2 < d \<and> wakeAt \<le> d" if "receiveTurn K q m vo d t1 t2 s = (Sleeping ch wakeAt, s')" for d m t1 t2 s s' ch wakeAt
    using that by (auto simp: receiveTurn_def split: prod.splits sum.splits if_splits)
  have run: "\<exists>r. longPoll K q m vo d turns = Some r" if "\<exists>(t1, t2, s)\<in>set turns. t2 \<ge> d" for m d turns
    using that
  proof (induction turns)
    case (Cons t turns)
    obtain t1 t2 s where t: "t = (t1, t2, s)" by (cases t)
    obtain p s' where p: "receiveTurn K q m vo d t1 t2 s = (p, s')" by fastforce
    show ?case
    proof (cases p)
      case (Sleeping ch wakeAt)
      then have "t2 < d" using sleep p by blast
      then show ?thesis using Cons p Sleeping by (auto simp: t)
    qed (simp add: t p)
  qed simp
  show ?thesis
    using w sleep run
    by (auto simp: receiveMax_def maxReceiveBatch_def receiveDeadline_def receiveWait_def Let_def maxWaitTimeSeconds_def
        second_def awake_def Receive_def)
qed

theorem Receive_returns_witness:
  "\<exists>r. Receive memBolt 0 ''jobs.fifo'' 0 7 (- 1) fifoTx [(3, 4, \<lparr>db = fifoTx, notify = newNotifier\<rparr>), (7 * second, 7 * second, emptyStore)] = Some r"
proof -
  have "\<exists>(t1, t2, s)\<in>set [(3, 4, \<lparr>db = fifoTx, notify = newNotifier\<rparr>), (7 * second, 7 * second, emptyStore)].
      t2 \<ge> receiveDeadline memBolt 0 ''jobs.fifo'' 7 fifoTx"
    by (simp add: receiveDeadline_def receiveWait_def maxWaitTimeSeconds_def)
  then show ?thesis
    using Receive_returns [OF mem.bolt_store_axioms, OF fifo_inv, of 0 0 "''jobs.fifo''" 7] by blast
qed

subsection \<open>Creating and configuring queues\<close>

lemma applyRedrive_FIFO: "applyRedrive G q v lookup = Inr q' \<Longrightarrow> FIFO q' = FIFO q"
  by (auto simp: applyRedrive_def Let_def split: option.splits prod.splits if_splits sum.splits)

lemma setNumber_Inr: "setNumber G k v upd = Inr q \<longleftrightarrow> (\<exists>n. atoiAttr G k v = Inr n \<and> q = upd n)"
  by (auto simp: setNumber_def split: sum.splits)

lemma applyAttr_FIFO:
  assumes "applyAttr G q k v lookup = Inr q'"
  shows "FIFO q' = (if k = ''FifoQueue'' then v = ''true'' else FIFO q)"
proof (cases "k = ''FifoQueue''")
  case False
  then show ?thesis
    using assms unfolding applyAttr_def setNumber_Inr if_not_P [OF False]
    by (simp only: if_False split: if_split_asm) (auto simp: setNumber_Inr dest: applyRedrive_FIFO)
qed (use assms in \<open>auto simp: applyAttr_def\<close>)

lemma applyAttrs_FIFO:
  "applyAttrs G q attrs lookup = Inr q' \<Longrightarrow> distinct (map fst attrs) \<Longrightarrow>
   FIFO q' = (case map_of attrs ''FifoQueue'' of None \<Rightarrow> FIFO q | Some v \<Rightarrow> v = ''true'')"
proof (induction G q attrs lookup rule: applyAttrs.induct)
  case (2 G q k v rest lookup)
  then obtain q1 where q1: "applyAttr G q k v lookup = Inr q1" "applyAttrs G q1 rest lookup = Inr q'"
    by (auto split: sum.splits)
  have "map_of rest ''FifoQueue'' = None" if "k = ''FifoQueue''"
    using that 2(3) by (simp add: map_of_eq_None_iff)
  then show ?case using 2(1) [OF q1] 2(3) applyAttr_FIFO [OF q1(1)]
    by (cases "map_of rest ''FifoQueue''"; cases "k = ''FifoQueue''") simp_all
qed simp

text \<open>creating a queue never rewrites one. On an existing queue the call changes nothing and
  answers with that queue, or refuses naming an attribute that differs from the one given; a queue it
  does create is FIFO exactly when its name ends in \<^verbatim>\<open>.fifo\<close>.\<close>

theorem CreateQueue_contract:
  assumes "distinct (map fst attrs)"
  shows "case getQueue K tx name of
      Inr q \<Rightarrow> snd (CreateQueue K G i now name attrs tags tx) = tx \<and>
        (\<forall>q'. fst (CreateQueue K G i now name attrs tags tx) = Inr q' \<longrightarrow> q' = q \<and>
          (\<forall>(k, v)\<in>set attrs. sameAttrValue G (attrOf (configuredAttrs G i q) k) v)) \<and>
        (\<forall>k. fst (CreateQueue K G i now name attrs tags tx) = Inl (QueueExists k) \<longrightarrow>
          \<not> sameAttrValue G (attrOf (configuredAttrs G i q) k) (attrOf attrs k))
    | Inl _ \<Rightarrow> (\<forall>q. fst (CreateQueue K G i now name attrs tags tx) = Inr q \<longrightarrow> FIFO q = HasSuffix name ''.fifo'')"
proof -
  have attr: "attrOf attrs k = v" if "(k, v) \<in> set attrs" for k v using assms that by (simp add: attrOf_def)
  have diff: "case firstDifference G hv attrs ks of
      None \<Rightarrow> \<forall>k\<in>set ks. sameAttrValue G (attrOf hv k) (attrOf attrs k)
    | Some k \<Rightarrow> \<not> sameAttrValue G (attrOf hv k) (attrOf attrs k)" for hv ks
    by (induction ks) (auto split: option.splits)
  have valid: "validQueueName name \<noteq> Some (QueueExists k)" for k by (auto simp: validQueueName_def Let_def)
  show ?thesis
  proof (cases "getQueue K tx name")
    case (Inr q)
    show ?thesis using Inr diff [where hv = "configuredAttrs G i q" and ks = "sort (map fst attrs)"] attr valid
      by (fastforce simp: CreateQueue_def Let_def Update_def createIn_def split: option.splits if_splits prod.splits)
  next
    case (Inl e)
    have "FIFO q = HasSuffix name ''.fifo''" if "fst (CreateQueue K G i now name attrs tags tx) = Inr q" for q
    proof -
      let ?new = "newQueue name (attrOf attrs ''FifoQueue'' = ''true'') (unixSeconds now)"
      have guard: "(attrOf attrs ''FifoQueue'' = ''true'') = HasSuffix name ''.fifo''"
        using \<open>fst _ = Inr q\<close> by (auto simp: CreateQueue_def Let_def split: option.splits if_splits)
      obtain q1 where q1: "applyAttrs G ?new attrs (Some (getQueue K tx)) = Inr q1" "FIFO q = FIFO q1"
        using \<open>fst _ = Inr q\<close> Inl
        by (auto simp: CreateQueue_def Let_def Update_def createIn_def split: option.splits if_splits prod.splits sum.splits)
      then show ?thesis using applyAttrs_FIFO [OF q1(1) assms] guard
        by (auto simp: newQueue_def attrOf_def split: option.splits)
    qed
    then show ?thesis using Inl by simp
  qed
qed

theorem CreateQueue_contract_witness:
  "fst (CreateQueue memBolt sampleExt sampleIdentity 0 ''jobs.fifo'' fifoAttrs [] []) = Inr fifoQueue \<and>
   FIFO fifoQueue = HasSuffix ''jobs.fifo'' ''.fifo''"
proof -
  have "distinct (map fst fifoAttrs)" "getQueue memBolt [] ''jobs.fifo'' = Inl (QueueMissing ''jobs.fifo'')"
    "fst (CreateQueue memBolt sampleExt sampleIdentity 0 ''jobs.fifo'' fifoAttrs [] []) = Inr fifoQueue" by code_simp+
  then show ?thesis
    using CreateQueue_contract [where K = memBolt and tx = "[]" and name = "''jobs.fifo''" and attrs = fifoAttrs
        and G = sampleExt and i = sampleIdentity and now = 0 and tags = "[]"]
    by simp
qed

text \<open>the type of a queue is not fixed by its creation. For every existing queue,
  SetQueueAttributes with \<^verbatim>\<open>FifoQueue\<close> succeeds (unless the write itself fails) and turns it into a FIFO
  or a standard queue whatever its name ends in.\<close>

theorem SetAttributes_changes_type:
  assumes "bolt_store K view" "sqsInv (view tx)" "getQueue K tx q = Inr qu"
  shows "SetAttributes K G now q [(''FifoQueue'', formatBool b)] tx = (Inl StoreFailure, tx) \<or>
    (\<exists>tx'. SetAttributes K G now q [(''FifoQueue'', formatBool b)] tx = (Inr (), tx') \<and>
       getQueue K tx' q = Inr (qu\<lparr>FIFO := b, Modified := unixSeconds now\<rparr>))"
proof -
  have S: "sqs_store K view" by (rule sqs_storeI [OF assms(1)])
  let ?q = "qu\<lparr>FIFO := b, Modified := unixSeconds now\<rparr>"
  have name: "Name qu = q" "metaBucket \<in> dom (view tx)" using sqs_store.getQueue_ok [OF S assms(2,3)] by auto
  have e: "SetAttributes K G now q [(''FifoQueue'', formatBool b)] tx = Update (\<lambda>tx. putQueue K tx ?q) tx"
    using assms(3) by (simp add: SetAttributes_def setAttributesIn_def Update_def applyAttr_def formatBool_def)
  obtain r tx' where p: "putQueue K tx ?q = (r, tx')" by fastforce
  show ?thesis
  proof (cases r)
    case (Inr u)
    then obtain tx1 where t: "createBucket K tx metaBucket = Some tx1" "bucketPut K tx1 metaBucket q (QueueRec ?q) = Some tx'"
      using p name by (auto simp: putQueue_def split: option.splits)
    obtain n m where "view tx1 metaBucket = Some (n, m)"
      using sqs_store.create_contents [OF S t(1)] by (cases "contentsOf (view tx metaBucket)") auto
    from bolt_store.bucketPut [OF assms(1) this t(2)]
    have "view tx' metaBucket = Some (n, m(q \<mapsto> QueueRec ?q))" by simp
    then have "getQueue K tx' q = Inr ?q"
      using bolt_store.bucketGet [OF assms(1)] bolt_store.hasBucket [OF assms(1)] by (simp add: getQueue_def)
    then show ?thesis using e p Inr by (simp add: Update_def)
  next
    case (Inl x)
    then have "x = StoreFailure" using p by (auto simp: putQueue_def split: option.splits)
    then show ?thesis using e p Inl by (simp add: Update_def)
  qed
qed

theorem SetAttributes_changes_type_witness:
  "\<exists>tx'. SetAttributes memBolt sampleExt 0 ''jobs.fifo'' [(''FifoQueue'', formatBool False)] fifoTx = (Inr (), tx') \<and>
     getQueue memBolt tx' ''jobs.fifo'' = Inr (fifoQueue\<lparr>FIFO := False, Modified := unixSeconds 0\<rparr>)"
proof -
  have "fst (SetAttributes memBolt sampleExt 0 ''jobs.fifo'' [(''FifoQueue'', formatBool False)] fifoTx) \<noteq> Inl StoreFailure"
    by code_simp
  then show ?thesis
    using SetAttributes_changes_type [OF mem.bolt_store_axioms, OF fifo_inv fifo_queue(1), of sampleExt 0 False] by auto
qed

text \<open>when the dead-letter queue is gone, a message that has used up its receives is neither
  delivered nor moved by any pass: it stays in the queue unchanged, until it expires.\<close>

theorem exhausted_stuck:
  assumes "bolt_store K view" "sqsInv (view tx)" "getQueue K tx q = Inr qu" "view tx (msgBucket q) = Some (n, mm)"
    and "receiveOnce K now q mx vo tx = (Inr (ms, nv, hits), tx')"
    and "mm k = Some (MessageRec m)" "\<not> expired qu now m" "exhausted qu m"
    and "getQueue K tx (DeadLetterTarget qu) = Inl e"
  shows "Seq m \<notin> Seq ` set ms \<and> (\<exists>mm'. view tx' (msgBucket q) = Some (n, mm') \<and> mm' k = Some (MessageRec m))"
proof -
  have S: "sqs_store K view" by (rule sqs_storeI [OF assms(1)])
  let ?b = "msgBucket q" and ?items = "bucketItems K tx (msgBucket q)"
  obtain ds xs es s tx2 where p:
    "scanned qu now (visOf qu vo) ?items (startScan qu now ?items) s ds xs es"
    "length ms \<le> mx" "ms = map (delivered now (visOf qu vo)) ds"
    "redrive K now ?b (DeadLetterTarget qu) xs (fold (\<lambda>k t. bucketDelete K t ?b k) es tx) = (Inr hits, tx2)"
    "putAll K ?b ms tx2 = (Inr (), tx')"
    by (rule sqs_store.pass_parts [OF S assms(3,4,5)])
  define tx1 where "tx1 = fold (\<lambda>k t. bucketDelete K t ?b k) es tx"
  have v1: "view tx1 = (view tx)(?b \<mapsto> (n, mm |` (- set es)))"
    unfolding tx1_def by (rule bolt_store.delete_keys [OF assms(1,4)])
  then have "getQueue K tx1 (DeadLetterTarget qu) = Inl e"
    using sqs_store.getQueue_cong [OF S, of tx1 tx] assms(9) by simp
  then have tx2: "tx2 = tx1" using sqs_store.redrive_missing [OF S] p(4) by (simp add: tx1_def [symmetric])
  have mk: "k = seqKey (Seq m)" using sqs_store.invD [OF S assms(2,4,6)] by simp
  have kes: "k \<notin> set es"
    using p(1) bolt_store.items_iff [OF assms(1,4)] assms(6,7) by (fastforce simp: scanned_def)
  have not: "Seq x \<noteq> Seq m" if "x \<in> set ds" for x
  proof
    assume "Seq x = Seq m"
    moreover have "mm (seqKey (Seq x)) = Some (MessageRec x)"
      using that p(1) sqs_store.items_messages(2) [OF S assms(2,4)] subseq_mem by (fastforce simp: scanned_def)
    ultimately have "x = m" using assms(6) mk by simp
    then show False using that p(1) assms(8) by (auto simp: scanned_def)
  qed
  have "fold (\<lambda>m mm. mm(seqKey (Seq m) \<mapsto> MessageRec m)) ms mm' k = mm' k" if "Seq m \<notin> Seq ` set ms" for mm'
    using that unfolding mk by (induction ms arbitrary: mm') auto
  moreover have "Seq m \<notin> Seq ` set ms" by (simp add: p(3) image_image image_iff) (metis not)
  moreover have "view tx2 ?b = Some (n, mm |` (- set es))" using v1 tx2 by simp
  ultimately show ?thesis
    using sqs_store.putAll_effect [OF S p(5)] assms(6) kes by simp
qed

text \<open>A queue whose dead-letter queue has been deleted, with a message that was received once.\<close>

definition stuckQueue :: queue where
  "stuckQueue = (newQueue ''jobs'' False 0)\<lparr>DeadLetterTarget := ''dlq'', MaxReceiveCount := 1\<rparr>"

definition stuckMessage :: message where
  "stuckMessage = zeroMessage\<lparr>ID := ''m'', Body := ''hello'', ReceiveCount := 1, FirstReceived := 1, VisibleAt := 1, Seq := 1\<rparr>"

definition stuckTx :: "stored memory" where
  "stuckTx = [(metaBucket, 0, [(''jobs'', QueueRec stuckQueue)]), (msgBucket ''jobs'', 1, [(seqKey 1, MessageRec stuckMessage)])]"

definition stuckReceipt :: "(message list \<times> int \<times> string list) \<times> stored memory" where
  "stuckReceipt = (let r = receiveOnce memBolt 2 ''jobs'' 1 (- 1) stuckTx in (projr (fst r), snd r))"

lemma stuck_values:
  "getQueue memBolt stuckTx ''jobs'' = Inr stuckQueue"
  "receiveOnce memBolt 2 ''jobs'' 1 (- 1) stuckTx =
     (Inr (fst (fst stuckReceipt), fst (snd (fst stuckReceipt)), snd (snd (fst stuckReceipt))), snd stuckReceipt)"
  "\<not> expired stuckQueue 2 stuckMessage" "exhausted stuckQueue stuckMessage"
  "getQueue memBolt stuckTx (DeadLetterTarget stuckQueue) = Inl (QueueMissing ''dlq'')"
  by code_simp+

lemma stuck_view: "memView stuckTx (msgBucket ''jobs'') = Some (1, [seqKey 1 \<mapsto> MessageRec stuckMessage])"
  by (simp add: memView_def stuckTx_def)

lemma stuck_inv: "sqsInv (memView stuckTx)"
proof -
  have "queueOk stuckQueue" by code_simp
  then show ?thesis
    by (auto simp: sqsInv_def memView_def stuckTx_def stuckQueue_def stuckMessage_def newQueue_def split: if_splits)
qed

theorem exhausted_stuck_witness:
  "Seq stuckMessage \<notin> Seq ` set (fst (fst stuckReceipt)) \<and>
   (\<exists>mm'. memView (snd stuckReceipt) (msgBucket ''jobs'') = Some (1, mm') \<and> mm' (seqKey 1) = Some (MessageRec stuckMessage))"
  using exhausted_stuck [OF mem.bolt_store_axioms, OF stuck_inv stuck_values(1) stuck_view stuck_values(2), of "seqKey 1" stuckMessage]
    stuck_values(3-5) by simp

text \<open>Re-creating a standard queue while saying that it is one is refused: the attribute
  \<^verbatim>\<open>FifoQueue=false\<close> is accepted when the queue is created and called different when the same request is
  repeated, because a standard queue reports no \<^verbatim>\<open>FifoQueue\<close> attribute.\<close>

theorem CreateQueue_not_repeatable:
  "let create = CreateQueue memBolt sampleExt sampleIdentity 0 ''jobs'' [(''FifoQueue'', ''false'')] [];
       (r1, tx1) = create []
   in \<not> isl r1 \<and> fst (create tx1) = Inl (QueueExists ''FifoQueue'')"
  by code_simp

subsection \<open>Batches\<close>

lemma checkIds_iff: "checkIds seen ids = None \<longleftrightarrow> distinct ids \<and> set ids \<inter> set seen = {} \<and> list_all batchEntryID ids"
  by (induction ids arbitrary: seen) auto

lemma checkIds_error:
  "checkIds seen ids = Some e \<Longrightarrow> e = BatchError ''InvalidBatchEntryId'' \<and> (\<exists>i\<in>set ids. \<not> batchEntryID i) \<or>
     e = BatchError ''BatchEntryIdsNotDistinct'' \<and> (\<not> distinct ids \<or> set ids \<inter> set seen \<noteq> {})"
  by (induction ids arbitrary: seen) (auto split: if_splits, fastforce+)

text \<open>C24: a batch is accepted exactly when it has one to ten entries with valid, pairwise different
  ids, and each refusal tells what is wrong with it.\<close>

theorem checkBatch_iff:
  "(checkBatch ids = None \<longleftrightarrow> 1 \<le> length ids \<and> length ids \<le> 10 \<and> distinct ids \<and> list_all batchEntryID ids) \<and>
   (checkBatch ids = Some (BatchError ''EmptyBatchRequest'') \<longleftrightarrow> ids = []) \<and>
   (checkBatch ids = Some (BatchError ''TooManyEntriesInBatchRequest'') \<longleftrightarrow> length ids > 10) \<and>
   (checkBatch ids = Some (BatchError ''BatchEntryIdsNotDistinct'') \<longrightarrow> \<not> distinct ids) \<and>
   (checkBatch ids = Some (BatchError ''InvalidBatchEntryId'') \<longrightarrow> \<not> list_all batchEntryID ids)"
  using checkIds_iff [of "[]" ids] checkIds_error [of "[]" ids]
  by (cases ids) (auto simp: checkBatch_def list_all_iff Ball_def)

theorem checkBatch_iff_witness: "\<not> distinct [''a'', ''b'', ''a'']"
proof -
  have "checkBatch [''a'', ''b'', ''a''] = Some (BatchError ''BatchEntryIdsNotDistinct'')" by code_simp
  then show ?thesis using checkBatch_iff [of "[''a'', ''b'', ''a'']"] by simp
qed

end
