(* ===== verification/AwsJson.thy ===== *)
theory AwsJson
  imports EventPattern Base64
begin

text \<open>
  The accessors of the AWS JSON protocol, \<^verbatim>\<open>internal/awsjson/awsjson.go\<close>: handlers read their
  parameters from the decoded body, a map of \<^verbatim>\<open>any\<close> values, through these functions; absent keys and
  values of the wrong type read as the zero value. \<open>Blob\<close> gives \<open>None\<close> for text that is not base64.
\<close>

type_synonym params = "(string \<times> anyv) list"

definition Str :: "params \<Rightarrow> string \<Rightarrow> string" where
  "Str p key = (case map_of p key of Some (AnyStr s) \<Rightarrow> s | _ \<Rightarrow> [])"

definition Bool :: "params \<Rightarrow> string \<Rightarrow> bool" where
  "Bool p key = (case map_of p key of Some (AnyBool b) \<Rightarrow> b | _ \<Rightarrow> False)"

definition IntAt :: "go_ext \<Rightarrow> params \<Rightarrow> string \<Rightarrow> int \<Rightarrow> int" where
  "IntAt G p key d = (case map_of p key of Some (AnyNum f) \<Rightarrow> float64ToInt G f | _ \<Rightarrow> d)"

definition Blob :: "params \<Rightarrow> string \<Rightarrow> bytes option" where
  "Blob p key =
     (case map_of p key of
        Some (AnyStr s) \<Rightarrow> if s = [] then Some [] else DecodeString StdEncoding s
      | _ \<Rightarrow> Some [])"

text \<open>The same where nil and empty differ: \<open>Some None\<close> is Go's nil slice.\<close>

definition BlobNil :: "params \<Rightarrow> string \<Rightarrow> (bytes option) option" where
  "BlobNil p key =
     (case map_of p key of
        Some (AnyStr s) \<Rightarrow> if s = [] then Some None else map_option Some (DecodeString StdEncoding s)
      | _ \<Rightarrow> Some None)"

definition StrMap :: "params \<Rightarrow> string \<Rightarrow> (string \<times> string) list" where
  "StrMap p key =
     (case map_of p key of
        Some (AnyObj m) \<Rightarrow> concat (map (\<lambda>(k, v). case v of AnyStr s \<Rightarrow> [(k, s)] | _ \<Rightarrow> []) m)
      | _ \<Rightarrow> [])"

definition Strs :: "params \<Rightarrow> string \<Rightarrow> string list" where
  "Strs p key =
     (case map_of p key of
        Some (AnyArr vs) \<Rightarrow> concat (map (\<lambda>v. case v of AnyStr s \<Rightarrow> [s] | _ \<Rightarrow> []) vs)
      | _ \<Rightarrow> [])"

text \<open>A value of a response: what handlers put into the map that is marshalled.\<close>

datatype wire =
    WNull | WBool bool | WInt int | WFloat go_float | WStr string | WBytes bytes
  | WArr "wire list" | WObj "(string \<times> wire) list"

text \<open>A handler's result from an operation's: the error, or an answer built from the value.\<close>

definition answer :: "('a \<Rightarrow> wire) \<Rightarrow> ('e + 'a) \<times> 'tx \<Rightarrow> ('e + wire) \<times> 'tx" where
  "answer f r = (case r of (Inl e, tx) \<Rightarrow> (Inl e, tx) | (Inr a, tx) \<Rightarrow> (Inr (f a), tx))"

lemma answer_store [simp]: "snd (answer f r) = snd r"
  by (auto simp: answer_def split: prod.splits sum.splits)

lemma relay_store [simp]:
  "snd (case r of (Inl e, tx1) \<Rightarrow> (Inl e, tx1) | (Inr a, tx1) \<Rightarrow> (Inr (f a tx1), tx1)) = snd r"
  by (auto split: prod.splits sum.splits)

end
