(* ===== verification/KinesisModel.thy ===== *)
theory KinesisModel
  imports Bolt SeqKey Ident AwsJson
begin

text \<open>
  The Kinesis store: streams, shards, records and consumers in bbolt (\<^verbatim>\<open>kinesis/store.go\<close>),
  iterators and sequence numbers (\<^verbatim>\<open>kinesis/iterator.go\<close>) and the resharding steps on a stream
  record (\<^verbatim>\<open>kinesis/reshard.go\<close>).

  An operation takes an environment: the bbolt operations, the library parameters, the identity, the
  clock reading of the call in nanoseconds, what KMS answers about a key (\<open>None\<close> when it is not
  wired or not reachable) and the length of a record's JSON text. Values in buckets are kept decoded;
  \<open>KUndecodable n\<close> stands for \<open>n\<close> bytes that \<^verbatim>\<open>json.Unmarshal\<close> refuses. \<open>NilHash\<close> is the panic on a hash
  bound that is not a decimal number. The signal that \<^verbatim>\<open>Put\<close> gives to a notifier no one waits on has no
  effect and is left out.
\<close>

record shard =
  ID :: string
  StartHash :: string
  EndHash :: string
  ParentID :: string
  AdjacentID :: string
  StartSeq :: "64 word"
  EndSeq :: "64 word"
  Closed :: bool

record streamRecord =
  Name :: string
  Created :: int
  RetentionHours :: int
  Mode :: string
  Shards :: "shard list"
  NextShardNum :: nat
  NextSeq :: "64 word"
  Tags :: "(string \<times> string) list"
  EncryptionType :: string
  KeyID :: string
  EnhancedMetrics :: "string list"
  ResourcePolicy :: string

record krecord =
  Seq :: "64 word"
  PartitionKey :: string
  ExplicitHashKey :: string
  Data :: bytes
  ArrivedNs :: int

record consumer =
  consumerName :: string
  StreamARN :: string
  consumerARN :: string
  consumerCreated :: int
  consumerStatus :: string

datatype kstored = StreamRec streamRecord | RecordRec krecord | ConsumerRec consumer | KUndecodable nat

datatype kinesisError =
    NoStream string
  | NoShard string string
  | NoConsumer string
  | InvalidArgument string
  | Validation string
  | InUse string
  | ExpiredIterator
  | KMSNotFound string
  | KMSDisabled string
  | KMSInvalidState string string
  | BadRecord
  | StoreFailure
  | NilHash

record 'tx env =
  bolt :: "('tx, kstored) bolt"
  lib :: go_ext
  ident :: identity
  now :: int
  describeKey :: "string \<Rightarrow> (bool \<times> string) option"
  recordLen :: "krecord \<Rightarrow> nat"

definition defRetentionHours :: int where "defRetentionHours = 24"
definition minRetentionHours :: int where "minRetentionHours = 24"
definition maxRetentionHours :: int where "maxRetentionHours = 8760"
definition maxRecordSize :: int where "maxRecordSize = 1048576"
definition maxPutRecords :: nat where "maxPutRecords = 500"
definition maxGetRecords :: int where "maxGetRecords = 10000"
definition maxGetBytes :: int where "maxGetBytes = 10485760"
definition modeProvisioned :: string where "modeProvisioned = ''PROVISIONED''"
definition modeOnDemand :: string where "modeOnDemand = ''ON_DEMAND''"
definition maxHash :: int where "maxHash = 2 ^ 128 - 1"

definition metaBucket :: string where "metaBucket = ''streams''"
definition consumerBucket :: string where "consumerBucket = ''consumers''"
definition recBucket :: "string \<Rightarrow> string \<Rightarrow> string" where "recBucket stream sh = ''r:'' @ stream @ '':'' @ sh"

definition nanosecondsPerSecond :: int where "nanosecondsPerSecond = 1000000000"

definition unixOf :: "int \<Rightarrow> int" where "unixOf t = t div nanosecondsPerSecond"

subsection \<open>Names, sequence numbers and iterators\<close>

definition streamARN :: "identity \<Rightarrow> string \<Rightarrow> string" where
  "streamARN i name = ARN i ''kinesis'' (''stream/'' @ name)"

definition zeroPad :: "nat \<Rightarrow> string \<Rightarrow> string" where
  "zeroPad w s = replicate (w - length s) (CHR ''0'') @ s"

definition shardID :: "nat \<Rightarrow> string" where
  "shardID n = ''shardId-'' @ zeroPad 12 (intStr (int n))"

definition formatSeq :: "64 word \<Rightarrow> string" where
  "formatSeq seq = zeroPad 21 (intStr (uint seq))"

definition parseSeq :: "string \<Rightarrow> 64 word option" where
  "parseSeq s =
     (if s = [] then None
      else case ParseUint64 (dropWhile (\<lambda>c. c = CHR ''0'') s) of
             Some n \<Rightarrow> Some (of_nat n)
           | None \<Rightarrow> if list_all (\<lambda>c. c = CHR ''0'') s then Some 0 else None)"

record cursor =
  Stream :: string
  Shard :: string
  After :: "64 word"
  IssuedNs :: int

definition iteratorTTL :: int where "iteratorTTL = 5 * 60 * nanosecondsPerSecond"

definition encodeIterator :: "cursor \<Rightarrow> string" where
  "encodeIterator c =
     EncodeToString RawURLEncoding
       (strBytes (Stream c @ ''|'' @ Shard c @ ''|'' @ intStr (uint (After c)) @ ''|'' @ intStr (IssuedNs c)))"

definition decodeIterator :: "string \<Rightarrow> int \<Rightarrow> kinesisError + cursor" where
  "decodeIterator tok t =
     (case DecodeString RawURLEncoding tok of
        None \<Rightarrow> Inl (InvalidArgument ''invalid ShardIterator'')
      | Some raw \<Rightarrow>
          (case splitOn (CHR ''|'') (bytesStr raw) of
             [stream, sh, a, issuedText] \<Rightarrow>
               (case (ParseUint64 a, ParseInt64 issuedText) of
                  (Some after, Some issued) \<Rightarrow>
                    if t - issued > iteratorTTL then Inl ExpiredIterator
                    else Inr \<lparr>Stream = stream, Shard = sh, After = of_nat after, IssuedNs = issued\<rparr>
                | _ \<Rightarrow> Inl (InvalidArgument ''invalid ShardIterator''))
           | _ \<Rightarrow> Inl (InvalidArgument ''invalid ShardIterator'')))"

definition nameByte :: "char \<Rightarrow> bool" where
  "nameByte c =
     (c = CHR ''_'' \<or> c = CHR ''.'' \<or> c = CHR ''-'' \<or> CHR ''0'' \<le> c \<and> c \<le> CHR ''9'' \<or>
      CHR ''a'' \<le> c \<and> c \<le> CHR ''z'' \<or> CHR ''A'' \<le> c \<and> c \<le> CHR ''Z'')"

definition validStreamName :: "string \<Rightarrow> kinesisError option" where
  "validStreamName name =
     (if name = [] then Some (InvalidArgument ''StreamName is required'')
      else if length name > 128 then Some (InvalidArgument ''StreamName may be at most 128 characters'')
      else if list_all nameByte name then None
      else Some (InvalidArgument ''StreamName may contain only letters, digits and the characters _ . -''))"

definition streamFromARN :: "string \<Rightarrow> kinesisError + string" where
  "streamFromARN arn =
     (case afterFirst '':stream/'' arn of
        None \<Rightarrow> Inl (InvalidArgument ''not a Kinesis stream ARN'')
      | Some rest \<Rightarrow>
          let name = takeWhile (\<lambda>c. c \<noteq> CHR ''/'') rest in
          if name = [] then Inl (InvalidArgument ''not a Kinesis stream ARN'') else Inr name)"

subsection \<open>Streams\<close>

definition OpenShards :: "streamRecord \<Rightarrow> shard list" where
  "OpenShards st = filter (\<lambda>sh. \<not> Closed sh) (Shards st)"

definition findShard :: "streamRecord \<Rightarrow> string \<Rightarrow> shard option" where
  "findShard st sid = find (\<lambda>sh. ID sh = sid) (Shards st)"

definition getStream :: "'tx env \<Rightarrow> 'tx \<Rightarrow> string \<Rightarrow> kinesisError + streamRecord" where
  "getStream E tx name =
     (if \<not> hasBucket (bolt E) tx metaBucket then Inl (NoStream name)
      else case bucketGet (bolt E) tx metaBucket name of
             None \<Rightarrow> Inl (NoStream name)
           | Some r \<Rightarrow> (case r of StreamRec st \<Rightarrow> Inr st | _ \<Rightarrow> Inl BadRecord))"

definition putStream :: "'tx env \<Rightarrow> 'tx \<Rightarrow> streamRecord \<Rightarrow> (kinesisError + unit) \<times> 'tx" where
  "putStream E tx st =
     (case createBucket (bolt E) tx metaBucket of
        None \<Rightarrow> (Inl StoreFailure, tx)
      | Some tx1 \<Rightarrow>
          (case bucketPut (bolt E) tx1 metaBucket (Name st) (StreamRec st) of
             None \<Rightarrow> (Inl StoreFailure, tx1)
           | Some tx2 \<Rightarrow> (Inr (), tx2)))"

definition newShard :: "streamRecord \<Rightarrow> int \<Rightarrow> int \<Rightarrow> string \<Rightarrow> string \<Rightarrow> shard" where
  "newShard st lo hi parent adjacent =
     \<lparr>ID = shardID (NextShardNum st), StartHash = intStr lo, EndHash = intStr hi, ParentID = parent,
      AdjacentID = adjacent, StartSeq = NextSeq st, EndSeq = 0, Closed = False\<rparr>"

fun tileLoop :: "nat \<Rightarrow> int \<Rightarrow> int \<Rightarrow> streamRecord \<Rightarrow> shard list \<times> streamRecord" where
  "tileLoop 0 width lo st = ([], st)"
| "tileLoop (Suc k) width lo st =
     (let hi = (if k = 0 then maxHash else lo + width - 1);
          (shs, st') = tileLoop k width (hi + 1) (st\<lparr>NextShardNum := NextShardNum st + 1\<rparr>)
      in (newShard st lo hi [] [] # shs, st'))"

definition tileShards :: "streamRecord \<Rightarrow> nat \<Rightarrow> streamRecord" where
  "tileShards st shardCount =
     (let (shs, st') = tileLoop shardCount ((maxHash + 1) div int shardCount) 0 st in st'\<lparr>Shards := shs\<rparr>)"

definition newStream :: "string \<Rightarrow> int \<Rightarrow> string \<Rightarrow> streamRecord" where
  "newStream name created mode =
     \<lparr>Name = name, Created = created, RetentionHours = defRetentionHours, Mode = mode, Shards = [],
      NextShardNum = 0, NextSeq = 1, Tags = [], EncryptionType = [], KeyID = [], EnhancedMetrics = [],
      ResourcePolicy = []\<rparr>"

definition createIn :: "'tx env \<Rightarrow> string \<Rightarrow> nat \<Rightarrow> string \<Rightarrow> 'tx \<Rightarrow> (kinesisError + streamRecord) \<times> 'tx" where
  "createIn E name shardCount mode tx =
     (case getStream E tx name of
        Inr _ \<Rightarrow> (Inl (InUse ''stream already exists''), tx)
      | Inl _ \<Rightarrow>
          let st = tileShards (newStream name (unixOf (now E)) mode) shardCount in
          (case putStream E tx st of (Inl e, tx1) \<Rightarrow> (Inl e, tx1) | (Inr _, tx1) \<Rightarrow> (Inr st, tx1)))"

definition Create :: "'tx env \<Rightarrow> string \<Rightarrow> int \<Rightarrow> string \<Rightarrow> 'tx \<Rightarrow> (kinesisError + streamRecord) \<times> 'tx" where
  "Create E name shardCount mode0 tx =
     (case validStreamName name of
        Some e \<Rightarrow> (Inl e, tx)
      | None \<Rightarrow>
          let mode = (if mode0 = [] then modeProvisioned else mode0) in
          if mode \<noteq> modeProvisioned \<and> mode \<noteq> modeOnDemand then
            (Inl (InvalidArgument ''StreamModeDetails.StreamMode must be PROVISIONED or ON_DEMAND''), tx)
          else if mode = modeOnDemand then Bolt.Update (createIn E name 4 mode) tx
          else if shardCount < 1 then (Inl (InvalidArgument ''ShardCount must be at least 1''), tx)
          else Bolt.Update (createIn E name (nat shardCount) mode) tx)"

definition dropRecords :: "'tx env \<Rightarrow> string \<Rightarrow> string \<Rightarrow> 'tx \<Rightarrow> 'tx" where
  "dropRecords E stream sid tx =
     (case deleteBucket (bolt E) tx (recBucket stream sid) of None \<Rightarrow> tx | Some tx' \<Rightarrow> tx')"

definition consumersOf :: "'tx env \<Rightarrow> 'tx \<Rightarrow> string \<Rightarrow> (string \<times> consumer) list" where
  "consumersOf E tx arn =
     concat (map (\<lambda>(k, r). case r of ConsumerRec c \<Rightarrow> if StreamARN c = arn then [(k, c)] else [] | _ \<Rightarrow> [])
              (bucketItems (bolt E) tx consumerBucket))"

definition deleteIn :: "'tx env \<Rightarrow> string \<Rightarrow> 'tx \<Rightarrow> (kinesisError + unit) \<times> 'tx" where
  "deleteIn E name tx =
     (case getStream E tx name of
        Inl e \<Rightarrow> (Inl e, tx)
      | Inr st \<Rightarrow>
          let tx1 = fold (\<lambda>sh. dropRecords E name (ID sh)) (Shards st) tx;
              tx2 = (if hasBucket (bolt E) tx1 consumerBucket then
                       fold (\<lambda>(k, _) t. bucketDelete (bolt E) t consumerBucket k)
                         (consumersOf E tx1 (streamARN (ident E) name)) tx1
                     else tx1)
          in (Inr (), bucketDelete (bolt E) tx2 metaBucket name))"

definition Delete :: "'tx env \<Rightarrow> string \<Rightarrow> 'tx \<Rightarrow> (kinesisError + unit) \<times> 'tx" where
  "Delete E name tx = Bolt.Update (deleteIn E name) tx"

definition List :: "'tx env \<Rightarrow> string \<Rightarrow> int \<Rightarrow> 'tx \<Rightarrow> string list \<times> bool" where
  "List E exclusiveStart limit tx =
     (let names = (if hasBucket (bolt E) tx metaBucket then
                     sort (filter (\<lambda>k. exclusiveStart = [] \<or> k > exclusiveStart) (map fst (bucketItems (bolt E) tx metaBucket)))
                   else [])
      in if limit > 0 \<and> int (length names) > limit then (take (nat limit) names, True) else (names, False))"

text \<open>\<^verbatim>\<open>Update\<close> applies a function to a stream inside a write transaction.\<close>

definition updateIn ::
  "'tx env \<Rightarrow> string \<Rightarrow> (streamRecord \<Rightarrow> kinesisError + streamRecord) \<Rightarrow> 'tx \<Rightarrow> (kinesisError + streamRecord) \<times> 'tx" where
  "updateIn E name fn tx =
     (case getStream E tx name of
        Inl e \<Rightarrow> (Inl e, tx)
      | Inr st \<Rightarrow>
          (case fn st of
             Inl e \<Rightarrow> (Inl e, tx)
           | Inr st' \<Rightarrow> (case putStream E tx st' of (Inl e, tx1) \<Rightarrow> (Inl e, tx1) | (Inr _, tx1) \<Rightarrow> (Inr st', tx1))))"

definition Update ::
  "'tx env \<Rightarrow> string \<Rightarrow> (streamRecord \<Rightarrow> kinesisError + streamRecord) \<Rightarrow> 'tx \<Rightarrow> (kinesisError + streamRecord) \<times> 'tx" where
  "Update E name fn tx = Bolt.Update (updateIn E name fn) tx"

subsection \<open>Routing and appending\<close>

definition hashOf :: "go_ext \<Rightarrow> string \<Rightarrow> int" where
  "hashOf G partitionKey = foldl (\<lambda>n b. n * 256 + uint b) 0 (md5Sum G partitionKey)"

text \<open>Whether a shard's range holds a hash; \<open>None\<close> when a bound does not parse.\<close>

definition inRange :: "shard \<Rightarrow> int \<Rightarrow> bool option" where
  "inRange sh h =
     (case (parseBig (StartHash sh), parseBig (EndHash sh)) of
        (Some lo, Some hi) \<Rightarrow> Some (h \<ge> lo \<and> h \<le> hi)
      | _ \<Rightarrow> None)"

fun routeLoop :: "int \<Rightarrow> shard list \<Rightarrow> kinesisError + shard" where
  "routeLoop h [] = Inl (InvalidArgument ''no open shard covers the hash'')"
| "routeLoop h (sh # shs) =
     (if Closed sh then routeLoop h shs
      else case inRange sh h of
             None \<Rightarrow> Inl NilHash
           | Some b \<Rightarrow> if b then Inr sh else routeLoop h shs)"

definition shardFor :: "go_ext \<Rightarrow> streamRecord \<Rightarrow> string \<Rightarrow> string \<Rightarrow> kinesisError + shard" where
  "shardFor G st partitionKey explicitHashKey =
     (if explicitHashKey = [] then routeLoop (hashOf G partitionKey) (Shards st)
      else case parseBig explicitHashKey of
             None \<Rightarrow> Inl (InvalidArgument ''ExplicitHashKey is not in the hash space'')
           | Some v \<Rightarrow>
               if v < 0 \<or> v > maxHash then Inl (InvalidArgument ''ExplicitHashKey is not in the hash space'')
               else routeLoop v (Shards st))"

record putEntry =
  ePartitionKey :: string
  eExplicitHashKey :: string
  eData :: bytes

record putResult =
  rShardID :: string
  rSeq :: "64 word"

definition putOne ::
  "'tx env \<Rightarrow> string \<Rightarrow> putEntry \<Rightarrow> streamRecord \<Rightarrow> 'tx \<Rightarrow> (kinesisError + putResult \<times> streamRecord) \<times> 'tx" where
  "putOne E stream e st tx =
     (if ePartitionKey e = [] then (Inl (InvalidArgument ''PartitionKey is required''), tx)
      else if length (ePartitionKey e) > 256 then
        (Inl (InvalidArgument ''PartitionKey may be at most 256 characters''), tx)
      else if int (length (eData e)) > maxRecordSize then (Inl (InvalidArgument ''data exceeds the byte limit''), tx)
      else case shardFor (lib E) st (ePartitionKey e) (eExplicitHashKey e) of
             Inl err \<Rightarrow> (Inl err, tx)
           | Inr sh \<Rightarrow>
               (case createBucket (bolt E) tx (recBucket stream (ID sh)) of
                  None \<Rightarrow> (Inl StoreFailure, tx)
                | Some tx1 \<Rightarrow>
                    let rc = \<lparr>Seq = NextSeq st, PartitionKey = ePartitionKey e, ExplicitHashKey = eExplicitHashKey e,
                              Data = eData e, ArrivedNs = now E\<rparr> in
                    (case bucketPut (bolt E) tx1 (recBucket stream (ID sh)) (seqKey (Seq rc)) (RecordRec rc) of
                       None \<Rightarrow> (Inl StoreFailure, tx1)
                     | Some tx2 \<Rightarrow>
                         (Inr (\<lparr>rShardID = ID sh, rSeq = Seq rc\<rparr>, st\<lparr>NextSeq := NextSeq st + 1\<rparr>), tx2))))"

fun putLoop ::
  "'tx env \<Rightarrow> string \<Rightarrow> putEntry list \<Rightarrow> streamRecord \<Rightarrow> 'tx \<Rightarrow> (kinesisError + putResult list \<times> streamRecord) \<times> 'tx" where
  "putLoop E stream [] st tx = (Inr ([], st), tx)"
| "putLoop E stream (e # es) st tx =
     (case putOne E stream e st tx of
        (Inl err, tx1) \<Rightarrow> (Inl err, tx1)
      | (Inr (r, st1), tx1) \<Rightarrow>
          (case putLoop E stream es st1 tx1 of
             (Inl err, tx2) \<Rightarrow> (Inl err, tx2)
           | (Inr (rs, st2), tx2) \<Rightarrow> (Inr (r # rs, st2), tx2)))"

definition putIn :: "'tx env \<Rightarrow> string \<Rightarrow> putEntry list \<Rightarrow> 'tx \<Rightarrow> (kinesisError + putResult list) \<times> 'tx" where
  "putIn E stream entries tx =
     (case getStream E tx stream of
        Inl err \<Rightarrow> (Inl err, tx)
      | Inr st \<Rightarrow>
          (case putLoop E stream entries st tx of
             (Inl err, tx1) \<Rightarrow> (Inl err, tx1)
           | (Inr (rs, st1), tx1) \<Rightarrow>
               (case putStream E tx1 st1 of (Inl err, tx2) \<Rightarrow> (Inl err, tx2) | (Inr _, tx2) \<Rightarrow> (Inr rs, tx2))))"

definition Put :: "'tx env \<Rightarrow> string \<Rightarrow> putEntry list \<Rightarrow> 'tx \<Rightarrow> (kinesisError + putResult list) \<times> 'tx" where
  "Put E stream entries tx =
     (if entries = [] then (Inl (InvalidArgument ''at least one record is required''), tx)
      else if length entries > maxPutRecords then
        (Inl (InvalidArgument ''a PutRecords request supports at most 500 records''), tx)
      else Bolt.Update (putIn E stream entries) tx)"

subsection \<open>Reading\<close>

text \<open>The loop of \<^verbatim>\<open>Fetch\<close>: the records taken so far, their bytes and the sequence to resume from.\<close>

fun fetchLoop ::
  "'tx env \<Rightarrow> shard \<Rightarrow> nat \<Rightarrow> (string \<times> kstored) list \<Rightarrow> krecord list \<Rightarrow> int \<Rightarrow> 64 word \<Rightarrow> kinesisError + krecord list \<times> 64 word" where
  "fetchLoop E sh limit [] recs taken next = Inr (recs, next)"
| "fetchLoop E sh limit ((k, v) # rest) recs taken next =
     (case v of
        RecordRec rc \<Rightarrow>
          if length recs \<ge> limit \<or> taken + int (recordLen E rc) > maxGetBytes then Inr (recs, next)
          else if Closed sh \<and> EndSeq sh \<noteq> 0 \<and> Seq rc > EndSeq sh then Inr (recs, next)
          else fetchLoop E sh limit rest (recs @ [rc]) (taken + int (recordLen E rc)) (Seq rc)
      | KUndecodable n \<Rightarrow>
          if length recs \<ge> limit \<or> taken + int n > maxGetBytes then Inr (recs, next) else Inl BadRecord
      | _ \<Rightarrow> Inl BadRecord)"

definition fetchLimit :: "int \<Rightarrow> nat" where
  "fetchLimit limit = nat (if limit \<le> 0 \<or> limit > maxGetRecords then maxGetRecords else limit)"

text \<open>\<^verbatim>\<open>c.Seek\<close>: the items from the first key that is not below the one sought.\<close>

definition seekFrom :: "string \<Rightarrow> (string \<times> kstored) list \<Rightarrow> (string \<times> kstored) list" where
  "seekFrom key items = dropWhile (\<lambda>(k, _). k < key) items"

text \<open>The last component is how far the last record returned is behind the clock.\<close>

definition Fetch :: "'tx env \<Rightarrow> string \<Rightarrow> string \<Rightarrow> 64 word \<Rightarrow> int \<Rightarrow> 'tx \<Rightarrow> kinesisError + krecord list \<times> 64 word \<times> int" where
  "Fetch E stream sid after limit tx =
     (case getStream E tx stream of
        Inl err \<Rightarrow> Inl err
      | Inr st \<Rightarrow>
          (case findShard st sid of
             None \<Rightarrow> Inl (NoShard sid stream)
           | Some sh \<Rightarrow>
               if \<not> hasBucket (bolt E) tx (recBucket stream sid) then Inr ([], after, 0)
               else
                 (case fetchLoop E sh (fetchLimit limit)
                         (seekFrom (seqKey (after + 1)) (bucketItems (bolt E) tx (recBucket stream sid))) [] 0 after of
                    Inl err \<Rightarrow> Inl err
                  | Inr (recs, next) \<Rightarrow>
                      Inr (recs, next, if recs = [] then 0 else now E - ArrivedNs (last recs)))))"

text \<open>\<^verbatim>\<open>binary.BigEndian.Uint64\<close>.\<close>

definition keySeq :: "string \<Rightarrow> 64 word" where
  "keySeq k = foldl (\<lambda>n c. n * 256 + of_char c) 0 k"

fun seekTime :: "int \<Rightarrow> (string \<times> kstored) list \<Rightarrow> kinesisError + 64 word" where
  "seekTime target [] = Inr 0"
| "seekTime target ((k, v) # rest) =
     (case v of
        RecordRec rc \<Rightarrow> if ArrivedNs rc < target then Inr (keySeq k) else seekTime target rest
      | _ \<Rightarrow> Inl BadRecord)"

definition SeqAtOrAfter :: "'tx env \<Rightarrow> string \<Rightarrow> string \<Rightarrow> int \<Rightarrow> 'tx \<Rightarrow> kinesisError + 64 word" where
  "SeqAtOrAfter E stream sid ts tx =
     (if \<not> hasBucket (bolt E) tx (recBucket stream sid) then Inr 0
      else seekTime ts (rev (bucketItems (bolt E) tx (recBucket stream sid))))"

definition LatestSeq :: "'tx env \<Rightarrow> string \<Rightarrow> string \<Rightarrow> 'tx \<Rightarrow> 64 word" where
  "LatestSeq E stream sid tx =
     (if \<not> hasBucket (bolt E) tx (recBucket stream sid) then 0
      else case rev (bucketItems (bolt E) tx (recBucket stream sid)) of [] \<Rightarrow> 0 | (k, _) # _ \<Rightarrow> keySeq k)"

definition TrimHorizonSeq :: "'tx env \<Rightarrow> string \<Rightarrow> string \<Rightarrow> 'tx \<Rightarrow> 64 word" where
  "TrimHorizonSeq E stream sid tx =
     (let first = (if \<not> hasBucket (bolt E) tx (recBucket stream sid) then 0
                   else case bucketItems (bolt E) tx (recBucket stream sid) of [] \<Rightarrow> 0 | (k, _) # _ \<Rightarrow> keySeq k)
      in if first > 0 then first - 1 else first)"

subsection \<open>Retention\<close>

definition isStale :: "int \<Rightarrow> string \<times> kstored \<Rightarrow> bool" where
  "isStale cutoff kv = (case snd kv of RecordRec rc \<Rightarrow> ArrivedNs rc < cutoff | _ \<Rightarrow> False)"

definition sweepRecords :: "'tx env \<Rightarrow> int \<Rightarrow> string \<Rightarrow> 'tx \<Rightarrow> nat \<times> 'tx" where
  "sweepRecords E cutoff b tx =
     (if hasBucket (bolt E) tx b then
        let kill = map fst (filter (isStale cutoff) (bucketItems (bolt E) tx b))
        in (length kill, fold (\<lambda>k t. bucketDelete (bolt E) t b k) kill tx)
      else (0, tx))"

text \<open>The shards that stay, the number of records reclaimed and the transaction.\<close>

fun sweepShards :: "'tx env \<Rightarrow> int \<Rightarrow> string \<Rightarrow> shard list \<Rightarrow> 'tx \<Rightarrow> shard list \<times> nat \<times> 'tx" where
  "sweepShards E cutoff stream [] tx = ([], 0, tx)"
| "sweepShards E cutoff stream (sh # shs) tx =
     (let b = recBucket stream (ID sh);
          (n1, tx1) = sweepRecords E cutoff b tx;
          finished = (Closed sh \<and> (\<not> hasBucket (bolt E) tx1 b \<or> bucketItems (bolt E) tx1 b = []));
          tx2 = (if finished then dropRecords E stream (ID sh) tx1 else tx1);
          (live, n2, tx3) = sweepShards E cutoff stream shs tx2
      in (if finished then live else sh # live, n1 + n2, tx3))"

definition sweepStream :: "'tx env \<Rightarrow> streamRecord \<Rightarrow> nat \<times> 'tx \<Rightarrow> nat \<times> 'tx" where
  "sweepStream E st ntx =
     (let (n, tx) = ntx;
          cutoff = now E - RetentionHours st * 3600 * nanosecondsPerSecond;
          (live, k, tx1) = sweepShards E cutoff (Name st) (Shards st) tx
      in (n + k,
          if length live \<noteq> length (Shards st) then snd (putStream E tx1 (st\<lparr>Shards := live\<rparr>)) else tx1))"

definition Sweep :: "'tx env \<Rightarrow> 'tx \<Rightarrow> nat \<times> 'tx" where
  "Sweep E tx =
     (if \<not> hasBucket (bolt E) tx metaBucket then (0, tx)
      else fold (sweepStream E)
             (concat (map (\<lambda>(_, r). case r of StreamRec st \<Rightarrow> [st] | _ \<Rightarrow> []) (bucketItems (bolt E) tx metaBucket)))
             (0, tx))"

subsection \<open>Consumers\<close>

definition consumerKey :: "string \<Rightarrow> string \<Rightarrow> string" where
  "consumerKey arn name = arn @ ''|'' @ name"

definition registerIn :: "'tx env \<Rightarrow> string \<Rightarrow> string \<Rightarrow> string \<Rightarrow> 'tx \<Rightarrow> (kinesisError + consumer) \<times> 'tx" where
  "registerIn E arn stream name tx =
     (case getStream E tx stream of
        Inl err \<Rightarrow> (Inl err, tx)
      | Inr _ \<Rightarrow>
          (case createBucket (bolt E) tx consumerBucket of
             None \<Rightarrow> (Inl StoreFailure, tx)
           | Some tx1 \<Rightarrow>
               if bucketGet (bolt E) tx1 consumerBucket (consumerKey arn name) \<noteq> None then
                 (Inl (InUse ''consumer is already registered''), tx1)
               else
                 let c = \<lparr>consumerName = name, StreamARN = arn,
                          consumerARN = arn @ ''/consumer/'' @ name @ '':'' @ intStr (unixOf (now E)),
                          consumerCreated = unixOf (now E), consumerStatus = ''ACTIVE''\<rparr> in
                 (case bucketPut (bolt E) tx1 consumerBucket (consumerKey arn name) (ConsumerRec c) of
                    None \<Rightarrow> (Inl StoreFailure, tx1)
                  | Some tx2 \<Rightarrow> (Inr c, tx2))))"

definition RegisterConsumer :: "'tx env \<Rightarrow> string \<Rightarrow> string \<Rightarrow> 'tx \<Rightarrow> (kinesisError + consumer) \<times> 'tx" where
  "RegisterConsumer E arn name tx =
     (if name = [] then (Inl (InvalidArgument ''ConsumerName is required''), tx)
      else case streamFromARN arn of
             Inl err \<Rightarrow> (Inl err, tx)
           | Inr stream \<Rightarrow> Bolt.Update (registerIn E arn stream name) tx)"

definition FindConsumer :: "'tx env \<Rightarrow> string \<Rightarrow> string \<Rightarrow> string \<Rightarrow> 'tx \<Rightarrow> kinesisError + consumer" where
  "FindConsumer E arn name cARN tx =
     (if \<not> hasBucket (bolt E) tx consumerBucket then Inl (NoConsumer name)
      else if cARN \<noteq> [] then
        (case rev (concat (map (\<lambda>(_, r). case r of ConsumerRec c \<Rightarrow> if consumerARN c = cARN then [c] else [] | _ \<Rightarrow> [])
                     (bucketItems (bolt E) tx consumerBucket))) of
           [] \<Rightarrow> Inl (NoConsumer name)
         | c # _ \<Rightarrow> Inr c)
      else case bucketGet (bolt E) tx consumerBucket (consumerKey arn name) of
             None \<Rightarrow> Inl (NoConsumer name)
           | Some r \<Rightarrow> (case r of ConsumerRec c \<Rightarrow> Inr c | _ \<Rightarrow> Inl BadRecord))"

definition DeleteConsumer :: "'tx env \<Rightarrow> consumer \<Rightarrow> 'tx \<Rightarrow> (kinesisError + unit) \<times> 'tx" where
  "DeleteConsumer E c tx =
     Bolt.Update (\<lambda>tx. if \<not> hasBucket (bolt E) tx consumerBucket then (Inl (NoConsumer (consumerName c)), tx)
       else (Inr (), bucketDelete (bolt E) tx consumerBucket (consumerKey (StreamARN c) (consumerName c)))) tx"

definition ListConsumers :: "'tx env \<Rightarrow> string \<Rightarrow> 'tx \<Rightarrow> consumer list" where
  "ListConsumers E arn tx =
     (if \<not> hasBucket (bolt E) tx consumerBucket then []
      else sort_key consumerName (map snd (consumersOf E tx arn)))"

subsection \<open>Resharding\<close>

definition closeShard :: "streamRecord \<Rightarrow> shard \<Rightarrow> shard" where
  "closeShard st sh =
     (if NextSeq st > 1 then sh\<lparr>Closed := True, EndSeq := NextSeq st - 1\<rparr> else sh\<lparr>Closed := True\<rparr>)"

text \<open>A pointer to a shard of the stream is its id: the write goes to the first shard that has it.\<close>

fun updateShard :: "string \<Rightarrow> (shard \<Rightarrow> shard) \<Rightarrow> shard list \<Rightarrow> shard list" where
  "updateShard sid f [] = []"
| "updateShard sid f (sh # shs) = (if ID sh = sid then f sh # shs else sh # updateShard sid f shs)"

definition closeIn :: "string \<Rightarrow> streamRecord \<Rightarrow> streamRecord" where
  "closeIn sid st = st\<lparr>Shards := updateShard sid (closeShard st) (Shards st)\<rparr>"

definition openChild :: "int \<Rightarrow> int \<Rightarrow> string \<Rightarrow> string \<Rightarrow> streamRecord \<Rightarrow> streamRecord" where
  "openChild lo hi parent adjacent st =
     st\<lparr>NextShardNum := NextShardNum st + 1, Shards := Shards st @ [newShard st lo hi parent adjacent]\<rparr>"

definition splitStream :: "string \<Rightarrow> string \<Rightarrow> int \<Rightarrow> streamRecord \<Rightarrow> kinesisError + streamRecord" where
  "splitStream stream target newStart st =
     (case findShard st target of
        None \<Rightarrow> Inl (NoShard target stream)
      | Some sh \<Rightarrow>
          if Closed sh then Inl (InvalidArgument ''shard is already closed'')
          else
            (case (parseBig (StartHash sh), parseBig (EndHash sh)) of
               (Some lo, Some hi) \<Rightarrow>
                 if newStart \<le> lo \<or> newStart > hi then
                   Inl (InvalidArgument ''NewStartingHashKey must be within the shard'')
                 else Inr (openChild newStart hi target [] (openChild lo (newStart - 1) target [] (closeIn target st)))
             | _ \<Rightarrow> Inl NilHash))"

definition mergeStream :: "string \<Rightarrow> string \<Rightarrow> string \<Rightarrow> streamRecord \<Rightarrow> kinesisError + streamRecord" where
  "mergeStream stream a b st =
     (case (findShard st a, findShard st b) of
        (None, _) \<Rightarrow> Inl (NoShard a stream)
      | (_, None) \<Rightarrow> Inl (NoShard b stream)
      | (Some left, Some right) \<Rightarrow>
          if Closed left \<or> Closed right then Inl (InvalidArgument ''both shards must be open to merge'')
          else
            (case (parseBig (StartHash left), parseBig (EndHash left), parseBig (StartHash right), parseBig (EndHash right)) of
               (Some lLo, Some lHi, Some rLo, Some rHi) \<Rightarrow>
                 let (left', right', lLo', lHi', rLo', rHi') =
                   (if lLo > rLo then (right, left, rLo, rHi, lLo, lHi) else (left, right, lLo, lHi, rLo, rHi)) in
                 if lHi' + 1 \<noteq> rLo' then Inl (InvalidArgument ''shards are not adjacent'')
                 else Inr (openChild lLo' rHi' (ID left') (ID right') (closeIn (ID right') (closeIn (ID left') st)))
             | _ \<Rightarrow> Inl NilHash))"

text \<open>The id of the open shard that owned a hash, empty when there is none.\<close>

fun parentAt :: "int \<Rightarrow> shard list \<Rightarrow> kinesisError + string" where
  "parentAt h [] = Inr []"
| "parentAt h (sh # shs) =
     (case inRange sh h of None \<Rightarrow> Inl NilHash | Some b \<Rightarrow> if b then Inr (ID sh) else parentAt h shs)"

fun retile :: "shard list \<Rightarrow> nat \<Rightarrow> int \<Rightarrow> int \<Rightarrow> streamRecord \<Rightarrow> kinesisError + streamRecord" where
  "retile opened 0 width lo st = Inr st"
| "retile opened (Suc k) width lo st =
     (let hi = (if k = 0 then maxHash else lo + width - 1) in
      case parentAt lo opened of
        Inl e \<Rightarrow> Inl e
      | Inr parent \<Rightarrow> retile opened k width (hi + 1) (openChild lo hi parent [] st))"

definition closeAll :: "streamRecord \<Rightarrow> streamRecord" where
  "closeAll st = st\<lparr>Shards := map (\<lambda>sh. if Closed sh then sh else closeShard st sh) (Shards st)\<rparr>"

definition countStream :: "nat \<Rightarrow> streamRecord \<Rightarrow> kinesisError + streamRecord" where
  "countStream target st =
     (if Mode st = modeOnDemand then Inl (Validation ''shard count is managed automatically for ON_DEMAND streams'')
      else if length (OpenShards st) = target then Inr st
      else retile (OpenShards st) target ((maxHash + 1) div int target) 0 (closeAll st))"

end
