(* ===== verification/KinesisHandlers.thy ===== *)
theory KinesisHandlers
  imports KinesisModel
begin

text \<open>
  The Kinesis API: the data plane (\<^verbatim>\<open>kinesis/records.go\<close>), the resharding operations
  (\<^verbatim>\<open>kinesis/reshard.go\<close>), the control plane and the dispatch table (\<^verbatim>\<open>kinesis/actions.go\<close>). A handler
  maps the decoded parameters and the store to a response or an error and the store it leaves. The
  validation generated from the service model and the IAM guard, which run before the handler, only
  refuse requests and are not modelled.
\<close>

type_synonym 'tx handler = "'tx env \<Rightarrow> params \<Rightarrow> 'tx \<Rightarrow> (kinesisError + wire) \<times> 'tx"

definition resolveStream :: "params \<Rightarrow> kinesisError + string" where
  "resolveStream p =
     (if Str p ''StreamName'' \<noteq> [] then Inr (Str p ''StreamName'')
      else if Str p ''StreamARN'' \<noteq> [] then streamFromARN (Str p ''StreamARN'')
      else Inl (Validation ''either StreamName or StreamARN must be supplied''))"

text \<open>The two prologues of the handlers: the stream named in the request, or by an ARN parameter.\<close>

definition withStream :: "params \<Rightarrow> (string \<Rightarrow> 'tx \<Rightarrow> (kinesisError + wire) \<times> 'tx) \<Rightarrow> 'tx \<Rightarrow> (kinesisError + wire) \<times> 'tx" where
  "withStream p f tx = (case resolveStream p of Inl e \<Rightarrow> (Inl e, tx) | Inr stream \<Rightarrow> f stream tx)"

definition withARN :: "string \<Rightarrow> (string \<Rightarrow> 'tx \<Rightarrow> (kinesisError + wire) \<times> 'tx) \<Rightarrow> 'tx \<Rightarrow> (kinesisError + wire) \<times> 'tx" where
  "withARN arn f tx = (case streamFromARN arn of Inl e \<Rightarrow> (Inl e, tx) | Inr stream \<Rightarrow> f stream tx)"

definition withRecord ::
  "'tx env \<Rightarrow> string \<Rightarrow> (streamRecord \<Rightarrow> 'tx \<Rightarrow> (kinesisError + wire) \<times> 'tx) \<Rightarrow> 'tx \<Rightarrow> (kinesisError + wire) \<times> 'tx" where
  "withRecord E stream f tx = (case getStream E tx stream of Inl e \<Rightarrow> (Inl e, tx) | Inr st \<Rightarrow> f st tx)"

subsection \<open>Encryption keys\<close>

definition requireUsableKey :: "'tx env \<Rightarrow> string \<Rightarrow> kinesisError option" where
  "requireUsableKey E keyID =
     (if keyID = [] then None
      else case describeKey E keyID of
             None \<Rightarrow> None
           | Some (known, state) \<Rightarrow>
               if \<not> known then Some (KMSNotFound keyID)
               else if state = ''Enabled'' then None
               else if state \<in> {''PendingDeletion'', ''PendingImport'', ''Unavailable''} then Some (KMSInvalidState keyID state)
               else Some (KMSDisabled keyID))"

definition keyForStream :: "'tx env \<Rightarrow> 'tx \<Rightarrow> string \<Rightarrow> string" where
  "keyForStream E tx stream =
     (case getStream E tx stream of Inl _ \<Rightarrow> [] | Inr st \<Rightarrow> if EncryptionType st \<noteq> ''KMS'' then [] else KeyID st)"

definition encryptionOf :: "'tx env \<Rightarrow> 'tx \<Rightarrow> string \<Rightarrow> string" where
  "encryptionOf E tx stream =
     (case getStream E tx stream of Inl _ \<Rightarrow> ''NONE'' | Inr st \<Rightarrow> if EncryptionType st = [] then ''NONE'' else EncryptionType st)"

definition withKey :: "'tx env \<Rightarrow> string \<Rightarrow> ('tx \<Rightarrow> (kinesisError + wire) \<times> 'tx) \<Rightarrow> 'tx \<Rightarrow> (kinesisError + wire) \<times> 'tx" where
  "withKey E keyID f tx = (case requireUsableKey E keyID of Some e \<Rightarrow> (Inl e, tx) | None \<Rightarrow> f tx)"

subsection \<open>The data plane\<close>

definition resultWire :: "putResult \<Rightarrow> (string \<times> wire) list" where
  "resultWire r = [(''ShardId'', WStr (rShardID r)), (''SequenceNumber'', WStr (formatSeq (rSeq r)))]"

definition entryOf :: "params \<Rightarrow> kinesisError + putEntry" where
  "entryOf p =
     (case Blob p ''Data'' of
        None \<Rightarrow> Inl (Validation ''Data is not valid base64'')
      | Some data \<Rightarrow> Inr \<lparr>ePartitionKey = Str p ''PartitionKey'', eExplicitHashKey = Str p ''ExplicitHashKey'', eData = data\<rparr>)"

definition hPutRecord :: "'tx handler" where
  "hPutRecord E p tx =
     withStream p (\<lambda>stream tx. withKey E (keyForStream E tx stream) (\<lambda>tx.
       case entryOf p of
         Inl e \<Rightarrow> (Inl e, tx)
       | Inr en \<Rightarrow>
           (case Put E stream [en] tx of
              (Inl e, tx1) \<Rightarrow> (Inl e, tx1)
            | (Inr rs, tx1) \<Rightarrow>
                (Inr (WObj (resultWire (hd rs) @ [(''EncryptionType'', WStr (encryptionOf E tx1 stream))])), tx1))) tx) tx"

fun entriesOf :: "anyv list \<Rightarrow> kinesisError + putEntry list" where
  "entriesOf [] = Inr []"
| "entriesOf (item # items) =
     (case item of
        AnyObj rc \<Rightarrow>
          (case entryOf rc of
             Inl e \<Rightarrow> Inl e
           | Inr en \<Rightarrow> (case entriesOf items of Inl e \<Rightarrow> Inl e | Inr ens \<Rightarrow> Inr (en # ens)))
      | _ \<Rightarrow> Inl (Validation ''Records item is not an object''))"

definition hPutRecords :: "'tx handler" where
  "hPutRecords E p tx =
     withStream p (\<lambda>stream tx.
       case map_of p ''Records'' of
         Some (AnyArr raw) \<Rightarrow>
           if raw = [] then (Inl (Validation ''Records must contain at least one record''), tx)
           else withKey E (keyForStream E tx stream) (\<lambda>tx.
             case entriesOf raw of
               Inl e \<Rightarrow> (Inl e, tx)
             | Inr ens \<Rightarrow>
                 (case Put E stream ens tx of
                    (Inl e, tx1) \<Rightarrow> (Inl e, tx1)
                  | (Inr rs, tx1) \<Rightarrow>
                      (Inr (WObj [(''FailedRecordCount'', WInt 0), (''Records'', WArr (map (\<lambda>r. WObj (resultWire r)) rs)),
                                  (''EncryptionType'', WStr (encryptionOf E tx1 stream))]), tx1))) tx
       | _ \<Rightarrow> (Inl (Validation ''Records must contain at least one record''), tx)) tx"

definition timestampOf :: "go_ext \<Rightarrow> params \<Rightarrow> string \<Rightarrow> kinesisError + int" where
  "timestampOf G p key =
     (case map_of p key of
        Some (AnyNum f) \<Rightarrow> Inr (float64ToInt G (float64Mul G f (Fin 1000000000)))
      | Some (AnyStr s) \<Rightarrow>
          (case timeParseNano G s of
             Some t \<Rightarrow> Inr t
           | None \<Rightarrow> Inl (Validation ''a timestamp is required''))
      | _ \<Rightarrow> Inl (Validation ''a timestamp is required''))"

text \<open>The sequence an iterator of the requested type starts after.\<close>

definition iteratorStart :: "'tx env \<Rightarrow> params \<Rightarrow> string \<Rightarrow> shard \<Rightarrow> 'tx \<Rightarrow> kinesisError + 64 word" where
  "iteratorStart E p stream sh tx =
     (let typ = Str p ''ShardIteratorType'' in
      if typ = ''TRIM_HORIZON'' then
        let after = TrimHorizonSeq E stream (ID sh) tx in
        Inr (if StartSeq sh > 0 \<and> after < StartSeq sh - 1 then StartSeq sh - 1 else after)
      else if typ = ''LATEST'' then Inr (LatestSeq E stream (ID sh) tx)
      else if typ = ''AT_SEQUENCE_NUMBER'' \<or> typ = ''AFTER_SEQUENCE_NUMBER'' then
        (case parseSeq (Str p ''StartingSequenceNumber'') of
           None \<Rightarrow> Inl (InvalidArgument ''StartingSequenceNumber is required'')
         | Some seq \<Rightarrow> Inr (if typ = ''AT_SEQUENCE_NUMBER'' \<and> seq > 0 then seq - 1 else seq))
      else if typ = ''AT_TIMESTAMP'' then
        (case timestampOf (lib E) p ''Timestamp'' of
           Inl e \<Rightarrow> Inl e
         | Inr ts \<Rightarrow> SeqAtOrAfter E stream (ID sh) ts tx)
      else if typ = [] then Inl (Validation ''ShardIteratorType is required'')
      else Inl (Validation ''invalid ShardIteratorType''))"

definition hGetShardIterator :: "'tx handler" where
  "hGetShardIterator E p tx =
     withStream p (\<lambda>stream tx.
       let sid = Str p ''ShardId'' in
       if sid = [] then (Inl (Validation ''ShardId is required''), tx)
       else withRecord E stream (\<lambda>st tx.
         case findShard st sid of
           None \<Rightarrow> (Inl (NoShard sid stream), tx)
         | Some sh \<Rightarrow>
             (case iteratorStart E p stream sh tx of
                Inl e \<Rightarrow> (Inl e, tx)
              | Inr after \<Rightarrow>
                  (Inr (WObj [(''ShardIterator'',
                     WStr (encodeIterator \<lparr>Stream = stream, Shard = sid, After = after, IssuedNs = now E\<rparr>))]), tx))) tx) tx"

definition hashRange :: "shard \<Rightarrow> wire" where
  "hashRange sh = WObj [(''StartingHashKey'', WStr (StartHash sh)), (''EndingHashKey'', WStr (EndHash sh))]"

definition isChild :: "string \<Rightarrow> shard \<Rightarrow> bool" where
  "isChild parent sh = (ParentID sh = parent \<or> AdjacentID sh = parent)"

definition childShards :: "streamRecord \<Rightarrow> string \<Rightarrow> wire list" where
  "childShards st parent =
     map (\<lambda>sh. WObj [(''ShardId'', WStr (ID sh)),
             (''ParentShards'', WArr (map WStr (ParentID sh # (if AdjacentID sh \<noteq> [] then [AdjacentID sh] else [])))),
             (''HashKeyRange'', hashRange sh)])
       (filter (isChild parent) (Shards st))"

definition drained :: "shard \<Rightarrow> 64 word \<Rightarrow> bool" where
  "drained sh next = (Closed sh \<and> (EndSeq sh = 0 \<or> next \<ge> EndSeq sh))"

definition recordWire :: "go_ext \<Rightarrow> string \<Rightarrow> krecord \<Rightarrow> wire" where
  "recordWire G enc rc =
     WObj [(''SequenceNumber'', WStr (formatSeq (Seq rc))),
           (''ApproximateArrivalTimestamp'', WFloat (float64Quo G (float64OfInt G (ArrivedNs rc)) (Fin 1000000000))),
           (''Data'', WBytes (Data rc)), (''PartitionKey'', WStr (PartitionKey rc)), (''EncryptionType'', WStr enc)]"

definition hGetRecords :: "'tx handler" where
  "hGetRecords E p tx =
     (let tok = Str p ''ShardIterator'' in
      if tok = [] then (Inl (Validation ''ShardIterator is required''), tx)
      else case decodeIterator tok (now E) of
             Inl e \<Rightarrow> (Inl e, tx)
           | Inr cur \<Rightarrow> withKey E (keyForStream E tx (Stream cur)) (\<lambda>tx.
               case Fetch E (Stream cur) (Shard cur) (After cur) (IntAt (lib E) p ''Limit'' 0) tx of
                 Inl e \<Rightarrow> (Inl e, tx)
               | Inr (recs, next, behind) \<Rightarrow> withRecord E (Stream cur) (\<lambda>st tx.
                   case findShard st (Shard cur) of
                     None \<Rightarrow> (Inl (NoShard (Shard cur) (Stream cur)), tx)
                   | Some sh \<Rightarrow>
                       let head = [(''Records'', WArr (map (recordWire (lib E) (encryptionOf E tx (Stream cur))) recs)),
                                   (''MillisBehindLatest'', WInt (if behind \<ge> 0 then behind div 1000000 else - (- behind div 1000000)))];
                           kids = childShards st (ID sh)
                       in (Inr (WObj (if drained sh next
                                then head @ [(''NextShardIterator'', WNull)] @ (if kids \<noteq> [] then [(''ChildShards'', WArr kids)] else [])
                                else head @ [(''NextShardIterator'', WStr (encodeIterator (cur\<lparr>After := next, IssuedNs := now E\<rparr>)))])),
                           tx)) tx) tx)"

definition shardWire :: "shard \<Rightarrow> wire" where
  "shardWire sh =
     WObj ([(''ShardId'', WStr (ID sh)), (''HashKeyRange'', hashRange sh),
            (''SequenceNumberRange'',
             WObj ((''StartingSequenceNumber'', WStr (formatSeq (StartSeq sh))) #
                   (if Closed sh then [(''EndingSequenceNumber'', WStr (formatSeq (max (EndSeq sh) (StartSeq sh))))] else [])))] @
           (if ParentID sh \<noteq> [] then [(''ParentShardId'', WStr (ParentID sh))] else []) @
           (if AdjacentID sh \<noteq> [] then [(''AdjacentParentShardId'', WStr (AdjacentID sh))] else []))"

definition shardsAfter :: "string \<Rightarrow> streamRecord \<Rightarrow> wire list" where
  "shardsAfter start st = map shardWire (filter (\<lambda>sh. \<not> (start \<noteq> [] \<and> ID sh \<le> start)) (Shards st))"

definition hListShards :: "'tx handler" where
  "hListShards E p tx =
     withStream p (\<lambda>stream. withRecord E stream (\<lambda>st tx.
       (Inr (WObj [(''Shards'', WArr (shardsAfter (Str p ''ExclusiveStartShardId'') st))]), tx))) tx"

subsection \<open>Resharding\<close>

definition hSplitShard :: "'tx handler" where
  "hSplitShard E p tx =
     withStream p (\<lambda>stream tx.
       let target = Str p ''ShardToSplit'' in
       if target = [] then (Inl (Validation ''ShardToSplit is required''), tx)
       else case parseBig (Str p ''NewStartingHashKey'') of
              None \<Rightarrow> (Inl (InvalidArgument ''NewStartingHashKey must be a decimal integer''), tx)
            | Some newStart \<Rightarrow> answer (\<lambda>_. WNull) (Update E stream (splitStream stream target newStart) tx)) tx"

definition hMergeShards :: "'tx handler" where
  "hMergeShards E p tx =
     withStream p (\<lambda>stream tx.
       let a = Str p ''ShardToMerge''; b = Str p ''AdjacentShardToMerge'' in
       if a = [] \<or> b = [] then (Inl (Validation ''both ShardToMerge and AdjacentShardToMerge are required''), tx)
       else if a = b then (Inl (InvalidArgument ''a shard cannot be merged with itself''), tx)
       else answer (\<lambda>_. WNull) (Update E stream (mergeStream stream a b) tx)) tx"

definition hUpdateShardCount :: "'tx handler" where
  "hUpdateShardCount E p tx =
     withStream p (\<lambda>stream tx.
       let target = IntAt (lib E) p ''TargetShardCount'' 0; scaling = Str p ''ScalingType'' in
       if target < 1 then (Inl (InvalidArgument ''TargetShardCount must be at least 1''), tx)
       else if scaling \<noteq> [] \<and> scaling \<noteq> ''UNIFORM_SCALING'' then (Inl (Validation ''ScalingType must be UNIFORM_SCALING''), tx)
       else
         let current = (case getStream E tx stream of Inl _ \<Rightarrow> 0 | Inr st \<Rightarrow> length (OpenShards st)) in
         answer (\<lambda>out. WObj [(''StreamName'', WStr (Name out)), (''CurrentShardCount'', WInt (int current)),
             (''TargetShardCount'', WInt target), (''StreamARN'', WStr (streamARN (ident E) (Name out)))])
           (Update E stream (countStream (nat target)) tx)) tx"

subsection \<open>Stream lifecycle\<close>

definition streamMode :: "params \<Rightarrow> string" where
  "streamMode p = (case map_of p ''StreamModeDetails'' of Some (AnyObj d) \<Rightarrow> Str d ''StreamMode'' | _ \<Rightarrow> [])"

definition hCreateStream :: "'tx handler" where
  "hCreateStream E p tx =
     answer (\<lambda>_. WNull) (Create E (Str p ''StreamName'') (IntAt (lib E) p ''ShardCount'' 1) (streamMode p) tx)"

definition hDeleteStream :: "'tx handler" where
  "hDeleteStream E p tx = withStream p (\<lambda>stream tx. answer (\<lambda>_. WNull) (Delete E stream tx)) tx"

definition modeWire :: "streamRecord \<Rightarrow> wire" where
  "modeWire st = WObj [(''StreamMode'', WStr (Mode st))]"

definition summaryWire :: "'tx env \<Rightarrow> streamRecord \<Rightarrow> wire" where
  "summaryWire E st =
     WObj [(''StreamName'', WStr (Name st)), (''StreamARN'', WStr (streamARN (ident E) (Name st))),
           (''StreamStatus'', WStr ''ACTIVE''), (''StreamModeDetails'', modeWire st),
           (''StreamCreationTimestamp'', WFloat (float64OfInt (lib E) (Created st)))]"

definition hListStreams :: "'tx handler" where
  "hListStreams E p tx =
     (let (names, more) = List E (Str p ''ExclusiveStartStreamName'') (IntAt (lib E) p ''Limit'' 0) tx;
          summaries = concat (map (\<lambda>n. case getStream E tx n of Inl _ \<Rightarrow> [] | Inr st \<Rightarrow> [summaryWire E st]) names)
      in (Inr (WObj [(''StreamNames'', WArr (map WStr names)), (''HasMoreStreams'', WBool more),
                     (''StreamSummaries'', WArr summaries)]), tx))"

definition encTypeOf :: "streamRecord \<Rightarrow> string" where
  "encTypeOf st = (if EncryptionType st = [] then ''NONE'' else EncryptionType st)"

definition enhancedWire :: "streamRecord \<Rightarrow> wire" where
  "enhancedWire st = WArr [WObj [(''ShardLevelMetrics'', WArr (map WStr (EnhancedMetrics st)))]]"

definition describeWire :: "'tx env \<Rightarrow> streamRecord \<Rightarrow> (string \<times> wire) list \<Rightarrow> wire" where
  "describeWire E st special =
     WObj ([(''StreamName'', WStr (Name st)), (''StreamARN'', WStr (streamARN (ident E) (Name st))),
            (''StreamStatus'', WStr ''ACTIVE''), (''StreamModeDetails'', modeWire st),
            (''RetentionPeriodHours'', WInt (RetentionHours st)),
            (''StreamCreationTimestamp'', WFloat (float64OfInt (lib E) (Created st))),
            (''EnhancedMonitoring'', enhancedWire st), (''EncryptionType'', WStr (encTypeOf st))] @ special @
           (if KeyID st \<noteq> [] then [(''KeyId'', WStr (KeyID st))] else []))"

definition hDescribeStream :: "'tx handler" where
  "hDescribeStream E p tx =
     withStream p (\<lambda>stream. withRecord E stream (\<lambda>st tx.
       (Inr (WObj [(''StreamDescription'',
          describeWire E st [(''Shards'', WArr (shardsAfter (Str p ''ExclusiveStartShardId'') st)), (''HasMoreShards'', WBool False)])]),
        tx))) tx"

definition hDescribeStreamSummary :: "'tx handler" where
  "hDescribeStreamSummary E p tx =
     withStream p (\<lambda>stream. withRecord E stream (\<lambda>st tx.
       (Inr (WObj [(''StreamDescriptionSummary'',
          describeWire E st [(''OpenShardCount'', WInt (int (length (OpenShards st)))),
            (''ConsumerCount'', WInt (int (length (ListConsumers E (streamARN (ident E) (Name st)) tx))))])]),
        tx))) tx"

definition hUpdateStreamMode :: "'tx handler" where
  "hUpdateStreamMode E p tx =
     withARN (Str p ''StreamARN'') (\<lambda>stream tx.
       let mode = streamMode p in
       if mode \<noteq> modeProvisioned \<and> mode \<noteq> modeOnDemand then
         (Inl (Validation ''StreamModeDetails.StreamMode must be PROVISIONED or ON_DEMAND''), tx)
       else answer (\<lambda>_. WNull) (Update E stream (\<lambda>st. Inr (st\<lparr>Mode := mode\<rparr>)) tx)) tx"

definition hUpdateMaxRecordSize :: "'tx handler" where
  "hUpdateMaxRecordSize E p tx = withStream p (\<lambda>_ tx. (Inr WNull, tx)) tx"

definition setRetention :: "bool \<Rightarrow> 'tx handler" where
  "setRetention increase E p tx =
     withStream p (\<lambda>stream tx.
       let hours = IntAt (lib E) p ''RetentionPeriodHours'' 0 in
       if hours < minRetentionHours \<or> hours > maxRetentionHours then
         (Inl (InvalidArgument ''RetentionPeriodHours must be between 24 and 8760''), tx)
       else answer (\<lambda>_. WNull) (Update E stream (\<lambda>st.
         if increase \<and> hours < RetentionHours st then Inl (InvalidArgument ''requested retention is shorter than the current one'')
         else if \<not> increase \<and> hours > RetentionHours st then Inl (InvalidArgument ''requested retention is longer than the current one'')
         else Inr (st\<lparr>RetentionHours := hours\<rparr>)) tx)) tx"

subsection \<open>Tags\<close>

definition addTags :: "'tx env \<Rightarrow> string \<Rightarrow> (string \<times> string) list \<Rightarrow> 'tx \<Rightarrow> (kinesisError + wire) \<times> 'tx" where
  "addTags E stream tags tx =
     answer (\<lambda>_. WNull)
       (Update E stream (\<lambda>st. Inr (st\<lparr>Tags := foldl (\<lambda>m (k, v). AList.update k v m) (Tags st) tags\<rparr>)) tx)"

definition removeTags :: "'tx env \<Rightarrow> string \<Rightarrow> string list \<Rightarrow> 'tx \<Rightarrow> (kinesisError + wire) \<times> 'tx" where
  "removeTags E stream ks tx =
     answer (\<lambda>_. WNull) (Update E stream (\<lambda>st. Inr (st\<lparr>Tags := foldl (\<lambda>m k. AList.delete k m) (Tags st) ks\<rparr>)) tx)"

definition hAddTags :: "'tx handler" where
  "hAddTags E p tx = withStream p (\<lambda>stream. addTags E stream (StrMap p ''Tags'')) tx"

definition hRemoveTags :: "'tx handler" where
  "hRemoveTags E p tx = withStream p (\<lambda>stream. removeTags E stream (Strs p ''TagKeys'')) tx"

definition tagPairs :: "params \<Rightarrow> (string \<times> string) list" where
  "tagPairs p =
     (case map_of p ''Tags'' of
        Some (AnyArr items) \<Rightarrow>
          concat (map (\<lambda>item. case item of AnyObj t \<Rightarrow> [(Str t ''Key'', Str t ''Value'')] | _ \<Rightarrow> []) items)
      | _ \<Rightarrow> [])"

definition hTagResource :: "'tx handler" where
  "hTagResource E p tx =
     withARN (Str p ''ResourceARN'') (\<lambda>stream. addTags E stream (tagPairs p @ StrMap p ''Tags'')) tx"

definition hUntagResource :: "'tx handler" where
  "hUntagResource E p tx = withARN (Str p ''ResourceARN'') (\<lambda>stream. removeTags E stream (Strs p ''TagKeys'')) tx"

definition tagList :: "(string \<times> string) list \<Rightarrow> wire" where
  "tagList tags =
     WArr (map (\<lambda>k. WObj [(''Key'', WStr k), (''Value'', WStr (case map_of tags k of Some v \<Rightarrow> v | None \<Rightarrow> []))])
            (sort (map fst tags)))"

definition hListTagsForStream :: "'tx handler" where
  "hListTagsForStream E p tx =
     withStream p (\<lambda>stream. withRecord E stream (\<lambda>st tx.
       (Inr (WObj [(''Tags'', tagList (Tags st)), (''HasMoreTags'', WBool False)]), tx))) tx"

definition hListTagsForResource :: "'tx handler" where
  "hListTagsForResource E p tx =
     withARN (Str p ''ResourceARN'') (\<lambda>stream. withRecord E stream (\<lambda>st tx. (Inr (WObj [(''Tags'', tagList (Tags st))]), tx))) tx"

subsection \<open>Consumers\<close>

definition consumerWire :: "go_ext \<Rightarrow> consumer \<Rightarrow> (string \<times> wire) list" where
  "consumerWire G c =
     [(''ConsumerName'', WStr (consumerName c)), (''ConsumerARN'', WStr (consumerARN c)),
      (''ConsumerStatus'', WStr (consumerStatus c)),
      (''ConsumerCreationTimestamp'', WFloat (float64OfInt G (consumerCreated c)))]"

definition hRegisterConsumer :: "'tx handler" where
  "hRegisterConsumer E p tx =
     (if Str p ''StreamARN'' = [] then (Inl (Validation ''StreamARN is required''), tx)
      else answer (\<lambda>c. WObj [(''Consumer'', WObj (consumerWire (lib E) c))])
             (RegisterConsumer E (Str p ''StreamARN'') (Str p ''ConsumerName'') tx))"

definition findConsumerFor :: "'tx env \<Rightarrow> params \<Rightarrow> 'tx \<Rightarrow> kinesisError + consumer" where
  "findConsumerFor E p tx = FindConsumer E (Str p ''StreamARN'') (Str p ''ConsumerName'') (Str p ''ConsumerARN'') tx"

definition hDeregisterConsumer :: "'tx handler" where
  "hDeregisterConsumer E p tx =
     (case findConsumerFor E p tx of
        Inl e \<Rightarrow> (Inl e, tx)
      | Inr c \<Rightarrow> answer (\<lambda>_. WNull) (DeleteConsumer E c tx))"

definition hDescribeConsumer :: "'tx handler" where
  "hDescribeConsumer E p tx =
     (case findConsumerFor E p tx of
        Inl e \<Rightarrow> (Inl e, tx)
      | Inr c \<Rightarrow> (Inr (WObj [(''ConsumerDescription'', WObj (consumerWire (lib E) c @ [(''StreamARN'', WStr (StreamARN c))]))]), tx))"

definition hListConsumers :: "'tx handler" where
  "hListConsumers E p tx =
     (if Str p ''StreamARN'' = [] then (Inl (Validation ''StreamARN is required''), tx)
      else (Inr (WObj [(''Consumers'', WArr (map (\<lambda>c. WObj (consumerWire (lib E) c)) (ListConsumers E (Str p ''StreamARN'') tx)))]), tx))"

subsection \<open>Configuration\<close>

definition hStartEncryption :: "'tx handler" where
  "hStartEncryption E p tx =
     withStream p (\<lambda>stream tx.
       let keyID = Str p ''KeyId'' in
       if keyID = [] then (Inl (Validation ''KeyId is required''), tx)
       else withKey E keyID (\<lambda>tx.
         answer (\<lambda>_. WNull) (Update E stream (\<lambda>st. Inr (st\<lparr>EncryptionType := ''KMS'', KeyID := keyID\<rparr>)) tx)) tx) tx"

definition hStopEncryption :: "'tx handler" where
  "hStopEncryption E p tx =
     withStream p (\<lambda>stream tx.
       answer (\<lambda>_. WNull) (Update E stream (\<lambda>st. Inr (st\<lparr>EncryptionType := ''NONE'', KeyID := []\<rparr>)) tx)) tx"

text \<open>The set of metrics switched on, as the loop leaves it; \<^verbatim>\<open>ALL\<close> replaces what came before.\<close>

definition metricsAfter :: "bool \<Rightarrow> string list \<Rightarrow> string list \<Rightarrow> string list" where
  "metricsAfter enable req old =
     (let flags = foldl (\<lambda>m k. if k = ''ALL'' then [(''ALL'', enable)] else AList.update k enable m)
                    (foldl (\<lambda>m k. AList.update k True m) [] old) req
      in sort (map fst (filter snd flags)))"

definition setMonitoring :: "bool \<Rightarrow> 'tx handler" where
  "setMonitoring enable E p tx =
     withStream p (\<lambda>stream tx.
       let req = Strs p ''ShardLevelMetrics'';
           before = (case getStream E tx stream of Inl _ \<Rightarrow> [] | Inr st \<Rightarrow> EnhancedMetrics st) in
       answer (\<lambda>st. WObj [(''StreamName'', WStr stream), (''StreamARN'', WStr (streamARN (ident E) stream)),
                (''CurrentShardLevelMetrics'', WArr (map WStr before)),
                (''DesiredShardLevelMetrics'', WArr (map WStr (EnhancedMetrics st)))])
         (Update E stream (\<lambda>st. Inr (st\<lparr>EnhancedMetrics := metricsAfter enable req (EnhancedMetrics st)\<rparr>)) tx)) tx"

definition hDescribeLimits :: "'tx handler" where
  "hDescribeLimits E p tx =
     (let opened = sum_list (map (\<lambda>n. case getStream E tx n of Inl _ \<Rightarrow> 0 | Inr st \<Rightarrow> length (OpenShards st)) (fst (List E [] 0 tx)))
      in (Inr (WObj [(''ShardLimit'', WInt 10000), (''OpenShardCount'', WInt (int opened)),
                     (''OnDemandStreamCount'', WInt 0), (''OnDemandStreamCountLimit'', WInt 50)]), tx))"

definition hDescribeAccountSettings :: "'tx handler" where
  "hDescribeAccountSettings E p tx =
     (Inr (WObj [(''MaxRecordSize'', WInt maxRecordSize), (''TotalStreamCount'', WInt 0),
                 (''DefaultStreamModeDetails'', WObj [(''StreamMode'', WStr modeProvisioned)])]), tx)"

definition hUpdateAccountSettings :: "'tx handler" where
  "hUpdateAccountSettings E p tx = (Inr (WObj []), tx)"

definition hPutResourcePolicy :: "'tx handler" where
  "hPutResourcePolicy E p tx =
     withARN (Str p ''ResourceARN'') (\<lambda>stream tx.
       let policy = Str p ''Policy'' in
       if policy = [] then (Inl (Validation ''Policy is required''), tx)
       else answer (\<lambda>_. WNull) (Update E stream (\<lambda>st. Inr (st\<lparr>ResourcePolicy := policy\<rparr>)) tx)) tx"

definition hGetResourcePolicy :: "'tx handler" where
  "hGetResourcePolicy E p tx =
     withARN (Str p ''ResourceARN'') (\<lambda>stream. withRecord E stream (\<lambda>st tx.
       if ResourcePolicy st = [] then (Inl (NoStream stream), tx)
       else (Inr (WObj [(''Policy'', WStr (ResourcePolicy st))]), tx))) tx"

definition hDeleteResourcePolicy :: "'tx handler" where
  "hDeleteResourcePolicy E p tx =
     withARN (Str p ''ResourceARN'') (\<lambda>stream tx.
       answer (\<lambda>_. WNull) (Update E stream (\<lambda>st. Inr (st\<lparr>ResourcePolicy := []\<rparr>)) tx)) tx"

subsection \<open>Dispatch\<close>

definition handlers :: "(string \<times> 'tx handler) list" where
  "handlers =
     [(''CreateStream'', hCreateStream), (''DeleteStream'', hDeleteStream), (''ListStreams'', hListStreams),
      (''DescribeStream'', hDescribeStream), (''DescribeStreamSummary'', hDescribeStreamSummary),
      (''UpdateStreamMode'', hUpdateStreamMode), (''UpdateMaxRecordSize'', hUpdateMaxRecordSize),
      (''PutRecord'', hPutRecord), (''PutRecords'', hPutRecords), (''GetRecords'', hGetRecords),
      (''GetShardIterator'', hGetShardIterator), (''ListShards'', hListShards),
      (''SplitShard'', hSplitShard), (''MergeShards'', hMergeShards), (''UpdateShardCount'', hUpdateShardCount),
      (''IncreaseStreamRetentionPeriod'', setRetention True), (''DecreaseStreamRetentionPeriod'', setRetention False),
      (''AddTagsToStream'', hAddTags), (''RemoveTagsFromStream'', hRemoveTags), (''ListTagsForStream'', hListTagsForStream),
      (''TagResource'', hTagResource), (''UntagResource'', hUntagResource), (''ListTagsForResource'', hListTagsForResource),
      (''RegisterStreamConsumer'', hRegisterConsumer), (''DeregisterStreamConsumer'', hDeregisterConsumer),
      (''DescribeStreamConsumer'', hDescribeConsumer), (''ListStreamConsumers'', hListConsumers),
      (''StartStreamEncryption'', hStartEncryption), (''StopStreamEncryption'', hStopEncryption),
      (''EnableEnhancedMonitoring'', setMonitoring True), (''DisableEnhancedMonitoring'', setMonitoring False),
      (''DescribeLimits'', hDescribeLimits), (''DescribeAccountSettings'', hDescribeAccountSettings),
      (''UpdateAccountSettings'', hUpdateAccountSettings), (''PutResourcePolicy'', hPutResourcePolicy),
      (''GetResourcePolicy'', hGetResourcePolicy), (''DeleteResourcePolicy'', hDeleteResourcePolicy)]"

end
