(* ===== verification/KinesisShards.thy ===== *)
theory KinesisShards
  imports KinesisHandlers
begin

text \<open>
  The shards of one stream: open shards tile the hash space, ids are never reused, and a child starts
  after the end of its parents. Shown for tiling, splitting, merging and re-tiling; the record of a
  stream that satisfies this is \<open>streamOk\<close>.
\<close>

definition covers :: "int \<Rightarrow> shard \<Rightarrow> bool" where
  "covers h sh = (inRange sh h = Some True)"

definition coverage :: "int \<Rightarrow> shard list \<Rightarrow> nat" where
  "coverage h shs = length (filter (covers h) shs)"

definition numbered :: "streamRecord \<Rightarrow> string \<Rightarrow> bool" where
  "numbered st i = (\<exists>n<NextShardNum st. i = shardID n)"

definition hashesOk :: "shard \<Rightarrow> bool" where
  "hashesOk sh = (\<exists>lo hi. StartHash sh = intStr lo \<and> EndHash sh = intStr hi \<and> lo \<le> hi + 1)"

definition shardOk :: "streamRecord \<Rightarrow> shard \<Rightarrow> bool" where
  "shardOk st sh =
     (hashesOk sh \<and> numbered st (ID sh) \<and> (ParentID sh = [] \<or> numbered st (ParentID sh)) \<and>
      (AdjacentID sh = [] \<or> numbered st (AdjacentID sh)) \<and>
      StartSeq sh \<le> NextSeq st \<and> EndSeq sh < NextSeq st \<and> (\<not> Closed sh \<longrightarrow> EndSeq sh = 0))"

definition lineageOk :: "shard list \<Rightarrow> bool" where
  "lineageOk shs = (\<forall>c\<in>set shs. \<forall>p\<in>set shs. isChild (ID p) c \<longrightarrow> Closed p \<and> EndSeq p < StartSeq c)"

definition shardsOk :: "streamRecord \<Rightarrow> bool" where
  "shardsOk st =
     ((\<forall>sh\<in>set (Shards st). shardOk st sh) \<and> distinct (map ID (Shards st)) \<and> 0 < NextSeq st \<and> lineageOk (Shards st))"

definition tiled :: "streamRecord \<Rightarrow> bool" where
  "tiled st = (\<forall>h. coverage h (OpenShards st) = (if 0 \<le> h \<and> h \<le> maxHash then 1 else 0))"

definition streamOk :: "streamRecord \<Rightarrow> bool" where
  "streamOk st = (shardsOk st \<and> tiled st \<and> 24 \<le> RetentionHours st \<and> RetentionHours st \<le> 8760)"

subsection \<open>Shard ids\<close>

lemma zeroPad_inject: "zeroPad w (intStr (int m)) = zeroPad w (intStr (int n)) \<longleftrightarrow> m = n"
proof -
  have "digitsVal 0 (replicate k (CHR ''0'') @ s) = digitsVal 0 s" for k s
    by (induction k) (auto simp: isDigit_def digitVal_def)
  then have v: "digitsVal 0 (zeroPad w s) = digitsVal 0 s" for w s by (simp add: zeroPad_def)
  have "digitsVal 0 (zeroPad w (intStr (int n))) = Some n" for n
    unfolding v by (simp add: intStr_def digitsVal_natStr)
  then show ?thesis by (metis option.inject)
qed

lemma shardID_inject [simp]: "shardID m = shardID n \<longleftrightarrow> m = n"
  by (simp add: shardID_def zeroPad_inject)

lemma shardID_nonempty [simp]: "shardID n \<noteq> []" "[] \<noteq> shardID n"
  by (simp_all add: shardID_def)

subsection \<open>Coverage\<close>

lemma coverage_simps [simp]:
  "coverage h [] = 0" "coverage h (sh # shs) = (if covers h sh then 1 else 0) + coverage h shs"
  "coverage h (xs @ ys) = coverage h xs + coverage h ys"
  by (simp_all add: coverage_def)

lemma inRange_hashes: "StartHash sh = intStr lo \<Longrightarrow> EndHash sh = intStr hi \<Longrightarrow> inRange sh h = Some (lo \<le> h \<and> h \<le> hi)"
  by (simp add: inRange_def)

lemma covers_newShard [simp]: "covers h (newShard st lo hi p a) \<longleftrightarrow> lo \<le> h \<and> h \<le> hi"
  by (simp add: covers_def inRange_def newShard_def)

lemma inRange_total: "hashesOk sh \<Longrightarrow> inRange sh h = Some (covers h sh)"
  by (auto simp: hashesOk_def inRange_hashes covers_def)

lemma newShard_simps [simp]:
  "ID (newShard st lo hi p a) = shardID (NextShardNum st)" "Closed (newShard st lo hi p a) = False"
  "ParentID (newShard st lo hi p a) = p" "AdjacentID (newShard st lo hi p a) = a"
  "StartSeq (newShard st lo hi p a) = NextSeq st" "EndSeq (newShard st lo hi p a) = 0"
  "lo \<le> hi + 1 \<Longrightarrow> hashesOk (newShard st lo hi p a)"
  by (auto simp: newShard_def hashesOk_def)

lemma closeShard_simps [simp]:
  "ID (closeShard st sh) = ID sh" "Closed (closeShard st sh)" "ParentID (closeShard st sh) = ParentID sh"
  "AdjacentID (closeShard st sh) = AdjacentID sh" "StartSeq (closeShard st sh) = StartSeq sh"
  "hashesOk (closeShard st sh) = hashesOk sh" "covers h (closeShard st sh) = covers h sh"
  by (simp_all add: closeShard_def hashesOk_def covers_def inRange_def split: option.split)

lemma OpenShards_openChild: "OpenShards (openChild lo hi p a st) = OpenShards st @ [newShard st lo hi p a]"
  by (simp add: OpenShards_def openChild_def)

text \<open>Closing the shards that satisfy a predicate.\<close>

definition closeWhere :: "(shard \<Rightarrow> bool) \<Rightarrow> streamRecord \<Rightarrow> streamRecord" where
  "closeWhere P st = st\<lparr>Shards := map (\<lambda>sh. if P sh then closeShard st sh else sh) (Shards st)\<rparr>"

lemma closeAll_where: "closeAll st = closeWhere (\<lambda>sh. \<not> Closed sh) st"
  unfolding closeAll_def closeWhere_def by (intro arg_cong [where f = "\<lambda>x. st\<lparr>Shards := x\<rparr>"] map_cong) auto

lemma updateShard_where:
  "distinct (map ID shs) \<Longrightarrow> updateShard sid f shs = map (\<lambda>sh. if ID sh = sid then f sh else sh) shs"
proof (induction sid f shs rule: updateShard.induct)
  case (2 sid f sh shs)
  have "map (\<lambda>x. if ID x = sid then f x else x) shs = shs" if "ID sh = sid"
    using 2(2) that by (intro map_idI) (force simp: image_iff)
  then show ?case using 2 by auto
qed simp

lemma closeIn_where: "distinct (map ID (Shards st)) \<Longrightarrow> closeIn sid st = closeWhere (\<lambda>sh. ID sh = sid) st"
  by (simp add: closeIn_def closeWhere_def updateShard_where)

lemma closeWhere_simps [simp]:
  "NextSeq (closeWhere P st) = NextSeq st" "NextShardNum (closeWhere P st) = NextShardNum st"
  "map ID (Shards (closeWhere P st)) = map ID (Shards st)" "Name (closeWhere P st) = Name st"
  "RetentionHours (closeWhere P st) = RetentionHours st" "Mode (closeWhere P st) = Mode st"
  by (simp_all add: closeWhere_def)

lemma openChild_simps [simp]:
  "NextSeq (openChild lo hi p a st) = NextSeq st" "Name (openChild lo hi p a st) = Name st"
  "RetentionHours (openChild lo hi p a st) = RetentionHours st"
  by (simp_all add: openChild_def)

lemma OpenShards_closeWhere:
  "OpenShards (closeWhere P st) = filter (\<lambda>sh. \<not> P sh) (OpenShards st)"
proof -
  have "filter (\<lambda>sh. \<not> Closed sh) (map (\<lambda>sh. if P sh then closeShard st sh else sh) shs) =
      filter (\<lambda>sh. \<not> P sh) (filter (\<lambda>sh. \<not> Closed sh) shs)" for shs
    by (induction shs) auto
  then show ?thesis by (simp add: OpenShards_def closeWhere_def)
qed

lemma closeShard_EndSeq: "shardOk st sh \<Longrightarrow> \<not> Closed sh \<Longrightarrow> 0 < NextSeq st \<Longrightarrow> EndSeq (closeShard st sh) = NextSeq st - 1"
proof -
  assume a: "shardOk st sh" "\<not> Closed sh" "0 < NextSeq st"
  show ?thesis
  proof (cases "NextSeq st > 1")
    case False
    then have "unat (NextSeq st) = unat (1 :: 64 word)" using a(3) by (simp add: word_less_nat_alt)
    then have "NextSeq st = 1" by (simp only: word_unat_eq_iff)
    then show ?thesis using a by (simp add: closeShard_def shardOk_def)
  qed (simp add: closeShard_def)
qed

subsection \<open>Closing and opening\<close>

lemma numbered_mono: "NextShardNum st \<le> NextShardNum st' \<Longrightarrow> numbered st i \<Longrightarrow> numbered st' i"
  by (auto simp: numbered_def)

lemma pred_less: "0 < x \<Longrightarrow> x - 1 < x" for x :: "64 word"
  using unat_minus_one [of x] unat_gt_0 [of x] by (cases "x = 0") (simp_all add: word_less_nat_alt)

lemma shardOk_cong:
  "NextSeq st' = NextSeq st \<Longrightarrow> NextShardNum st \<le> NextShardNum st' \<Longrightarrow> shardOk st sh \<Longrightarrow> shardOk st' sh"
  using numbered_mono [of st st'] by (auto simp: shardOk_def)

lemma closeWhere_ok:
  assumes "shardsOk st" "\<And>sh. sh \<in> set (Shards st) \<Longrightarrow> P sh \<Longrightarrow> \<not> Closed sh"
  shows "shardsOk (closeWhere P st)"
proof -
  let ?f = "\<lambda>sh. if P sh then closeShard st sh else sh"
  have sh: "Shards (closeWhere P st) = map ?f (Shards st)" by (simp add: closeWhere_def)
  have pos: "0 < NextSeq st" and ok: "\<And>sh. sh \<in> set (Shards st) \<Longrightarrow> shardOk st sh"
    using assms(1) by (auto simp: shardsOk_def)
  have ends: "EndSeq (closeShard st x) = NextSeq st - 1" if "x \<in> set (Shards st)" "P x" for x
    using closeShard_EndSeq [OF ok] assms(2) pos that by blast
  have lt: "NextSeq st - 1 < NextSeq st" using pos by (rule pred_less)
  have "shardOk (closeWhere P st) (?f x)" if "x \<in> set (Shards st)" for x
  proof (rule shardOk_cong [of _ st])
    show "shardOk st (?f x)" using ok [OF that] ends [OF that] lt by (auto simp: shardOk_def)
  qed simp_all
  then have "\<forall>y\<in>set (Shards (closeWhere P st)). shardOk (closeWhere P st) y" unfolding sh by (simp only: set_map ball_simps) blast
  moreover have "lineageOk (map ?f (Shards st))"
  proof -
    have "Closed (?f p) \<and> EndSeq (?f p) < StartSeq (?f c)"
      if "c \<in> set (Shards st)" "p \<in> set (Shards st)" "isChild (ID (?f p)) (?f c)" for c p
    proof -
      have "isChild (ID p) c" using that(3) by (simp add: isChild_def split: if_splits)
      then have "Closed p \<and> EndSeq p < StartSeq c" using assms(1) that(1,2) by (auto simp: shardsOk_def lineageOk_def)
      moreover have "\<not> P p" using assms(2) that(2) calculation by blast
      ultimately show ?thesis by simp
    qed
    then show ?thesis unfolding lineageOk_def by (simp only: set_map ball_simps) blast
  qed
  moreover have "distinct (map ID (Shards (closeWhere P st)))" using assms(1) by (simp only: closeWhere_simps shardsOk_def)
  ultimately show ?thesis using pos unfolding shardsOk_def sh by simp
qed

text \<open>An id that may be named as a parent: none, or that of a closed shard.\<close>

definition parentOk :: "streamRecord \<Rightarrow> string \<Rightarrow> bool" where
  "parentOk st i = (i = [] \<or> (\<exists>p\<in>set (Shards st). ID p = i \<and> Closed p))"

lemma openChild_ok:
  assumes "shardsOk st" "parentOk st p" "parentOk st a" "lo \<le> hi + 1"
  shows "shardsOk (openChild lo hi p a st)"
proof -
  let ?c = "newShard st lo hi p a"
  have pos: "0 < NextSeq st" and ok: "\<And>sh. sh \<in> set (Shards st) \<Longrightarrow> shardOk st sh"
    and dist: "distinct (map ID (Shards st))" and lin: "lineageOk (Shards st)"
    using assms(1) by (auto simp: shardsOk_def)
  have old: "shardOk (openChild lo hi p a st) sh" if "sh \<in> set (Shards st)" for sh
    by (rule shardOk_cong [OF _ _ ok [OF that]]) (simp_all add: openChild_def)
  have num: "parentOk st i \<Longrightarrow> i = [] \<or> numbered st i" for i
    using ok by (auto simp: parentOk_def shardOk_def)
  have "shardOk (openChild lo hi p a st) ?c"
    using num [OF assms(2)] num [OF assms(3)] assms(4) pos numbered_mono [of st "openChild lo hi p a st"]
    by (auto simp: shardOk_def openChild_def) (auto simp: numbered_def)
  moreover have new: "\<not> numbered st (shardID (NextShardNum st))" by (auto simp: numbered_def)
  then have fresh: "shardID (NextShardNum st) \<noteq> ID sh" if "sh \<in> set (Shards st)" for sh
    using ok [OF that] by (auto simp: shardOk_def)
  have "lineageOk (Shards st @ [?c])"
  proof -
    have "Closed x \<and> EndSeq x < NextSeq st" if x: "x \<in> set (Shards st)" and ch: "isChild (ID x) ?c" for x
    proof -
      have "ID x \<noteq> []" using ok [OF x] by (auto simp: shardOk_def numbered_def)
      then obtain y where y: "y \<in> set (Shards st)" "ID y = ID x" "Closed y"
        using ch assms(2,3) by (auto simp: isChild_def parentOk_def)
      then have "y = x" using dist x by (auto simp: distinct_map dest: inj_onD)
      then show ?thesis using y ok [OF x] by (auto simp: shardOk_def)
    qed
    moreover have "\<not> isChild (ID ?c) x" if "x \<in> set (Shards st)" for x
      using ok [OF that] new by (auto simp: isChild_def shardOk_def)
    moreover have "\<not> isChild (ID ?c) ?c"
      using num [OF assms(2)] num [OF assms(3)] new by (auto simp: isChild_def)
    ultimately show ?thesis using lin unfolding lineageOk_def by auto
  qed
  ultimately show ?thesis using old pos dist fresh by (auto simp: shardsOk_def openChild_def)
qed

text \<open>What a resharding step keeps of the shards that were there.\<close>

definition grown :: "64 word \<Rightarrow> shard \<Rightarrow> shard \<Rightarrow> bool" where
  "grown n sh sh' =
     (ID sh' = ID sh \<and> StartSeq sh' = StartSeq sh \<and> (\<forall>h. covers h sh' = covers h sh) \<and>
      (Closed sh \<longrightarrow> Closed sh' \<and> EndSeq sh' = EndSeq sh) \<and> (\<not> Closed sh \<longrightarrow> Closed sh' \<longrightarrow> EndSeq sh' = n - 1))"

definition evolves :: "streamRecord \<Rightarrow> streamRecord \<Rightarrow> bool" where
  "evolves st st' =
     (Name st' = Name st \<and> NextSeq st' = NextSeq st \<and>
      (\<forall>sh\<in>set (Shards st). \<exists>sh'\<in>set (Shards st'). grown (NextSeq st) sh sh'))"

lemma grown_refl [simp]: "grown n sh sh"
  by (simp add: grown_def)

lemma grown_trans: "grown n a b \<Longrightarrow> grown n b c \<Longrightarrow> grown n a c"
  by (auto simp: grown_def split: if_splits)

lemma evolves_same: "Name st' = Name st \<Longrightarrow> NextSeq st' = NextSeq st \<Longrightarrow> set (Shards st) \<subseteq> set (Shards st') \<Longrightarrow> evolves st st'"
  unfolding evolves_def using grown_refl by blast

lemma evolves_trans: "evolves a b \<Longrightarrow> evolves b c \<Longrightarrow> evolves a c"
  unfolding evolves_def using grown_trans by (metis (no_types, lifting))

lemma evolves_open: "evolves st (openChild lo hi p a st)"
  by (rule evolves_same) (auto simp: openChild_def)

lemma evolves_close:
  assumes "shardsOk st" "\<And>sh. sh \<in> set (Shards st) \<Longrightarrow> P sh \<Longrightarrow> \<not> Closed sh"
  shows "evolves st (closeWhere P st)"
proof -
  let ?f = "\<lambda>sh. if P sh then closeShard st sh else sh"
  have "\<exists>sh'\<in>set (Shards (closeWhere P st)). grown (NextSeq st) sh sh'" if "sh \<in> set (Shards st)" for sh
  proof (rule bexI [of _ "?f sh"])
    show "?f sh \<in> set (Shards (closeWhere P st))" using that by (auto simp: closeWhere_def)
    show "grown (NextSeq st) sh (?f sh)"
      using assms(2) [OF that] closeShard_EndSeq assms(1) that by (auto simp: shardsOk_def grown_def)
  qed
  then show ?thesis by (simp add: evolves_def)
qed

subsection \<open>Resharding keeps the tiling\<close>

lemma findShard_SomeD: "findShard st i = Some sh \<Longrightarrow> sh \<in> set (Shards st) \<and> ID sh = i"
  by (auto simp: findShard_def find_Some_iff in_set_conv_nth)

lemma coverage_remove:
  "distinct (map ID shs) \<Longrightarrow> sh \<in> set shs \<Longrightarrow>
   coverage h (filter (\<lambda>x. ID x \<noteq> ID sh) shs) + (if covers h sh then 1 else 0) = coverage h shs"
proof (induction shs)
  case (Cons x xs)
  have "filter (\<lambda>y. ID y \<noteq> ID x) xs = xs" using Cons.prems(1) by (auto simp: filter_id_conv image_iff)
  then show ?case using Cons by (cases "x = sh") (auto simp: image_iff)
qed simp

lemma distinct_open: "distinct (map ID (Shards st)) \<Longrightarrow> distinct (map ID (OpenShards st))"
  by (simp add: OpenShards_def distinct_map_filter)

text \<open>Closing one open shard takes its range away and changes nothing else of the tiling.\<close>

lemma close_one:
  assumes "shardsOk st" "sh \<in> set (Shards st)" "\<not> Closed sh"
  shows "shardsOk (closeIn (ID sh) st)" "evolves st (closeIn (ID sh) st)"
    "coverage h (OpenShards (closeIn (ID sh) st)) + (if covers h sh then 1 else 0) = coverage h (OpenShards st)"
    "parentOk (closeIn (ID sh) st) (ID sh)"
    "x \<in> set (Shards st) \<Longrightarrow> ID x \<noteq> ID sh \<Longrightarrow> x \<in> set (Shards (closeIn (ID sh) st))"
proof -
  have dist: "distinct (map ID (Shards st))" using assms(1) by (simp add: shardsOk_def)
  note w = closeIn_where [OF dist, of "ID sh"]
  have only: "\<not> Closed x" if "x \<in> set (Shards st)" "ID x = ID sh" for x
    using dist assms(2,3) that by (auto simp: distinct_map dest: inj_onD)
  show "shardsOk (closeIn (ID sh) st)" unfolding w by (rule closeWhere_ok [OF assms(1) only])
  show "evolves st (closeIn (ID sh) st)" unfolding w by (rule evolves_close [OF assms(1) only])
  show "coverage h (OpenShards (closeIn (ID sh) st)) + (if covers h sh then 1 else 0) = coverage h (OpenShards st)"
    unfolding w OpenShards_closeWhere
    by (rule coverage_remove [OF distinct_open [OF dist]]) (use assms in \<open>simp add: OpenShards_def\<close>)
  show "parentOk (closeIn (ID sh) st) (ID sh)"
    unfolding w parentOk_def closeWhere_def using assms(2) by (intro disjI2 bexI [of _ "closeShard st sh"]) auto
  show "x \<in> set (Shards st) \<Longrightarrow> ID x \<noteq> ID sh \<Longrightarrow> x \<in> set (Shards (closeIn (ID sh) st))"
    unfolding w closeWhere_def by force
qed

lemma parentOk_openChild: "parentOk st i \<Longrightarrow> parentOk (openChild lo hi p a st) i"
  by (auto simp: parentOk_def openChild_def)

lemma parentOk_Nil [simp]: "parentOk st []"
  by (simp add: parentOk_def)

lemma parentOk_evolves: "parentOk st i \<Longrightarrow> evolves st st' \<Longrightarrow> parentOk st' i"
  unfolding parentOk_def evolves_def grown_def by metis

lemma splitStream_ok:
  assumes "splitStream stream target newStart st = Inr st'" "streamOk st"
  shows "streamOk st' \<and> evolves st st'"
proof -
  have ok: "shardsOk st" using assms(2) by (simp add: streamOk_def)
  obtain sh lo hi where f: "findShard st target = Some sh" "\<not> Closed sh" "parseBig (StartHash sh) = Some lo"
    "parseBig (EndHash sh) = Some hi" "lo < newStart" "newStart \<le> hi"
    and st': "st' = openChild newStart hi target [] (openChild lo (newStart - 1) target [] (closeIn target st))"
    using assms(1) by (auto simp: splitStream_def split: option.splits if_splits)
  have sh: "sh \<in> set (Shards st)" "ID sh = target" using findShard_SomeD [OF f(1)] by auto
  note c = close_one [OF ok sh(1) f(2), unfolded sh(2)]
  have "shardsOk st'"
    unfolding st' using c(1,4) f(5,6) by (intro openChild_ok parentOk_openChild) simp_all
  moreover have "evolves st st'"
    unfolding st' using c(2) evolves_open evolves_trans by metis
  moreover have "coverage h (OpenShards st') = coverage h (OpenShards st)" for h
  proof -
    have "covers h sh \<longleftrightarrow> lo \<le> h \<and> h \<le> hi" using f by (simp add: covers_def inRange_def)
    then show ?thesis using c(3) [of h] f(5,6) by (auto simp: st' OpenShards_openChild split: if_splits)
  qed
  moreover have "RetentionHours st' = RetentionHours st" by (simp add: st' closeIn_def)
  ultimately show ?thesis using assms(2) by (simp add: streamOk_def tiled_def)
qed

lemma merge_two:
  assumes "streamOk st" "l \<in> set (Shards st)" "r \<in> set (Shards st)" "ID l \<noteq> ID r" "\<not> Closed l" "\<not> Closed r"
    and hashes: "parseBig (StartHash l) = Some lLo" "parseBig (EndHash l) = Some lHi" "parseBig (StartHash r) = Some rLo" "parseBig (EndHash r) = Some rHi"
    and "lHi + 1 = rLo" "lLo \<le> rLo"
  shows "streamOk (openChild lLo rHi (ID l) (ID r) (closeIn (ID r) (closeIn (ID l) st))) \<and>
    evolves st (openChild lLo rHi (ID l) (ID r) (closeIn (ID r) (closeIn (ID l) st)))"
proof -
  let ?st1 = "closeIn (ID l) st" and ?st2 = "closeIn (ID r) (closeIn (ID l) st)"
  have ok: "shardsOk st" using assms(1) by (simp add: streamOk_def)
  note c1 = close_one [OF ok assms(2,5)]
  have r1: "r \<in> set (Shards ?st1)" using c1(5) [OF assms(3)] assms(4) by simp
  note c2 = close_one [OF c1(1) r1 assms(6)]
  have "hashesOk r" using ok assms(3) by (auto simp: shardsOk_def shardOk_def)
  then have wide: "rLo \<le> rHi + 1" using hashes by (auto simp: hashesOk_def)
  have "shardsOk (openChild lLo rHi (ID l) (ID r) ?st2)"
    using c2(1,2,4) parentOk_evolves [OF c1(4)] assms(12) wide by (intro openChild_ok) simp_all
  moreover have "evolves st (openChild lLo rHi (ID l) (ID r) ?st2)"
    using c1(2) c2(2) evolves_open evolves_trans by metis
  moreover have "coverage h (OpenShards (openChild lLo rHi (ID l) (ID r) ?st2)) = coverage h (OpenShards st)" for h
  proof -
    have "covers h l \<longleftrightarrow> lLo \<le> h \<and> h \<le> lHi" "covers h r \<longleftrightarrow> rLo \<le> h \<and> h \<le> rHi"
      using hashes by (simp_all add: covers_def inRange_def)
    then show ?thesis
      using c1(3) [of h] c2(3) [of h] assms(11,12) wide by (auto simp: OpenShards_openChild split: if_splits)
  qed
  moreover have "RetentionHours (openChild lLo rHi (ID l) (ID r) ?st2) = RetentionHours st" by (simp add: closeIn_def)
  ultimately show ?thesis using assms(1) by (simp add: streamOk_def tiled_def)
qed

lemma mergeStream_ok:
  assumes "mergeStream stream a b st = Inr st'" "a \<noteq> b" "streamOk st"
  shows "streamOk st' \<and> evolves st st'"
proof -
  obtain l r where f: "findShard st a = Some l" "findShard st b = Some r" "\<not> Closed l" "\<not> Closed r"
    using assms(1) by (auto simp: mergeStream_def split: option.splits if_splits)
  have m: "l \<in> set (Shards st)" "ID l = a" "r \<in> set (Shards st)" "ID r = b"
    using findShard_SomeD [OF f(1)] findShard_SomeD [OF f(2)] by auto
  obtain lLo lHi rLo rHi where h: "parseBig (StartHash l) = Some lLo" "parseBig (EndHash l) = Some lHi"
    "parseBig (StartHash r) = Some rLo" "parseBig (EndHash r) = Some rHi"
    using assms(1) f by (auto simp: mergeStream_def split: option.splits)
  show ?thesis
  proof (cases "lLo > rLo")
    case True
    then have e: "rHi + 1 = lLo" "st' = openChild rLo lHi (ID r) (ID l) (closeIn (ID l) (closeIn (ID r) st))"
      using assms(1) f h by (auto simp: mergeStream_def split: if_splits)
    show ?thesis unfolding e(2)
      using merge_two [OF assms(3) m(3,1) _ f(4,3) h(3,4,1,2) e(1)] True assms(2) m by simp
  next
    case False
    then have e: "lHi + 1 = rLo" "st' = openChild lLo rHi (ID l) (ID r) (closeIn (ID r) (closeIn (ID l) st))"
      using assms(1) f h by (auto simp: mergeStream_def split: if_splits)
    show ?thesis unfolding e(2)
      using merge_two [OF assms(3) m(1,3) _ f(3,4) h e(1)] False assms(2) m by simp
  qed
qed

lemma parentAt_mem: "parentAt h shs = Inr i \<Longrightarrow> i = [] \<or> i \<in> ID ` set shs"
  by (induction h shs rule: parentAt.induct) (auto split: option.splits if_splits)

lemma retile_ok:
  assumes "retile opened k width lo st = Inr st'" "shardsOk st" "\<forall>x\<in>set opened. parentOk st (ID x)"
    and "0 \<le> width" "lo + int k * width \<le> maxHash + 1" "0 < k"
  shows "shardsOk st' \<and> evolves st st' \<and> RetentionHours st' = RetentionHours st \<and>
    coverage h (OpenShards st') = coverage h (OpenShards st) + (if lo \<le> h \<and> h \<le> maxHash then 1 else 0)"
  using assms
proof (induction opened k width lo st rule: retile.induct)
  case (2 opened k width lo st)
  define hi where "hi = (if k = 0 then maxHash else lo + width - 1)"
  obtain parent where p: "parentAt lo opened = Inr parent"
    and step: "retile opened k width (hi + 1) (openChild lo hi parent [] st) = Inr st'"
    using "2.prems"(1) by (auto simp: hi_def Let_def split: sum.splits)
  let ?st = "openChild lo hi parent [] st"
  have kw: "0 \<le> int k * width" using "2.prems"(4) by simp
  have room: "lo + width + int k * width \<le> maxHash + 1" using "2.prems"(5) by (simp add: algebra_simps)
  have wide: "lo \<le> hi + 1" using "2.prems"(4) kw room by (auto simp: hi_def)
  have par: "parentOk st parent" using parentAt_mem [OF p] "2.prems"(3) by auto
  have ok: "shardsOk ?st" using "2.prems"(2) par wide by (intro openChild_ok) simp_all
  have ev: "evolves st ?st" by (rule evolves_open)
  have cov: "coverage h (OpenShards ?st) = coverage h (OpenShards st) + (if lo \<le> h \<and> h \<le> hi then 1 else 0)"
    by (simp add: OpenShards_openChild)
  show ?case
  proof (cases "k = 0")
    case True
    then have "st' = ?st" using step by simp
    then show ?thesis using ok ev cov True by (simp add: hi_def)
  next
    case False
    have "shardsOk st' \<and> evolves ?st st' \<and> RetentionHours st' = RetentionHours ?st \<and>
        coverage h (OpenShards st') = coverage h (OpenShards ?st) + (if hi + 1 \<le> h \<and> h \<le> maxHash then 1 else 0)"
    proof (rule "2.IH" [OF hi_def p step ok])
      show "\<forall>x\<in>set opened. parentOk ?st (ID x)" using "2.prems"(3) parentOk_openChild by blast
      show "hi + 1 + int k * width \<le> maxHash + 1" using room False by (simp add: hi_def)
    qed (use False "2.prems"(4) in auto)
    moreover have "lo + width \<le> maxHash + 1" using kw room by linarith
    ultimately show ?thesis
      using evolves_trans [OF ev] cov wide False by (auto simp: hi_def)
  qed
qed simp

lemma tile_width:
  assumes "0 < k"
  shows "0 \<le> (maxHash + 1) div int k" "0 + int k * ((maxHash + 1) div int k) \<le> maxHash + 1"
proof -
  have "int k * ((maxHash + 1) div int k) + (maxHash + 1) mod int k = maxHash + 1" by (rule mult_div_mod_eq)
  moreover have "0 \<le> (maxHash + 1) mod int k" using assms by (intro pos_mod_sign) simp
  ultimately show "0 + int k * ((maxHash + 1) div int k) \<le> maxHash + 1" by linarith
  show "0 \<le> (maxHash + 1) div int k" using assms by (simp add: pos_imp_zdiv_nonneg_iff maxHash_def)
qed

lemma countStream_ok:
  assumes "countStream target st = Inr st'" "0 < target" "streamOk st"
  shows "streamOk st' \<and> evolves st st'"
proof (cases "length (OpenShards st) = target")
  case True
  then show ?thesis using assms evolves_same [of st st] by (auto simp: countStream_def split: if_splits)
next
  case False
  let ?st = "closeAll st" and ?w = "(maxHash + 1) div int target"
  have ok: "shardsOk st" using assms(3) by (simp add: streamOk_def)
  have rt: "retile (OpenShards st) target ?w 0 ?st = Inr st'" using assms(1) False by (simp add: countStream_def split: if_splits)
  have c: "shardsOk ?st" "evolves st ?st" "OpenShards ?st = []"
    unfolding closeAll_where OpenShards_closeWhere
    using closeWhere_ok [OF ok] evolves_close [OF ok] by (simp_all add: OpenShards_def filter_empty_conv)
  have "parentOk ?st (ID x)" if "x \<in> set (OpenShards st)" for x
    using that unfolding parentOk_def closeAll_def OpenShards_def
    by (intro disjI2 bexI [of _ "closeShard st x"]) (auto intro!: image_eqI [of _ _ x])
  then have par: "\<forall>x\<in>set (OpenShards st). parentOk ?st (ID x)" by blast
  have "shardsOk st' \<and> evolves ?st st' \<and> RetentionHours st' = RetentionHours ?st \<and>
     coverage h (OpenShards st') = coverage h (OpenShards ?st) + (if 0 \<le> h \<and> h \<le> maxHash then 1 else 0)" for h
    by (rule retile_ok [OF rt c(1) par tile_width [OF assms(2)] assms(2)])
  moreover have "RetentionHours ?st = RetentionHours st" by (simp add: closeAll_def)
  ultimately show ?thesis using assms(3) evolves_trans [OF c(2)] c(3) by (simp add: streamOk_def tiled_def)
qed

text \<open>The tiling of a new stream is the re-tiling of an empty one.\<close>

lemma newShard_cong [simp]: "newShard (st\<lparr>Shards := shs\<rparr>) = newShard st"
  by (simp add: newShard_def fun_eq_iff)

lemma tileLoop_retile:
  "retile [] k width lo (st\<lparr>Shards := pre\<rparr>) =
     Inr ((snd (tileLoop k width lo st))\<lparr>Shards := pre @ fst (tileLoop k width lo st)\<rparr>)"
proof (induction k arbitrary: lo st pre)
  case (Suc k)
  let ?hi = "if k = 0 then maxHash else lo + width - 1" and ?st = "st\<lparr>NextShardNum := NextShardNum st + 1\<rparr>"
  have "openChild lo ?hi [] [] (st\<lparr>Shards := pre\<rparr>) = ?st\<lparr>Shards := pre @ [newShard st lo ?hi [] []]\<rparr>"
    by (simp add: openChild_def)
  then show ?case
    using Suc.IH [of "?hi + 1" "pre @ [newShard st lo ?hi [] []]" ?st]
    by (simp add: Let_def case_prod_unfold)
qed simp

lemma tileShards_ok:
  assumes "0 < k"
  shows "streamOk (tileShards (newStream name created mode) k) \<and> Name (tileShards (newStream name created mode) k) = name"
proof -
  let ?new = "newStream name created mode" and ?w = "(maxHash + 1) div int k"
  have new: "shardsOk ?new" "OpenShards ?new = []" "RetentionHours ?new = 24" "Name ?new = name"
    by (simp_all add: shardsOk_def newStream_def OpenShards_def lineageOk_def defRetentionHours_def)
  have "?new\<lparr>Shards := []\<rparr> = ?new" by (simp add: newStream_def)
  then have rt: "retile [] k ?w 0 ?new = Inr (tileShards ?new k)"
    using tileLoop_retile [of k ?w 0 "[]" ?new] by (simp add: tileShards_def case_prod_unfold Let_def)
  have "\<forall>x\<in>set []. parentOk ?new (ID x)" by simp
  note r = retile_ok [OF rt new(1) this tile_width [OF assms] assms]
  then show ?thesis using new by (simp add: streamOk_def tiled_def evolves_def)
qed

end
