(* ===== verification/KinesisInvariant.thy ===== *)
theory KinesisInvariant
  imports KinesisShards
begin

text \<open>
  The invariant of the Kinesis store: every stream's open shards tile the hash space, and every
  stored record is in the bucket of a shard of its stream, under its own sequence number, within the
  shard's sequence range and hash range. It is proved for every handler and the sweeper, and then for
  every state that requests can reach.
\<close>

subsection \<open>The invariant\<close>

definition streamOf :: "kstored contents \<Rightarrow> string \<Rightarrow> streamRecord option" where
  "streamOf c name =
     (case c metaBucket of
        None \<Rightarrow> None
      | Some (n, m) \<Rightarrow> (case m name of Some (StreamRec st) \<Rightarrow> Some st | _ \<Rightarrow> None))"

definition recordHash :: "go_ext \<Rightarrow> krecord \<Rightarrow> int" where
  "recordHash G rc =
     (case parseBig (ExplicitHashKey rc) of None \<Rightarrow> hashOf G (PartitionKey rc) | Some v \<Rightarrow> v)"

definition recordOk :: "go_ext \<Rightarrow> streamRecord \<Rightarrow> shard \<Rightarrow> krecord \<Rightarrow> bool" where
  "recordOk G st sh rc =
     (Seq rc < NextSeq st \<and> StartSeq sh \<le> Seq rc \<and> (Closed sh \<longrightarrow> Seq rc \<le> EndSeq sh) \<and> covers (recordHash G rc) sh)"

definition bucketOk :: "go_ext \<Rightarrow> streamRecord \<Rightarrow> shard \<Rightarrow> (string \<Rightarrow> kstored option) \<Rightarrow> bool" where
  "bucketOk G st sh m =
     (\<forall>k r. m k = Some r \<longrightarrow> (\<exists>rc. r = RecordRec rc \<and> k = seqKey (Seq rc) \<and> recordOk G st sh rc))"

definition goodName :: "string \<Rightarrow> bool" where
  "goodName name = (validStreamName name = None)"

definition metaPart :: "(string \<Rightarrow> streamRecord option) \<Rightarrow> bool" where
  "metaPart S = (\<forall>name st. S name = Some st \<longrightarrow> Name st = name \<and> goodName name \<and> streamOk st)"

definition recPart :: "go_ext \<Rightarrow> (string \<Rightarrow> streamRecord option) \<Rightarrow> kstored contents \<Rightarrow> bool" where
  "recPart G S c =
     (\<forall>stream sid n m. goodName stream \<longrightarrow> c (recBucket stream sid) = Some (n, m) \<longrightarrow>
        (\<exists>st sh. S stream = Some st \<and> sh \<in> set (Shards st) \<and> ID sh = sid \<and> bucketOk G st sh m))"

definition kInv :: "go_ext \<Rightarrow> kstored contents \<Rightarrow> bool" where
  "kInv G c = (metaPart (streamOf c) \<and> recPart G (streamOf c) c)"

lemma kbucket_names [simp]:
  "recBucket s i \<noteq> metaBucket" "metaBucket \<noteq> recBucket s i" "recBucket s i \<noteq> consumerBucket" "consumerBucket \<noteq> recBucket s i"
  "metaBucket \<noteq> consumerBucket" "consumerBucket \<noteq> metaBucket" "metaBucket \<noteq> []" "recBucket s i \<noteq> []" "consumerBucket \<noteq> []"
  by (simp_all add: recBucket_def metaBucket_def consumerBucket_def)

lemma goodName_no_colon: "goodName s \<Longrightarrow> CHR '':'' \<notin> set s"
proof -
  have "\<not> nameByte (CHR '':'')" by code_simp
  moreover assume "goodName s"
  then have "list_all nameByte s" by (simp add: goodName_def validStreamName_def split: if_splits)
  ultimately show ?thesis by (auto simp: list_all_iff)
qed

lemma colon_split: "CHR '':'' \<notin> set s \<Longrightarrow> CHR '':'' \<notin> set t \<Longrightarrow> s @ CHR '':'' # x = t @ CHR '':'' # y \<longleftrightarrow> s = t \<and> x = y"
proof (induction s arbitrary: t)
  case Nil
  then show ?case by (cases t) auto
next
  case (Cons a s)
  then show ?case by (cases t) auto
qed

lemma recBucket_inject: "goodName s \<Longrightarrow> goodName t \<Longrightarrow> recBucket s x = recBucket t y \<longleftrightarrow> s = t \<and> x = y"
  using colon_split [of s t x y] goodName_no_colon by (simp add: recBucket_def)

lemma recBucket_sid [simp]: "recBucket s x = recBucket s y \<longleftrightarrow> x = y"
  by (simp add: recBucket_def)

lemma le_pred: "x < y \<Longrightarrow> x \<le> y - 1" for x y :: "64 word"
proof -
  assume l: "x < y"
  then have "y \<noteq> 0" by auto
  then have "unat (y - 1) = unat y - 1" by (rule unat_minus_one)
  then show ?thesis using l by (simp add: word_less_nat_alt word_le_nat_alt)
qed

text \<open>A stream that evolves keeps its records well placed.\<close>

lemma recordOk_grown:
  "recordOk G st sh rc \<Longrightarrow> grown (NextSeq st) sh sh' \<Longrightarrow> NextSeq st' = NextSeq st \<Longrightarrow> recordOk G st' sh' rc"
proof -
  assume a: "recordOk G st sh rc" "grown (NextSeq st) sh sh'" "NextSeq st' = NextSeq st"
  have "Seq rc \<le> NextSeq st - 1" using a(1) le_pred by (auto simp: recordOk_def)
  then show ?thesis using a by (auto simp: recordOk_def grown_def)
qed

lemma bucketOk_evolves:
  assumes "evolves st st'" "sh \<in> set (Shards st)" "bucketOk G st sh m"
  obtains sh' where "sh' \<in> set (Shards st')" "ID sh' = ID sh" "bucketOk G st' sh' m"
proof -
  obtain sh' where sh': "sh' \<in> set (Shards st')" "grown (NextSeq st) sh sh'" using assms(1,2) by (auto simp: evolves_def)
  have "bucketOk G st' sh' m"
    using assms(1,3) recordOk_grown [OF _ sh'(2)] unfolding bucketOk_def evolves_def by metis
  then show thesis using that sh' by (simp add: grown_def)
qed

lemma recPart_evolves:
  assumes "recPart G S c" "S name = Some st" "evolves st st'"
  shows "recPart G (S(name \<mapsto> st')) c"
  unfolding recPart_def
proof (intro allI impI)
  fix stream sid n m
  assume "goodName stream" "c (recBucket stream sid) = Some (n, m)"
  then obtain st0 sh where b: "S stream = Some st0" "sh \<in> set (Shards st0)" "ID sh = sid" "bucketOk G st0 sh m"
    using assms(1) unfolding recPart_def by blast
  show "\<exists>st sh. (S(name \<mapsto> st')) stream = Some st \<and> sh \<in> set (Shards st) \<and> ID sh = sid \<and> bucketOk G st sh m"
  proof (cases "stream = name")
    case True
    then have "st0 = st" using b(1) assms(2) by simp
    from bucketOk_evolves [OF assms(3) b(2) [unfolded this] b(4) [unfolded this]] b(3) True show ?thesis by auto
  qed (use b in auto)
qed

lemma recPart_frame:
  "recPart G S c \<Longrightarrow> (\<And>s i. goodName s \<Longrightarrow> c' (recBucket s i) = c (recBucket s i)) \<Longrightarrow> recPart G S c'"
  unfolding recPart_def by metis

lemma kInv_frame:
  "kInv G c \<Longrightarrow> c' metaBucket = c metaBucket \<Longrightarrow> (\<And>s i. c' (recBucket s i) = c (recBucket s i)) \<Longrightarrow> kInv G c'"
proof -
  assume a: "kInv G c" "c' metaBucket = c metaBucket" "\<And>s i. c' (recBucket s i) = c (recBucket s i)"
  have "streamOf c' = streamOf c" using a(2) by (simp add: streamOf_def fun_eq_iff)
  then show ?thesis using a recPart_frame [of G "streamOf c" c c'] by (simp add: kInv_def)
qed

subsection \<open>Reading and writing streams\<close>

locale kinesis_store = bolt_store "bolt E" view for E :: "'tx env" and view :: "'tx \<Rightarrow> kstored contents" +
  assumes md5: "length (md5Sum (lib E) s) = 16"
begin

abbreviation inv :: "'tx \<Rightarrow> bool" where
  "inv tx \<equiv> kInv (lib E) (view tx)"

lemma getStream_iff: "getStream E tx name = Inr st \<longleftrightarrow> streamOf (view tx) name = Some st"
proof (cases "view tx metaBucket")
  case (Some nm)
  obtain n m where "nm = (n, m)" by fastforce
  then show ?thesis using Some bucketGet [of tx metaBucket n m name]
    by (auto simp: getStream_def streamOf_def hasBucket split: option.splits kstored.splits)
qed (simp add: getStream_def streamOf_def hasBucket)

lemma putStream_effect:
  assumes "putStream E tx st = (Inr u, tx')"
  shows "streamOf (view tx') = (streamOf (view tx))(Name st \<mapsto> st) \<and> (\<forall>b. b \<noteq> metaBucket \<longrightarrow> view tx' b = view tx b)"
proof -
  obtain tx1 where t: "createBucket (bolt E) tx metaBucket = Some tx1"
    "bucketPut (bolt E) tx1 metaBucket (Name st) (StreamRec st) = Some tx'"
    using assms by (auto simp: putStream_def split: option.splits)
  have v1: "view tx1 = (if view tx metaBucket = None then (view tx)(metaBucket \<mapsto> (0, Map.empty)) else view tx)"
    by (rule createBucket [OF t(1)])
  then obtain n m where m: "view tx1 metaBucket = Some (n, m)" by (cases "view tx metaBucket") auto
  have v2: "view tx' = (view tx1)(metaBucket \<mapsto> (n, m(Name st \<mapsto> StreamRec st)))" by (rule bucketPut [OF m t(2)])
  have "streamOf (view tx1) = streamOf (view tx)" using v1 by (auto simp: streamOf_def fun_eq_iff)
  then show ?thesis using v1 v2 m by (auto simp: streamOf_def fun_eq_iff)
qed

lemma putStream_error: "putStream E tx st = (Inl e, tx') \<Longrightarrow>
   streamOf (view tx') = streamOf (view tx) \<and> (\<forall>b. b \<noteq> metaBucket \<longrightarrow> view tx' b = view tx b)"
  using createBucket [of tx metaBucket] by (auto simp: putStream_def streamOf_def fun_eq_iff split: option.splits if_splits)

lemma kInv_put:
  assumes "metaPart (streamOf (view tx))" and "recPart (lib E) ((streamOf (view tx))(name \<mapsto> st)) (view tx)"
    and "Name st = name" "goodName name" "streamOk st" "putStream E tx st = (Inr u, tx')"
  shows "inv tx'"
proof -
  note e = putStream_effect [OF assms(6)]
  have "recPart (lib E) ((streamOf (view tx))(name \<mapsto> st)) (view tx')"
    by (rule recPart_frame [OF assms(2)]) (use e in simp)
  then show ?thesis using e assms(1,3,4,5) by (auto simp: kInv_def metaPart_def)
qed

text \<open>A stream update by a function that evolves the stream.\<close>

lemma inv_Update:
  assumes "inv tx" "\<And>st st'. fn st = Inr st' \<Longrightarrow> streamOk st \<Longrightarrow> streamOk st' \<and> evolves st st'"
  shows "inv (snd (Update E name fn tx))"
proof (cases "\<exists>st st' tx'. getStream E tx name = Inr st \<and> fn st = Inr st' \<and> putStream E tx st' = (Inr (), tx')")
  case True
  then obtain st st' tx' where t: "getStream E tx name = Inr st" "fn st = Inr st'" "putStream E tx st' = (Inr (), tx')" by blast
  have s: "streamOf (view tx) name = Some st" using t(1) getStream_iff by simp
  have ok: "Name st = name" "goodName name" "streamOk st" using assms(1) s by (auto simp: kInv_def metaPart_def)
  have ev: "streamOk st'" "evolves st st'" using assms(2) [OF t(2) ok(3)] by auto
  have r: "recPart (lib E) ((streamOf (view tx))(name \<mapsto> st')) (view tx)"
    using assms(1) s ev(2) by (intro recPart_evolves) (simp_all add: kInv_def)
  have "inv tx'"
    by (rule kInv_put [OF _ r _ ok(2) ev(1) t(3)])
      (use assms(1) ev(2) ok in \<open>simp_all add: kInv_def evolves_def\<close>)
  then show ?thesis using t by (simp add: Update_def Bolt.Update_def updateIn_def)
next
  case False
  then have "snd (Update E name fn tx) = tx"
    by (auto simp: Update_def Bolt.Update_def updateIn_def split: sum.splits prod.splits)
  then show ?thesis using assms(1) by simp
qed

lemma inv_Create:
  assumes "inv tx"
  shows "inv (snd (Create E name shardCount mode tx))"
proof -
  have "inv (snd (Bolt.Update (createIn E name k m) tx))" if k: "0 < k" and good: "goodName name" for k m
  proof (cases "\<exists>e tx'. getStream E tx name = Inl e \<and> putStream E tx (tileShards (newStream name (unixOf (now E)) m) k) = (Inr (), tx')")
    case True
    let ?st = "tileShards (newStream name (unixOf (now E)) m) k"
    obtain e tx' where t: "getStream E tx name = Inl e" "putStream E tx ?st = (Inr (), tx')" using True by blast
    have none: "streamOf (view tx) name = None" using t(1) getStream_iff [of tx name] by (cases "streamOf (view tx) name") auto
    have free: "view tx (recBucket name i) = None" for i
    proof (rule ccontr)
      assume "view tx (recBucket name i) \<noteq> None"
      then obtain n mm where "view tx (recBucket name i) = Some (n, mm)" by auto
      then show False using assms good none by (fastforce simp: kInv_def recPart_def)
    qed
    have r: "recPart (lib E) ((streamOf (view tx))(name \<mapsto> ?st)) (view tx)"
      using assms free unfolding kInv_def recPart_def by (metis fun_upd_other option.distinct(1))
    have "inv tx'"
      by (rule kInv_put [OF _ r _ good _ t(2)])
        (use assms free tileShards_ok [OF k] in \<open>auto simp: kInv_def\<close>)
    then show ?thesis using t by (simp add: Bolt.Update_def createIn_def Let_def)
  next
    case False
    then have "snd (Bolt.Update (createIn E name k m) tx) = tx"
      by (auto simp: Bolt.Update_def createIn_def Let_def split: sum.splits prod.splits)
    then show ?thesis using assms by simp
  qed
  then show ?thesis using assms by (auto simp: Create_def Let_def goodName_def split: option.splits)
qed

end

subsection \<open>Appending\<close>

lemma routeLoop_Inr: "routeLoop h shs = Inr sh \<Longrightarrow> sh \<in> set shs \<and> \<not> Closed sh \<and> covers h sh"
  by (induction h shs rule: routeLoop.induct) (auto simp: covers_def split: if_splits option.splits)

lemma routeLoop_total:
  "\<forall>sh\<in>set shs. hashesOk sh \<Longrightarrow> 0 < coverage h (filter (\<lambda>sh. \<not> Closed sh) shs) \<Longrightarrow> \<exists>sh. routeLoop h shs = Inr sh"
  by (induction h shs rule: routeLoop.induct) (auto simp: inRange_total split: if_splits)

definition entryHash :: "go_ext \<Rightarrow> putEntry \<Rightarrow> int" where
  "entryHash G e =
     (case parseBig (eExplicitHashKey e) of None \<Rightarrow> hashOf G (ePartitionKey e) | Some v \<Rightarrow> v)"

lemma shardFor_Inr:
  assumes "shardFor G st (ePartitionKey e) (eExplicitHashKey e) = Inr sh"
  shows "sh \<in> set (Shards st) \<and> \<not> Closed sh \<and> covers (entryHash G e) sh"
proof -
  have "routeLoop (entryHash G e) (Shards st) = Inr sh"
    using assms by (auto simp: shardFor_def entryHash_def parseBig_def split: if_splits option.splits)
  then show ?thesis by (rule routeLoop_Inr)
qed

lemma next_less: "unat x + 1 < 2 ^ 64 \<Longrightarrow> x < x + 1" for x :: "64 word"
  by (simp add: word_less_nat_alt unat_word_ariths)

lemma shardsOk_advance:
  assumes "shardsOk st" "NextSeq st < n"
  shows "shardsOk (st\<lparr>NextSeq := n\<rparr>)"
proof -
  have "shardOk (st\<lparr>NextSeq := n\<rparr>) sh" if "shardOk st sh" for sh
    using that assms(2) by (auto simp: shardOk_def numbered_def)
  moreover have "0 < n" using assms by (auto simp: shardsOk_def intro: less_trans)
  ultimately show ?thesis using assms(1) by (simp add: shardsOk_def)
qed

lemma streamOk_advance: "streamOk st \<Longrightarrow> NextSeq st < n \<Longrightarrow> streamOk (st\<lparr>NextSeq := n\<rparr>)"
  using shardsOk_advance by (simp add: streamOk_def tiled_def OpenShards_def)

lemma bucketOk_advance: "bucketOk G st sh m \<Longrightarrow> NextSeq st < n \<Longrightarrow> bucketOk G (st\<lparr>NextSeq := n\<rparr>) sh m"
  unfolding bucketOk_def recordOk_def by (fastforce intro: less_trans)

context kinesis_store
begin

lemma putOne_ok:
  assumes "putOne E stream e st tx = (Inr (r, st1), tx1)" "goodName stream" "streamOk st"
    and "recPart (lib E) (S(stream \<mapsto> st)) (view tx)" "unat (NextSeq st) + 1 < 2 ^ 64"
  shows "streamOk st1 \<and> st1 = st\<lparr>NextSeq := NextSeq st + 1\<rparr> \<and> rSeq r = NextSeq st \<and>
    recPart (lib E) (S(stream \<mapsto> st1)) (view tx1) \<and> view tx1 metaBucket = view tx metaBucket \<and>
    (\<exists>sh\<in>set (Shards st). ID sh = rShardID r \<and> \<not> Closed sh \<and> covers (entryHash (lib E) e) sh)"
proof -
  obtain sh tx0 where p: "shardFor (lib E) st (ePartitionKey e) (eExplicitHashKey e) = Inr sh"
    "createBucket (bolt E) tx (recBucket stream (ID sh)) = Some tx0"
    "bucketPut (bolt E) tx0 (recBucket stream (ID sh)) (seqKey (NextSeq st))
       (RecordRec \<lparr>Seq = NextSeq st, PartitionKey = ePartitionKey e, ExplicitHashKey = eExplicitHashKey e, Data = eData e, ArrivedNs = now E\<rparr>) = Some tx1"
    and st1: "st1 = st\<lparr>NextSeq := NextSeq st + 1\<rparr>" and r: "r = \<lparr>rShardID = ID sh, rSeq = NextSeq st\<rparr>"
    using assms(1) by (auto simp: putOne_def Let_def split: if_splits sum.splits option.splits)
  let ?b = "recBucket stream (ID sh)"
  define rc where "rc = \<lparr>Seq = NextSeq st, PartitionKey = ePartitionKey e, ExplicitHashKey = eExplicitHashKey e, Data = eData e, ArrivedNs = now E\<rparr>"
  note sh = shardFor_Inr [OF p(1)]
  have lt: "NextSeq st < NextSeq st + 1" by (rule next_less [OF assms(5)])
  obtain n m where old: "(case view tx ?b of None \<Rightarrow> (0, Map.empty) | Some c \<Rightarrow> c) = (n, m)" by fastforce
  have v0: "view tx0 = (view tx)(?b \<mapsto> (n, m))"
    using createBucket [OF p(2)] old by (auto simp: fun_eq_iff split: option.splits)
  have v1: "view tx1 = (view tx)(?b \<mapsto> (n, m(seqKey (NextSeq st) \<mapsto> RecordRec rc)))"
    using bucketPut [of tx0 ?b n m] p(3) v0 by (simp add: rc_def)
  have mine: "shardOk st sh" using assms(3) sh by (auto simp: streamOk_def shardsOk_def)
  have hash: "recordHash (lib E) rc = entryHash (lib E) e"
    by (simp add: recordHash_def entryHash_def rc_def split: option.split)
  have rok: "recordOk (lib E) st1 sh rc"
    using sh mine lt unfolding recordOk_def hash by (simp add: st1 rc_def shardOk_def)
  have recs: "\<exists>st' sh'. (S(stream \<mapsto> st1)) s = Some st' \<and> sh' \<in> set (Shards st') \<and> ID sh' = i \<and> bucketOk (lib E) st' sh' mm"
    if g: "goodName s" and v: "view tx1 (recBucket s i) = Some (k, mm)" for s i k mm
  proof (cases "s = stream \<and> i = ID sh")
    case True
    then have mm: "mm = m(seqKey (NextSeq st) \<mapsto> RecordRec rc)" using v v1 by simp
    have "bucketOk (lib E) st sh m"
    proof (cases "view tx ?b")
      case None
      then show ?thesis using old by (auto simp: bucketOk_def)
    next
      case (Some c)
      then obtain sh2 where "sh2 \<in> set (Shards st)" "ID sh2 = ID sh" "bucketOk (lib E) st sh2 m"
        using assms(2,4) old unfolding recPart_def by fastforce
      moreover have "sh2 = sh" using calculation(1,2) assms(3) sh by (auto simp: streamOk_def shardsOk_def distinct_map dest: inj_onD)
      ultimately show ?thesis by simp
    qed
    then have "bucketOk (lib E) st1 sh m" using bucketOk_advance lt st1 by simp
    then have "bucketOk (lib E) st1 sh mm" using rok unfolding mm bucketOk_def by (auto simp: rc_def)
    then show ?thesis using True sh st1 by auto
  next
    case False
    then have "recBucket s i \<noteq> ?b" using recBucket_inject [OF g assms(2)] by simp
    then have "view tx (recBucket s i) = Some (k, mm)" using v v1 by simp
    then obtain st' sh' where b: "(S(stream \<mapsto> st)) s = Some st'" "sh' \<in> set (Shards st')" "ID sh' = i" "bucketOk (lib E) st' sh' mm"
      using assms(4) g unfolding recPart_def by blast
    then show ?thesis using bucketOk_advance [OF _ lt, of "lib E" sh' mm] st1 by (cases "s = stream") auto
  qed
  show ?thesis using recs sh st1 r v1 streamOk_advance [OF assms(3) lt] unfolding recPart_def by auto
qed

lemma putLoop_ok:
  assumes "putLoop E stream es st tx = (Inr (rs, st1), tx1)" "goodName stream" "streamOk st"
    and "recPart (lib E) (S(stream \<mapsto> st)) (view tx)" "unat (NextSeq st) + length es < 2 ^ 64"
  shows "streamOk st1 \<and> st1 = st\<lparr>NextSeq := NextSeq st + of_nat (length es)\<rparr> \<and>
    recPart (lib E) (S(stream \<mapsto> st1)) (view tx1) \<and> view tx1 metaBucket = view tx metaBucket \<and>
    map rSeq rs = map (\<lambda>i. NextSeq st + of_nat i) [0..<length es] \<and>
    list_all2 (\<lambda>r e. \<exists>sh\<in>set (Shards st). ID sh = rShardID r \<and> \<not> Closed sh \<and> covers (entryHash (lib E) e) sh) rs es"
  using assms
proof (induction es arbitrary: st tx rs)
  case (Cons e es)
  obtain r st2 tx2 rs2 where p: "putOne E stream e st tx = (Inr (r, st2), tx2)"
    "putLoop E stream es st2 tx2 = (Inr (rs2, st1), tx1)" "rs = r # rs2"
    using Cons.prems(1) by (auto split: prod.splits sum.splits)
  have "unat (NextSeq st) + 1 < 2 ^ 64" using Cons.prems(5) by simp
  note one = putOne_ok [OF p(1) Cons.prems(2,3,4) this]
  have st2: "st2 = st\<lparr>NextSeq := NextSeq st + 1\<rparr>" using one by simp
  have room: "unat (NextSeq st2) + length es < 2 ^ 64"
    using Cons.prems(5) st2 by (simp add: unat_word_ariths)
  have two: "streamOk st1 \<and> st1 = st2\<lparr>NextSeq := NextSeq st2 + of_nat (length es)\<rparr> \<and>
    recPart (lib E) (S(stream \<mapsto> st1)) (view tx1) \<and> view tx1 metaBucket = view tx2 metaBucket \<and>
    map rSeq rs2 = map (\<lambda>i. NextSeq st2 + of_nat i) [0..<length es] \<and>
    list_all2 (\<lambda>r e. \<exists>sh\<in>set (Shards st2). ID sh = rShardID r \<and> \<not> Closed sh \<and> covers (entryHash (lib E) e) sh) rs2 es"
    by (rule Cons.IH [OF p(2) Cons.prems(2) _ _ room]) (use one in blast)+
  have "[0..<length (e # es)] = 0 # map Suc [0..<length es]" by (simp add: upt_conv_Cons map_Suc_upt del: upt_Suc)
  then have idx: "map (\<lambda>i. NextSeq st + of_nat i) [0..<length (e # es)] = NextSeq st # map (\<lambda>i. NextSeq st2 + of_nat i) [0..<length es]"
    by (simp add: st2 comp_def add.assoc del: upt_Suc)
  have fin: "st1 = st\<lparr>NextSeq := NextSeq st + of_nat (length (e # es))\<rparr>" using two by (simp add: st2 add.assoc)
  have "recPart (lib E) (S(stream \<mapsto> st1)) (view tx1)" using two by blast
  moreover have "streamOk st1" using two by blast
  ultimately show ?case unfolding idx p(3) fin [symmetric] using one two st2 by (simp add: fun_upd_def)
qed simp

end

text \<open>Room for a batch: sequence numbers do not run out.\<close>

definition roomy :: "kstored contents \<Rightarrow> bool" where
  "roomy c = (\<forall>name st. streamOf c name = Some st \<longrightarrow> unat (NextSeq st) + 500 < 2 ^ 64)"

context kinesis_store
begin

lemma putIn_parts:
  assumes "inv tx" "putIn E stream es tx = (Inr rs, tx')" "length es \<le> 500" "roomy (view tx)"
  obtains st where "streamOf (view tx) stream = Some st" "streamOk st"
    "inv tx'" "streamOf (view tx') = (streamOf (view tx))(stream \<mapsto> st\<lparr>NextSeq := NextSeq st + of_nat (length es)\<rparr>)"
    "map rSeq rs = map (\<lambda>i. NextSeq st + of_nat i) [0..<length es]"
    "list_all2 (\<lambda>r e. \<exists>sh\<in>set (Shards st). ID sh = rShardID r \<and> \<not> Closed sh \<and> covers (entryHash (lib E) e) sh) rs es"
proof -
  obtain st st1 tx1 where p: "getStream E tx stream = Inr st" "putLoop E stream es st tx = (Inr (rs, st1), tx1)"
    "putStream E tx1 st1 = (Inr (), tx')"
    using assms(2) by (auto simp: putIn_def split: sum.splits prod.splits)
  have s: "streamOf (view tx) stream = Some st" using p(1) getStream_iff by simp
  have ok: "Name st = stream" "goodName stream" "streamOk st" using assms(1) s by (auto simp: kInv_def metaPart_def)
  have rec: "recPart (lib E) ((streamOf (view tx))(stream \<mapsto> st)) (view tx)"
    using assms(1) s by (simp add: kInv_def map_upd_triv)
  have room: "unat (NextSeq st) + length es < 2 ^ 64" using assms(3,4) s by (fastforce simp: roomy_def)
  note l = putLoop_ok [OF p(2) ok(2,3) rec room]
  have so: "streamOf (view tx1) = streamOf (view tx)" using l by (simp add: streamOf_def fun_eq_iff)
  have "inv tx'"
    by (rule kInv_put [OF _ _ _ ok(2) _ p(3)]) (use assms(1) l so ok in \<open>auto simp: kInv_def\<close>)
  moreover have "streamOf (view tx') = (streamOf (view tx))(stream \<mapsto> st1)"
    using putStream_effect [OF p(3)] so l ok(1) by simp
  ultimately show thesis using that s ok(3) l by simp
qed

lemma inv_Put:
  assumes "inv tx" "roomy (view tx)"
  shows "inv (snd (Put E stream es tx))"
proof (cases "\<exists>rs tx'. es \<noteq> [] \<and> length es \<le> 500 \<and> putIn E stream es tx = (Inr rs, tx')")
  case True
  then obtain rs tx' where p: "es \<noteq> []" "length es \<le> 500" "putIn E stream es tx = (Inr rs, tx')" by blast
  have "inv tx'" by (rule putIn_parts [OF assms(1) p(3,2) assms(2)])
  then show ?thesis using p by (simp add: Put_def maxPutRecords_def Bolt.Update_def)
next
  case False
  then have "snd (Put E stream es tx) = tx"
    by (auto simp: Put_def maxPutRecords_def Bolt.Update_def split: prod.splits sum.splits)
  then show ?thesis using assms(1) by simp
qed

subsection \<open>Deleting, sweeping and consumers\<close>

lemma dropRecords_view: "view (dropRecords E stream i tx) = (view tx)(recBucket stream i := None)"
  using deleteBucket [of tx "recBucket stream i"] deleteBucket_ok [of tx "recBucket stream i"]
  by (auto simp: dropRecords_def fun_eq_iff split: option.splits)

lemma dropAll_view:
  "view (fold (\<lambda>sh. dropRecords E stream (ID sh)) shs tx) = (\<lambda>b. if b \<in> (\<lambda>sh. recBucket stream (ID sh)) ` set shs then None else view tx b)"
  by (induction shs arbitrary: tx) (auto simp: dropRecords_view fun_eq_iff)

lemma bucketDelete_view:
  "view tx b \<noteq> None \<Longrightarrow> view (bucketDelete (bolt E) tx b k) = (view tx)(b := map_option (\<lambda>(n, m). (n, m(k := None))) (view tx b))"
  using bucketDelete [of tx b] by auto

lemma deletes_other:
  "view tx b \<noteq> None \<Longrightarrow> b' \<noteq> b \<Longrightarrow> view (fold (\<lambda>k t. bucketDelete (bolt E) t b k) ks tx) b' = view tx b'"
  using delete_keys [of tx b] by (cases "view tx b") auto

lemma inv_Delete:
  assumes "inv tx"
  shows "inv (snd (Delete E name tx))"
proof (cases "getStream E tx name")
  case (Inr st)
  have s: "streamOf (view tx) name = Some st" using Inr getStream_iff by simp
  have ok: "goodName name" "streamOk st" using assms s by (auto simp: kInv_def metaPart_def)
  define tx1 where "tx1 = fold (\<lambda>sh. dropRecords E name (ID sh)) (Shards st) tx"
  define ks where "ks = map fst (consumersOf E tx1 (streamARN (ident E) name))"
  define tx2 where "tx2 = (if hasBucket (bolt E) tx1 consumerBucket then
      fold (\<lambda>k t. bucketDelete (bolt E) t consumerBucket k) ks tx1 else tx1)"
  define tx3 where "tx3 = bucketDelete (bolt E) tx2 metaBucket name"
  have "fold (\<lambda>(k, _) t. bucketDelete (bolt E) t consumerBucket k) cs t = fold (\<lambda>k t. bucketDelete (bolt E) t consumerBucket k) (map fst cs) t"
    for cs :: "(string \<times> consumer) list" and t by (induction cs arbitrary: t) auto
  then have res: "snd (Delete E name tx) = tx3"
    using Inr by (simp add: Delete_def Bolt.Update_def deleteIn_def tx1_def tx2_def tx3_def ks_def Let_def)
  have v1: "view tx1 b = (if b \<in> (\<lambda>sh. recBucket name (ID sh)) ` set (Shards st) then None else view tx b)" for b
    by (simp add: tx1_def dropAll_view)
  have v2: "view tx2 b = view tx1 b" if "b \<noteq> consumerBucket" for b
    using deletes_other [of tx1 consumerBucket b ks] that by (auto simp: tx2_def hasBucket)
  have meta: "view tx2 metaBucket = view tx metaBucket" using v1 v2 by (auto simp: image_iff)
  have "view tx2 metaBucket \<noteq> None" using s meta by (auto simp: streamOf_def split: option.splits)
  note v3 = bucketDelete_view [OF this, of name, folded tx3_def]
  have so: "streamOf (view tx3) = (streamOf (view tx))(name := None)"
    using v3 meta by (auto simp: streamOf_def fun_eq_iff split: option.splits)
  have recs: "view tx3 (recBucket u i) = (if u = name \<and> i \<in> ID ` set (Shards st) then None else view tx (recBucket u i))" if "goodName u" for u i
    using v1 [of "recBucket u i"] v2 [of "recBucket u i"] v3 recBucket_inject [OF that ok(1)] by (auto simp: image_iff)
  have "recPart (lib E) (streamOf (view tx3)) (view tx3)"
    unfolding recPart_def
  proof (intro allI impI)
    fix u i n m
    assume g: "goodName u" and v: "view tx3 (recBucket u i) = Some (n, m)"
    then have old: "view tx (recBucket u i) = Some (n, m)" "\<not> (u = name \<and> i \<in> ID ` set (Shards st))" using recs by (auto split: if_splits)
    then obtain st' sh where b: "streamOf (view tx) u = Some st'" "sh \<in> set (Shards st')" "ID sh = i" "bucketOk (lib E) st' sh m"
      using assms g unfolding kInv_def recPart_def by blast
    then have "u \<noteq> name" using old(2) s by auto
    then show "\<exists>st sh. streamOf (view tx3) u = Some st \<and> sh \<in> set (Shards st) \<and> ID sh = i \<and> bucketOk (lib E) st sh m"
      using b so by auto
  qed
  moreover have "metaPart (streamOf (view tx3))" using assms so by (simp add: kInv_def metaPart_def)
  ultimately show ?thesis by (simp add: kInv_def res)
qed (simp add: Delete_def Bolt.Update_def deleteIn_def assms)

lemma inv_RegisterConsumer: "inv tx \<Longrightarrow> inv (snd (RegisterConsumer E arn name tx))"
proof -
  assume i: "inv tx"
  have "inv (snd (Bolt.Update (registerIn E arn stream name) tx))" for stream
  proof (cases "\<exists>c tx'. registerIn E arn stream name tx = (Inr c, tx')")
    case True
    then obtain c tx' where r: "registerIn E arn stream name tx = (Inr c, tx')" by blast
    then obtain tx1 where t: "registerIn E arn stream name tx = (Inr c, tx')" "createBucket (bolt E) tx consumerBucket = Some tx1"
      "bucketPut (bolt E) tx1 consumerBucket (consumerKey arn name) (ConsumerRec c) = Some tx'"
      by (auto simp: registerIn_def Let_def split: sum.splits option.splits if_splits)
    obtain n m where m: "view tx1 consumerBucket = Some (n, m)"
      using createBucket [OF t(2)] by (cases "view tx consumerBucket") auto
    have "view tx' b = view tx b" if "b \<noteq> consumerBucket" for b
      using bucketPut [OF m t(3)] createBucket [OF t(2)] that by auto
    then have "inv tx'" by (intro kInv_frame [OF i]) auto
    then show ?thesis using t(1) by (simp add: Bolt.Update_def)
  next
    case False
    then have "snd (Bolt.Update (registerIn E arn stream name) tx) = tx"
      by (auto simp: Bolt.Update_def split: prod.splits sum.splits)
    then show ?thesis using i by simp
  qed
  then show ?thesis using i by (auto simp: RegisterConsumer_def split: sum.splits)
qed

lemma inv_DeleteConsumer: "inv tx \<Longrightarrow> inv (snd (DeleteConsumer E c tx))"
  using deletes_other [of tx consumerBucket _ "[consumerKey (StreamARN c) (consumerName c)]"]
  by (auto simp: DeleteConsumer_def Bolt.Update_def hasBucket intro: kInv_frame)

end

end
