(* ===== verification/KinesisSweep.thy ===== *)
theory KinesisSweep
  imports KinesisInvariant
begin

text \<open>
  The retention sweeper keeps the invariant: it removes stale records, and a closed shard goes once its
  bucket is empty, so no record is left without its shard.
\<close>

text \<open>Records and record buckets may go, everything else stays.\<close>

definition storedStreams :: "(string \<times> kstored) list \<Rightarrow> streamRecord list" where
  "storedStreams its = concat (map (\<lambda>(_, r). case r of StreamRec st \<Rightarrow> [st] | _ \<Rightarrow> []) its)"

definition shrinks :: "kstored contents \<Rightarrow> kstored contents \<Rightarrow> bool" where
  "shrinks c c' =
     (\<forall>b. c' b = c b \<or> ((\<exists>s i. b = recBucket s i) \<and>
        (c' b = None \<or> (\<exists>n m m'. c b = Some (n, m) \<and> c' b = Some (n, m') \<and> m' \<subseteq>\<^sub>m m))))"

lemma shrinksD:
  "shrinks c c' \<Longrightarrow> c' b = Some (n, m') \<Longrightarrow> \<exists>m. c b = Some (n, m) \<and> m' \<subseteq>\<^sub>m m"
  unfolding shrinks_def by (metis map_le_refl option.distinct(1) option.inject prod.inject)

lemma shrinks_trans: "shrinks a b \<Longrightarrow> shrinks b c \<Longrightarrow> shrinks a c"
  unfolding shrinks_def by (smt (verit) map_le_trans option.distinct(1) option.inject prod.inject)

lemma shrinks_meta: "shrinks c c' \<Longrightarrow> c' metaBucket = c metaBucket"
  unfolding shrinks_def by (metis kbucket_names(1))

lemma shrinks_streamOf: "shrinks c c' \<Longrightarrow> streamOf c' = streamOf c"
  by (simp add: streamOf_def shrinks_meta fun_eq_iff)

lemma bucketOk_sub: "bucketOk G st sh m \<Longrightarrow> m' \<subseteq>\<^sub>m m \<Longrightarrow> bucketOk G st sh m'"
  unfolding bucketOk_def map_le_def by (metis domI)

lemma recPart_shrinks: "recPart G S c \<Longrightarrow> shrinks c c' \<Longrightarrow> recPart G S c'"
  unfolding recPart_def by (meson shrinksD bucketOk_sub)

lemma shardsOk_subset:
  "shardsOk st \<Longrightarrow> set shs \<subseteq> set (Shards st) \<Longrightarrow> distinct (map ID shs) \<Longrightarrow> shardsOk (st\<lparr>Shards := shs\<rparr>)"
  unfolding shardsOk_def lineageOk_def shardOk_def numbered_def by auto

context kinesis_store
begin

lemma sweepRecords_shrinks: "sweepRecords E cutoff (recBucket s i) tx = (k, tx') \<Longrightarrow> shrinks (view tx) (view tx')"
proof (cases "view tx (recBucket s i)")
  case (Some c)
  obtain n m where c: "view tx (recBucket s i) = Some (n, m)" using Some by (cases c) auto
  assume "sweepRecords E cutoff (recBucket s i) tx = (k, tx')"
  then obtain kill where "view tx' = (view tx)(recBucket s i \<mapsto> (n, m |` (- set kill)))"
    using delete_keys [OF c] by (auto simp: sweepRecords_def hasBucket c Let_def)
  moreover have "m |` (- set kill) \<subseteq>\<^sub>m m" by (auto simp: map_le_def)
  ultimately show ?thesis using c by (auto simp: shrinks_def)
qed (auto simp: sweepRecords_def hasBucket shrinks_def)

lemma sweepShards_ok:
  assumes "sweepShards E cutoff s shs tx = (live, k, tx')" "distinct (map ID shs)"
  shows "shrinks (view tx) (view tx') \<and> set live \<subseteq> set shs \<and> distinct (map ID live) \<and>
    filter (\<lambda>sh. \<not> Closed sh) live = filter (\<lambda>sh. \<not> Closed sh) shs \<and>
    (\<forall>sh\<in>set shs. sh \<notin> set live \<longrightarrow> view tx' (recBucket s (ID sh)) = None)"
  using assms
proof (induction shs arbitrary: tx live k)
  case (Cons sh shs)
  let ?b = "recBucket s (ID sh)"
  obtain n1 tx1 where a: "sweepRecords E cutoff ?b tx = (n1, tx1)" by fastforce
  define finished where "finished = (Closed sh \<and> (\<not> hasBucket (bolt E) tx1 ?b \<or> bucketItems (bolt E) tx1 ?b = []))"
  define tx2 where "tx2 = (if finished then dropRecords E s (ID sh) tx1 else tx1)"
  obtain live2 n2 tx3 where r3: "sweepShards E cutoff s shs tx2 = (live2, n2, tx3)" by (metis prod_cases3)
  have whole: "sweepShards E cutoff s (sh # shs) tx = (if finished then live2 else sh # live2, n1 + n2, tx3)"
    unfolding sweepShards.simps Let_def a prod.case finished_def [symmetric] tx2_def [symmetric] r3 ..
  have r: "sweepShards E cutoff s shs tx2 = (live2, n2, tx')" and live: "live = (if finished then live2 else sh # live2)"
    using Cons.prems(1) whole r3 by auto
  have i: "shrinks (view tx2) (view tx') \<and> set live2 \<subseteq> set shs \<and> distinct (map ID live2) \<and>
    filter (\<lambda>sh. \<not> Closed sh) live2 = filter (\<lambda>sh. \<not> Closed sh) shs \<and>
    (\<forall>sh\<in>set shs. sh \<notin> set live2 \<longrightarrow> view tx' (recBucket s (ID sh)) = None)"
    using Cons.IH [OF r] Cons.prems(2) by simp
  have t12: "shrinks (view tx1) (view tx2)"
    by (auto simp: tx2_def dropRecords_view shrinks_def)
  have sk: "shrinks (view tx) (view tx')"
    using shrinks_trans [OF shrinks_trans [OF sweepRecords_shrinks [OF a] t12]] i by blast
  have gone: "view tx' ?b = None" if "finished"
  proof -
    have "view tx2 ?b = None" using that by (simp add: tx2_def dropRecords_view)
    then show ?thesis using i shrinksD [of "view tx2" "view tx'" ?b] by (cases "view tx' ?b") auto
  qed
  have fresh: "ID sh \<notin> ID ` set live2" using i Cons.prems(2) by auto
  show ?case
  proof (cases finished)
    case True
    then have "live = live2" "Closed sh" using live by (simp_all add: finished_def)
    then show ?thesis using i sk gone [OF True] by auto
  next
    case False
    then have "live = sh # live2" using live by simp
    then show ?thesis using i sk fresh by auto
  qed
qed (simp add: shrinks_def)

lemma sweepStream_ok:
  assumes "inv tx" "streamOf (view tx) (Name st) = Some st"
  shows "inv (snd (sweepStream E st (n, tx))) \<and>
    (\<forall>name. name \<noteq> Name st \<longrightarrow> streamOf (view (snd (sweepStream E st (n, tx)))) name = streamOf (view tx) name)"
proof -
  let ?cut = "now E - RetentionHours st * 3600 * nanosecondsPerSecond"
  obtain live k tx1 where s: "sweepShards E ?cut (Name st) (Shards st) tx = (live, k, tx1)" by (metis prod_cases3)
  have ok: "goodName (Name st)" "streamOk st" using assms unfolding kInv_def metaPart_def by blast+
  have dist: "distinct (map ID (Shards st))" using ok(2) by (simp add: streamOk_def shardsOk_def)
  note w = sweepShards_ok [OF s dist]
  have so: "streamOf (view tx1) = streamOf (view tx)" using w shrinks_streamOf by blast
  have inv1: "inv tx1" using assms(1) w recPart_shrinks so by (auto simp: kInv_def)
  show ?thesis
  proof (cases "length live \<noteq> length (Shards st)")
    case False
    then have "snd (sweepStream E st (n, tx)) = tx1" by (simp add: sweepStream_def s Let_def)
    then show ?thesis using inv1 so by simp
  next
    case True
    let ?st = "st\<lparr>Shards := live\<rparr>"
    obtain r tx2 where p: "putStream E tx1 ?st = (r, tx2)" by fastforce
    have res: "snd (sweepStream E st (n, tx)) = tx2" using True p by (simp add: sweepStream_def s Let_def)
    show ?thesis
    proof (cases r)
      case (Inl e)
      then have e: "streamOf (view tx2) = streamOf (view tx1)" "\<And>b. b \<noteq> metaBucket \<Longrightarrow> view tx2 b = view tx1 b"
        using putStream_error p by auto
      have "recPart (lib E) (streamOf (view tx1)) (view tx1)" using inv1 by (simp add: kInv_def)
      then have "recPart (lib E) (streamOf (view tx2)) (view tx2)"
        unfolding e(1) by (rule recPart_frame) (rule e(2), rule kbucket_names(1))
      then show ?thesis using inv1 e so res by (simp add: kInv_def)
    next
      case (Inr u)
      then have pu: "putStream E tx1 ?st = (Inr u, tx2)" using p by simp
      have sok: "streamOk ?st"
      proof -
        have "shardsOk ?st" using ok(2) w by (intro shardsOk_subset) (auto simp: streamOk_def)
        moreover have "OpenShards ?st = OpenShards st" using w by (simp add: OpenShards_def)
        ultimately show ?thesis using ok(2) by (simp add: streamOk_def tiled_def)
      qed
      have "recPart (lib E) ((streamOf (view tx1))(Name st \<mapsto> ?st)) (view tx1)"
        unfolding recPart_def
      proof (intro allI impI)
        fix u i m k'
        assume g: "goodName u" and v: "view tx1 (recBucket u i) = Some (k', m)"
        then obtain st' sh where b: "streamOf (view tx1) u = Some st'" "sh \<in> set (Shards st')" "ID sh = i" "bucketOk (lib E) st' sh m"
          using inv1 unfolding kInv_def recPart_def by blast
        show "\<exists>st' sh. ((streamOf (view tx1))(Name st \<mapsto> ?st)) u = Some st' \<and> sh \<in> set (Shards st') \<and> ID sh = i \<and> bucketOk (lib E) st' sh m"
        proof (cases "u = Name st")
          case True
          then have "st' = st" using b(1) so assms(2) by simp
          moreover have "sh \<in> set live" using w v b True calculation by (metis option.distinct(1))
          moreover have "bucketOk (lib E) ?st sh m" using b(4) calculation(1) by (simp add: bucketOk_def recordOk_def)
          ultimately show ?thesis using True b(3) by auto
        qed (use b in auto)
      qed
      then have "inv tx2"
        by (intro kInv_put [OF _ _ _ ok(1) sok pu]) (use inv1 in \<open>simp_all add: kInv_def\<close>)
      moreover have "streamOf (view tx2) = (streamOf (view tx1))(Name st \<mapsto> ?st)" using putStream_effect [OF pu] by simp
      ultimately show ?thesis using res so by simp
    qed
  qed
qed

lemma inv_Sweep:
  assumes "inv tx"
  shows "inv (snd (Sweep E tx))"
proof (cases "view tx metaBucket")
  case (Some c)
  obtain n m where c: "view tx metaBucket = Some (n, m)" using Some by (cases c) auto
  let ?items = "bucketItems (bolt E) tx metaBucket"
  let ?sts = "storedStreams ?items"
  have mem: "streamOf (view tx) k = Some st \<and> Name st = k" if "(k, StreamRec st) \<in> set ?items" for k st
    using items_iff [OF c, of k "StreamRec st"] that assms c by (auto simp: streamOf_def kInv_def metaPart_def)
  have all: "\<forall>st\<in>set ?sts. streamOf (view tx) (Name st) = Some st" using mem by (fastforce simp: storedStreams_def split: kstored.splits)
  have "distinct (map Name (storedStreams its)) \<and> set (map Name (storedStreams its)) \<subseteq> fst ` set its"
    if "distinct (map fst its)" "\<And>k st. (k, StreamRec st) \<in> set its \<Longrightarrow> Name st = k" for its
    using that
  proof (induction its)
    case (Cons it its)
    obtain k r where it: "it = (k, r)" by fastforce
    have i: "distinct (map Name (storedStreams its))" "Name ` set (storedStreams its) \<subseteq> fst ` set its"
      using Cons.IH Cons.prems by simp_all
    have k: "k \<notin> fst ` set its" using Cons.prems(1) it by simp
    show ?case
    proof (cases r)
      case (StreamRec st)
      then have "Name st = k" using Cons.prems(2) [of k st] it by simp
      then show ?thesis using i k it StreamRec by (auto simp: storedStreams_def)
    qed (use i it in \<open>auto simp: storedStreams_def\<close>)
  qed (simp add: storedStreams_def)
  then have dist: "distinct (map Name ?sts)" using items_distinct [OF c] mem by blast
  have "inv (snd (fold (sweepStream E) sts (n0, t)))"
    if "inv t" "\<forall>st\<in>set sts. streamOf (view t) (Name st) = Some st" "distinct (map Name sts)" for sts n0 t
    using that
  proof (induction sts arbitrary: n0 t)
    case (Cons st sts)
    obtain n1 t1 where s: "sweepStream E st (n0, t) = (n1, t1)" by fastforce
    have ok: "inv t1 \<and> (\<forall>name. name \<noteq> Name st \<longrightarrow> streamOf (view t1) name = streamOf (view t) name)"
      using sweepStream_ok [OF Cons.prems(1), of st n0] Cons.prems(2) s by simp
    have "\<forall>x\<in>set sts. streamOf (view t1) (Name x) = Some x" using ok Cons.prems(2,3) by (auto simp: image_iff)
    then show ?case using Cons.IH [of t1 n1] ok Cons.prems(3) s by simp
  qed simp
  then show ?thesis using assms all dist c by (simp add: Sweep_def hasBucket storedStreams_def)
qed (simp add: Sweep_def hasBucket assms)

end

end
