(* ===== verification/KinesisReach.thy ===== *)
theory KinesisReach
  imports KinesisSweep KinesisHandlers
begin

text \<open>
  Every handler of the Kinesis dispatch table keeps the store's invariant; with the sweeper, so does
  every sequence of requests.
\<close>

context kinesis_store
begin

lemma inv_withStream: "inv tx \<Longrightarrow> (\<And>s. inv (snd (f s tx))) \<Longrightarrow> inv (snd (withStream p f tx))"
  by (simp add: withStream_def split: sum.splits)

lemma inv_withARN: "inv tx \<Longrightarrow> (\<And>s. inv (snd (f s tx))) \<Longrightarrow> inv (snd (withARN arn f tx))"
  by (simp add: withARN_def split: sum.splits)

lemma inv_withRecord: "inv tx \<Longrightarrow> (\<And>st. inv (snd (f st tx))) \<Longrightarrow> inv (snd (withRecord E s f tx))"
  by (simp add: withRecord_def split: sum.splits)

lemma inv_withKey: "inv tx \<Longrightarrow> inv (snd (f tx)) \<Longrightarrow> inv (snd (withKey E k f tx))"
  by (simp add: withKey_def split: option.splits)

lemma inv_edit:
  assumes "inv tx"
    and "\<And>st st'. fn st = Inr st' \<Longrightarrow> Name st' = Name st \<and> Shards st' = Shards st \<and> NextSeq st' = NextSeq st \<and>
      NextShardNum st' = NextShardNum st \<and> (24 \<le> RetentionHours st \<and> RetentionHours st \<le> 8760 \<longrightarrow> 24 \<le> RetentionHours st' \<and> RetentionHours st' \<le> 8760)"
  shows "inv (snd (Update E name fn tx))"
proof (rule inv_Update [OF assms(1)])
  fix st st'
  assume f: "fn st = Inr st'" "streamOk st"
  note a = assms(2) [OF f(1)]
  have "shardsOk st'" using f(2) a by (simp add: streamOk_def shardsOk_def shardOk_def numbered_def)
  moreover have "tiled st'" using f(2) a by (simp add: streamOk_def tiled_def OpenShards_def)
  moreover have "evolves st st'" using a by (auto simp: evolves_def intro: grown_refl)
  ultimately show "streamOk st' \<and> evolves st st'" using f(2) a by (simp add: streamOk_def)
qed

lemmas inv_shell = inv_withStream inv_withARN inv_withRecord inv_withKey

lemma inv_hPutRecord: "inv tx \<Longrightarrow> roomy (view tx) \<Longrightarrow> inv (snd (hPutRecord E p tx))"
  unfolding hPutRecord_def
  by (intro inv_shell) (auto simp: inv_Put split: sum.split)

lemma inv_hPutRecords: "inv tx \<Longrightarrow> roomy (view tx) \<Longrightarrow> inv (snd (hPutRecords E p tx))"
  unfolding hPutRecords_def
  by (intro inv_withStream) (auto simp: inv_Put intro!: inv_withKey split: option.split anyv.split sum.split)

lemma inv_hGetRecords: "inv tx \<Longrightarrow> inv (snd (hGetRecords E p tx))"
  by (simp add: hGetRecords_def withKey_def withRecord_def Let_def split: sum.splits option.splits prod.splits)

lemma inv_hGetShardIterator: "inv tx \<Longrightarrow> inv (snd (hGetShardIterator E p tx))"
  by (simp add: hGetShardIterator_def withStream_def withRecord_def Let_def split: sum.splits option.splits)

lemma inv_hSplitShard: "inv tx \<Longrightarrow> inv (snd (hSplitShard E p tx))"
  unfolding hSplitShard_def
  by (intro inv_withStream) (use inv_Update splitStream_ok in \<open>auto simp: Let_def split: option.splits\<close>)

lemma inv_hMergeShards: "inv tx \<Longrightarrow> inv (snd (hMergeShards E p tx))"
  unfolding hMergeShards_def
  by (intro inv_withStream) (use inv_Update mergeStream_ok in \<open>auto simp: Let_def\<close>)

lemma inv_hUpdateShardCount: "inv tx \<Longrightarrow> inv (snd (hUpdateShardCount E p tx))"
  unfolding hUpdateShardCount_def
  by (intro inv_withStream) (auto simp: Let_def intro!: inv_Update dest: countStream_ok)

lemma inv_setRetention: "inv tx \<Longrightarrow> inv (snd (setRetention b E p tx))"
  unfolding setRetention_def
  by (intro inv_withStream)
    (auto simp: Let_def minRetentionHours_def maxRetentionHours_def intro!: inv_edit split: if_splits)

text \<open>The handlers that change descriptive fields of the stream only.\<close>

lemma inv_describe:
  assumes "inv tx"
  shows "inv (snd (hUpdateStreamMode E p tx))" "inv (snd (hAddTags E p tx))" "inv (snd (hRemoveTags E p tx))"
    "inv (snd (hTagResource E p tx))" "inv (snd (hUntagResource E p tx))" "inv (snd (hStartEncryption E p tx))"
    "inv (snd (hStopEncryption E p tx))" "inv (snd (setMonitoring b E p tx))" "inv (snd (hPutResourcePolicy E p tx))"
    "inv (snd (hDeleteResourcePolicy E p tx))"
  unfolding hUpdateStreamMode_def hAddTags_def hRemoveTags_def hTagResource_def hUntagResource_def hStartEncryption_def
    hStopEncryption_def setMonitoring_def hPutResourcePolicy_def hDeleteResourcePolicy_def addTags_def removeTags_def
  by (intro inv_shell assms; auto simp: Let_def assms intro!: inv_edit inv_withKey)+

text \<open>The handlers that only read.\<close>

lemma inv_read:
  assumes "inv tx"
  shows "inv (snd (hListStreams E p tx))" "inv (snd (hDescribeStream E p tx))" "inv (snd (hDescribeStreamSummary E p tx))"
    "inv (snd (hUpdateMaxRecordSize E p tx))" "inv (snd (hListShards E p tx))" "inv (snd (hListTagsForStream E p tx))"
    "inv (snd (hListTagsForResource E p tx))" "inv (snd (hDescribeConsumer E p tx))" "inv (snd (hListConsumers E p tx))"
    "inv (snd (hDescribeLimits E p tx))" "inv (snd (hDescribeAccountSettings E p tx))"
    "inv (snd (hUpdateAccountSettings E p tx))" "inv (snd (hGetResourcePolicy E p tx))"
  by (simp_all add: assms hListStreams_def hDescribeStream_def hDescribeStreamSummary_def hUpdateMaxRecordSize_def
      hListShards_def hListTagsForStream_def hListTagsForResource_def hDescribeConsumer_def hListConsumers_def
      hDescribeLimits_def hDescribeAccountSettings_def hUpdateAccountSettings_def hGetResourcePolicy_def withStream_def
      withARN_def withRecord_def split: sum.splits prod.splits)

lemma inv_lifecycle:
  assumes "inv tx"
  shows "inv (snd (hCreateStream E p tx))" "inv (snd (hDeleteStream E p tx))" "inv (snd (hRegisterConsumer E p tx))"
    "inv (snd (hDeregisterConsumer E p tx))"
  using assms inv_Create inv_Delete inv_RegisterConsumer inv_DeleteConsumer
  by (auto simp: hCreateStream_def hDeleteStream_def hRegisterConsumer_def hDeregisterConsumer_def withStream_def split: sum.splits)

lemma handlers_inv: "(a, h) \<in> set handlers \<Longrightarrow> inv tx \<Longrightarrow> roomy (view tx) \<Longrightarrow> inv (snd (h E p tx))"
  by (auto simp: handlers_def inv_hPutRecord inv_hPutRecords inv_hGetRecords inv_hGetShardIterator inv_hSplitShard
      inv_hMergeShards inv_hUpdateShardCount inv_setRetention inv_describe inv_read inv_lifecycle)

end

subsection \<open>Reachable stores\<close>

text \<open>
  One step is a request dispatched to its handler, or a turn of the retention sweeper, in an environment
  with the same store operations and library but any clock, identity and KMS answers. A request is
  dispatched while every stream has 500 sequence numbers left below \<open>2 ^ 64\<close>.
\<close>

inductive kStep :: "('tx, kstored) bolt \<Rightarrow> ('tx \<Rightarrow> kstored contents) \<Rightarrow> go_ext \<Rightarrow> 'tx \<Rightarrow> 'tx \<Rightarrow> bool"
  for K :: "('tx, kstored) bolt" and view :: "'tx \<Rightarrow> kstored contents" and G :: go_ext where
  request: "bolt E = K \<Longrightarrow> lib E = G \<Longrightarrow> (action, h) \<in> set handlers \<Longrightarrow> roomy (view tx) \<Longrightarrow> kStep K view G tx (snd (h E p tx))"
| sweep: "bolt E = K \<Longrightarrow> lib E = G \<Longrightarrow> kStep K view G tx (snd (Sweep E tx))"

inductive kReach :: "('tx, kstored) bolt \<Rightarrow> ('tx \<Rightarrow> kstored contents) \<Rightarrow> go_ext \<Rightarrow> 'tx \<Rightarrow> bool"
  for K :: "('tx, kstored) bolt" and view :: "'tx \<Rightarrow> kstored contents" and G :: go_ext where
  fresh: "view tx = Map.empty \<Longrightarrow> kReach K view G tx"
| step: "kReach K view G tx \<Longrightarrow> kStep K view G tx tx' \<Longrightarrow> kReach K view G tx'"

lemma kInv_fresh: "kInv G Map.empty"
  by (simp add: kInv_def metaPart_def recPart_def streamOf_def)

lemma kReach_inv:
  assumes "kReach K view G tx" "bolt_store K view" "\<And>s. length (md5Sum G s) = 16"
  shows "kInv G (view tx)"
  using assms(1)
proof induction
  case (step tx tx')
  from step.hyps(2) show ?case
  proof cases
    case (request E action h p)
    then have "kinesis_store E view" using assms by (simp add: kinesis_store_def kinesis_store_axioms_def)
    from kinesis_store.handlers_inv [OF this request(4)] show ?thesis using request step.IH by simp
  next
    case (sweep E)
    then have "kinesis_store E view" using assms by (simp add: kinesis_store_def kinesis_store_axioms_def)
    from kinesis_store.inv_Sweep [OF this] show ?thesis using sweep step.IH by simp
  qed
qed (simp add: kInv_fresh)

end
