(* ===== verification/KinesisRead.thy ===== *)
theory KinesisRead
  imports KinesisReach
begin

text \<open>
  Reading a shard: \<^verbatim>\<open>Fetch\<close> returns the records that follow a position, in order and without gaps,
  as many as the limits allow, and a reader that keeps asking from where it was left gets all of them.
\<close>

subsection \<open>The records of a shard\<close>

definition shardRecords :: "(string \<times> kstored) list \<Rightarrow> krecord list" where
  "shardRecords its = concat (map (\<lambda>(_, r). case r of RecordRec rc \<Rightarrow> [rc] | _ \<Rightarrow> []) its)"

definition recordItems :: "krecord list \<Rightarrow> (string \<times> kstored) list" where
  "recordItems rcs = map (\<lambda>rc. (seqKey (Seq rc), RecordRec rc)) rcs"

lemma shardRecords_items [simp]: "shardRecords (recordItems rcs) = rcs"
  by (induction rcs) (auto simp: shardRecords_def recordItems_def)

lemma items_are_records:
  assumes "\<And>k r. (k, r) \<in> set its \<Longrightarrow> \<exists>rc. r = RecordRec rc \<and> k = seqKey (Seq rc)"
  shows "its = recordItems (shardRecords its)"
  using assms
proof (induction its)
  case (Cons it its)
  obtain rc where "it = (seqKey (Seq rc), RecordRec rc)" using Cons.prems [of "fst it" "snd it"] by (cases it) auto
  moreover have "its = recordItems (shardRecords its)" by (rule Cons.IH) (use Cons.prems in auto)
  ultimately show ?case by (simp add: shardRecords_def recordItems_def)
qed (simp add: shardRecords_def recordItems_def)

text \<open>Seeking past a sequence number on ordered records.\<close>

lemma word_succ_le: "a + 1 \<noteq> 0 \<Longrightarrow> x < a + 1 \<longleftrightarrow> x \<le> a" for a x :: "64 word"
proof -
  assume "a + 1 \<noteq> 0"
  then have "unat (a + 1) = unat a + 1" by (metis unatSuc add.commute Suc_eq_plus1)
  then show ?thesis by (auto simp: word_less_nat_alt word_le_nat_alt)
qed

lemma below_succ: "x < y \<Longrightarrow> x + 1 \<noteq> 0" for x y :: "64 word"
proof
  assume "x < y" "x + 1 = 0"
  then have "x = - 1" by (simp add: eq_neg_iff_add_eq_0)
  then show False using \<open>x < y\<close> word_order.extremum [of y] by (simp add: not_less [symmetric])
qed

lemma dropWhile_sorted:
  "sorted_wrt (<) (map f xs) \<Longrightarrow> dropWhile (\<lambda>x. f x \<le> a) xs = filter (\<lambda>x. a < f x) xs" for f :: "'a \<Rightarrow> 'b::linorder"
proof (induction xs)
  case (Cons x xs)
  show ?case
  proof (cases "f x \<le> a")
    case False
    then have "\<forall>y\<in>set xs. a < f y" using Cons.prems by (auto intro: less_trans)
    then show ?thesis using False by (simp add: filter_id_conv not_le)
  qed (use Cons in \<open>simp add: not_less\<close>)
qed simp

lemma seek_records:
  assumes "sorted_wrt (<) (map Seq rcs)" "after + 1 \<noteq> 0"
  shows "seekFrom (seqKey (after + 1)) (recordItems rcs) = recordItems (filter (\<lambda>rc. after < Seq rc) rcs)"
proof -
  have "seekFrom (seqKey (after + 1)) (recordItems rcs) = recordItems (dropWhile (\<lambda>rc. Seq rc \<le> after) rcs)"
    using assms(2) by (simp add: seekFrom_def recordItems_def dropWhile_map comp_def seqKey_less word_succ_le)
  then show ?thesis using dropWhile_sorted [OF assms(1)] by simp
qed

definition totalLen :: "'tx env \<Rightarrow> krecord list \<Rightarrow> int" where
  "totalLen E rcs = (\<Sum>rc\<leftarrow>rcs. int (recordLen E rc))"

text \<open>The part of the records that one call takes: it stops at the limits only.\<close>

fun fits :: "'tx env \<Rightarrow> nat \<Rightarrow> int \<Rightarrow> krecord list \<Rightarrow> krecord list" where
  "fits E room taken [] = []"
| "fits E room taken (rc # rcs) =
     (if room = 0 \<or> taken + int (recordLen E rc) > maxGetBytes then []
      else rc # fits E (room - 1) (taken + int (recordLen E rc)) rcs)"

lemma fits_prefix: "prefix (fits E room taken rcs) rcs"
  by (induction E room taken rcs rule: fits.induct) auto

lemma fits_bounds: "length (fits E room taken rcs) \<le> room \<and> (taken \<le> maxGetBytes \<longrightarrow> taken + totalLen E (fits E room taken rcs) \<le> maxGetBytes)"
  by (induction E room taken rcs rule: fits.induct) (auto simp: totalLen_def)

lemma fits_progress: "0 < room \<Longrightarrow> int (recordLen E rc) \<le> maxGetBytes \<Longrightarrow> fits E room 0 (rc # rcs) \<noteq> []"
  by simp

definition endOf :: "64 word \<Rightarrow> krecord list \<Rightarrow> 64 word" where
  "endOf next got = (if got = [] then next else Seq (last got))"

lemma fetchLoop_fits:
  assumes "\<forall>rc\<in>set rcs. Closed sh \<longrightarrow> Seq rc \<le> EndSeq sh" "length recs \<le> limit"
  shows "fetchLoop E sh limit (recordItems rcs) recs taken next =
    Inr (recs @ fits E (limit - length recs) taken rcs, endOf next (fits E (limit - length recs) taken rcs))"
  using assms
proof (induction rcs arbitrary: recs taken "next")
  case (Cons rc rcs)
  show ?case
  proof (cases "limit = length recs \<or> taken + int (recordLen E rc) > maxGetBytes")
    case True
    then show ?thesis by (auto simp: recordItems_def endOf_def)
  next
    case False
    have "\<not> (Closed sh \<and> EndSeq sh \<noteq> 0 \<and> Seq rc > EndSeq sh)" using Cons.prems(1) by auto
    moreover have "fetchLoop E sh limit (recordItems rcs) (recs @ [rc]) (taken + int (recordLen E rc)) (Seq rc) =
      Inr ((recs @ [rc]) @ fits E (limit - length (recs @ [rc])) (taken + int (recordLen E rc)) rcs,
        endOf (Seq rc) (fits E (limit - length (recs @ [rc])) (taken + int (recordLen E rc)) rcs))"
      by (rule Cons.IH) (use Cons.prems False in auto)
    ultimately show ?thesis using False Cons.prems(2) by (auto simp: recordItems_def endOf_def)
  qed
qed (simp add: recordItems_def endOf_def)

subsection \<open>Fetching\<close>

definition recordsOf :: "'tx env \<Rightarrow> 'tx \<Rightarrow> string \<Rightarrow> string \<Rightarrow> krecord list" where
  "recordsOf E tx stream sid =
     (if hasBucket (bolt E) tx (recBucket stream sid) then shardRecords (bucketItems (bolt E) tx (recBucket stream sid)) else [])"

definition following :: "64 word \<Rightarrow> krecord list \<Rightarrow> krecord list" where
  "following after rcs = filter (\<lambda>rc. after < Seq rc) rcs"

text \<open>A reader that calls \<^verbatim>\<open>Fetch\<close> again and again from the position the last call returned.\<close>

fun readOn :: "nat \<Rightarrow> 'tx env \<Rightarrow> string \<Rightarrow> string \<Rightarrow> 64 word \<Rightarrow> int \<Rightarrow> 'tx \<Rightarrow> kinesisError + krecord list" where
  "readOn 0 E stream sid after limit tx = Inr []"
| "readOn (Suc n) E stream sid after limit tx =
     (case Fetch E stream sid after limit tx of
        Inl e \<Rightarrow> Inl e
      | Inr (recs, next, _) \<Rightarrow>
          (case readOn n E stream sid next limit tx of Inl e \<Rightarrow> Inl e | Inr rest \<Rightarrow> Inr (recs @ rest)))"

lemma findShard_unique:
  "streamOk st \<Longrightarrow> findShard st i = Some sh \<Longrightarrow> sh' \<in> set (Shards st) \<Longrightarrow> ID sh' = i \<Longrightarrow> sh' = sh"
  using findShard_SomeD [of st i sh] by (auto simp: streamOk_def shardsOk_def distinct_map dest: inj_onD)

lemma following_rest:
  assumes "sorted_wrt (<) (map Seq rcs)" "following after rcs = got @ rest" "got \<noteq> []"
  shows "following (Seq (last got)) rcs = rest"
proof -
  have s: "sorted_wrt (<) (map Seq (got @ rest))"
    using assms(1) unfolding assms(2) [symmetric] following_def by (induction rcs) auto
  have le: "after < Seq (last got)"
  proof -
    have "last got \<in> set (following after rcs)" using assms(2,3) by simp
    then show ?thesis by (simp add: following_def)
  qed
  then have "following (Seq (last got)) rcs = filter (\<lambda>rc. Seq (last got) < Seq rc) (following after rcs)"
    unfolding following_def filter_filter by (intro filter_cong) auto
  moreover have "filter (\<lambda>rc. Seq (last got) < Seq rc) got = []"
  proof -
    have "Seq rc \<le> Seq (last got)" if "rc \<in> set got" for rc
      using s that assms(3) by (cases got rule: rev_cases) (auto simp: sorted_wrt_append)
    then show ?thesis by (auto simp: filter_empty_conv not_less)
  qed
  moreover have "filter (\<lambda>rc. Seq (last got) < Seq rc) rest = rest"
    using s assms(3) by (auto simp: filter_id_conv sorted_wrt_append)
  ultimately show ?thesis using assms(2) by simp
qed

context kinesis_store
begin

lemma recordsOf_ok:
  assumes "inv tx" "streamOf (view tx) stream = Some st" "findShard st sid = Some sh"
  shows "sorted_wrt (<) (map Seq (recordsOf E tx stream sid)) \<and>
    (\<forall>rc\<in>set (recordsOf E tx stream sid). recordOk (lib E) st sh rc) \<and>
    (hasBucket (bolt E) tx (recBucket stream sid) \<longrightarrow>
      bucketItems (bolt E) tx (recBucket stream sid) = recordItems (recordsOf E tx stream sid))"
proof (cases "view tx (recBucket stream sid)")
  case (Some c)
  let ?its = "bucketItems (bolt E) tx (recBucket stream sid)"
  obtain n m where c: "view tx (recBucket stream sid) = Some (n, m)" using Some by (cases c) auto
  have good: "goodName stream" "streamOk st" using assms(1,2) by (auto simp: kInv_def metaPart_def)
  obtain sh' where "sh' \<in> set (Shards st)" "ID sh' = sid" "bucketOk (lib E) st sh' m"
    using assms(1,2) good(1) c unfolding kInv_def recPart_def by fastforce
  then have b: "bucketOk (lib E) st sh m" using findShard_unique [OF good(2) assms(3)] by blast
  have it: "\<exists>rc. r = RecordRec rc \<and> k = seqKey (Seq rc) \<and> recordOk (lib E) st sh rc" if "(k, r) \<in> set ?its" for k r
    using b that items_iff [OF c] by (simp add: bucketOk_def)
  then have its: "?its = recordItems (shardRecords ?its)" by (intro items_are_records) blast
  have rec: "recordsOf E tx stream sid = shardRecords ?its" using c by (simp add: recordsOf_def hasBucket)
  have "sorted_wrt (<) (map fst (recordItems (shardRecords ?its)))" using bucketItems_sorted [OF c] its by simp
  then have "sorted_wrt (<) (map Seq (shardRecords ?its))"
    by (simp add: recordItems_def comp_def sorted_wrt_map seqKey_less)
  moreover have "recordOk (lib E) st sh rc" if "rc \<in> set (shardRecords ?its)" for rc
  proof -
    have "(seqKey (Seq rc), RecordRec rc) \<in> set ?its" using that its by (metis (no_types, lifting) image_eqI list.set_map recordItems_def)
    then show ?thesis using it by blast
  qed
  ultimately show ?thesis using its rec by simp
qed (simp add: recordsOf_def hasBucket)

lemma Fetch_fits:
  assumes "inv tx" "streamOf (view tx) stream = Some st" "findShard st sid = Some sh" "after + 1 \<noteq> 0"
  obtains behind where "Fetch E stream sid after limit tx =
    Inr (fits E (fetchLimit limit) 0 (following after (recordsOf E tx stream sid)),
         endOf after (fits E (fetchLimit limit) 0 (following after (recordsOf E tx stream sid))), behind)"
proof -
  let ?rs = "recordsOf E tx stream sid"
  note r = recordsOf_ok [OF assms(1-3)]
  have g: "getStream E tx stream = Inr st" using assms(2) getStream_iff by simp
  show thesis
  proof (cases "hasBucket (bolt E) tx (recBucket stream sid)")
    case False
    then have "Fetch E stream sid after limit tx = Inr ([], after, 0)" "?rs = []"
      using g assms(3) by (simp_all add: Fetch_def recordsOf_def)
    then show thesis using that by (simp add: following_def endOf_def)
  next
    case True
    have seek: "seekFrom (seqKey (after + 1)) (bucketItems (bolt E) tx (recBucket stream sid)) = recordItems (following after ?rs)"
      using r True seek_records [of ?rs after] assms(4) by (simp add: following_def)
    have "fetchLoop E sh (fetchLimit limit) (recordItems (following after ?rs)) [] 0 after =
      Inr (fits E (fetchLimit limit) 0 (following after ?rs), endOf after (fits E (fetchLimit limit) 0 (following after ?rs)))"
      using fetchLoop_fits [of "following after ?rs" sh "[]" "fetchLimit limit" E 0 after] r
      by (auto simp: following_def recordOk_def)
    then show thesis using that g assms(3) True seek by (simp add: Fetch_def)
  qed
qed

lemma readOn_complete:
  assumes "inv tx" "streamOf (view tx) stream = Some st" "findShard st sid = Some sh"
    and "\<forall>rc\<in>set (recordsOf E tx stream sid). int (recordLen E rc) \<le> maxGetBytes"
    and "after + 1 \<noteq> 0" "length (following after (recordsOf E tx stream sid)) \<le> n"
  shows "readOn n E stream sid after limit tx = Inr (following after (recordsOf E tx stream sid))"
  using assms(5,6)
proof (induction n arbitrary: after)
  case (Suc n)
  let ?rs = "recordsOf E tx stream sid" and ?f = "following after (recordsOf E tx stream sid)"
  define got where "got = fits E (fetchLimit limit) 0 ?f"
  note r = recordsOf_ok [OF assms(1-3)]
  obtain behind where f: "Fetch E stream sid after limit tx = Inr (got, endOf after got, behind)"
    using Fetch_fits [OF assms(1-3) Suc.prems(1)] unfolding got_def by blast
  obtain rest where rest: "?f = got @ rest" using fits_prefix [of E "fetchLimit limit" 0 ?f] by (auto simp: got_def prefix_def)
  show ?case
  proof (cases "?f = []")
    case True
    then have "got = []" using rest by simp
    then show ?thesis using Suc.IH [OF Suc.prems(1)] f True by (simp add: endOf_def)
  next
    case False
    then obtain rc rcs where c: "?f = rc # rcs" by (cases ?f) auto
    have "rc \<in> set ?rs" using c filter_is_subset [of "\<lambda>rc. after < Seq rc" ?rs] unfolding following_def by (metis list.set_intros(1) subsetD)
    moreover have "0 < fetchLimit limit" by (simp add: fetchLimit_def maxGetRecords_def)
    ultimately have ne: "got \<noteq> []" unfolding got_def c using assms(4) by (intro fits_progress) auto
    have follow: "following (Seq (last got)) ?rs = rest" using following_rest [OF _ rest ne] r by blast
    have "last got \<in> set ?rs" using rest ne by (metis Un_iff filter_is_subset following_def last_in_set set_append subsetD)
    then have "Seq (last got) < NextSeq st" using r by (auto simp: recordOk_def)
    then have "Seq (last got) + 1 \<noteq> 0" by (rule below_succ)
    moreover have "length rest \<le> n" using Suc.prems(2) rest ne by (cases got) auto
    ultimately have "readOn n E stream sid (Seq (last got)) limit tx = Inr rest" using Suc.IH follow by simp
    then show ?thesis using f ne rest by (simp add: endOf_def)
  qed
qed simp

end


end
