(* ===== verification/KinesisServer.thy ===== *)
theory KinesisServer
  imports KinesisRead
begin

text \<open>
  What the Kinesis service guarantees to its producers and consumers, over the stores that requests can
  reach: routing, the contract of \<^verbatim>\<open>Put\<close>, the order of lineages, complete reading, iterators.
\<close>

subsection \<open>Routing\<close>

lemma foldl_bytes_bound:
  "0 \<le> n \<Longrightarrow> 0 \<le> foldl (\<lambda>n b. n * 256 + uint b) n bs \<and> foldl (\<lambda>n b. n * 256 + uint b) n bs < (n + 1) * 256 ^ length bs"
  for bs :: bytes
proof (induction bs arbitrary: n)
  case (Cons b bs)
  have b: "0 \<le> uint b" "uint b < 256" using uint_lt2p [of b] by simp_all
  then have "(n * 256 + uint b + 1) * 256 ^ length bs \<le> ((n + 1) * 256) * 256 ^ length bs"
    by (intro mult_right_mono) auto
  moreover have "((n + 1) * 256) * 256 ^ length bs = (n + 1) * 256 ^ length (b # bs)" by simp
  moreover have "0 \<le> n * 256 + uint b" using Cons.prems b by simp
  ultimately show ?case using Cons.IH [of "n * 256 + uint b"] unfolding foldl_Cons by linarith
qed simp

lemma hashOf_range: "length (md5Sum G s) = 16 \<Longrightarrow> 0 \<le> hashOf G s \<and> hashOf G s \<le> maxHash"
  using foldl_bytes_bound [of 0 "md5Sum G s"] by (simp add: hashOf_def maxHash_def)

definition hashKeyOk :: "string \<Rightarrow> bool" where
  "hashKeyOk ehk = (ehk = [] \<or> (case parseBig ehk of None \<Rightarrow> False | Some v \<Rightarrow> 0 \<le> v \<and> v \<le> maxHash))"

lemma entryHash_range:
  "length (md5Sum G (ePartitionKey e)) = 16 \<Longrightarrow> hashKeyOk (eExplicitHashKey e) \<Longrightarrow> 0 \<le> entryHash G e \<and> entryHash G e \<le> maxHash"
  using hashOf_range by (auto simp: hashKeyOk_def entryHash_def parseBig_def split: option.splits)

lemma one_covering:
  assumes "streamOk st" "0 \<le> h" "h \<le> maxHash"
  obtains sh where "filter (\<lambda>sh. \<not> Closed sh \<and> covers h sh) (Shards st) = [sh]" "routeLoop h (Shards st) = Inr sh"
proof -
  have "coverage h (OpenShards st) = 1" using assms by (auto simp: streamOk_def tiled_def)
  then have one: "length (filter (\<lambda>sh. \<not> Closed sh \<and> covers h sh) (Shards st)) = 1"
    by (simp add: coverage_def OpenShards_def conj_commute)
  have "\<forall>sh\<in>set (Shards st). hashesOk sh" using assms(1) by (auto simp: streamOk_def shardsOk_def shardOk_def)
  then obtain sh where r: "routeLoop h (Shards st) = Inr sh"
    using routeLoop_total [of "Shards st" h] \<open>coverage h (OpenShards st) = 1\<close> by (auto simp: OpenShards_def)
  obtain x where x: "filter (\<lambda>sh. \<not> Closed sh \<and> covers h sh) (Shards st) = [x]" using one by (auto simp: length_Suc_conv)
  have "sh \<in> set (filter (\<lambda>sh. \<not> Closed sh \<and> covers h sh) (Shards st))" using routeLoop_Inr [OF r] by simp
  then have "filter (\<lambda>sh. \<not> Closed sh \<and> covers h sh) (Shards st) = [sh]" unfolding x by simp
  then show thesis using that r by blast
qed

lemma shardFor_total:
  assumes "streamOk st" "length (md5Sum G (ePartitionKey e)) = 16" "hashKeyOk (eExplicitHashKey e)"
  obtains sh where "shardFor G st (ePartitionKey e) (eExplicitHashKey e) = Inr sh"
    "filter (\<lambda>sh. \<not> Closed sh \<and> covers (entryHash G e) sh) (Shards st) = [sh]"
proof -
  obtain sh where sh: "filter (\<lambda>sh. \<not> Closed sh \<and> covers (entryHash G e) sh) (Shards st) = [sh]" "routeLoop (entryHash G e) (Shards st) = Inr sh"
    using one_covering [OF assms(1)] entryHash_range [OF assms(2,3)] by blast
  have "parseBig [] = None" by (simp add: parseBig_def)
  then have "shardFor G st (ePartitionKey e) (eExplicitHashKey e) = Inr sh"
    using sh(2) assms(3) by (auto simp: shardFor_def entryHash_def hashKeyOk_def split: option.splits)
  then show thesis using that sh(1) by blast
qed

subsection \<open>Appending\<close>

lemma sorted_pairs_unique:
  fixes xs ys :: "('a::linorder \<times> 'b) list"
  assumes "sorted_wrt (<) (map fst xs)" "sorted_wrt (<) (map fst ys)" "map_of xs = map_of ys"
  shows "xs = ys"
proof -
  have "distinct (map fst xs)" "distinct (map fst ys)" using assms(1,2) by (simp_all add: strict_sorted_iff)
  moreover have "set xs = set ys"
    using calculation assms(3) map_of_inject_set by blast
  ultimately show ?thesis
    using assms(1,2) map_sorted_distinct_set_unique [of fst xs ys]
    by (simp add: strict_sorted_iff distinct_map inj_on_def)
qed

text \<open>What a batch adds: each entry's shard and record.\<close>

fun appended :: "'tx env \<Rightarrow> streamRecord \<Rightarrow> 64 word \<Rightarrow> putEntry list \<Rightarrow> (string \<times> krecord) list" where
  "appended E st seq [] = []"
| "appended E st seq (e # es) =
     (case shardFor (lib E) st (ePartitionKey e) (eExplicitHashKey e) of
        Inl _ \<Rightarrow> []
      | Inr sh \<Rightarrow>
          (ID sh, \<lparr>Seq = seq, PartitionKey = ePartitionKey e, ExplicitHashKey = eExplicitHashKey e, Data = eData e, ArrivedNs = now E\<rparr>)
            # appended E st (seq + 1) es)"

lemma shardFor_seq [simp]: "shardFor G (st\<lparr>NextSeq := n\<rparr>) = shardFor G st"
  by (simp add: shardFor_def fun_eq_iff split: option.split)

lemma appended_seq [simp]: "appended E (st\<lparr>NextSeq := n\<rparr>) seq es = appended E st seq es"
  by (induction es arbitrary: seq) (auto split: sum.split)

definition routed :: "string \<Rightarrow> (string \<times> krecord) list \<Rightarrow> krecord list" where
  "routed sid rcs = map snd (filter (\<lambda>(i, _). i = sid) rcs)"

definition resultOf :: "string \<times> krecord \<Rightarrow> putResult" where
  "resultOf p = \<lparr>rShardID = fst p, rSeq = Seq (snd p)\<rparr>"

context kinesis_store
begin

lemma bucketItems_append:
  assumes "view tx b = Some (n, m)" "view tx' b = Some (n', m(k \<mapsto> v))" "\<And>j w. m j = Some w \<Longrightarrow> j < k"
  shows "bucketItems (bolt E) tx' b = bucketItems (bolt E) tx b @ [(k, v)]"
proof (rule sorted_pairs_unique)
  have less: "j < k" if "j \<in> set (map fst (bucketItems (bolt E) tx b))" for j
    using that items_iff [OF assms(1)] assms(3) by auto
  have fresh: "m k = None" using assms(3) [of k] by (cases "m k") auto
  show "sorted_wrt (<) (map fst (bucketItems (bolt E) tx' b))" using bucketItems_sorted [OF assms(2)] .
  show "sorted_wrt (<) (map fst (bucketItems (bolt E) tx b @ [(k, v)]))"
    using bucketItems_sorted [OF assms(1)] less by (auto simp: sorted_wrt_append)
  show "map_of (bucketItems (bolt E) tx' b) = map_of (bucketItems (bolt E) tx b @ [(k, v)])"
    using bucketItems [OF assms(1)] bucketItems [OF assms(2)] fresh
    by (auto simp: map_add_def fun_eq_iff split: option.split)
qed

lemma putOne_appends:
  assumes "putOne E stream e st tx = (Inr (r, st1), tx1)" "goodName stream" "streamOk st"
    and "recPart (lib E) (S(stream \<mapsto> st)) (view tx)"
  shows "\<exists>p. appended E st (NextSeq st) [e] = [p] \<and> r = resultOf p \<and>
    (\<forall>sid. recordsOf E tx1 stream sid = recordsOf E tx stream sid @ routed sid [p])"
proof -
  define rc where "rc = \<lparr>Seq = NextSeq st, PartitionKey = ePartitionKey e, ExplicitHashKey = eExplicitHashKey e, Data = eData e, ArrivedNs = now E\<rparr>"
  obtain sh tx0 where p: "shardFor (lib E) st (ePartitionKey e) (eExplicitHashKey e) = Inr sh"
    "createBucket (bolt E) tx (recBucket stream (ID sh)) = Some tx0"
    "bucketPut (bolt E) tx0 (recBucket stream (ID sh)) (seqKey (NextSeq st)) (RecordRec rc) = Some tx1"
    and r: "r = \<lparr>rShardID = ID sh, rSeq = NextSeq st\<rparr>"
    using assms(1) by (auto simp: putOne_def Let_def rc_def split: if_splits sum.splits option.splits)
  let ?b = "recBucket stream (ID sh)"
  obtain n m where v0: "view tx0 ?b = Some (n, m)" and old: "view tx ?b = None \<and> m = Map.empty \<or> view tx ?b = Some (n, m)"
    using createBucket [OF p(2)] by (cases "view tx ?b") auto
  have v0b: "view tx0 b = view tx b" if "b \<noteq> ?b" for b using createBucket [OF p(2)] that by simp
  have v1: "view tx1 = (view tx0)(?b \<mapsto> (n, m(seqKey (NextSeq st) \<mapsto> RecordRec rc)))" using bucketPut [OF v0 p(3)] .
  have below: "j < seqKey (NextSeq st)" if mj: "m j = Some w" for j w
  proof -
    from mj old have "view tx ?b = Some (n, m)" by auto
    then obtain sh2 where "bucketOk (lib E) st sh2 m" using assms(2,4) unfolding recPart_def by fastforce
    then obtain rc2 :: krecord where "j = seqKey (Seq rc2)" "Seq rc2 < NextSeq st" using mj unfolding bucketOk_def recordOk_def by blast
    then show ?thesis by (simp add: seqKey_less)
  qed
  have items: "bucketItems (bolt E) tx1 ?b = bucketItems (bolt E) tx0 ?b @ [(seqKey (NextSeq st), RecordRec rc)]"
    by (rule bucketItems_append [OF v0 _ below]) (simp_all add: v1)
  have "recordsOf E tx1 stream sid = recordsOf E tx stream sid @ routed sid [(ID sh, rc)]" for sid
  proof (cases "sid = ID sh")
    case True
    have "recordsOf E tx stream sid = shardRecords (bucketItems (bolt E) tx0 ?b)"
    proof (cases "view tx ?b")
      case None
      then have "m = Map.empty" using old by auto
      then have "bucketItems (bolt E) tx0 ?b = []" using bucketItems [OF v0] by simp
      then show ?thesis using None True by (simp add: recordsOf_def hasBucket shardRecords_def)
    next
      case (Some c)
      then have "view tx ?b = Some (n, m)" using old by simp
      then have "bucketItems (bolt E) tx ?b = bucketItems (bolt E) tx0 ?b"
        using v0 by (intro sorted_pairs_unique) (simp_all add: bucketItems bucketItems_sorted)
      then show ?thesis using Some True by (simp add: recordsOf_def hasBucket)
    qed
    then show ?thesis using True items by (simp add: recordsOf_def hasBucket v1 shardRecords_def routed_def)
  next
    case False
    then have same: "view tx1 (recBucket stream sid) = view tx (recBucket stream sid)" using v0b by (simp add: v1)
    have "bucketItems (bolt E) tx1 (recBucket stream sid) = bucketItems (bolt E) tx (recBucket stream sid)"
      if "view tx (recBucket stream sid) = Some c" for c
      using that same by (cases c) (intro sorted_pairs_unique; simp add: bucketItems bucketItems_sorted)
    then show ?thesis using same False by (auto simp: recordsOf_def hasBucket routed_def)
  qed
  then show ?thesis using p(1) r by (auto simp: rc_def resultOf_def)
qed

lemma putLoop_appends:
  assumes "putLoop E stream es st tx = (Inr (rs, st1), tx1)" "goodName stream" "streamOk st"
    and "recPart (lib E) (S(stream \<mapsto> st)) (view tx)" "unat (NextSeq st) + length es < 2 ^ 64"
  shows "rs = map resultOf (appended E st (NextSeq st) es) \<and>
    (\<forall>sid. recordsOf E tx1 stream sid = recordsOf E tx stream sid @ routed sid (appended E st (NextSeq st) es))"
  using assms
proof (induction es arbitrary: st tx rs)
  case (Cons e es)
  obtain r st2 tx2 rs2 where p: "putOne E stream e st tx = (Inr (r, st2), tx2)"
    "putLoop E stream es st2 tx2 = (Inr (rs2, st1), tx1)" "rs = r # rs2"
    using Cons.prems(1) by (auto split: prod.splits sum.splits)
  have room: "unat (NextSeq st) + 1 < 2 ^ 64" using Cons.prems(5) by simp
  note one = putOne_ok [OF p(1) Cons.prems(2,3,4) room]
  have st2: "st2 = st\<lparr>NextSeq := NextSeq st + 1\<rparr>" using one by simp
  have room2: "unat (NextSeq st2) + length es < 2 ^ 64" using Cons.prems(5) st2 by (simp add: unat_word_ariths)
  obtain q where q: "appended E st (NextSeq st) [e] = [q]" "r = resultOf q"
    "\<And>sid. recordsOf E tx2 stream sid = recordsOf E tx stream sid @ routed sid [q]"
    using putOne_appends [OF p(1) Cons.prems(2,3,4)] by blast
  have "rs2 = map resultOf (appended E st2 (NextSeq st2) es) \<and>
    (\<forall>sid. recordsOf E tx1 stream sid = recordsOf E tx2 stream sid @ routed sid (appended E st2 (NextSeq st2) es))"
    by (rule Cons.IH [OF p(2) Cons.prems(2) _ _ room2]) (use one in blast)+
  moreover have "appended E st (NextSeq st) (e # es) = q # appended E st (NextSeq st + 1) es"
    using q(1) by (auto split: sum.splits)
  ultimately show ?case using q(2,3) p(3) by (simp add: st2 routed_def)
qed (simp add: routed_def)

lemma putIn_appends:
  assumes "inv tx" "putIn E stream es tx = (Inr rs, tx')" "length es \<le> 500" "roomy (view tx)" "streamOf (view tx) stream = Some st"
  shows "rs = map resultOf (appended E st (NextSeq st) es) \<and>
    (\<forall>sid. recordsOf E tx' stream sid = recordsOf E tx stream sid @ routed sid (appended E st (NextSeq st) es))"
proof -
  have g: "getStream E tx stream = Inr st" using assms(5) getStream_iff by simp
  obtain st1 tx1 where p: "putLoop E stream es st tx = (Inr (rs, st1), tx1)" "putStream E tx1 st1 = (Inr (), tx')"
    using assms(2) g by (auto simp: putIn_def split: sum.splits prod.splits)
  have ok: "goodName stream" "streamOk st" using assms(1,5) by (auto simp: kInv_def metaPart_def)
  have rec: "recPart (lib E) ((streamOf (view tx))(stream \<mapsto> st)) (view tx)"
    using assms(1,5) by (simp add: kInv_def map_upd_triv)
  have room: "unat (NextSeq st) + length es < 2 ^ 64" using assms(3,4,5) by (fastforce simp: roomy_def)
  have same: "view tx' (recBucket stream sid) = view tx1 (recBucket stream sid)" for sid
    using putStream_effect [OF p(2)] by simp
  have "bucketItems (bolt E) tx' (recBucket stream sid) = bucketItems (bolt E) tx1 (recBucket stream sid)"
    if "view tx1 (recBucket stream sid) = Some c" for sid c
    using that same by (cases c) (intro sorted_pairs_unique; simp add: bucketItems bucketItems_sorted)
  then have "recordsOf E tx' stream sid = recordsOf E tx1 stream sid" for sid
    using same [of sid] by (auto simp: recordsOf_def hasBucket)
  then show ?thesis using putLoop_appends [OF p(1) ok rec room] by simp
qed

end


subsection \<open>Guarantees over the reachable stores\<close>

lemma kinesis_storeI: "bolt_store (bolt E) view \<Longrightarrow> (\<And>s. length (md5Sum (lib E) s) = 16) \<Longrightarrow> kinesis_store E view"
  by (simp add: kinesis_store_def kinesis_store_axioms_def)

lemma kReach_stream:
  assumes "kReach K view G tx" "bolt_store K view" "\<And>s. length (md5Sum G s) = 16" "streamOf (view tx) stream = Some st"
  shows "streamOk st"
  using kReach_inv [OF assms(1,2,3)] assms(4) unfolding kInv_def metaPart_def by blast

text \<open>C26: In every store that requests and the sweeper reach from an empty one, each stream's open shards
  tile the hash space, and each record sits in the bucket of a shard of its stream, under its own
  sequence number, within that shard's sequence and hash ranges.\<close>

theorem kinesis_reachable:
  assumes "kReach K view G tx" "bolt_store K view" "\<And>s. length (md5Sum G s) = 16"
  shows "kInv G (view tx)"
  using kReach_inv [OF assms] .

text \<open>C27: Routing never fails and is never ambiguous: for a partition key and an explicit hash key that is
  empty or in the hash space, \<^verbatim>\<open>shardFor\<close> finds the one open shard whose range holds the hash.\<close>

theorem kinesis_routing:
  assumes "kReach K view G tx" "bolt_store K view" "\<And>s. length (md5Sum G s) = 16"
    and "streamOf (view tx) stream = Some st" "hashKeyOk (eExplicitHashKey e)"
  shows "\<exists>sh. shardFor G st (ePartitionKey e) (eExplicitHashKey e) = Inr sh \<and>
    filter (\<lambda>sh. \<not> Closed sh \<and> covers (entryHash G e) sh) (Shards st) = [sh]"
  using shardFor_total [OF kReach_stream [OF assms(1-4)] assms(3,5)] by metis

text \<open>C28: A batch that \<^verbatim>\<open>Put\<close> accepts is appended as a whole: the entries get consecutive sequence numbers,
  the answer names each one's shard and number, every shard's records gain exactly the entries routed to
  it, in order, at the end, and the stream's counter moves past the batch.\<close>

theorem Put_appends:
  assumes "kReach (bolt E) view (lib E) tx" "bolt_store (bolt E) view" "\<And>s. length (md5Sum (lib E) s) = 16"
    and "roomy (view tx)" "streamOf (view tx) stream = Some st" "Put E stream es tx = (Inr rs, tx')"
  shows "rs = map resultOf (appended E st (NextSeq st) es) \<and> map rSeq rs = map (\<lambda>i. NextSeq st + of_nat i) [0..<length es] \<and>
    (\<forall>sid. recordsOf E tx' stream sid = recordsOf E tx stream sid @ routed sid (appended E st (NextSeq st) es)) \<and>
    streamOf (view tx') = (streamOf (view tx))(stream \<mapsto> st\<lparr>NextSeq := NextSeq st + of_nat (length es)\<rparr>)"
proof -
  note ks = kinesis_storeI [OF assms(2,3)]
  have inv: "kInv (lib E) (view tx)" by (rule kReach_inv [OF assms(1-3)])
  have p: "putIn E stream es tx = (Inr rs, tx')" "length es \<le> 500"
    using assms(6) by (auto simp: Put_def maxPutRecords_def Bolt.Update_def split: if_splits prod.splits sum.splits)
  have "map rSeq rs = map (\<lambda>i. NextSeq st + of_nat i) [0..<length es] \<and>
    streamOf (view tx') = (streamOf (view tx))(stream \<mapsto> st\<lparr>NextSeq := NextSeq st + of_nat (length es)\<rparr>)"
    by (rule kinesis_store.putIn_parts [OF ks inv p assms(4)]) (use assms(5) in simp)
  then show ?thesis using kinesis_store.putIn_appends [OF ks inv p assms(4,5)] assms(5) by simp
qed

text \<open>C29: Resharding keeps the order of a lineage: a parent is closed, and every record in it has a smaller
  sequence number than every record of its children.\<close>

theorem parent_before_child:
  assumes "kReach (bolt E) view (lib E) tx" "bolt_store (bolt E) view" "\<And>s. length (md5Sum (lib E) s) = 16"
    and "streamOf (view tx) stream = Some st" "findShard st p = Some parent" "findShard st c = Some child" "isChild p child"
    and "rp \<in> set (recordsOf E tx stream p)" "rc \<in> set (recordsOf E tx stream c)"
  shows "Closed parent \<and> Seq rp < Seq rc"
proof -
  note ks = kinesis_storeI [OF assms(2,3)]
  have inv: "kInv (lib E) (view tx)" by (rule kReach_inv [OF assms(1-3)])
  have "lineageOk (Shards st)" using kReach_stream [OF assms(1-4)] by (simp add: streamOk_def shardsOk_def)
  then have l: "Closed parent" "EndSeq parent < StartSeq child"
    using findShard_SomeD [OF assms(5)] findShard_SomeD [OF assms(6)] assms(7) by (auto simp: lineageOk_def)
  have "Seq rp \<le> EndSeq parent" "StartSeq child \<le> Seq rc"
    using kinesis_store.recordsOf_ok [OF ks inv assms(4,5)] kinesis_store.recordsOf_ok [OF ks inv assms(4,6)] assms(8,9) l(1)
    by (auto simp: recordOk_def)
  then show ?thesis using l by auto
qed

text \<open>C30: One call of \<^verbatim>\<open>Fetch\<close> returns the records that directly follow the position, in order and without
  gaps, within the record and byte limits; and a reader that continues from the returned position gets
  every record of the shard after that position, once each, in at most as many calls as there are records.\<close>

theorem reader_gets_everything:
  assumes "kReach (bolt E) view (lib E) tx" "bolt_store (bolt E) view" "\<And>s. length (md5Sum (lib E) s) = 16"
    and "streamOf (view tx) stream = Some st" "findShard st sid = Some sh" "after + 1 \<noteq> 0"
  shows "(\<exists>recs next behind. Fetch E stream sid after limit tx = Inr (recs, next, behind) \<and>
      prefix recs (following after (recordsOf E tx stream sid)) \<and> length recs \<le> fetchLimit limit \<and> totalLen E recs \<le> maxGetBytes) \<and>
    ((\<forall>rc\<in>set (recordsOf E tx stream sid). int (recordLen E rc) \<le> maxGetBytes) \<and>
      length (following after (recordsOf E tx stream sid)) \<le> n \<longrightarrow>
     readOn n E stream sid after limit tx = Inr (following after (recordsOf E tx stream sid)))"
proof -
  note ks = kinesis_storeI [OF assms(2,3)]
  have inv: "kInv (lib E) (view tx)" by (rule kReach_inv [OF assms(1-3)])
  let ?f = "following after (recordsOf E tx stream sid)"
  obtain behind where "Fetch E stream sid after limit tx = Inr (fits E (fetchLimit limit) 0 ?f, endOf after (fits E (fetchLimit limit) 0 ?f), behind)"
    using kinesis_store.Fetch_fits [OF ks inv assms(4-6)] by blast
  moreover have "0 \<le> maxGetBytes" by (simp add: maxGetBytes_def)
  ultimately show ?thesis
    using fits_prefix [of E "fetchLimit limit" 0 ?f] fits_bounds [of E "fetchLimit limit" 0 ?f]
      kinesis_store.readOn_complete [OF ks inv assms(4,5) _ assms(6)] by auto
qed



subsection \<open>Iterators\<close>

lemma bar_free_intStr: "CHR ''|'' \<notin> set (intStr n)"
proof
  assume "CHR ''|'' \<in> set (intStr n)"
  then have "isDigit (CHR ''|'')" using natStr_isDigit by (auto simp: intStr_def split: if_splits)
  then show False by (simp add: isDigit_def)
qed

text \<open>An iterator decodes to the position it was issued for, until five minutes have passed; after that it
  is refused as expired. Stream names and shard ids have no bar character.\<close>

theorem iterator_roundtrip:
  assumes "CHR ''|'' \<notin> set (Stream c)" "CHR ''|'' \<notin> set (Shard c)" "- (2 ^ 63) \<le> IssuedNs c" "IssuedNs c < 2 ^ 63"
  shows "decodeIterator (encodeIterator c) t =
    (if t - IssuedNs c \<le> 300000000000 then Inr c else Inl ExpiredIterator)"
proof -
  have "splitOn (CHR ''|'') (Stream c @ CHR ''|'' # Shard c @ CHR ''|'' # intStr (uint (After c)) @ CHR ''|'' # intStr (IssuedNs c)) =
      [Stream c, Shard c, intStr (uint (After c)), intStr (IssuedNs c)]"
    using assms(1,2) by (simp add: splitOn_join splitOn_free bar_free_intStr)
  moreover have "ParseUint64 (intStr (uint (After c))) = Some (unat (After c))"
    using ParseUint64_natStr [of "unat (After c)"] unsigned_less [of "After c"] by (simp add: intStr_def)
  moreover have "ParseInt64 (intStr (IssuedNs c)) = Some (IssuedNs c)" by (rule ParseInt64_intStr [OF assms(3,4)])
  ultimately show ?thesis
    by (simp add: decodeIterator_def encodeIterator_def DecodeString_EncodeToString iteratorTTL_def nanosecondsPerSecond_def)
qed

subsection \<open>Seeking by time\<close>

lemma keySeq_bigEndian:
  "foldl (\<lambda>n c. n * 256 + of_char c) a (bigEndian k n) = a * 256 ^ k + (of_nat (n mod 256 ^ k) :: 64 word)"
proof (induction k arbitrary: a n)
  case (Suc k)
  have c: "(of_char (char_of (n div 256 ^ k) :: char) :: 64 word) = of_nat (n div 256 ^ k mod 256)"
  proof -
    have "of_char (char_of (n div 256 ^ k) :: char) = n div 256 ^ k mod 256" by (simp add: of_char_of)
    then show ?thesis by (metis of_nat_of_char)
  qed
  have "n mod (256 ^ k * 256) = 256 ^ k * (n div 256 ^ k mod 256) + n mod 256 ^ k" by (rule mod_mult2_eq)
  then have "n mod 256 ^ Suc k = n div 256 ^ k mod 256 * 256 ^ k + n mod 256 ^ k" by (simp add: mult.commute)
  then have "(of_nat (n mod 256 ^ Suc k) :: 64 word) = of_nat (n div 256 ^ k mod 256) * 256 ^ k + of_nat (n mod 256 ^ k)" by simp
  then show ?case using Suc.IH by (simp add: c algebra_simps)
qed simp

lemma keySeq_seqKey [simp]: "keySeq (seqKey s) = s"
proof -
  have "unat s mod 256 ^ 8 = unat s" using unsigned_less [of s, where ?'a = nat] by simp
  then show ?thesis by (simp add: keySeq_def seqKey_def keySeq_bigEndian)
qed

definition forwardScan :: "int \<Rightarrow> krecord list \<Rightarrow> 64 word" where
  "forwardScan ts rcs = foldl (\<lambda>seq rc. if ArrivedNs rc < ts then Seq rc else seq) 0 rcs"

lemma seekTime_scan: "seekTime ts (rev (recordItems rcs)) = Inr (forwardScan ts rcs)"
  by (induction rcs rule: rev_induct) (auto simp: recordItems_def forwardScan_def)

text \<open>The backward search of \<^verbatim>\<open>SeqAtOrAfter\<close> settles on the record that a forward scan over the whole shard
  would: the last one that arrived before the time.\<close>

theorem SeqAtOrAfter_scan:
  assumes "kReach (bolt E) view (lib E) tx" "bolt_store (bolt E) view" "\<And>s. length (md5Sum (lib E) s) = 16"
    and "streamOf (view tx) stream = Some st" "findShard st sid = Some sh"
  shows "SeqAtOrAfter E stream sid ts tx = Inr (forwardScan ts (recordsOf E tx stream sid))"
proof -
  have inv: "kInv (lib E) (view tx)" by (rule kReach_inv [OF assms(1-3)])
  note r = kinesis_store.recordsOf_ok [OF kinesis_storeI [OF assms(2,3)] inv assms(4,5)]
  show ?thesis
  proof (cases "hasBucket (bolt E) tx (recBucket stream sid)")
    case True
    then show ?thesis using r seekTime_scan [of ts "recordsOf E tx stream sid"] by (simp add: SeqAtOrAfter_def)
  next
    case False
    then show ?thesis by (simp add: SeqAtOrAfter_def recordsOf_def forwardScan_def)
  qed
qed


subsection \<open>A sample run\<close>

text \<open>
  On the in-memory store: a stream of one shard gets a record, the shard is split at 1000, a second record
  goes to the lower half, and the upper half, which is empty, is split at 2000.
\<close>

definition sampleEnv :: "kstored memory env" where
  "sampleEnv = \<lparr>bolt = memBolt, lib = sampleExt, ident = \<lparr>Region = [], AccountID = []\<rparr>, now = 0,
     describeKey = (\<lambda>_. None), recordLen = (\<lambda>_. 1)\<rparr>"

definition sampleParams :: "(string \<times> string) list \<Rightarrow> params" where
  "sampleParams kvs = (''StreamName'', AnyStr ''s'') # map (\<lambda>(k, v). (k, AnyStr v)) kvs"

definition samplePut :: params where
  "samplePut = sampleParams [(''PartitionKey'', ''p''), (''ExplicitHashKey'', ''5''), (''Data'', [])]"

definition topHash :: string where
  "topHash = ''340282366920938463463374607431768211455''"

definition sampleShard :: "nat \<Rightarrow> string \<Rightarrow> string \<Rightarrow> string \<Rightarrow> 64 word \<Rightarrow> (64 word) option \<Rightarrow> shard" where
  "sampleShard n lo hi parent start fin =
     \<lparr>ID = shardID n, StartHash = lo, EndHash = hi, ParentID = parent, AdjacentID = [], StartSeq = start,
      EndSeq = (case fin of None \<Rightarrow> 0 | Some e \<Rightarrow> e), Closed = (fin \<noteq> None)\<rparr>"

definition sampleStream :: "shard list \<Rightarrow> 64 word \<Rightarrow> streamRecord" where
  "sampleStream shs seq = (newStream ''s'' 0 modeProvisioned)\<lparr>Shards := shs, NextShardNum := length shs, NextSeq := seq\<rparr>"

definition sampleRecord :: "64 word \<Rightarrow> krecord" where
  "sampleRecord seq = \<lparr>Seq = seq, PartitionKey = ''p'', ExplicitHashKey = ''5'', Data = [], ArrivedNs = 0\<rparr>"

definition sampleBucket :: "nat \<Rightarrow> 64 word \<Rightarrow> string \<times> 64 word \<times> (string \<times> kstored) list" where
  "sampleBucket n seq = (recBucket ''s'' (shardID n), 0, [(seqKey seq, RecordRec (sampleRecord seq))])"

definition sampleMeta :: "streamRecord \<Rightarrow> string \<times> 64 word \<times> (string \<times> kstored) list" where
  "sampleMeta st = (metaBucket, 0, [(''s'', StreamRec st)])"

definition halves :: "shard list" where
  "halves = [sampleShard 0 ''0'' topHash [] 1 (Some 1), sampleShard 1 ''0'' ''999'' (shardID 0) 2 None]"

definition lastStream :: streamRecord where
  "lastStream = sampleStream (halves @ [sampleShard 2 ''1000'' topHash (shardID 0) 2 (Some 2),
     sampleShard 3 ''1000'' ''1999'' (shardID 2) 3 None, sampleShard 4 ''2000'' topHash (shardID 2) 3 None]) 3"

definition sample1 :: "kstored memory" where
  "sample1 = [sampleMeta (sampleStream [sampleShard 0 ''0'' topHash [] 1 None] 1)]"

definition sample2 :: "kstored memory" where
  "sample2 = [sampleBucket 0 1, sampleMeta (sampleStream [sampleShard 0 ''0'' topHash [] 1 None] 2)]"

definition sample3 :: "kstored memory" where
  "sample3 = [sampleBucket 0 1, sampleMeta (sampleStream (halves @ [sampleShard 2 ''1000'' topHash (shardID 0) 2 None]) 2)]"

definition sample4 :: "kstored memory" where
  "sample4 = [sampleBucket 1 2, sampleBucket 0 1, sampleMeta (sampleStream (halves @ [sampleShard 2 ''1000'' topHash (shardID 0) 2 None]) 3)]"

definition sample5 :: "kstored memory" where
  "sample5 = [sampleBucket 1 2, sampleBucket 0 1, sampleMeta lastStream]"

lemma sample_steps:
  "snd (hCreateStream sampleEnv (sampleParams []) []) = sample1"
  "snd (hPutRecord sampleEnv samplePut sample1) = sample2"
  "snd (hSplitShard sampleEnv (sampleParams [(''ShardToSplit'', shardID 0), (''NewStartingHashKey'', ''1000'')]) sample2) = sample3"
  "snd (hPutRecord sampleEnv samplePut sample3) = sample4"
  "snd (hSplitShard sampleEnv (sampleParams [(''ShardToSplit'', shardID 2), (''NewStartingHashKey'', ''2000'')]) sample4) = sample5"
  by code_simp+

definition memRoomy :: "kstored memory \<Rightarrow> bool" where
  "memRoomy tx =
     (case map_of tx metaBucket of
        None \<Rightarrow> True
      | Some (_, xs) \<Rightarrow> list_all (\<lambda>(_, r). case r of StreamRec st \<Rightarrow> NextSeq st < 18446744073709551116 | _ \<Rightarrow> True) xs)"

lemma memRoomy: "memRoomy tx \<Longrightarrow> roomy (memView tx)"
proof -
  assume r: "memRoomy tx"
  have "unat (NextSeq st) + 500 < 2 ^ 64" if s: "streamOf (memView tx) name = Some st" for name st
  proof -
    obtain n xs where x: "map_of tx metaBucket = Some (n, xs)" "map_of xs name = Some (StreamRec st)"
      using s by (auto simp: streamOf_def memView_def split: option.splits kstored.splits)
    have "\<forall>kr\<in>set xs. case snd kr of StreamRec st \<Rightarrow> NextSeq st < 18446744073709551116 | _ \<Rightarrow> True"
      using r x(1) by (simp add: memRoomy_def list_all_iff case_prod_beta)
    from bspec [OF this map_of_SomeD [OF x(2)]] have "NextSeq st < 18446744073709551116" by simp
    then show ?thesis by (simp add: word_less_nat_alt)
  qed
  then show ?thesis unfolding roomy_def by blast
qed

abbreviation memReach :: "kstored memory \<Rightarrow> bool" where
  "memReach \<equiv> kReach memBolt memView sampleExt"

lemma memReach_request:
  "memReach tx \<Longrightarrow> memRoomy tx \<Longrightarrow> (a, h) \<in> set handlers \<Longrightarrow> memReach (snd (h sampleEnv p tx))"
  by (rule kReach.step, assumption, rule kStep.request) (auto simp: sampleEnv_def memRoomy)

lemma sample_reach: "memReach sample1" "memReach sample2" "memReach sample3" "memReach sample4" "memReach sample5"
proof -
  have "memReach []" by (rule kReach.fresh) (auto simp: memView_def)
  from memReach_request [OF this, of "''CreateStream''" hCreateStream "sampleParams []"]
  show s1: "memReach sample1" by (simp add: sample_steps memRoomy_def handlers_def)
  have "memRoomy sample1" "memRoomy sample2" "memRoomy sample3" "memRoomy sample4" by code_simp+
  note next_state = memReach_request [OF _ this(1)] memReach_request [OF _ this(2)] memReach_request [OF _ this(3)] memReach_request [OF _ this(4)]
  have h: "(''PutRecord'', hPutRecord) \<in> set handlers" "(''SplitShard'', hSplitShard) \<in> set handlers" by (simp_all add: handlers_def)
  show s2: "memReach sample2" using next_state(1) [OF s1 h(1), of samplePut] by (simp add: sample_steps)
  show s3: "memReach sample3" using next_state(2) [OF s2 h(2)] sample_steps(3) by metis
  show s4: "memReach sample4" using next_state(3) [OF s3 h(1), of samplePut] by (simp add: sample_steps)
  show "memReach sample5" using next_state(4) [OF s4 h(2)] sample_steps(5) by metis
qed

lemma sample_laws: "bolt_store memBolt memView" "length (md5Sum sampleExt s) = 16"
  by (rule mem.bolt_store_axioms) (simp add: sampleExt_def)

lemma sampleEnv_parts [simp]: "bolt sampleEnv = memBolt" "lib sampleEnv = sampleExt"
  by (simp_all add: sampleEnv_def)

lemmas sample_run = sample_reach(5) sample_laws

lemma sample_stream: "streamOf (memView sample5) ''s'' = Some lastStream"
  by code_simp

lemma sample_shards:
  "findShard lastStream (shardID 0) = Some (sampleShard 0 ''0'' topHash [] 1 (Some 1))"
  "findShard lastStream (shardID 1) = Some (sampleShard 1 ''0'' ''999'' (shardID 0) 2 None)"
  "findShard lastStream (shardID 2) = Some (sampleShard 2 ''1000'' topHash (shardID 0) 2 (Some 2))"
  by code_simp+

lemma sample_records:
  "recordsOf sampleEnv sample5 ''s'' (shardID 0) = [sampleRecord 1]"
  "recordsOf sampleEnv sample5 ''s'' (shardID 1) = [sampleRecord 2]"
  "recordsOf sampleEnv sample5 ''s'' (shardID 2) = []"
  by code_simp+

theorem kinesis_reachable_witness: "kInv sampleExt (memView sample5)"
  by (rule kinesis_reachable [OF sample_run])

theorem kinesis_routing_witness:
  "\<exists>sh. shardFor sampleExt lastStream ''p'' [] = Inr sh \<and>
    filter (\<lambda>sh. \<not> Closed sh \<and> covers (entryHash sampleExt \<lparr>ePartitionKey = ''p'', eExplicitHashKey = [], eData = []\<rparr>) sh) (Shards lastStream) = [sh]"
  using kinesis_routing [OF sample_run sample_stream, of "\<lparr>ePartitionKey = ''p'', eExplicitHashKey = [], eData = []\<rparr>"]
  by (simp add: hashKeyOk_def)

definition sampleEntry :: putEntry where
  "sampleEntry = \<lparr>ePartitionKey = ''p'', eExplicitHashKey = ''5'', eData = []\<rparr>"

lemma sample_put: "Put sampleEnv ''s'' [sampleEntry] sample3 = (Inr [\<lparr>rShardID = shardID 1, rSeq = 2\<rparr>], sample4)"
  by code_simp

definition halfStream :: streamRecord where
  "halfStream = sampleStream (halves @ [sampleShard 2 ''1000'' topHash (shardID 0) 2 None]) 2"

lemma sample3_facts: "streamOf (memView sample3) ''s'' = Some halfStream" "NextSeq halfStream = 2" "memRoomy sample3"
  by code_simp+

theorem Put_appends_witness:
  "map rSeq [\<lparr>rShardID = shardID 1, rSeq = 2\<rparr>] = map (\<lambda>i. 2 + of_nat i) [0..<length [sampleEntry]] \<and>
   recordsOf sampleEnv sample4 ''s'' (shardID 1) = recordsOf sampleEnv sample3 ''s'' (shardID 1) @
     routed (shardID 1) (appended sampleEnv halfStream 2 [sampleEntry])"
  using Put_appends [of sampleEnv memView sample3, unfolded sampleEnv_parts,
      OF sample_reach(3) sample_laws memRoomy [OF sample3_facts(3)] sample3_facts(1) sample_put, unfolded sample3_facts(2)]
  by blast

theorem parent_before_child_witness: "Closed (sampleShard 0 ''0'' topHash [] 1 (Some 1)) \<and> Seq (sampleRecord 1) < Seq (sampleRecord 2)"
  using parent_before_child [of sampleEnv memView sample5 "''s''" lastStream "shardID 0" "sampleShard 0 ''0'' topHash [] 1 (Some 1)"
      "shardID 1" "sampleShard 1 ''0'' ''999'' (shardID 0) 2 None" "sampleRecord 1" "sampleRecord 2"] sample_run sample_stream sample_shards sample_records
  by (simp add: isChild_def sampleShard_def)

theorem reader_gets_everything_witness:
  "readOn 3 sampleEnv ''s'' (shardID 1) 0 5 sample5 = Inr [sampleRecord 2]"
proof -
  have f: "following 0 [sampleRecord 2] = [sampleRecord 2]" "int (recordLen sampleEnv rc) \<le> maxGetBytes" for rc
    by (simp_all add: following_def sampleRecord_def sampleEnv_def maxGetBytes_def)
  show ?thesis
    using reader_gets_everything [of sampleEnv memView sample5 "''s''" lastStream "shardID 1" "sampleShard 1 ''0'' ''999'' (shardID 0) 2 None" 0 5 3,
        unfolded sample_records(2) sampleEnv_parts, OF sample_run sample_stream sample_shards(2)] f
    by simp
qed


definition sampleCursor :: cursor where
  "sampleCursor = \<lparr>Stream = ''s'', Shard = ''shardId-000000000001'', After = 7, IssuedNs = 1000\<rparr>"

theorem iterator_roundtrip_witness: "decodeIterator (encodeIterator sampleCursor) 2000 = Inr sampleCursor"
  using iterator_roundtrip [of sampleCursor 2000] by (simp add: sampleCursor_def)

theorem SeqAtOrAfter_scan_witness:
  "SeqAtOrAfter sampleEnv ''s'' (shardID 1) 9 sample5 = Inr (forwardScan 9 [sampleRecord 2])"
  using SeqAtOrAfter_scan [of sampleEnv memView sample5 "''s''" lastStream "shardID 1" "sampleShard 1 ''0'' ''999'' (shardID 0) 2 None" 9]
    sample_run sample_stream sample_shards sample_records
  by simp


end
