(* ===== verification/SecretsModel.thy ===== *)
theory SecretsModel
  imports Bolt Ident AwsJson
begin

text \<open>
  The Secrets Manager store, \<^verbatim>\<open>secretsmanager/store.go\<close>: secrets with their versions and staging labels in
  one bucket. The environment of a call holds the bbolt operations, the library parameters, the identity,
  the clock in Unix seconds, the random bytes the call draws, AES-GCM as a pair of functions on a nonce,
  what KMS answers about a key, and the invocation of a rotation function. Values of a version are kept
  sealed; \<open>None\<close> is Go's nil slice. A map of versions is iterated in the order of the list.
\<close>

record version =
  vString :: "bytes option"
  vBinary :: "bytes option"
  Stages :: "string list"
  vCreated :: int

record secret =
  secARN :: string
  secName :: string
  Description :: string
  KMSKeyID :: string
  secTags :: "(string \<times> string) list"
  secPolicy :: string
  Versions :: "(string \<times> version) list"
  secCreated :: int
  LastChanged :: int
  RotationEnabled :: bool
  RotationLambdaARN :: string
  LastRotatedDate :: int
  DeletedAt :: int
  PurgeAt :: int

datatype sstored = SecretRec secret | SUndecodable

datatype secretsError =
    SecretNotFound string
  | SecretExists string
  | SecretDeleted string
  | InvalidRequest string
  | InvalidParam string
  | SValidation string
  | Corrupt
  | RotationFailed string
  | BadSecret
  | SStoreFailure
  | DivideByZero

record 'tx senv =
  sbolt :: "('tx, sstored) bolt"
  slib :: go_ext
  sident :: identity
  snow :: int
  uuidBytes :: bytes
  suffixBytes :: bytes
  passwordBytes :: "nat \<Rightarrow> bytes"
  nonceS :: bytes
  nonceB :: bytes
  gcmSeal :: "bytes \<Rightarrow> bytes \<Rightarrow> bytes"
  gcmOpen :: "bytes \<Rightarrow> bytes \<Rightarrow> bytes option"
  keyState :: "string \<Rightarrow> (bool \<times> string) option"
  lambdaInvoke :: "string \<Rightarrow> string \<Rightarrow> string \<Rightarrow> string \<Rightarrow> 'tx \<Rightarrow> bool \<times> 'tx"

definition secretsBucket :: string where "secretsBucket = ''secrets''"

definition nonceSize :: nat where "nonceSize = 12"

definition stageCurrent :: string where "stageCurrent = ''AWSCURRENT''"
definition stagePrevious :: string where "stagePrevious = ''AWSPREVIOUS''"

subsection \<open>Sealing\<close>

definition seal :: "'tx senv \<Rightarrow> bytes \<Rightarrow> bytes option \<Rightarrow> bytes option" where
  "seal E nonce plaintext = map_option (\<lambda>p. nonce @ gcmSeal E nonce p) plaintext"

definition unseal :: "'tx senv \<Rightarrow> bytes option \<Rightarrow> (bytes option) option" where
  "unseal E sealed =
     (case sealed of
        None \<Rightarrow> Some None
      | Some b \<Rightarrow>
          if length b < nonceSize then None
          else map_option Some (gcmOpen E (take nonceSize b) (drop nonceSize b)))"

subsection \<open>Names\<close>

definition newUUID :: "bytes \<Rightarrow> string" where
  "newUUID rnd =
     (let b = rnd[6 := or (and (rnd ! 6) 0x0f) 0x40, 8 := or (and (rnd ! 8) 0x3f) 0x80];
          part = (\<lambda>i j. hexStr (take (j - i) (drop i b)))
      in part 0 4 @ ''-'' @ part 4 6 @ ''-'' @ part 6 8 @ ''-'' @ part 8 10 @ ''-'' @ part 10 16)"

definition suffixAlphabet :: string where
  "suffixAlphabet = ''abcdefghijklmnopqrstuvwxyzABCDEFGHIJKLMNOPQRSTUVWXYZ''"

definition randSuffix :: "bytes \<Rightarrow> string" where
  "randSuffix rnd = map (\<lambda>b. suffixAlphabet ! (unat b mod length suffixAlphabet)) rnd"

definition secretARN :: "'tx senv \<Rightarrow> string \<Rightarrow> string" where
  "secretARN E name = ARN (sident E) ''secretsmanager'' (''secret:'' @ name @ ''-'' @ randSuffix (suffixBytes E))"

text \<open>What follows the first \<open>n\<close> colons (\<^verbatim>\<open>strings.SplitN\<close>).\<close>

fun afterColons :: "nat \<Rightarrow> string \<Rightarrow> string option" where
  "afterColons 0 s = Some s"
| "afterColons (Suc n) [] = None"
| "afterColons (Suc n) (c # cs) = (if c = CHR '':'' then afterColons n cs else afterColons (Suc n) cs)"

text \<open>The length of the part behind the last dash, if there is a dash.\<close>

definition behindDash :: "string \<Rightarrow> nat option" where
  "behindDash s =
     (if CHR ''-'' \<in> set s then Some (length (takeWhile (\<lambda>c. c \<noteq> CHR ''-'') (rev s))) else None)"

definition candidateNames :: "string \<Rightarrow> string list" where
  "candidateNames sid =
     (if \<not> prefix ''arn:'' sid then [sid]
      else case afterColons 6 sid of
             None \<Rightarrow> [sid]
           | Some name \<Rightarrow>
               name # (if behindDash name = Some 6 \<and> length name > 7 then [take (length name - 7) name] else []))"

subsection \<open>Reading and writing secrets\<close>

fun lookupFirst :: "'tx senv \<Rightarrow> 'tx \<Rightarrow> string \<Rightarrow> string list \<Rightarrow> secretsError + secret" where
  "lookupFirst E tx sid [] = Inl (SecretNotFound sid)"
| "lookupFirst E tx sid (name # rest) =
     (case bucketGet (sbolt E) tx secretsBucket name of
        None \<Rightarrow> lookupFirst E tx sid rest
      | Some (SecretRec sec) \<Rightarrow> Inr sec
      | Some SUndecodable \<Rightarrow> Inl BadSecret)"

definition getSecret :: "'tx senv \<Rightarrow> 'tx \<Rightarrow> string \<Rightarrow> secretsError + secret" where
  "getSecret E tx sid =
     (if \<not> hasBucket (sbolt E) tx secretsBucket then Inl (SecretNotFound sid)
      else lookupFirst E tx sid (candidateNames sid))"

definition putSecret :: "'tx senv \<Rightarrow> 'tx \<Rightarrow> secret \<Rightarrow> (secretsError + unit) \<times> 'tx" where
  "putSecret E tx sec =
     (case createBucket (sbolt E) tx secretsBucket of
        None \<Rightarrow> (Inl SStoreFailure, tx)
      | Some tx1 \<Rightarrow>
          (case bucketPut (sbolt E) tx1 secretsBucket (secName sec) (SecretRec sec) of
             None \<Rightarrow> (Inl SStoreFailure, tx1)
           | Some tx2 \<Rightarrow> (Inr (), tx2)))"

definition mutateIn ::
  "'tx senv \<Rightarrow> string \<Rightarrow> (secret \<Rightarrow> secretsError + secret) \<Rightarrow> 'tx \<Rightarrow> (secretsError + secret) \<times> 'tx" where
  "mutateIn E sid fn tx =
     (case getSecret E tx sid of
        Inl e \<Rightarrow> (Inl e, tx)
      | Inr sec \<Rightarrow>
          (case fn sec of
             Inl e \<Rightarrow> (Inl e, tx)
           | Inr sec1 \<Rightarrow>
               let out = sec1\<lparr>LastChanged := snow E\<rparr> in
               (case putSecret E tx out of (Inl e, tx1) \<Rightarrow> (Inl e, tx1) | (Inr _, tx1) \<Rightarrow> (Inr out, tx1))))"

definition Mutate ::
  "'tx senv \<Rightarrow> string \<Rightarrow> (secret \<Rightarrow> secretsError + secret) \<Rightarrow> 'tx \<Rightarrow> (secretsError + secret) \<times> 'tx" where
  "Mutate E sid fn tx = Bolt.Update (mutateIn E sid fn) tx"

subsection \<open>Creating\<close>

definition newVersion :: "'tx senv \<Rightarrow> bytes option \<Rightarrow> bytes option \<Rightarrow> string list \<Rightarrow> version" where
  "newVersion E str bin stages =
     \<lparr>vString = seal E (nonceS E) str, vBinary = seal E (nonceB E) bin, Stages = stages, vCreated = snow E\<rparr>"

definition createSecretIn ::
  "'tx senv \<Rightarrow> secret \<Rightarrow> string \<Rightarrow> bytes option \<Rightarrow> bytes option \<Rightarrow> 'tx \<Rightarrow> (secretsError + secret) \<times> 'tx" where
  "createSecretIn E sec token str bin tx =
     (case getSecret E tx (secName sec) of
        Inr existing \<Rightarrow>
          if DeletedAt existing > 0 then (Inl (SecretDeleted (secName sec)), tx)
          else if map_of (Versions existing) token \<noteq> None then (Inr existing, tx)
          else (Inl (SecretExists (secName sec)), tx)
      | Inl _ \<Rightarrow>
          let sec1 = (if str \<noteq> None \<or> bin \<noteq> None then
                        sec\<lparr>Versions := [(token, newVersion E str bin [stageCurrent])]\<rparr> else sec) in
          (case putSecret E tx sec1 of (Inl e, tx1) \<Rightarrow> (Inl e, tx1) | (Inr _, tx1) \<Rightarrow> (Inr sec1, tx1)))"

definition tokenOr :: "'tx senv \<Rightarrow> string \<Rightarrow> string" where
  "tokenOr E token = (if token = [] then newUUID (uuidBytes E) else token)"

definition newSecret :: "'tx senv \<Rightarrow> string \<Rightarrow> string \<Rightarrow> string \<Rightarrow> (string \<times> string) list \<Rightarrow> secret" where
  "newSecret E name description kmsKeyID tags =
     \<lparr>secARN = secretARN E name, secName = name, Description = description, KMSKeyID = kmsKeyID, secTags = tags,
      secPolicy = [], Versions = [], secCreated = snow E, LastChanged = snow E, RotationEnabled = False,
      RotationLambdaARN = [], LastRotatedDate = 0, DeletedAt = 0, PurgeAt = 0\<rparr>"

definition CreateSecret ::
  "'tx senv \<Rightarrow> string \<Rightarrow> string \<Rightarrow> string \<Rightarrow> string \<Rightarrow> bytes option \<Rightarrow> bytes option \<Rightarrow> (string \<times> string) list \<Rightarrow> 'tx
    \<Rightarrow> (secretsError + secret \<times> string) \<times> 'tx" where
  "CreateSecret E name description kmsKeyID token str bin tags tx =
     (if name = [] then (Inl (SValidation ''Name is required''), tx)
      else
        (case Bolt.Update (createSecretIn E (newSecret E name description kmsKeyID tags) (tokenOr E token) str bin) tx of
           (Inl e, tx1) \<Rightarrow> (Inl e, tx1)
         | (Inr sec, tx1) \<Rightarrow> (Inr (sec, tokenOr E token), tx1)))"

subsection \<open>Versions and staging labels\<close>

definition removeStage :: "string \<Rightarrow> version \<Rightarrow> version" where
  "removeStage stage v = v\<lparr>Stages := filter (\<lambda>s. s \<noteq> stage) (Stages v)\<rparr>"

definition replaceStage :: "string \<Rightarrow> string \<Rightarrow> version \<Rightarrow> version" where
  "replaceStage frm to v = v\<lparr>Stages := map (\<lambda>s. if s = frm then to else s) (Stages v)\<rparr>"

definition eachVersion :: "(version \<Rightarrow> version) \<Rightarrow> secret \<Rightarrow> secret" where
  "eachVersion f sec = sec\<lparr>Versions := map (\<lambda>(vid, v). (vid, f v)) (Versions sec)\<rparr>"

text \<open>The old current version becomes the previous one, and the old previous one loses its label.\<close>

definition demote :: "version \<Rightarrow> version" where
  "demote v =
     (if stageCurrent \<in> set (Stages v) then replaceStage stageCurrent stagePrevious v
      else if stagePrevious \<in> set (Stages v) then removeStage stagePrevious v
      else v)"

definition strip :: "string \<Rightarrow> version \<Rightarrow> version" where
  "strip stage v = (if stage \<in> set (Stages v) then removeStage stage v else v)"

definition addVersionTo ::
  "'tx senv \<Rightarrow> string \<Rightarrow> bytes option \<Rightarrow> bytes option \<Rightarrow> string list \<Rightarrow> secret \<Rightarrow> secretsError + secret" where
  "addVersionTo E token str bin stages sec =
     (if DeletedAt sec > 0 then Inl (SecretDeleted (secName sec))
      else if map_of (Versions sec) token \<noteq> None then Inr sec
      else
        let sec1 = (if stageCurrent \<in> set stages then eachVersion demote sec else sec);
            sec2 = fold (\<lambda>stage s. if stage = stageCurrent then s else eachVersion (strip stage) s) stages sec1
        in Inr (sec2\<lparr>Versions := Versions sec2 @ [(token, newVersion E str bin stages)]\<rparr>))"

definition AddVersion ::
  "'tx senv \<Rightarrow> string \<Rightarrow> string \<Rightarrow> bytes option \<Rightarrow> bytes option \<Rightarrow> string list \<Rightarrow> 'tx \<Rightarrow> (secretsError + secret \<times> string) \<times> 'tx" where
  "AddVersion E sid token str bin stages tx =
     (case Mutate E sid (addVersionTo E (tokenOr E token) str bin (if stages = [] then [stageCurrent] else stages)) tx of
        (Inl e, tx1) \<Rightarrow> (Inl e, tx1)
      | (Inr sec, tx1) \<Rightarrow> (Inr (sec, tokenOr E token), tx1))"

definition Resolve :: "secret \<Rightarrow> string \<Rightarrow> string \<Rightarrow> secretsError + string \<times> version" where
  "Resolve sec versionID stage =
     (if versionID \<noteq> [] then
        (case map_of (Versions sec) versionID of
           None \<Rightarrow> Inl (SecretNotFound (secName sec @ '' version '' @ versionID))
         | Some v \<Rightarrow> Inr (versionID, v))
      else
        let st = (if stage = [] then stageCurrent else stage) in
        case find (\<lambda>(_, v). st \<in> set (Stages v)) (Versions sec) of
          None \<Rightarrow> Inl (SecretNotFound (secName sec @ '' with staging label '' @ st))
        | Some (vid, v) \<Rightarrow> Inr (vid, v))"

text \<open>The function that \<^verbatim>\<open>UpdateSecretVersionStage\<close> applies to a secret (\<^verbatim>\<open>secretsmanager/actions.go\<close>).\<close>

definition setVersion :: "string \<Rightarrow> (version \<Rightarrow> version) \<Rightarrow> secret \<Rightarrow> secret" where
  "setVersion vid f sec = sec\<lparr>Versions := map (\<lambda>(k, v). (k, if k = vid then f v else v)) (Versions sec)\<rparr>"

definition addStage :: "string \<Rightarrow> version \<Rightarrow> version" where
  "addStage stage v = v\<lparr>Stages := Stages v @ [stage]\<rparr>"

definition lastHolder :: "string \<Rightarrow> secret \<Rightarrow> string" where
  "lastHolder stage sec =
     (case rev (filter (\<lambda>(_, v). stage \<in> set (Stages v)) (Versions sec)) of [] \<Rightarrow> [] | (vid, _) # _ \<Rightarrow> vid)"

definition exceptVersion :: "string \<Rightarrow> (version \<Rightarrow> version) \<Rightarrow> secret \<Rightarrow> secret" where
  "exceptVersion vid f sec = sec\<lparr>Versions := map (\<lambda>(k, v). (k, if k \<noteq> vid then f v else v)) (Versions sec)\<rparr>"

definition previousTo :: "string \<Rightarrow> secret \<Rightarrow> secret" where
  "previousTo vid sec =
     setVersion vid (\<lambda>v. if stagePrevious \<in> set (Stages v) then v else addStage stagePrevious v)
       (exceptVersion vid (strip stagePrevious) sec)"

definition moveStage :: "string \<Rightarrow> string \<Rightarrow> string \<Rightarrow> secret \<Rightarrow> secretsError + secret" where
  "moveStage stage moveTo removeFrom sec =
     (if removeFrom \<noteq> [] \<and> (case map_of (Versions sec) removeFrom of None \<Rightarrow> True | Some v \<Rightarrow> stage \<notin> set (Stages v)) then
        Inl (InvalidParam ''version does not carry the stage'')
      else if moveTo = [] then Inr (setVersion removeFrom (removeStage stage) sec)
      else if map_of (Versions sec) moveTo = None then Inl (SecretNotFound (secName sec @ '' version '' @ moveTo))
      else
        let prevHolder = lastHolder stage sec;
            sec1 = setVersion moveTo (addStage stage) (eachVersion (strip stage) sec)
        in Inr (if stage = stageCurrent \<and> prevHolder \<noteq> [] \<and> prevHolder \<noteq> moveTo then previousTo prevHolder sec1 else sec1))"

subsection \<open>Listing and deleting\<close>

definition decodedSecrets :: "(string \<times> sstored) list \<Rightarrow> (string \<times> secret) list" where
  "decodedSecrets its = concat (map (\<lambda>(k, r). case r of SecretRec sec \<Rightarrow> [(k, sec)] | SUndecodable \<Rightarrow> []) its)"

definition ListSecrets :: "'tx senv \<Rightarrow> 'tx \<Rightarrow> secret list" where
  "ListSecrets E tx =
     (if hasBucket (sbolt E) tx secretsBucket then
        sort_key secName (map snd (decodedSecrets (bucketItems (sbolt E) tx secretsBucket)))
      else [])"

definition forceDeleteIn :: "'tx senv \<Rightarrow> string \<Rightarrow> 'tx \<Rightarrow> (secretsError + secret) \<times> 'tx" where
  "forceDeleteIn E sid tx =
     (case getSecret E tx sid of
        Inl e \<Rightarrow> (Inl e, tx)
      | Inr sec \<Rightarrow> (Inr sec, bucketDelete (sbolt E) tx secretsBucket (secName sec)))"

definition scheduleDeletion :: "'tx senv \<Rightarrow> int \<Rightarrow> secret \<Rightarrow> secretsError + secret" where
  "scheduleDeletion E days sec =
     (if DeletedAt sec > 0 then Inl (SecretDeleted (secName sec))
      else Inr (sec\<lparr>DeletedAt := snow E, PurgeAt := snow E + days * 86400\<rparr>))"

definition DeleteSecret :: "'tx senv \<Rightarrow> string \<Rightarrow> int \<Rightarrow> bool \<Rightarrow> 'tx \<Rightarrow> (secretsError + secret) \<times> 'tx" where
  "DeleteSecret E sid recoveryDays force tx =
     (if force then
        (case Bolt.Update (forceDeleteIn E sid) tx of
           (Inl e, tx1) \<Rightarrow> (Inl e, tx1)
         | (Inr sec, tx1) \<Rightarrow> (Inr (sec\<lparr>DeletedAt := snow E\<rparr>), tx1))
      else
        let days = (if recoveryDays = 0 then 30 else recoveryDays) in
        if days < 7 \<or> days > 30 then (Inl (InvalidParam ''RecoveryWindowInDays must be between 7 and 30''), tx)
        else Mutate E sid (scheduleDeletion E days) tx)"

definition Restore :: "'tx senv \<Rightarrow> string \<Rightarrow> 'tx \<Rightarrow> (secretsError + secret) \<times> 'tx" where
  "Restore E sid tx = Mutate E sid (\<lambda>sec. Inr (sec\<lparr>DeletedAt := 0, PurgeAt := 0\<rparr>)) tx"

definition SweepDeleted :: "'tx senv \<Rightarrow> 'tx \<Rightarrow> 'tx" where
  "SweepDeleted E tx =
     (if \<not> hasBucket (sbolt E) tx secretsBucket then tx
      else
        fold (\<lambda>k t. bucketDelete (sbolt E) t secretsBucket k)
          (map fst (filter (\<lambda>(_, sec). PurgeAt sec > 0 \<and> PurgeAt sec \<le> snow E)
             (decodedSecrets (bucketItems (sbolt E) tx secretsBucket)))) tx)"

end
