(* ===== verification/SecretsHandlers.thy ===== *)
theory SecretsHandlers
  imports SecretsModel
begin

text \<open>
  The Secrets Manager API, \<^verbatim>\<open>secretsmanager/actions.go\<close> and \<^verbatim>\<open>secretsmanager/rotate.go\<close>: every handler of the
  dispatch table, on decoded parameters. Generated validation and the IAM guard run before and are not
  modelled. Where Go ranges over a map to build a response, the order of the list is one of its orders.
\<close>

type_synonym 'tx shandler = "'tx senv \<Rightarrow> params \<Rightarrow> 'tx \<Rightarrow> (secretsError + wire) \<times> 'tx"

definition ptaglist :: "params \<Rightarrow> string \<Rightarrow> (string \<times> string) list" where
  "ptaglist p key =
     (case map_of p key of
        Some (AnyArr items) \<Rightarrow>
          foldl (\<lambda>m item. case item of
                   AnyObj t \<Rightarrow> if Str t ''Key'' \<noteq> [] then AList.update (Str t ''Key'') (Str t ''Value'') m else m
                 | _ \<Rightarrow> m) [] items
      | _ \<Rightarrow> [])"

definition secretValues :: "params \<Rightarrow> secretsError + bytes option \<times> bytes option" where
  "secretValues p =
     (let str = (if Str p ''SecretString'' \<noteq> [] then Some (strBytes (Str p ''SecretString'')) else None) in
      case BlobNil p ''SecretBinary'' of
        None \<Rightarrow> Inl (SValidation ''SecretBinary is not valid base64'')
      | Some bin \<Rightarrow>
          if str \<noteq> None \<and> bin \<noteq> None then
            Inl (InvalidParam ''both a binary and a string secret value'')
          else Inr (str, bin))"

definition secretNameByte :: "char \<Rightarrow> bool" where
  "secretNameByte c =
     (CHR ''A'' \<le> c \<and> c \<le> CHR ''Z'' \<or> CHR ''a'' \<le> c \<and> c \<le> CHR ''z'' \<or> CHR ''0'' \<le> c \<and> c \<le> CHR ''9'' \<or>
      c \<in> set ''/_+=.@!-'')"

definition validSecretName :: "string \<Rightarrow> bool" where
  "validSecretName name = (name \<noteq> [] \<and> length name \<le> 512 \<and> list_all secretNameByte name)"

definition sRequireUsableKey :: "'tx senv \<Rightarrow> string \<Rightarrow> secretsError option" where
  "sRequireUsableKey E keyID =
     (if keyID = [] then None
      else case keyState E keyID of
             None \<Rightarrow> None
           | Some (known, state) \<Rightarrow>
               if \<not> known then Some (InvalidParam ''The KMS key does not exist.'')
               else if state \<noteq> ''Enabled'' then Some (InvalidRequest ''The KMS key cannot be used to protect a secret.'')
               else None)"

definition arnName :: "secret \<Rightarrow> (string \<times> wire) list" where
  "arnName sec = [(''ARN'', WStr (secARN sec)), (''Name'', WStr (secName sec))]"

definition createSecret :: "'tx shandler" where
  "createSecret E p tx =
     (case secretValues p of
        Inl e \<Rightarrow> (Inl e, tx)
      | Inr (str, bin) \<Rightarrow>
          if \<not> validSecretName (Str p ''Name'') then (Inl (InvalidRequest ''Invalid name.''), tx)
          else case sRequireUsableKey E (Str p ''KmsKeyId'') of
                 Some e \<Rightarrow> (Inl e, tx)
               | None \<Rightarrow>
                   answer (\<lambda>(sec, vid). WObj (arnName sec @ [(''VersionId'', WStr vid)]))
                     (CreateSecret E (Str p ''Name'') (Str p ''Description'') (Str p ''KmsKeyId'') (Str p ''ClientRequestToken'')
                        str bin (ptaglist p ''Tags'') tx))"

subsection \<open>Values\<close>

text \<open>The member of a response that carries an opened value, absent for nil; \<open>None\<close> when it does not open.\<close>

definition openField :: "'tx senv \<Rightarrow> string \<Rightarrow> (bytes \<Rightarrow> wire) \<Rightarrow> bytes option \<Rightarrow> (string \<times> wire) list option" where
  "openField E key f sealed =
     (if sealed = None then Some []
      else case unseal E sealed of
             None \<Rightarrow> None
           | Some v \<Rightarrow> Some [(key, f (case v of None \<Rightarrow> [] | Some b \<Rightarrow> b))])"

definition renderValue :: "'tx senv \<Rightarrow> secret \<Rightarrow> string \<Rightarrow> version \<Rightarrow> secretsError + wire" where
  "renderValue E sec vid v =
     (case openField E ''SecretString'' (\<lambda>b. WStr (bytesStr b)) (vString v) of
        None \<Rightarrow> Inl Corrupt
      | Some s \<Rightarrow>
          (case openField E ''SecretBinary'' (\<lambda>b. WStr (EncodeToString StdEncoding b)) (vBinary v) of
             None \<Rightarrow> Inl Corrupt
           | Some b \<Rightarrow>
               Inr (WObj (arnName sec @ [(''VersionId'', WStr vid), (''VersionStages'', WArr (map WStr (Stages v))),
                      (''CreatedDate'', WFloat (float64OfInt (slib E) (vCreated v)))] @ s @ b))))"

definition getSecretValue :: "'tx shandler" where
  "getSecretValue E p tx =
     (case getSecret E tx (Str p ''SecretId'') of
        Inl e \<Rightarrow> (Inl e, tx)
      | Inr sec \<Rightarrow>
          if DeletedAt sec > 0 then (Inl (SecretDeleted (secName sec)), tx)
          else case Resolve sec (Str p ''VersionId'') (Str p ''VersionStage'') of
                 Inl e \<Rightarrow> (Inl e, tx)
               | Inr (vid, v) \<Rightarrow> (renderValue E sec vid v, tx))"

definition batchError :: "string \<Rightarrow> string \<Rightarrow> wire" where
  "batchError sid message =
     WObj [(''SecretId'', WStr sid), (''ErrorCode'', WStr ''ResourceNotFoundException''), (''Message'', WStr message)]"

definition unavailable :: string where
  "unavailable = ''secret not found or scheduled for deletion''"

fun batchGet :: "'tx senv \<Rightarrow> 'tx \<Rightarrow> string list \<Rightarrow> wire list \<Rightarrow> wire list \<Rightarrow> secretsError + wire list \<times> wire list" where
  "batchGet E tx [] secrets errs = Inr (secrets, errs)"
| "batchGet E tx (sid # ids) secrets errs =
     (case getSecret E tx sid of
        Inl _ \<Rightarrow> batchGet E tx ids secrets (errs @ [batchError sid unavailable])
      | Inr sec \<Rightarrow>
          if DeletedAt sec > 0 then batchGet E tx ids secrets (errs @ [batchError sid unavailable])
          else case Resolve sec [] [] of
                 Inl _ \<Rightarrow> batchGet E tx ids secrets
                   (errs @ [batchError sid (''Secrets Manager can'' @ [CHR 0x27] @ ''t find the specified secret: '' @ secName sec @
                      '' with staging label AWSCURRENT'')])
               | Inr (vid, v) \<Rightarrow>
                   (case renderValue E sec vid v of
                      Inl e \<Rightarrow> Inl e
                    | Inr val \<Rightarrow> batchGet E tx ids (secrets @ [val]) errs))"

definition batchIds :: "params \<Rightarrow> string list" where
  "batchIds p =
     (case map_of p ''SecretIdList'' of
        Some (AnyArr items) \<Rightarrow> map (\<lambda>item. case item of AnyStr s \<Rightarrow> s | _ \<Rightarrow> []) items
      | _ \<Rightarrow> [])"

definition batchGetSecretValue :: "'tx shandler" where
  "batchGetSecretValue E p tx =
     (case batchGet E tx (batchIds p) [] [] of
        Inl e \<Rightarrow> (Inl e, tx)
      | Inr (secrets, errs) \<Rightarrow> (Inr (WObj [(''SecretValues'', WArr secrets), (''Errors'', WArr errs)]), tx))"

definition putSecretValue :: "'tx shandler" where
  "putSecretValue E p tx =
     (case secretValues p of
        Inl e \<Rightarrow> (Inl e, tx)
      | Inr (str, bin) \<Rightarrow>
          if str = None \<and> bin = None then (Inl (InvalidRequest ''SecretString or SecretBinary is required''), tx)
          else
            answer (\<lambda>(sec, vid). WObj (arnName sec @ [(''VersionId'', WStr vid),
                (''VersionStages'', WArr (map WStr (case map_of (Versions sec) vid of None \<Rightarrow> [] | Some v \<Rightarrow> Stages v)))]))
              (AddVersion E (Str p ''SecretId'') (Str p ''ClientRequestToken'') str bin (Strs p ''VersionStages'') tx))"

definition updateFields :: "params \<Rightarrow> secret \<Rightarrow> secretsError + secret" where
  "updateFields p sec =
     (if DeletedAt sec > 0 then Inl (SecretDeleted (secName sec))
      else
        let sec1 = (if Str p ''Description'' \<noteq> [] then sec\<lparr>Description := Str p ''Description''\<rparr> else sec)
        in Inr (if Str p ''KmsKeyId'' \<noteq> [] then sec1\<lparr>KMSKeyID := Str p ''KmsKeyId''\<rparr> else sec1))"

definition updateSecret :: "'tx shandler" where
  "updateSecret E p tx =
     (case secretValues p of
        Inl e \<Rightarrow> (Inl e, tx)
      | Inr (str, bin) \<Rightarrow>
          (case sRequireUsableKey E (Str p ''KmsKeyId'') of
             Some e \<Rightarrow> (Inl e, tx)
           | None \<Rightarrow>
               (case Mutate E (Str p ''SecretId'') (updateFields p) tx of
                  (Inl e, tx1) \<Rightarrow> (Inl e, tx1)
                | (Inr sec, tx1) \<Rightarrow>
                    if str = None \<and> bin = None then (Inr (WObj (arnName sec)), tx1)
                    else answer (\<lambda>(_, vid). WObj (arnName sec @ [(''VersionId'', WStr vid)]))
                           (AddVersion E (Str p ''SecretId'') (Str p ''ClientRequestToken'') str bin [] tx1))))"

subsection \<open>Deletion\<close>

definition deleteSecret :: "'tx shandler" where
  "deleteSecret E p tx =
     (let force = Bool p ''ForceDeleteWithoutRecovery''; days = IntAt (slib E) p ''RecoveryWindowInDays'' 0 in
      if force \<and> days > 0 then
        (Inl (InvalidParam ''specify either ForceDeleteWithoutRecovery or RecoveryWindowInDays, not both''), tx)
      else
        answer (\<lambda>sec. WObj (arnName sec @ [(''DeletionDate'',
            WFloat (float64OfInt (slib E) (if force then DeletedAt sec else PurgeAt sec)))]))
          (DeleteSecret E (Str p ''SecretId'') days force tx))"

definition restoreSecret :: "'tx shandler" where
  "restoreSecret E p tx = answer (\<lambda>sec. WObj (arnName sec)) (Restore E (Str p ''SecretId'') tx)"

subsection \<open>Descriptions\<close>

definition describe :: "'tx senv \<Rightarrow> secret \<Rightarrow> wire" where
  "describe E sec =
     (let stages = WObj (map (\<lambda>(vid, v). (vid, WArr (map WStr (Stages v)))) (filter (\<lambda>(_, v). Stages v \<noteq> []) (Versions sec)));
          date = (\<lambda>n. WFloat (float64OfInt (slib E) n))
      in WObj (arnName sec @
           [(''Description'', WStr (Description sec)), (''KmsKeyId'', WStr (KMSKeyID sec)), (''CreatedDate'', date (secCreated sec)),
            (''LastChangedDate'', date (LastChanged sec)), (''VersionIdsToStages'', stages), (''SecretVersionsToStages'', stages)] @
           (if secTags sec \<noteq> [] then
              [(''Tags'', WArr (map (\<lambda>k. WObj [(''Key'', WStr k), (''Value'', WStr (case map_of (secTags sec) k of Some v \<Rightarrow> v | None \<Rightarrow> []))])
                 (sort (map fst (secTags sec)))))] else []) @
           (if DeletedAt sec > 0 then [(''DeletedDate'', date (DeletedAt sec))] else []) @
           [(''RotationEnabled'', WBool (RotationEnabled sec))] @
           (if RotationLambdaARN sec \<noteq> [] then [(''RotationLambdaARN'', WStr (RotationLambdaARN sec))] else []) @
           (if LastRotatedDate sec > 0 then [(''LastRotatedDate'', date (LastRotatedDate sec))] else [])))"

definition withSecret :: "'tx senv \<Rightarrow> params \<Rightarrow> (secret \<Rightarrow> wire) \<Rightarrow> 'tx \<Rightarrow> (secretsError + wire) \<times> 'tx" where
  "withSecret E p f tx =
     (case getSecret E tx (Str p ''SecretId'') of Inl e \<Rightarrow> (Inl e, tx) | Inr sec \<Rightarrow> (Inr (f sec), tx))"

definition describeSecret :: "'tx shandler" where
  "describeSecret E p tx = withSecret E p (describe E) tx"

definition listSecrets :: "'tx shandler" where
  "listSecrets E p tx =
     (Inr (WObj [(''SecretList'',
        WArr (map (describe E) (filter (\<lambda>sec. \<not> (DeletedAt sec > 0 \<and> \<not> Bool p ''IncludePlannedDeletion'')) (ListSecrets E tx))))]), tx)"

definition listSecretVersionIds :: "'tx shandler" where
  "listSecretVersionIds E p tx =
     withSecret E p (\<lambda>sec.
       WObj (arnName sec @ [(''Versions'',
         WArr (map (\<lambda>(vid, v). WObj ([(''VersionId'', WStr vid)] @
                      (if Stages v \<noteq> [] then [(''VersionStages'', WArr (map WStr (Stages v)))] else []) @
                      [(''CreatedDate'', WFloat (float64OfInt (slib E) (vCreated v)))]))
                (sort_key (\<lambda>(_, v). vCreated v)
                   (filter (\<lambda>(_, v). \<not> (Stages v = [] \<and> \<not> Bool p ''IncludeDeprecated'')) (Versions sec)))))])) tx"

definition updateSecretVersionStage :: "'tx shandler" where
  "updateSecretVersionStage E p tx =
     (let stage = Str p ''VersionStage''; moveTo = Str p ''MoveToVersionId''; removeFrom = Str p ''RemoveFromVersionId'' in
      if stage = [] then (Inl (SValidation ''VersionStage is required''), tx)
      else if moveTo = [] \<and> removeFrom = [] then
        (Inl (InvalidParam ''either MoveToVersionId or RemoveFromVersionId must be provided''), tx)
      else if stage = stageCurrent \<and> moveTo = [] then
        (Inl (InvalidParam ''the AWSCURRENT staging label can only be moved''), tx)
      else answer (\<lambda>sec. WObj (arnName sec)) (Mutate E (Str p ''SecretId'') (moveStage stage moveTo removeFrom) tx))"

subsection \<open>Tags, passwords and policies\<close>

definition tagSecret :: "'tx shandler" where
  "tagSecret E p tx =
     answer (\<lambda>_. WNull) (Mutate E (Str p ''SecretId'')
       (\<lambda>sec. Inr (sec\<lparr>secTags := foldl (\<lambda>m (k, v). AList.update k v m) (secTags sec) (ptaglist p ''Tags'')\<rparr>)) tx)"

definition untagSecret :: "'tx shandler" where
  "untagSecret E p tx =
     answer (\<lambda>_. WNull) (Mutate E (Str p ''SecretId'')
       (\<lambda>sec. Inr (sec\<lparr>secTags := foldl (\<lambda>m k. AList.delete k m) (secTags sec) (Strs p ''TagKeys'')\<rparr>)) tx)"

definition lettersAndDigits :: string where
  "lettersAndDigits = ''abcdefghijklmnopqrstuvwxyzABCDEFGHIJKLMNOPQRSTUVWXYZ0123456789''"

definition punctuation :: string where
  "punctuation = CHR ''!'' # CHR 0x22 # ''#$%&'' @ [CHR 0x27] @ ''()*+,-./:;<=>?@['' @ [CHR 0x5C] @ '']^_'' @ [CHR 0x60] @ ''{|}~''"

definition passwordAlphabet :: "params \<Rightarrow> string" where
  "passwordAlphabet p =
     (let a = (if \<not> Bool p ''ExcludePunctuation'' \<and> \<not> Bool p ''ExcludeCharacters'' then lettersAndDigits @ punctuation
               else lettersAndDigits)
      in filter (\<lambda>c. c \<notin> set (Str p ''ExcludeCharacters'')) a)"

definition getRandomPassword :: "'tx shandler" where
  "getRandomPassword E p tx =
     (let n = IntAt (slib E) p ''PasswordLength'' 0; len = (if n = 0 then 32 else n); a = passwordAlphabet p in
      if len < 1 \<or> len > 4096 then (Inl (InvalidParam ''PasswordLength must be 1-4096''), tx)
      else if a = [] then (Inl DivideByZero, tx)
      else (Inr (WObj [(''RandomPassword'', WStr (map (\<lambda>b. a ! (unat b mod length a)) (passwordBytes E (nat len))))]), tx))"

definition putSecretPolicy :: "'tx shandler" where
  "putSecretPolicy E p tx =
     answer (\<lambda>sec. WObj (arnName sec)) (Mutate E (Str p ''SecretId'') (\<lambda>sec. Inr (sec\<lparr>secPolicy := Str p ''ResourcePolicy''\<rparr>)) tx)"

definition getSecretPolicy :: "'tx shandler" where
  "getSecretPolicy E p tx =
     withSecret E p (\<lambda>sec. WObj (arnName sec @ (if secPolicy sec \<noteq> [] then [(''ResourcePolicy'', WStr (secPolicy sec))] else []))) tx"

definition deleteSecretPolicy :: "'tx shandler" where
  "deleteSecretPolicy E p tx =
     answer (\<lambda>sec. WObj (arnName sec)) (Mutate E (Str p ''SecretId'') (\<lambda>sec. Inr (sec\<lparr>secPolicy := []\<rparr>)) tx)"

definition validateSecretPolicy :: "'tx shandler" where
  "validateSecretPolicy E p tx = (Inr (WObj [(''PolicyValidationPassed'', WBool True), (''ValidationErrors'', WArr [])]), tx)"

definition notSupported :: "'tx shandler" where
  "notSupported E p tx = (Inl (InvalidRequest ''not supported by doze-aws: there is exactly one region locally''), tx)"

subsection \<open>Rotation\<close>

definition lambdaFunctionName :: "string \<Rightarrow> string" where
  "lambdaFunctionName arn =
     (case afterFirst '':function:'' arn of None \<Rightarrow> arn | Some name \<Rightarrow> takeWhile (\<lambda>c. c \<noteq> CHR '':'') name)"

definition rotationLambda :: "params \<Rightarrow> secret \<Rightarrow> string" where
  "rotationLambda p sec =
     (if Str p ''RotationLambdaARN'' \<noteq> [] then Str p ''RotationLambdaARN''
      else
        let inRules = (case map_of p ''RotationRules'' of Some (AnyObj rr) \<Rightarrow> Str rr ''RotationLambdaARN'' | _ \<Rightarrow> [])
        in if inRules \<noteq> [] then inRules else RotationLambdaARN sec)"

definition rotationSteps :: "string list" where
  "rotationSteps = [''createSecret'', ''setSecret'', ''testSecret'', ''finishSecret'']"

fun runSteps :: "'tx senv \<Rightarrow> string \<Rightarrow> string \<Rightarrow> string \<Rightarrow> string list \<Rightarrow> 'tx \<Rightarrow> secretsError option \<times> 'tx" where
  "runSteps E fn arn token [] tx = (None, tx)"
| "runSteps E fn arn token (step # steps) tx =
     (case lambdaInvoke E fn step arn token tx of
        (False, tx1) \<Rightarrow> (Some (RotationFailed step), tx1)
      | (True, tx1) \<Rightarrow> runSteps E fn arn token steps tx1)"

definition rotateSecret :: "'tx shandler" where
  "rotateSecret E p tx =
     (case getSecret E tx (Str p ''SecretId'') of
        Inl e \<Rightarrow> (Inl e, tx)
      | Inr sec \<Rightarrow>
          let arn = rotationLambda p sec; token = newUUID (uuidBytes E) in
          if arn = [] then (Inl (InvalidParam ''a RotationLambdaARN is required to rotate the secret''), tx)
          else
            (case runSteps E (lambdaFunctionName arn) (secARN sec) token rotationSteps tx of
               (Some e, tx1) \<Rightarrow> (Inl e, tx1)
             | (None, tx1) \<Rightarrow>
                 answer (\<lambda>_. WObj (arnName sec @ [(''VersionId'', WStr token)]))
                   (Mutate E (secName sec)
                      (\<lambda>x. Inr (x\<lparr>RotationEnabled := True, RotationLambdaARN := arn, LastRotatedDate := snow E\<rparr>)) tx1)))"

definition cancelRotateSecret :: "'tx shandler" where
  "cancelRotateSecret E p tx =
     answer (\<lambda>sec. WObj (arnName sec)) (Mutate E (Str p ''SecretId'') (\<lambda>x. Inr (x\<lparr>RotationEnabled := False\<rparr>)) tx)"

definition secretHandlers :: "(string \<times> 'tx shandler) list" where
  "secretHandlers =
     [(''CreateSecret'', createSecret), (''GetSecretValue'', getSecretValue), (''BatchGetSecretValue'', batchGetSecretValue),
      (''PutSecretValue'', putSecretValue), (''UpdateSecret'', updateSecret), (''DeleteSecret'', deleteSecret),
      (''RestoreSecret'', restoreSecret), (''ListSecrets'', listSecrets), (''ListSecretVersionIds'', listSecretVersionIds),
      (''DescribeSecret'', describeSecret), (''UpdateSecretVersionStage'', updateSecretVersionStage),
      (''RotateSecret'', rotateSecret), (''CancelRotateSecret'', cancelRotateSecret), (''TagResource'', tagSecret),
      (''UntagResource'', untagSecret), (''GetRandomPassword'', getRandomPassword), (''PutResourcePolicy'', putSecretPolicy),
      (''GetResourcePolicy'', getSecretPolicy), (''DeleteResourcePolicy'', deleteSecretPolicy),
      (''ValidateResourcePolicy'', validateSecretPolicy), (''ReplicateSecretToRegions'', notSupported),
      (''RemoveRegionsFromReplication'', notSupported), (''StopReplicationToReplica'', notSupported)]"

end
