(* ===== verification/SecretsInvariant.thy ===== *)
theory SecretsInvariant
  imports SecretsHandlers
begin

text \<open>
  The invariant of the Secrets Manager store: every secret is stored under its own name, its version ids
  differ, and each staging label names at most one version. It holds in every store that requests reach,
  the requests that rotation functions make included.
\<close>

subsection \<open>Secrets\<close>

definition stagesUnique :: "secret \<Rightarrow> bool" where
  "stagesUnique sec =
     (\<forall>stage i j v w. (i, v) \<in> set (Versions sec) \<longrightarrow> (j, w) \<in> set (Versions sec) \<longrightarrow>
        stage \<in> set (Stages v) \<longrightarrow> stage \<in> set (Stages w) \<longrightarrow> i = j)"

definition secretOk :: "secret \<Rightarrow> bool" where
  "secretOk sec = (distinct (map fst (Versions sec)) \<and> stagesUnique sec)"

definition fewerStages :: "secret \<Rightarrow> secret \<Rightarrow> bool" where
  "fewerStages sec sec' =
     (map fst (Versions sec') = map fst (Versions sec) \<and>
      (\<forall>i w. (i, w) \<in> set (Versions sec') \<longrightarrow> (\<exists>v. (i, v) \<in> set (Versions sec) \<and> set (Stages w) \<subseteq> set (Stages v))))"

lemma fewerStages_refl [simp]: "fewerStages sec sec"
  by (auto simp: fewerStages_def)

lemma fewerStages_trans: "fewerStages a b \<Longrightarrow> fewerStages b c \<Longrightarrow> fewerStages a c"
  unfolding fewerStages_def by (metis subset_trans)

lemma fewerStages_ok: "fewerStages sec sec' \<Longrightarrow> secretOk sec \<Longrightarrow> secretOk sec'"
proof -
  assume f: "fewerStages sec sec'" and ok: "secretOk sec"
  have "i = j" if a: "(i, v) \<in> set (Versions sec')" "(j, w) \<in> set (Versions sec')" and st: "stage \<in> set (Stages v)" "stage \<in> set (Stages w)"
    for stage i j v w
  proof -
    obtain v0 w0 where "(i, v0) \<in> set (Versions sec)" "stage \<in> set (Stages v0)" "(j, w0) \<in> set (Versions sec)" "stage \<in> set (Stages w0)"
      using f a st unfolding fewerStages_def by blast
    then show ?thesis using ok unfolding secretOk_def stagesUnique_def by blast
  qed
  moreover have "distinct (map fst (Versions sec'))" using f ok by (simp add: fewerStages_def secretOk_def)
  ultimately show ?thesis unfolding secretOk_def stagesUnique_def by blast
qed

lemma secretOk_versions: "Versions sec' = Versions sec \<Longrightarrow> secretOk sec \<Longrightarrow> secretOk sec'"
  by (simp add: secretOk_def stagesUnique_def)

lemma stages_remove [simp]: "set (Stages (removeStage s v)) = set (Stages v) - {s}"
  by (auto simp: removeStage_def)

lemma stages_strip [simp]: "set (Stages (strip s v)) = set (Stages v) - {s}"
  by (simp add: strip_def)

lemma stages_add [simp]: "set (Stages (addStage s v)) = insert s (set (Stages v))"
  by (simp add: addStage_def)

lemma eachVersion_ids [simp]: "map fst (Versions (eachVersion f sec)) = map fst (Versions sec)"
  by (simp add: eachVersion_def comp_def case_prod_beta)

lemma setVersion_ids [simp]: "map fst (Versions (setVersion vid f sec)) = map fst (Versions sec)"
  by (simp add: setVersion_def comp_def case_prod_beta)

lemma eachVersion_mem: "(i, w) \<in> set (Versions (eachVersion f sec)) \<longleftrightarrow> (\<exists>v. (i, v) \<in> set (Versions sec) \<and> w = f v)"
  by (force simp: eachVersion_def)

lemma setVersion_mem:
  "(i, w) \<in> set (Versions (setVersion vid f sec)) \<longleftrightarrow> (\<exists>v. (i, v) \<in> set (Versions sec) \<and> w = (if i = vid then f v else v))"
  by (force simp: setVersion_def)

lemma eachVersion_fewer: "(\<And>v. set (Stages (f v)) \<subseteq> set (Stages v)) \<Longrightarrow> fewerStages sec (eachVersion f sec)"
  by (auto simp: fewerStages_def eachVersion_mem)

lemma setVersion_remove: "fewerStages sec (setVersion vid (removeStage stage) sec)"
  by (auto simp: fewerStages_def setVersion_mem)

lemma stage_names: "stageCurrent \<noteq> stagePrevious"
  by (simp add: stageCurrent_def stagePrevious_def)

text \<open>After demotion no version is current, and only the one that was is previous.\<close>

lemma stages_demote:
  "set (Stages (demote v)) =
     (if stageCurrent \<in> set (Stages v) then insert stagePrevious (set (Stages v) - {stageCurrent})
      else set (Stages v) - {stagePrevious})"
  by (auto simp: demote_def replaceStage_def)

lemma demote_ok: "secretOk sec \<Longrightarrow> secretOk (eachVersion demote sec)"
proof -
  assume ok: "secretOk sec"
  have "i = j" if "(i, v) \<in> set (Versions sec)" "(j, w) \<in> set (Versions sec)" "stage \<in> set (Stages (demote v))" "stage \<in> set (Stages (demote w))"
    for stage i j v w
  proof (cases "stage = stagePrevious")
    case True
    then have "stageCurrent \<in> set (Stages v)" "stageCurrent \<in> set (Stages w)" using that by (auto simp: stages_demote split: if_splits)
    then show ?thesis using ok that(1,2) unfolding secretOk_def stagesUnique_def by blast
  next
    case False
    then have "stage \<in> set (Stages v)" "stage \<in> set (Stages w)" using that by (auto simp: stages_demote split: if_splits)
    then show ?thesis using ok that(1,2) unfolding secretOk_def stagesUnique_def by blast
  qed
  then show ?thesis using ok unfolding secretOk_def stagesUnique_def eachVersion_ids eachVersion_mem by blast
qed

definition carries :: "string \<Rightarrow> secret \<Rightarrow> bool" where
  "carries stage sec = (\<exists>i v. (i, v) \<in> set (Versions sec) \<and> stage \<in> set (Stages v))"

lemma carries_fewer: "fewerStages sec sec' \<Longrightarrow> carries stage sec' \<Longrightarrow> carries stage sec"
  unfolding fewerStages_def carries_def by blast

lemma carries_strip [simp]: "carries s (eachVersion (strip t) sec) \<longleftrightarrow> s \<noteq> t \<and> carries s sec"
  unfolding carries_def eachVersion_mem by (metis Diff_iff empty_iff insert_iff stages_strip)

definition stripAll :: "string list \<Rightarrow> secret \<Rightarrow> secret" where
  "stripAll stages sec = fold (\<lambda>stage s. if stage = stageCurrent then s else eachVersion (strip stage) s) stages sec"

lemma stripAll_fewer: "fewerStages sec (stripAll stages sec)"
proof (induction stages arbitrary: sec)
  case (Cons s stages)
  have "fewerStages sec (if s = stageCurrent then sec else eachVersion (strip s) sec)" by (auto intro: eachVersion_fewer)
  then show ?case using Cons [of "if s = stageCurrent then sec else eachVersion (strip s) sec"]
    by (auto simp: stripAll_def intro: fewerStages_trans)
qed (simp add: stripAll_def)

lemma stripAll_carries: "carries s (stripAll stages sec) \<longleftrightarrow> carries s sec \<and> (s = stageCurrent \<or> s \<notin> set stages)"
  by (induction stages arbitrary: sec) (auto simp: stripAll_def)

lemma append_ok:
  assumes "secretOk sec" "map_of (Versions sec) token = None" "\<And>s. s \<in> set (Stages v) \<Longrightarrow> \<not> carries s sec"
  shows "secretOk (sec\<lparr>Versions := Versions sec @ [(token, v)]\<rparr>)"
  using assms unfolding secretOk_def stagesUnique_def carries_def map_of_eq_None_iff by fastforce

lemma addVersionTo_ok:
  assumes "addVersionTo E token str bin stages sec = Inr sec'" "secretOk sec"
  shows "secretOk sec'"
proof (cases "map_of (Versions sec) token = None \<and> \<not> DeletedAt sec > 0")
  case True
  define sec1 where "sec1 = (if stageCurrent \<in> set stages then eachVersion demote sec else sec)"
  have ok1: "secretOk sec1" using assms(2) demote_ok by (simp add: sec1_def)
  have ids: "map fst (Versions sec1) = map fst (Versions sec)" by (simp add: sec1_def)
  have cur: "\<not> carries stageCurrent sec1" if "stageCurrent \<in> set stages"
    using that by (auto simp: sec1_def carries_def eachVersion_mem stages_demote stage_names split: if_splits)
  have sec': "sec' = (stripAll stages sec1)\<lparr>Versions := Versions (stripAll stages sec1) @ [(token, newVersion E str bin stages)]\<rparr>"
    using assms(1) True by (simp add: addVersionTo_def stripAll_def sec1_def Let_def)
  have "fst ` set (Versions (stripAll stages sec1)) = fst ` set (Versions sec)"
    using stripAll_fewer [of sec1 stages] ids by (metis fewerStages_def list.set_map)
  then have fresh: "map_of (Versions (stripAll stages sec1)) token = None" using True by (simp add: map_of_eq_None_iff)
  show ?thesis unfolding sec'
    by (rule append_ok [OF fewerStages_ok [OF stripAll_fewer ok1] fresh]) (use cur in \<open>auto simp: stripAll_carries newVersion_def\<close>)
qed (use assms in \<open>auto simp: addVersionTo_def split: if_splits\<close>)

text \<open>Moving a label.\<close>

lemma exceptVersion_mem:
  "(i, w) \<in> set (Versions (exceptVersion vid f sec)) \<longleftrightarrow> (\<exists>v. (i, v) \<in> set (Versions sec) \<and> w = (if i = vid then v else f v))"
  by (force simp: exceptVersion_def)

lemma previousTo_ids [simp]: "map fst (Versions (previousTo vid sec)) = map fst (Versions sec)"
  by (simp add: previousTo_def exceptVersion_def comp_def case_prod_beta)

lemma previousTo_stages:
  "(i, w) \<in> set (Versions (previousTo vid sec)) \<Longrightarrow> \<exists>v. (i, v) \<in> set (Versions sec) \<and>
     set (Stages w) = (if i = vid then insert stagePrevious (set (Stages v)) else set (Stages v) - {stagePrevious})"
proof -
  let ?f = "\<lambda>v. if stagePrevious \<in> set (Stages v) then v else addStage stagePrevious v"
  assume "(i, w) \<in> set (Versions (previousTo vid sec))"
  then obtain u where u: "(i, u) \<in> set (Versions (exceptVersion vid (strip stagePrevious) sec))" "w = (if i = vid then ?f u else u)"
    unfolding previousTo_def setVersion_mem by blast
  then obtain v where v: "(i, v) \<in> set (Versions sec)" "u = (if i = vid then v else strip stagePrevious v)"
    unfolding exceptVersion_mem by blast
  then show ?thesis using u by (cases "i = vid") auto
qed

lemma stagesUniqueI:
  "(\<And>stage i j v w. (i, v) \<in> set (Versions sec) \<Longrightarrow> (j, w) \<in> set (Versions sec) \<Longrightarrow>
     stage \<in> set (Stages v) \<Longrightarrow> stage \<in> set (Stages w) \<Longrightarrow> i = j) \<Longrightarrow> stagesUnique sec"
  unfolding stagesUnique_def by blast

lemma stagesUniqueD:
  "secretOk sec \<Longrightarrow> (i, v) \<in> set (Versions sec) \<Longrightarrow> (j, w) \<in> set (Versions sec) \<Longrightarrow>
     stage \<in> set (Stages v) \<Longrightarrow> stage \<in> set (Stages w) \<Longrightarrow> i = j"
  unfolding secretOk_def stagesUnique_def by blast

lemma previousTo_ok: "secretOk sec \<Longrightarrow> secretOk (previousTo vid sec)"
proof -
  assume ok: "secretOk sec"
  have "stagesUnique (previousTo vid sec)"
  proof (rule stagesUniqueI)
    fix stage i j v w
    assume m: "(i, v) \<in> set (Versions (previousTo vid sec))" "(j, w) \<in> set (Versions (previousTo vid sec))"
      and s: "stage \<in> set (Stages v)" "stage \<in> set (Stages w)"
    obtain v0 w0 where o: "(i, v0) \<in> set (Versions sec)" "(j, w0) \<in> set (Versions sec)"
      "set (Stages v) = (if i = vid then insert stagePrevious (set (Stages v0)) else set (Stages v0) - {stagePrevious})"
      "set (Stages w) = (if j = vid then insert stagePrevious (set (Stages w0)) else set (Stages w0) - {stagePrevious})"
      using previousTo_stages [OF m(1)] previousTo_stages [OF m(2)] by blast
    show "i = j"
    proof (cases "stage = stagePrevious")
      case False
      then show ?thesis using o s stagesUniqueD [OF ok o(1,2)] by (auto split: if_splits)
    qed (use o s in \<open>auto split: if_splits\<close>)
  qed
  then show ?thesis using ok by (simp add: secretOk_def)
qed

lemma place_ok:
  assumes "secretOk sec" "\<not> carries stage sec"
  shows "secretOk (setVersion vid (addStage stage) sec)"
proof -
  have "stagesUnique (setVersion vid (addStage stage) sec)"
  proof (rule stagesUniqueI)
    fix s i j v w
    assume m: "(i, v) \<in> set (Versions (setVersion vid (addStage stage) sec))" "(j, w) \<in> set (Versions (setVersion vid (addStage stage) sec))"
      and s: "s \<in> set (Stages v)" "s \<in> set (Stages w)"
    obtain v0 w0 where o: "(i, v0) \<in> set (Versions sec)" "(j, w0) \<in> set (Versions sec)"
      "v = (if i = vid then addStage stage v0 else v0)" "w = (if j = vid then addStage stage w0 else w0)"
      using m unfolding setVersion_mem by blast
    have free: "stage \<notin> set (Stages v0)" "stage \<notin> set (Stages w0)" using assms(2) o unfolding carries_def by blast+
    show "i = j"
    proof (cases "s = stage")
      case False
      then show ?thesis using o s stagesUniqueD [OF assms(1) o(1,2)] by (auto split: if_splits)
    qed (use o s free in \<open>auto split: if_splits\<close>)
  qed
  then show ?thesis using assms(1) by (simp add: secretOk_def)
qed

lemma moveStage_ok:
  assumes "moveStage stage moveTo removeFrom sec = Inr sec'" "secretOk sec"
  shows "secretOk sec'"
proof (cases "moveTo = []")
  case True
  then have "sec' = setVersion removeFrom (removeStage stage) sec" using assms(1) by (simp add: moveStage_def split: if_splits)
  then show ?thesis using fewerStages_ok [OF setVersion_remove assms(2)] by simp
next
  case False
  let ?sec1 = "setVersion moveTo (addStage stage) (eachVersion (strip stage) sec)"
  have "fewerStages sec (eachVersion (strip stage) sec)" by (rule eachVersion_fewer) auto
  then have "secretOk ?sec1" by (intro place_ok fewerStages_ok [OF _ assms(2)]) simp_all
  moreover have "sec' = ?sec1 \<or> sec' = previousTo (lastHolder stage sec) ?sec1"
    using assms(1) False by (auto simp: moveStage_def Let_def split: if_splits)
  ultimately show ?thesis using previousTo_ok by blast
qed


subsection \<open>Stores\<close>

definition secretAt :: "sstored contents \<Rightarrow> string \<Rightarrow> sstored option" where
  "secretAt c name = (case c secretsBucket of None \<Rightarrow> None | Some (n, m) \<Rightarrow> m name)"

definition sInv :: "sstored contents \<Rightarrow> bool" where
  "sInv c = (\<forall>name r. secretAt c name = Some r \<longrightarrow> (\<exists>sec. r = SecretRec sec \<and> secName sec = name \<and> secretOk sec))"

lemma secretsBucket_nonempty [simp]: "secretsBucket \<noteq> []"
  by (simp add: secretsBucket_def)

locale secrets_store = bolt_store "sbolt E" view for E :: "'tx senv" and view :: "'tx \<Rightarrow> sstored contents"
begin

abbreviation inv :: "'tx \<Rightarrow> bool" where
  "inv tx \<equiv> sInv (view tx)"

lemma bucketGet_at: "hasBucket (sbolt E) tx secretsBucket \<Longrightarrow> bucketGet (sbolt E) tx secretsBucket name = secretAt (view tx) name"
  by (cases "view tx secretsBucket") (auto simp: secretAt_def hasBucket bucketGet split: prod.splits)

lemma lookupFirst_at:
  "hasBucket (sbolt E) tx secretsBucket \<Longrightarrow> lookupFirst E tx sid ns = Inr sec \<Longrightarrow> \<exists>name\<in>set ns. secretAt (view tx) name = Some (SecretRec sec)"
  by (induction ns) (auto simp: bucketGet_at split: option.splits sstored.splits)

lemma getSecret_at: "getSecret E tx sid = Inr sec \<Longrightarrow> \<exists>name. secretAt (view tx) name = Some (SecretRec sec)"
  using lookupFirst_at [of tx sid "candidateNames sid" sec] by (auto simp: getSecret_def split: if_splits)

lemma getSecret_ok:
  "inv tx \<Longrightarrow> getSecret E tx sid = Inr sec \<Longrightarrow> secretAt (view tx) (secName sec) = Some (SecretRec sec) \<and> secretOk sec"
  using getSecret_at [of tx sid sec] unfolding sInv_def by auto

lemma putSecret_effect:
  assumes "putSecret E tx sec = (Inr u, tx')"
  shows "secretAt (view tx') = (secretAt (view tx))(secName sec \<mapsto> SecretRec sec) \<and> (\<forall>b. b \<noteq> secretsBucket \<longrightarrow> view tx' b = view tx b)"
proof -
  obtain tx1 where t: "createBucket (sbolt E) tx secretsBucket = Some tx1"
    "bucketPut (sbolt E) tx1 secretsBucket (secName sec) (SecretRec sec) = Some tx'"
    using assms by (auto simp: putSecret_def split: option.splits)
  obtain n m where m: "view tx1 secretsBucket = Some (n, m)"
    using createBucket [OF t(1)] by (cases "view tx secretsBucket") auto
  have "secretAt (view tx) = m"
    using createBucket [OF t(1)] m by (auto simp: secretAt_def fun_eq_iff split: option.splits if_splits)
  then show ?thesis using bucketPut [OF m t(2)] createBucket [OF t(1)] by (auto simp: secretAt_def fun_eq_iff)
qed

lemma put_inv: "inv tx \<Longrightarrow> secretOk sec \<Longrightarrow> putSecret E tx sec = (Inr u, tx') \<Longrightarrow> inv tx'"
  using putSecret_effect [of tx sec u tx'] unfolding sInv_def by auto

text \<open>A successful update is one put; a failed one changes nothing.\<close>

lemma Mutate_cases:
  obtains e where "Mutate E sid fn tx = (Inl e, tx)"
  | sec sec1 tx' u where "getSecret E tx sid = Inr sec" "fn sec = Inr sec1"
      "putSecret E tx (sec1\<lparr>LastChanged := snow E\<rparr>) = (Inr u, tx')" "Mutate E sid fn tx = (Inr (sec1\<lparr>LastChanged := snow E\<rparr>), tx')"
proof (cases "mutateIn E sid fn tx")
  case (Pair r tx')
  show thesis
  proof (cases r)
    case (Inl e)
    then show ?thesis using that(1) Pair by (simp add: Mutate_def Bolt.Update_def)
  next
    case (Inr out)
    then obtain sec sec1 u where "getSecret E tx sid = Inr sec" "fn sec = Inr sec1" "out = sec1\<lparr>LastChanged := snow E\<rparr>"
      "putSecret E tx out = (Inr u, tx')"
      using Pair by (auto simp: mutateIn_def Let_def split: sum.splits prod.splits)
    then show ?thesis using that(2) Pair Inr by (simp add: Mutate_def Bolt.Update_def)
  qed
qed

lemma inv_Mutate:
  assumes "inv tx" "\<And>sec sec'. fn sec = Inr sec' \<Longrightarrow> secretOk sec \<Longrightarrow> secretOk sec'"
  shows "inv (snd (Mutate E sid fn tx))"
proof (rule Mutate_cases [of sid fn tx])
  fix sec sec1 tx' u
  assume h: "getSecret E tx sid = Inr sec" "fn sec = Inr sec1" "putSecret E tx (sec1\<lparr>LastChanged := snow E\<rparr>) = (Inr u, tx')"
    "Mutate E sid fn tx = (Inr (sec1\<lparr>LastChanged := snow E\<rparr>), tx')"
  have "secretOk sec1" using assms(2) [OF h(2)] getSecret_ok [OF assms(1) h(1)] by blast
  then have "secretOk (sec1\<lparr>LastChanged := snow E\<rparr>)" by (rule secretOk_versions [rotated]) simp
  then show ?thesis using put_inv [OF assms(1) _ h(3)] h(4) by simp
qed (simp add: assms(1))

lemma inv_edit: "inv tx \<Longrightarrow> (\<And>sec sec'. fn sec = Inr sec' \<Longrightarrow> Versions sec' = Versions sec) \<Longrightarrow> inv (snd (Mutate E sid fn tx))"
  by (rule inv_Mutate) (auto intro: secretOk_versions)

lemma inv_AddVersion: "inv tx \<Longrightarrow> inv (snd (AddVersion E sid token str bin stages tx))"
proof -
  assume i: "inv tx"
  have "inv (snd (Mutate E sid (addVersionTo E (tokenOr E token) str bin st) tx))" for st
    by (rule inv_Mutate [OF i addVersionTo_ok])
  then show ?thesis by (simp add: AddVersion_def)
qed

lemma inv_CreateSecret: "inv tx \<Longrightarrow> inv (snd (CreateSecret E name d k token str bin tags tx))"
proof -
  assume i: "inv tx"
  let ?sec = "newSecret E name d k tags"
  obtain r tx1 where r: "createSecretIn E ?sec (tokenOr E token) str bin tx = (r, tx1)" by fastforce
  have "inv tx1" if rr: "r = Inr sec" for sec
  proof (cases "getSecret E tx name")
    case (Inl e)
    define sec1 where "sec1 = (if str \<noteq> None \<or> bin \<noteq> None then
      ?sec\<lparr>Versions := [(tokenOr E token, newVersion E str bin [stageCurrent])]\<rparr> else ?sec)"
    have "secretOk sec1" by (simp add: sec1_def secretOk_def stagesUnique_def newSecret_def)
    moreover have "secName ?sec = name" by (simp add: newSecret_def)
    then have "createSecretIn E ?sec (tokenOr E token) str bin tx =
        (case putSecret E tx sec1 of (Inl e, tx1) \<Rightarrow> (Inl e, tx1) | (Inr _, tx1) \<Rightarrow> (Inr sec1, tx1))"
      using Inl unfolding createSecretIn_def Let_def sec1_def by simp
    then obtain u where "putSecret E tx sec1 = (Inr u, tx1)" using r rr by (auto split: sum.splits prod.splits)
    ultimately show ?thesis using put_inv [OF i] by blast
  next
    case (Inr existing)
    then show ?thesis using r rr i by (auto simp: createSecretIn_def newSecret_def split: if_splits)
  qed
  then show ?thesis using i r by (auto simp: CreateSecret_def Bolt.Update_def split: sum.splits)
qed

lemma delete_at:
  assumes "hasBucket (sbolt E) tx secretsBucket"
  shows "secretAt (view (fold (\<lambda>k t. bucketDelete (sbolt E) t secretsBucket k) ks tx)) = secretAt (view tx) |` (- set ks)"
proof -
  obtain n m where m: "view tx secretsBucket = Some (n, m)" using assms by (auto simp: hasBucket)
  then have "secretAt (view tx) = m" by (simp add: secretAt_def fun_eq_iff)
  then show ?thesis by (intro ext) (simp add: secretAt_def delete_keys [OF m])
qed

lemma inv_restrict: "inv tx \<Longrightarrow> secretAt (view tx') = secretAt (view tx) |` A \<Longrightarrow> inv tx'"
  unfolding sInv_def by (metis restrict_in restrict_out option.distinct(1))

lemma getSecret_bucket: "getSecret E tx sid = Inr sec \<Longrightarrow> hasBucket (sbolt E) tx secretsBucket"
  by (auto simp: getSecret_def split: if_splits)

lemma inv_DeleteSecret: "inv tx \<Longrightarrow> inv (snd (DeleteSecret E sid days force tx))"
proof -
  assume i: "inv tx"
  have "inv (snd (Bolt.Update (forceDeleteIn E sid) tx))"
  proof (cases "getSecret E tx sid")
    case (Inr sec)
    have "secretAt (view (bucketDelete (sbolt E) tx secretsBucket (secName sec))) = secretAt (view tx) |` (- {secName sec})"
      using delete_at [OF getSecret_bucket [OF Inr], of "[secName sec]"] by simp
    then show ?thesis using Inr inv_restrict [OF i] by (simp add: Bolt.Update_def forceDeleteIn_def)
  qed (simp add: Bolt.Update_def forceDeleteIn_def i)
  moreover have "inv (snd (Mutate E sid (scheduleDeletion E d) tx))" for d
    by (rule inv_edit [OF i]) (auto simp: scheduleDeletion_def split: if_splits)
  ultimately show ?thesis using i by (auto simp: DeleteSecret_def Let_def split: prod.splits sum.splits)
qed

lemma inv_SweepDeleted: "inv tx \<Longrightarrow> inv (SweepDeleted E tx)"
  using inv_restrict [OF _ delete_at] by (auto simp: SweepDeleted_def)

end


context secrets_store
begin

lemma withSecret_store [simp]: "snd (withSecret E p f tx) = tx"
  by (simp add: withSecret_def split: sum.split)

lemma getSecretValue_store [simp]: "snd (getSecretValue E p tx) = tx" "snd (batchGetSecretValue E p tx) = tx"
  by (simp_all add: getSecretValue_def batchGetSecretValue_def split: sum.split prod.split)

lemma inv_createSecret: "inv tx \<Longrightarrow> inv (snd (createSecret E p tx))"
  using inv_CreateSecret by (auto simp: createSecret_def split: sum.split option.split)

lemma inv_putSecretValue: "inv tx \<Longrightarrow> inv (snd (putSecretValue E p tx))"
  using inv_AddVersion by (auto simp: putSecretValue_def split: sum.split)

lemma inv_updateSecret: "inv tx \<Longrightarrow> inv (snd (updateSecret E p tx))"
proof -
  assume i: "inv tx"
  obtain r tx1 where m: "Mutate E (Str p ''SecretId'') (updateFields p) tx = (r, tx1)" by fastforce
  have "inv (snd (Mutate E (Str p ''SecretId'') (updateFields p) tx))"
    by (rule inv_edit [OF i]) (auto simp: updateFields_def Let_def split: if_splits)
  then have "inv tx1" using m by simp
  then show ?thesis using i m inv_AddVersion by (auto simp: updateSecret_def split: sum.split option.split)
qed

lemma inv_edits:
  assumes "inv tx"
  shows "inv (snd (restoreSecret E p tx))" "inv (snd (tagSecret E p tx))" "inv (snd (untagSecret E p tx))"
    "inv (snd (putSecretPolicy E p tx))" "inv (snd (deleteSecretPolicy E p tx))" "inv (snd (cancelRotateSecret E p tx))"
  using assms
  by (auto simp: restoreSecret_def Restore_def tagSecret_def untagSecret_def putSecretPolicy_def deleteSecretPolicy_def
      cancelRotateSecret_def intro!: inv_edit)

lemma inv_stage: "inv tx \<Longrightarrow> inv (snd (updateSecretVersionStage E p tx))"
  using inv_Mutate [of tx "moveStage (Str p ''VersionStage'') (Str p ''MoveToVersionId'') (Str p ''RemoveFromVersionId'')"] moveStage_ok
  by (auto simp: updateSecretVersionStage_def Let_def)

lemma inv_deleteSecret: "inv tx \<Longrightarrow> inv (snd (deleteSecret E p tx))"
  using inv_DeleteSecret by (auto simp: deleteSecret_def Let_def)

lemma runSteps_inv:
  assumes "\<And>fn step arn token t. inv t \<Longrightarrow> inv (snd (lambdaInvoke E fn step arn token t))" "inv tx"
  shows "inv (snd (runSteps E fn arn token steps tx))"
  using assms(2)
proof (induction steps arbitrary: tx)
  case (Cons step steps)
  obtain b tx1 where l: "lambdaInvoke E fn step arn token tx = (b, tx1)" by fastforce
  then have "inv tx1" using assms(1) [OF Cons.prems, of fn step arn token] by simp
  then show ?case using l Cons.IH by (cases b) auto
qed simp

lemma inv_rotateSecret:
  assumes "\<And>fn step arn token t. inv t \<Longrightarrow> inv (snd (lambdaInvoke E fn step arn token t))" "inv tx"
  shows "inv (snd (rotateSecret E p tx))"
proof (cases "getSecret E tx (Str p ''SecretId'')")
  case (Inr sec)
  let ?arn = "rotationLambda p sec"
  obtain r tx1 where r: "runSteps E (lambdaFunctionName ?arn) (secARN sec) (newUUID (uuidBytes E)) rotationSteps tx = (r, tx1)" by fastforce
  then have i1: "inv tx1" using runSteps_inv [OF assms, of "lambdaFunctionName ?arn" "secARN sec" "newUUID (uuidBytes E)" rotationSteps] by simp
  then have "inv (snd (Mutate E (secName sec) (\<lambda>x. Inr (x\<lparr>RotationEnabled := True, RotationLambdaARN := ?arn, LastRotatedDate := snow E\<rparr>)) tx1))"
    by (rule inv_edit) auto
  then show ?thesis using Inr r i1 assms(2) by (cases r) (auto simp: rotateSecret_def Let_def)
qed (simp add: rotateSecret_def assms(2))

lemma handlers_inv:
  assumes "(a, h) \<in> set secretHandlers" "inv tx"
    and "\<And>fn step arn token t. inv t \<Longrightarrow> inv (snd (lambdaInvoke E fn step arn token t))"
  shows "inv (snd (h E p tx))"
  using assms(1,2) inv_rotateSecret [OF assms(3)]
  by (auto simp: secretHandlers_def inv_createSecret inv_putSecretValue inv_updateSecret inv_edits inv_stage inv_deleteSecret
      describeSecret_def listSecrets_def listSecretVersionIds_def getRandomPassword_def getSecretPolicy_def
      validateSecretPolicy_def notSupported_def Let_def)

end

subsection \<open>Reachable stores\<close>

text \<open>
  A step is a request or a turn of the janitor, with any clock, random bytes and answers of KMS; a rotation
  function changes the store through requests of its own only, any number of them. So steps and sequences
  of steps are defined together.
\<close>

inductive sStep :: "('tx, sstored) bolt \<Rightarrow> 'tx \<Rightarrow> 'tx \<Rightarrow> bool" and sSteps :: "('tx, sstored) bolt \<Rightarrow> 'tx \<Rightarrow> 'tx \<Rightarrow> bool"
  for K :: "('tx, sstored) bolt" where
  srequest: "sbolt E = K \<Longrightarrow> (a, h) \<in> set secretHandlers \<Longrightarrow>
    (\<And>fn step arn token t. sSteps K t (snd (lambdaInvoke E fn step arn token t))) \<Longrightarrow> sStep K tx (snd (h E p tx))"
| sjanitor: "sbolt E = K \<Longrightarrow> sStep K tx (SweepDeleted E tx)"
| snone: "sSteps K tx tx"
| smore: "sSteps K tx tx1 \<Longrightarrow> sStep K tx1 tx2 \<Longrightarrow> sSteps K tx tx2"

lemma sStep_inv:
  assumes "bolt_store K view"
  shows "sStep K tx tx' \<Longrightarrow> sInv (view tx) \<Longrightarrow> sInv (view tx')"
    and "sSteps K tx tx' \<Longrightarrow> sInv (view tx) \<Longrightarrow> sInv (view tx')"
proof (induction rule: sStep_sSteps.inducts)
  case (srequest E a h tx p)
  have "secrets_store E view" using assms srequest by (simp add: secrets_store_def)
  note h = secrets_store.handlers_inv [OF this]
  show ?case by (rule h) (use srequest in blast)+
next
  case (sjanitor E tx)
  have "secrets_store E view" using assms sjanitor by (simp add: secrets_store_def)
  from secrets_store.inv_SweepDeleted [OF this] sjanitor show ?case by blast
qed simp_all


end
