(* ===== verification/SecretsServer.thy ===== *)
theory SecretsServer
  imports SecretsInvariant
begin

text \<open>
  What Secrets Manager promises its users: labels that name one version, values that come back as they were
  put, the previous value under its own label, a recovery window that is kept, and passwords without the
  excluded characters.
\<close>

subsection \<open>Reading after writing\<close>

context secrets_store
begin

lemma lookupFirst_put:
  assumes "inv tx" "hasBucket (sbolt E) tx secretsBucket" "hasBucket (sbolt E) tx' secretsBucket"
    and "secretAt (view tx') = (secretAt (view tx))(secName old \<mapsto> SecretRec sec)"
  shows "lookupFirst E tx sid ns = Inr old \<Longrightarrow> lookupFirst E tx' sid ns = Inr sec"
proof (induction ns)
  case (Cons n ns)
  show ?case
  proof (cases "secretAt (view tx) n")
    case None
    then have rest: "lookupFirst E tx sid ns = Inr old" using Cons.prems assms(2) by (simp add: bucketGet_at)
    then obtain k where "secretAt (view tx) k = Some (SecretRec old)" using lookupFirst_at [OF assms(2)] by blast
    then have "secretAt (view tx) (secName old) \<noteq> None" using assms(1) unfolding sInv_def by fastforce
    then have "n \<noteq> secName old" using None by auto
    then show ?thesis using Cons.IH [OF rest] None assms(3,4) by (simp add: bucketGet_at)
  next
    case (Some r)
    then have "r = SecretRec old" using Cons.prems assms(2) by (auto simp: bucketGet_at split: sstored.splits)
    then have "n = secName old" using Some assms(1) unfolding sInv_def by fastforce
    then show ?thesis using assms(3,4) by (simp add: bucketGet_at)
  qed
qed simp

lemma get_after_put:
  assumes "inv tx" "getSecret E tx sid = Inr old" "secName sec = secName old" "putSecret E tx sec = (Inr u, tx')"
  shows "getSecret E tx' sid = Inr sec"
proof -
  note e = putSecret_effect [OF assms(4)]
  have b: "hasBucket (sbolt E) tx secretsBucket" using getSecret_bucket [OF assms(2)] .
  have "secretAt (view tx') (secName sec) \<noteq> None" using e by simp
  then have b': "hasBucket (sbolt E) tx' secretsBucket" by (auto simp: hasBucket secretAt_def split: option.splits)
  have "secretAt (view tx') = (secretAt (view tx))(secName old \<mapsto> SecretRec sec)" using e assms(3) by simp
  from lookupFirst_put [OF assms(1) b b' this] show ?thesis using assms(2) b b' by (simp add: getSecret_def)
qed

lemma Mutate_get:
  assumes "inv tx" "Mutate E sid fn tx = (Inr out, tx')" "\<And>s s'. fn s = Inr s' \<Longrightarrow> secName s' = secName s"
  obtains old sec where "getSecret E tx sid = Inr old" "fn old = Inr sec" "out = sec\<lparr>LastChanged := snow E\<rparr>"
    "getSecret E tx' sid = Inr out" "secretAt (view tx') = (secretAt (view tx))(secName old \<mapsto> SecretRec out)"
proof (rule Mutate_cases [of sid fn tx])
  fix e
  assume "Mutate E sid fn tx = (Inl e, tx)"
  then show thesis using assms(2) by simp
next
  fix old sec tx2 u
  assume h: "getSecret E tx sid = Inr old" "fn old = Inr sec" "putSecret E tx (sec\<lparr>LastChanged := snow E\<rparr>) = (Inr u, tx2)"
    "Mutate E sid fn tx = (Inr (sec\<lparr>LastChanged := snow E\<rparr>), tx2)"
  have n: "secName (sec\<lparr>LastChanged := snow E\<rparr>) = secName old" using assms(3) [OF h(2)] by simp
  have o: "out = sec\<lparr>LastChanged := snow E\<rparr>" "tx2 = tx'" using h(4) assms(2) by auto
  show thesis
    by (rule that [OF h(1,2)]) (use o get_after_put [OF assms(1) h(1) n h(3)] putSecret_effect [OF h(3)] n in auto)
qed

end

lemma getSecret_env: "sbolt E = sbolt E' \<Longrightarrow> getSecret E = getSecret E'"
proof -
  assume s: "sbolt E = sbolt E'"
  have "lookupFirst E tx sid ns = lookupFirst E' tx sid ns" for tx sid ns
    by (induction ns) (simp_all add: s split: option.split sstored.split)
  then show ?thesis by (simp add: getSecret_def fun_eq_iff s)
qed

context secrets_store
begin

lemma lookupFirst_restrict:
  assumes "inv tx" "hasBucket (sbolt E) tx secretsBucket" "hasBucket (sbolt E) tx' secretsBucket"
    and "secretAt (view tx') = secretAt (view tx) |` A" "secName sec \<in> A"
  shows "lookupFirst E tx sid ns = Inr sec \<Longrightarrow> lookupFirst E tx' sid ns = Inr sec"
proof (induction ns)
  case (Cons n ns)
  show ?case
  proof (cases "secretAt (view tx) n")
    case None
    then have "secretAt (view tx') n = None" using assms(4) by (simp add: restrict_map_def)
    then show ?thesis using Cons None assms(2,3) by (simp add: bucketGet_at)
  next
    case (Some r)
    then have r: "r = SecretRec sec" using Cons.prems assms(2) by (auto simp: bucketGet_at split: sstored.splits)
    then have "n = secName sec" using Some assms(1) unfolding sInv_def by fastforce
    then show ?thesis using assms(3,4,5) Some r by (simp add: bucketGet_at)
  qed
qed simp

lemma getSecret_swept:
  assumes "inv tx" "getSecret E tx sid = Inr sec" "snow E < PurgeAt sec"
  shows "getSecret E (SweepDeleted E tx) sid = Inr sec"
proof -
  have b: "hasBucket (sbolt E) tx secretsBucket" using getSecret_bucket [OF assms(2)] .
  then obtain n m where m: "view tx secretsBucket = Some (n, m)" by (auto simp: hasBucket)
  define doomed where "doomed = map fst (filter (\<lambda>(_, sec). PurgeAt sec > 0 \<and> PurgeAt sec \<le> snow E)
    (decodedSecrets (bucketItems (sbolt E) tx secretsBucket)))"
  have sw: "SweepDeleted E tx = fold (\<lambda>k t. bucketDelete (sbolt E) t secretsBucket k) doomed tx"
    using b by (simp add: SweepDeleted_def doomed_def)
  have at: "secretAt (view (SweepDeleted E tx)) = secretAt (view tx) |` (- set doomed)" unfolding sw by (rule delete_at [OF b])
  have b': "hasBucket (sbolt E) (SweepDeleted E tx) secretsBucket" unfolding sw hasBucket by (simp add: delete_keys [OF m])
  have stored: "m (secName sec) = Some (SecretRec sec)" using getSecret_ok [OF assms(1,2)] m by (simp add: secretAt_def)
  have "secName sec \<notin> set doomed"
  proof
    assume "secName sec \<in> set doomed"
    then obtain sec2 where "(secName sec, SecretRec sec2) \<in> set (bucketItems (sbolt E) tx secretsBucket)" "PurgeAt sec2 \<le> snow E"
      by (auto simp: doomed_def decodedSecrets_def split: sstored.splits)
    then show False using items_iff [OF m] stored assms(3) by simp
  qed
  then show ?thesis using lookupFirst_restrict [OF assms(1) b b' at, of sec sid "candidateNames sid"] assms(2) b b'
    by (simp add: getSecret_def)
qed

end

subsection \<open>Labels of a new version\<close>

lemma stripAll_scalar [simp]: "secName (stripAll stages sec) = secName sec" "DeletedAt (stripAll stages sec) = DeletedAt sec"
  by (induction stages arbitrary: sec) (auto simp: stripAll_def eachVersion_def)

lemma eachVersion_scalar [simp]: "secName (eachVersion f sec) = secName sec" "DeletedAt (eachVersion f sec) = DeletedAt sec"
  by (simp_all add: eachVersion_def)

lemma addVersionTo_name: "addVersionTo E token str bin stages sec = Inr sec' \<Longrightarrow> secName sec' = secName sec \<and> DeletedAt sec' = DeletedAt sec"
  by (auto simp: addVersionTo_def Let_def stripAll_def [symmetric] split: if_splits)

lemma addVersionTo_current:
  assumes "map_of (Versions sec) token = None" "\<not> DeletedAt sec > 0"
  shows "addVersionTo E token str bin [stageCurrent] sec =
    Inr (sec\<lparr>Versions := Versions (eachVersion demote sec) @ [(token, newVersion E str bin [stageCurrent])]\<rparr>)"
  using assms by (simp add: addVersionTo_def eachVersion_def)

lemma find_unique:
  "find P (xs @ [x]) = Some y \<longleftrightarrow> find P xs = Some y \<or> find P xs = None \<and> P x \<and> y = x"
  by (induction xs) auto

lemma find_none: "find P xs = None \<longleftrightarrow> (\<forall>x\<in>set xs. \<not> P x)"
  by (induction xs) auto

lemma find_demoted:
  assumes "find (\<lambda>(_, v). stageCurrent \<in> set (Stages v)) vs = Some (i, v)"
  shows "find (\<lambda>(_, v). stagePrevious \<in> set (Stages v)) (map (\<lambda>(k, v). (k, demote v)) vs) = Some (i, demote v)"
  using assms stage_names by (induction vs) (auto simp: stages_demote split: if_splits prod.splits)

lemma newVersion_current: "Resolve (sec\<lparr>Versions := Versions (eachVersion demote sec) @ [(token, newVersion E str bin [stageCurrent])]\<rparr>) [] [] =
  Inr (token, newVersion E str bin [stageCurrent])"
proof -
  have "find (\<lambda>(_, v). stageCurrent \<in> set (Stages v)) (Versions (eachVersion demote sec)) = None"
    unfolding find_none by (auto simp: eachVersion_mem stages_demote stage_names split: if_splits)
  then have "find (\<lambda>(_, v). stageCurrent \<in> set (Stages v)) (Versions (eachVersion demote sec) @ [(token, newVersion E str bin [stageCurrent])]) =
      Some (token, newVersion E str bin [stageCurrent])"
    unfolding find_unique by (simp add: newVersion_def)
  then show ?thesis by (simp add: Resolve_def)
qed

lemma newVersion_previous:
  assumes "Resolve sec [] [] = Inr (i, v)"
  shows "Resolve (sec\<lparr>Versions := Versions (eachVersion demote sec) @ [x]\<rparr>) [] stagePrevious = Inr (i, demote v)"
proof -
  have "find (\<lambda>(_, v). stageCurrent \<in> set (Stages v)) (Versions sec) = Some (i, v)"
    using assms by (auto simp: Resolve_def split: option.splits)
  from find_demoted [OF this]
  have "find (\<lambda>(_, v). stagePrevious \<in> set (Stages v)) (Versions (eachVersion demote sec) @ [x]) = Some (i, demote v)"
    unfolding find_unique by (simp add: eachVersion_def)
  then show ?thesis by (simp add: Resolve_def stagePrevious_def)
qed

lemma demote_values [simp]: "vString (demote v) = vString v" "vBinary (demote v) = vBinary v"
  by (simp_all add: demote_def replaceStage_def removeStage_def)

subsection \<open>Guarantees\<close>

text \<open>C32: In every store that requests, the requests of rotation functions and the janitor reach from an empty
  one, each secret is stored under its own name with different version ids, and no staging label is on two
  versions of a secret.\<close>

theorem secrets_reachable:
  assumes "sSteps K tx0 tx" "bolt_store K view" "view tx0 = Map.empty"
  shows "sInv (view tx)"
  using sStep_inv(2) [OF assms(2,1)] assms(3) by (simp add: sInv_def secretAt_def)

lemma unseal_seal:
  assumes "\<And>n m. gcmOpen E n (gcmSeal E n m) = Some m" "length nonce = 12"
  shows "unseal E (seal E nonce pt) = Some pt"
  using assms by (cases pt) (simp_all add: unseal_def seal_def nonceSize_def)

text \<open>The members of a response that carry the values of a version.\<close>

definition valueFields :: "bytes option \<Rightarrow> bytes option \<Rightarrow> (string \<times> wire) list" where
  "valueFields str bin =
     (case str of None \<Rightarrow> [] | Some s \<Rightarrow> [(''SecretString'', WStr (bytesStr s))]) @
     (case bin of None \<Rightarrow> [] | Some b \<Rightarrow> [(''SecretBinary'', WStr (EncodeToString StdEncoding b))])"

lemma Resolve_LastChanged [simp]: "Resolve (s\<lparr>LastChanged := n\<rparr>) a b = Resolve s a b"
  by (simp add: Resolve_def cong: option.case_cong)

lemma openField_seal:
  assumes "\<And>n m. gcmOpen E n (gcmSeal E n m) = Some m" "length nonce = 12"
  shows "openField E key f (seal E nonce pt) = Some (case pt of None \<Rightarrow> [] | Some b \<Rightarrow> [(key, f b)])"
  using unseal_seal [OF assms, of pt] by (cases pt) (simp_all add: openField_def seal_def)

lemma renderValue_sealed:
  assumes "\<And>n m. gcmOpen E n (gcmSeal E n m) = Some m" "length ns = 12" "length nb = 12"
    and "vString v = seal E ns str" "vBinary v = seal E nb bin"
  shows "\<exists>fs. renderValue E sec vid v = Inr (WObj (fs @ valueFields str bin)) \<and> set (arnName sec @ [(''VersionId'', WStr vid)]) \<subseteq> set fs"
  using assms by (auto simp: renderValue_def openField_seal valueFields_def)

text \<open>C33: A value put without labels is what GetSecretValue returns next under the same secret id, with the
  version id the put answered; the value that was current is what the label AWSPREVIOUS then names. AES-GCM
  is taken to open what it sealed, with nonces of twelve bytes.\<close>

theorem put_then_get:
  assumes "sSteps (sbolt E) tx0 tx" "bolt_store (sbolt E) view" "view tx0 = Map.empty"
    and "\<And>n m. gcmOpen E n (gcmSeal E n m) = Some m" "length (nonceS E) = 12" "length (nonceB E) = 12"
    and "getSecret E tx sid = Inr old" "Resolve old [] [] = Inr (cur, cv)" "map_of (Versions old) (tokenOr E token) = None"
    and "AddVersion E sid token str bin [] tx = (Inr (sec, vid), tx')"
  shows "(\<exists>fs. getSecretValue E [(''SecretId'', AnyStr sid)] tx' = (Inr (WObj (fs @ valueFields str bin)), tx') \<and> (''VersionId'', WStr vid) \<in> set fs) \<and>
    (\<exists>pv. Resolve sec [] stagePrevious = Inr (cur, pv) \<and> vString pv = vString cv \<and> vBinary pv = vBinary cv)"
proof -
  have ss: "secrets_store E view" using assms(2) by (simp add: secrets_store_def)
  have inv: "sInv (view tx)" using sStep_inv(2) [OF assms(2,1)] assms(3) by (simp add: sInv_def secretAt_def)
  let ?fn = "addVersionTo E (tokenOr E token) str bin [stageCurrent]"
  have m: "Mutate E sid ?fn tx = (Inr sec, tx')" and vid: "vid = tokenOr E token"
    using assms(10) by (auto simp: AddVersion_def split: prod.splits sum.splits)
  obtain o1 s1 where g: "getSecret E tx sid = Inr o1" "?fn o1 = Inr s1" "sec = s1\<lparr>LastChanged := snow E\<rparr>" "getSecret E tx' sid = Inr sec"
    using secrets_store.Mutate_get [OF ss inv m] addVersionTo_name by metis
  have "o1 = old" using g(1) assms(7) by simp
  then have fn: "?fn old = Inr s1" using g(2) by simp
  then have nd: "\<not> DeletedAt old > 0" by (auto simp: addVersionTo_def)
  define v where "v = newVersion E str bin [stageCurrent]"
  have s1: "s1 = old\<lparr>Versions := Versions (eachVersion demote old) @ [(vid, v)]\<rparr>"
    using addVersionTo_current [OF assms(9) nd, of E str bin] fn vid by (simp add: v_def)
  have rs: "Resolve sec a b = Resolve s1 a b" for a b by (simp add: g(3))
  have res: "Resolve sec [] [] = Inr (vid, v)" unfolding rs s1 v_def by (rule newVersion_current)
  have prev: "Resolve sec [] stagePrevious = Inr (cur, demote cv)" unfolding rs s1 by (rule newVersion_previous [OF assms(8)])
  have "DeletedAt sec = DeletedAt old" using g(3) s1 by simp
  then have get: "getSecretValue E [(''SecretId'', AnyStr sid)] tx' = (renderValue E sec vid v, tx')"
    using g(4) nd res by (simp add: getSecretValue_def Str_def)
  obtain fs where "renderValue E sec vid v = Inr (WObj (fs @ valueFields str bin))" "set (arnName sec @ [(''VersionId'', WStr vid)]) \<subseteq> set fs"
    using renderValue_sealed [OF assms(4-6), of v str bin sec vid] by (auto simp: v_def newVersion_def)
  then show ?thesis using get prev by auto
qed



lemma passwordAlphabet_set:
  "set (passwordAlphabet p) =
     (if \<not> Bool p ''ExcludePunctuation'' \<and> \<not> Bool p ''ExcludeCharacters'' then set lettersAndDigits \<union> set punctuation
      else set lettersAndDigits) - set (Str p ''ExcludeCharacters'')"
  by (auto simp: passwordAlphabet_def Let_def)

text \<open>A random password has the length asked for and none of the characters the request excludes, and
  generating one changes nothing. When the request excludes every character the server has no answer: the
  modulus of the choice is zero, and the request ends in a run-time panic.\<close>

theorem password_chars:
  assumes "\<And>n. length (passwordBytes E n) = n" "len = (let n = IntAt (slib E) p ''PasswordLength'' 0 in if n = 0 then 32 else n)"
    and "1 \<le> len" "len \<le> 4096"
  shows "(if (if Bool p ''ExcludePunctuation'' \<or> Bool p ''ExcludeCharacters'' then set lettersAndDigits
         else set lettersAndDigits \<union> set punctuation) \<subseteq> set (Str p ''ExcludeCharacters'')
     then getRandomPassword E p tx = (Inl DivideByZero, tx)
     else \<exists>pw. getRandomPassword E p tx = (Inr (WObj [(''RandomPassword'', WStr pw)]), tx) \<and> int (length pw) = len \<and>
       set pw \<subseteq> (set lettersAndDigits \<union> set punctuation) - set (Str p ''ExcludeCharacters'') \<and>
       (Bool p ''ExcludePunctuation'' \<longrightarrow> set pw \<subseteq> set lettersAndDigits))"
proof (cases "passwordAlphabet p = []")
  case True
  then have "set (passwordAlphabet p) = {}" by simp
  then show ?thesis using True assms(2-4)
    unfolding passwordAlphabet_set by (auto simp: getRandomPassword_def Let_def split: if_splits)
next
  case False
  then have ne: "set (passwordAlphabet p) \<noteq> {}" by simp
  define a where "a = passwordAlphabet p"
  define pw where "pw = map (\<lambda>b. a ! (unat b mod length a)) (passwordBytes E (nat len))"
  have "getRandomPassword E p tx = (Inr (WObj [(''RandomPassword'', WStr pw)]), tx)"
    using assms(2-4) False by (auto simp: getRandomPassword_def Let_def pw_def a_def)
  moreover have "int (length pw) = len" using assms(1,3) by (simp add: pw_def)
  moreover have "set pw \<subseteq> set a" using False by (auto simp: pw_def a_def)
  ultimately show ?thesis using ne unfolding a_def passwordAlphabet_set by (auto split: if_splits)
qed

subsection \<open>Instances\<close>

definition sampleSecrets :: "int \<Rightarrow> sstored memory senv" where
  "sampleSecrets n =
     \<lparr>sbolt = memBolt, slib = sampleExt, sident = \<lparr>Region = ''us-east-1'', AccountID = ''000000000000''\<rparr>, snow = n,
      uuidBytes = replicate 16 0, suffixBytes = replicate 6 0, passwordBytes = (\<lambda>n. replicate n 1),
      nonceS = replicate 12 0, nonceB = replicate 12 0, gcmSeal = (\<lambda>_ m. m), gcmOpen = (\<lambda>_ m. Some m),
      keyState = (\<lambda>_. None), lambdaInvoke = (\<lambda>_ _ _ _ t. (True, t))\<rparr>"

definition oneSecret :: "sstored memory" where
  "oneSecret = snd (createSecret (sampleSecrets 100) [(''Name'', AnyStr ''db''), (''SecretString'', AnyStr ''one'')] [])"

lemma sampleSecrets_parts [simp]:
  "sbolt (sampleSecrets n) = memBolt" "gcmOpen (sampleSecrets n) a (gcmSeal (sampleSecrets n) a m) = Some m"
  "snow (sampleSecrets n) = n" "length (nonceS (sampleSecrets n)) = 12" "length (nonceB (sampleSecrets n)) = 12"
  "length (passwordBytes (sampleSecrets n) k) = k" "slib (sampleSecrets n) = sampleExt"
  "lambdaInvoke (sampleSecrets n) f s arn tk t = (True, t)"
  by (simp_all add: sampleSecrets_def)

lemma oneSecret_reached: "sSteps memBolt [] oneSecret"
proof -
  have "sStep memBolt [] oneSecret"
    unfolding oneSecret_def by (rule srequest [where a = "''CreateSecret''"]) (simp_all add: secretHandlers_def snone)
  with snone show ?thesis by (rule smore)
qed

lemma memView_empty: "memView [] = Map.empty"
  by (simp add: memView_def fun_eq_iff)

theorem secrets_reachable_witness: "sInv (memView oneSecret)"
  using secrets_reachable [OF oneSecret_reached mem.bolt_store_axioms memView_empty] .

definition afterPut :: "(secretsError + secret \<times> string) \<times> sstored memory" where
  "afterPut = AddVersion (sampleSecrets 200) ''db'' ''v2'' (Some [116, 119, 111]) None [] oneSecret"

definition beforePut :: secret where
  "beforePut = projr (getSecret (sampleSecrets 200) oneSecret ''db'')"

lemma beforePut_is:
  "getSecret (sampleSecrets 200) oneSecret ''db'' = Inr beforePut \<and>
   Resolve beforePut [] [] = Inr (projr (Resolve beforePut [] [])) \<and> map_of (Versions beforePut) ''v2'' = None"
  by code_simp

lemma afterPut_is: "isl (fst afterPut) = False"
  by code_simp

theorem put_then_get_witness:
  "\<exists>fs tx. getSecretValue (sampleSecrets 200) [(''SecretId'', AnyStr ''db'')] tx =
     (Inr (WObj (fs @ valueFields (Some [116, 119, 111]) None)), tx) \<and> (''VersionId'', WStr ''v2'') \<in> set fs"
proof -
  obtain cur cv where cur: "Resolve beforePut [] [] = Inr (cur, cv)" using beforePut_is by (metis surj_pair)
  obtain sec vid tx' where a: "AddVersion (sampleSecrets 200) ''db'' ''v2'' (Some [116, 119, 111]) None [] oneSecret = (Inr (sec, vid), tx')"
    using afterPut_is unfolding afterPut_def by (metis isl_def old.sum.exhaust prod.collapse)
  have t: "tokenOr (sampleSecrets 200) ''v2'' = ''v2''" by (simp add: tokenOr_def)
  have "vid = ''v2''" using a by (auto simp: AddVersion_def t split: prod.splits sum.splits)
  then show ?thesis
    using put_then_get [where E = "sampleSecrets 200" and view = memView, OF _ _ memView_empty _ _ _ _ cur _ a]
      oneSecret_reached mem.bolt_store_axioms beforePut_is t by auto
qed

definition afterDelete :: "(secretsError + secret) \<times> sstored memory" where
  "afterDelete = DeleteSecret (sampleSecrets 200) ''db'' 7 False oneSecret"

definition restored :: "(secretsError + secret) \<times> sstored memory" where
  "restored = Restore (sampleSecrets 500) ''db'' (SweepDeleted (sampleSecrets 400) (snd afterDelete))"

lemma deletion_is:
  "isl (fst afterDelete) = False \<and> PurgeAt (projr (fst afterDelete)) = 605000 \<and> isl (fst restored) = False"
  by code_simp


theorem password_chars_witness:
  "getRandomPassword (sampleSecrets 0) [(''ExcludeCharacters'', AnyStr ''a'')] ([] :: sstored memory) \<noteq> (Inl DivideByZero, []) \<and>
   (\<exists>pw. fst (getRandomPassword (sampleSecrets 0) [(''ExcludeCharacters'', AnyStr ''a'')] ([] :: sstored memory)) =
      Inr (WObj [(''RandomPassword'', WStr pw)]) \<and> int (length pw) = 32 \<and> CHR ''a'' \<notin> set pw)"
proof -
  have ne: "\<not> set lettersAndDigits \<subseteq> {CHR ''a''}" by (simp add: lettersAndDigits_def)
  show ?thesis
    using password_chars [where E = "sampleSecrets 0" and p = "[(''ExcludeCharacters'', AnyStr ''a'')]" and len = 32 and tx = "[]"] ne
    by (auto simp: IntAt_def Str_def Bool_def)
qed


end
