(* ===== verification/Calendar.thy ===== *)
theory Calendar
  imports Prelude
begin

text \<open>
  The part of Go's package \<^verbatim>\<open>time\<close> that schedules use: the proleptic Gregorian calendar in UTC, at the
  resolution of a minute. A time is the number of minutes since 1970-01-01 00:00; \<open>Date\<close> normalises its
  month and day as \<^verbatim>\<open>time.Date\<close> does.
\<close>

definition leapYear :: "int \<Rightarrow> bool" where
  "leapYear y = (y mod 4 = 0 \<and> (y mod 100 \<noteq> 0 \<or> y mod 400 = 0))"

text \<open>Days from the first of January of the year 1 to the first of January of a year.\<close>

definition daysBeforeYear :: "int \<Rightarrow> int" where
  "daysBeforeYear y = 365 * (y - 1) + (y - 1) div 4 - (y - 1) div 100 + (y - 1) div 400"

text \<open>Days from the first of January to the first of a month, 1 to 13.\<close>

definition daysBeforeMonth :: "int \<Rightarrow> int \<Rightarrow> int" where
  "daysBeforeMonth y m =
     (if m \<le> 1 then 0 else if m = 2 then 31
      else (if m = 3 then 59 else if m = 4 then 90 else if m = 5 then 120 else if m = 6 then 151
            else if m = 7 then 181 else if m = 8 then 212 else if m = 9 then 243 else if m = 10 then 273
            else if m = 11 then 304 else if m = 12 then 334 else 365) + (if leapYear y then 1 else 0))"

definition epochDay :: int where "epochDay = 719162"

definition yearOf :: "int \<Rightarrow> int" where
  "yearOf n =
     (let y = (400 * n) div 146097 + 1 in
      if n < daysBeforeYear y then y - 1 else if daysBeforeYear (y + 1) \<le> n then y + 1 else y)"

definition monthOf :: "int \<Rightarrow> int" where
  "monthOf n =
     (let y = yearOf n; d = n - daysBeforeYear y in
      if d < daysBeforeMonth y 2 then 1 else if d < daysBeforeMonth y 3 then 2
      else if d < daysBeforeMonth y 4 then 3 else if d < daysBeforeMonth y 5 then 4
      else if d < daysBeforeMonth y 6 then 5 else if d < daysBeforeMonth y 7 then 6
      else if d < daysBeforeMonth y 8 then 7 else if d < daysBeforeMonth y 9 then 8
      else if d < daysBeforeMonth y 10 then 9 else if d < daysBeforeMonth y 11 then 10
      else if d < daysBeforeMonth y 12 then 11 else 12)"

definition Date :: "int \<Rightarrow> int \<Rightarrow> int \<Rightarrow> int \<Rightarrow> int \<Rightarrow> int" where
  "Date y m d h mi =
     (let y1 = y + (m - 1) div 12; m1 = (m - 1) mod 12 + 1
      in (daysBeforeYear y1 + daysBeforeMonth y1 m1 + d - 1 - epochDay) * 1440 + h * 60 + mi)"

definition dayNumber :: "int \<Rightarrow> int" where "dayNumber t = t div 1440 + epochDay"

definition Year :: "int \<Rightarrow> int" where "Year t = yearOf (dayNumber t)"
definition Month :: "int \<Rightarrow> int" where "Month t = monthOf (dayNumber t)"
definition Day :: "int \<Rightarrow> int" where
  "Day t = dayNumber t - daysBeforeYear (Year t) - daysBeforeMonth (Year t) (Month t) + 1"
definition Hour :: "int \<Rightarrow> int" where "Hour t = t mod 1440 div 60"
definition Minute :: "int \<Rightarrow> int" where "Minute t = t mod 60"

text \<open>0 is Sunday.\<close>

definition Weekday :: "int \<Rightarrow> int" where "Weekday t = (dayNumber t + 1) mod 7"

subsection \<open>Years\<close>

lemma floor_bounds: "0 < k \<Longrightarrow> k * (n div k) \<le> n \<and> n < k * (n div k) + (k :: int)"
  using mult_div_mod_eq [of k n] pos_mod_bound [of k n] pos_mod_sign [of k n] by linarith

lemma floor_step: "(y :: int) div k = (y - 1) div k + (if y mod k = 0 then 1 else 0)" if "1 < k"
proof -
  have e: "y - 1 = k * (y div k) + (y mod k - 1)" using mult_div_mod_eq [of k y] by linarith
  have r: "(y - 1) div k = y div k + (y mod k - 1) div k" unfolding e by (rule div_mult_self4) (use that in simp)
  show ?thesis
  proof (cases "y mod k = 0")
    case True
    then show ?thesis using r that by (simp add: div_eq_minus1)
  next
    case False
    then have "0 \<le> y mod k - 1" "y mod k - 1 < k" using pos_mod_bound [of k y] pos_mod_sign [of k y] that by linarith+
    then show ?thesis using r False by (simp add: div_pos_pos_trivial)
  qed
qed

lemma leap_count:
  fixes a b c :: int
  assumes "b = 0 \<Longrightarrow> a = 0" "c = 0 \<Longrightarrow> b = 0"
  shows "(if a = 0 \<and> (b \<noteq> 0 \<or> c = 0) then 366 else 365 :: int) =
    365 + (if a = 0 then 1 else 0) - (if b = 0 then 1 else 0) + (if c = 0 then 1 else 0)"
proof (cases "c = 0")
  case True
  then show ?thesis using assms(2) [OF True] assms(1) [OF assms(2) [OF True]] by simp
next
  case False
  then show ?thesis using assms(1) by (cases "b = 0") simp_all
qed

lemma daysBeforeYear_next: "daysBeforeYear (y + 1) = daysBeforeYear y + (if leapYear y then 366 else 365)"
proof -
  have m: "y mod 100 = 0 \<Longrightarrow> y mod 4 = 0" "y mod 400 = 0 \<Longrightarrow> y mod 100 = 0"
    using mod_mod_cancel [of 4 100 y] mod_mod_cancel [of 100 400 y] by auto
  define a b c where "a = y mod 4" and "b = y mod 100" and "c = y mod 400"
  have l: "(if leapYear y then 366 else 365 :: int) = 365 + (if a = 0 then 1 else 0) - (if b = 0 then 1 else 0) + (if c = 0 then 1 else 0)"
    unfolding leapYear_def a_def [symmetric] b_def [symmetric] c_def [symmetric]
    by (rule leap_count) (use m in \<open>simp_all only: a_def b_def c_def\<close>)
  have f: "y div 4 = (y - 1) div 4 + (if a = 0 then 1 else 0)" "y div 100 = (y - 1) div 100 + (if b = 0 then 1 else 0)"
    "y div 400 = (y - 1) div 400 + (if c = 0 then 1 else 0)"
    unfolding a_def b_def c_def by (rule floor_step; simp)+
  have d: "daysBeforeYear (y + 1) = 365 * y + y div 4 - y div 100 + y div 400" by (simp add: daysBeforeYear_def)
  show ?thesis unfolding d l f by (simp only: daysBeforeYear_def) simp
qed

lemma daysBeforeYear_mono: "y < z \<Longrightarrow> daysBeforeYear y + 365 \<le> daysBeforeYear z"
proof (induction z rule: int_gr_induct)
  case base
  show ?case by (simp add: daysBeforeYear_next)
next
  case (step z)
  then show ?case by (simp add: daysBeforeYear_next)
qed

lemma yearOf_bounds: "daysBeforeYear (yearOf n) \<le> n \<and> n < daysBeforeYear (yearOf n + 1)"
proof -
  define y where "y = (400 * n) div 146097 + 1"
  have a: "146097 * (y - 1) \<le> 400 * n" "400 * n < 146097 * (y - 1) + 146097"
    using floor_bounds [of 146097 "400 * n"] unfolding y_def by simp_all
  have lo: "daysBeforeYear (y - 1) \<le> n"
    using a floor_bounds [of 4 "y - 2"] floor_bounds [of 100 "y - 2"] floor_bounds [of 400 "y - 2"]
    unfolding daysBeforeYear_def by simp
  have hi: "n < daysBeforeYear (y + 2)"
    using a floor_bounds [of 4 "y + 1"] floor_bounds [of 100 "y + 1"] floor_bounds [of 400 "y + 1"]
    unfolding daysBeforeYear_def by (simp add: algebra_simps)
  show ?thesis using lo hi unfolding yearOf_def Let_def y_def [symmetric] by (auto simp: add.commute)
qed

lemma yearOf_eq: "daysBeforeYear y \<le> n \<Longrightarrow> n < daysBeforeYear (y + 1) \<Longrightarrow> yearOf n = y"
proof (rule ccontr)
  assume a: "daysBeforeYear y \<le> n" "n < daysBeforeYear (y + 1)" "yearOf n \<noteq> y"
  note b = yearOf_bounds [of n]
  from a(3) consider "yearOf n < y" | "y < yearOf n" by linarith
  then show False
  proof cases
    case 1
    then have "daysBeforeYear (yearOf n + 1) \<le> daysBeforeYear y"
      using daysBeforeYear_mono [of "yearOf n + 1" y] by (cases "yearOf n + 1 = y") auto
    then show False using a b by linarith
  next
    case 2
    then have "daysBeforeYear (y + 1) \<le> daysBeforeYear (yearOf n)"
      using daysBeforeYear_mono [of "y + 1" "yearOf n"] by (cases "y + 1 = yearOf n") auto
    then show False using a b by linarith
  qed
qed

lemma Year_mono: "t \<le> u \<Longrightarrow> Year t \<le> Year u"
proof (rule ccontr)
  assume a: "t \<le> u" "\<not> Year t \<le> Year u"
  then have "daysBeforeYear (Year u + 1) \<le> daysBeforeYear (Year t)"
    using daysBeforeYear_mono [of "Year u + 1" "Year t"] by (cases "Year u + 1 = Year t") auto
  moreover have "dayNumber t \<le> dayNumber u" using a(1) by (simp add: dayNumber_def zdiv_mono1)
  ultimately show False using yearOf_bounds [of "dayNumber t"] yearOf_bounds [of "dayNumber u"] by (simp add: Year_def)
qed

subsection \<open>Months and days\<close>

lemma monthOf_bounds:
  "1 \<le> monthOf n \<and> monthOf n \<le> 12 \<and> daysBeforeMonth (yearOf n) (monthOf n) \<le> n - daysBeforeYear (yearOf n) \<and>
   n - daysBeforeYear (yearOf n) < daysBeforeMonth (yearOf n) (monthOf n + 1)"
proof -
  have "0 \<le> n - daysBeforeYear (yearOf n)" "n - daysBeforeYear (yearOf n) < (if leapYear (yearOf n) then 366 else 365)"
    using yearOf_bounds [of n] by (simp_all add: daysBeforeYear_next)
  then show ?thesis unfolding monthOf_def Let_def by (simp add: daysBeforeMonth_def split: if_splits)
qed

lemma daysBeforeMonth_mono: "a \<le> b \<Longrightarrow> daysBeforeMonth y a \<le> daysBeforeMonth y b"
proof (induction b rule: int_ge_induct)
  case (step b)
  have "daysBeforeMonth y b \<le> daysBeforeMonth y (b + 1)" by (simp add: daysBeforeMonth_def)
  with step show ?case by simp
qed simp

lemma monthOf_eq:
  assumes "yearOf n = y" "1 \<le> m" "m \<le> 12" "daysBeforeMonth y m \<le> n - daysBeforeYear y" "n - daysBeforeYear y < daysBeforeMonth y (m + 1)"
  shows "monthOf n = m"
proof -
  note b = monthOf_bounds [of n, unfolded assms(1)]
  have "\<not> monthOf n + 1 \<le> m" "\<not> m + 1 \<le> monthOf n"
    using daysBeforeMonth_mono [of "monthOf n + 1" m y] daysBeforeMonth_mono [of "m + 1" "monthOf n" y] b assms by linarith+
  then show ?thesis by linarith
qed

text \<open>A time is inside its own year, month, day and hour, and every time there has the same fields.\<close>

lemma Date_day: "1 \<le> m \<Longrightarrow> m \<le> 12 \<Longrightarrow> Date y m d h mi = (daysBeforeYear y + daysBeforeMonth y m + d - 1 - epochDay) * 1440 + h * 60 + mi"
  by (simp add: Date_def)

lemma Date_next_month:
  "1 \<le> m \<Longrightarrow> m \<le> 12 \<Longrightarrow> Date y (m + 1) 1 0 0 = (daysBeforeYear y + daysBeforeMonth y (m + 1) - epochDay) * 1440"
  by (cases "m = 12") (auto simp: Date_def daysBeforeYear_next daysBeforeMonth_def)

lemma day_bounds: "t div 1440 * 1440 \<le> t \<and> t < t div 1440 * 1440 + (1440 :: int)"
  using floor_bounds [of 1440 t] by simp

lemma Year_block:
  assumes "t \<le> u" "u < Date (Year t + 1) 1 1 0 0"
  shows "Year u = Year t"
proof -
  have "dayNumber t \<le> dayNumber u" using assms(1) by (simp add: dayNumber_def zdiv_mono1)
  moreover have "dayNumber u < daysBeforeYear (Year t + 1)"
    using assms(2) day_bounds [of u] by (simp add: Date_day daysBeforeMonth_def dayNumber_def)
  ultimately show ?thesis using yearOf_bounds [of "dayNumber t"] unfolding Year_def by (intro yearOf_eq) auto
qed

lemma Month_range: "1 \<le> Month t \<and> Month t \<le> 12"
  using monthOf_bounds [of "dayNumber t"] by (simp add: Month_def)

lemma Month_block:
  assumes "t \<le> u" "u < Date (Year t) (Month t + 1) 1 0 0"
  shows "Year u = Year t \<and> Month u = Month t"
proof -
  note y = yearOf_bounds [of "dayNumber t", folded Year_def] and m = monthOf_bounds [of "dayNumber t", folded Year_def Month_def]
  have le: "dayNumber t \<le> dayNumber u" using assms(1) by (simp add: dayNumber_def zdiv_mono1)
  have less: "dayNumber u < daysBeforeYear (Year t) + daysBeforeMonth (Year t) (Month t + 1)"
    using assms(2) day_bounds [of u] Month_range [of t] by (simp add: Date_next_month dayNumber_def)
  moreover have "daysBeforeMonth (Year t) (Month t + 1) \<le> (if leapYear (Year t) then 366 else 365)"
    by (simp add: daysBeforeMonth_def)
  ultimately have yu: "yearOf (dayNumber u) = Year t" using le y by (intro yearOf_eq) (auto simp: daysBeforeYear_next split: if_splits)
  then have "monthOf (dayNumber u) = Month t" using le less m by (intro monthOf_eq) auto
  with yu show ?thesis by (simp add: Year_def Month_def)
qed

lemma Date_next_day: "Date (Year t) (Month t) (Day t + 1) 0 0 = (t div 1440 + 1) * 1440"
  using Month_range [of t] by (simp add: Date_day Day_def dayNumber_def)

lemma Hour_mod: "Hour t = t div 60 mod 24"
proof -
  have "t mod 1440 = 60 * (t div 60 mod 24) + t mod 60" using zmod_zmult2_eq [of 24 t 60] by simp
  then show ?thesis unfolding Hour_def by simp
qed

lemma Date_next_hour: "Date (Year t) (Month t) (Day t) (Hour t + 1) 0 = (t div 60 + 1) * 60"
proof -
  have "t div 1440 * 1440 + Hour t * 60 = t div 60 * 60"
  proof -
    have "t div 60 = 24 * (t div 1440) + t div 60 mod 24"
      using mult_div_mod_eq [of 24 "t div 60"] by (simp add: zdiv_zmult2_eq [symmetric])
    then show ?thesis unfolding Hour_mod by simp
  qed
  then show ?thesis using Month_range [of t] by (simp add: Date_day Day_def dayNumber_def)
qed

lemma Day_block:
  assumes "t \<le> u" "u < Date (Year t) (Month t) (Day t + 1) 0 0"
  shows "dayNumber u = dayNumber t"
proof -
  have "t div 1440 \<le> u div 1440" using assms(1) by (rule zdiv_mono1) simp
  moreover have "u div 1440 < t div 1440 + 1" using assms(2) day_bounds [of u] unfolding Date_next_day by simp
  ultimately show ?thesis by (simp add: dayNumber_def)
qed

lemma Hour_block:
  assumes "t \<le> u" "u < Date (Year t) (Month t) (Day t) (Hour t + 1) 0"
  shows "Hour u = Hour t"
proof -
  have "t div 60 \<le> u div 60" using assms(1) by (rule zdiv_mono1) simp
  moreover have "u div 60 < t div 60 + 1" using assms(2) floor_bounds [of 60 u] unfolding Date_next_hour by simp
  ultimately have e: "u div 60 = t div 60" by simp
  show ?thesis unfolding Hour_mod e ..
qed

lemmas Year_fields = Year_def Month_def

lemma field_days: "dayNumber u = dayNumber t \<Longrightarrow> Year u = Year t \<and> Month u = Month t \<and> Day u = Day t \<and> Weekday u = Weekday t"
  by (simp add: Year_def Month_def Day_def Weekday_def)

end
