(* ===== verification/AwsCron.thy ===== *)
theory AwsCron
  imports Calendar
begin

text \<open>
  EventBridge's six-field cron expressions, \<^verbatim>\<open>internal/awscron/awscron.go\<close>: parsing and the next firing time.
  An array of booleans is the list of the indices that are set; writing outside the array is the error
  \<open>IndexPanic\<close>. The loop over a range adds its step in int64, where a sum may wrap around, so it is a
  partial function: \<open>None\<close> means that it does not return. Unicode upper case and Unicode white space
  (\<^verbatim>\<open>strings.ToUpper\<close>, \<^verbatim>\<open>strings.Fields\<close>) are parameters; their ASCII paths are modelled.
\<close>

record cron_ext =
  goLib :: go_ext
  uniToUpper :: "string \<Rightarrow> string"
  uniFields :: "string \<Rightarrow> string list"

definition ToUpper :: "cron_ext \<Rightarrow> string \<Rightarrow> string" where
  "ToUpper G s = (if list_all ascii s then map upperByte s else uniToUpper G s)"

definition Fields :: "cron_ext \<Rightarrow> string \<Rightarrow> string list" where
  "Fields G s = (if list_all ascii s then asciiFields [] s else uniFields G s)"

record expression =
  minutes :: "int list"
  hours :: "int list"
  months :: "int list"
  years :: "int list"
  anyYear :: bool
  byDOM :: bool
  dom :: "int list"
  domL :: bool
  domW :: "int list"
  domLW :: bool
  dow :: "int list"
  dowL :: int
  dowN :: "(int \<times> int) list"

definition emptyExpression :: expression where
  "emptyExpression = \<lparr>minutes = [], hours = [], months = [], years = [], anyYear = False, byDOM = False,
     dom = [], domL = False, domW = [], domLW = False, dow = [], dowL = 0, dowN = []\<rparr>"

datatype cronError =
    FieldCount nat
  | EmptyField
  | BadStep string
  | NotAValue string
  | Outside string
  | NotNearestDay string
  | NotLastWeekday string
  | NotAWeekday string
  | NotAnOrdinal string
  | SecondOrdinal
  | NotOneQuestionMark
  | IndexPanic

type_synonym 'a outcome = "(cronError + 'a) option"

text \<open>Sequencing: stop on an error, and when a loop does not return.\<close>

fun andThen :: "'a outcome \<Rightarrow> ('a \<Rightarrow> 'b outcome) \<Rightarrow> 'b outcome" where
  "andThen None f = None"
| "andThen (Some (Inl e)) f = Some (Inl e)"
| "andThen (Some (Inr x)) f = f x"

subsection \<open>Fields\<close>

partial_function (option) setLoop :: "(int \<Rightarrow> 'a \<Rightarrow> 'a option) \<Rightarrow> int \<Rightarrow> int \<Rightarrow> int \<Rightarrow> 'a \<Rightarrow> 'a outcome" where
  "setLoop mark v end step e =
     (if v > end then Some (Inr e)
      else case mark v e of
             None \<Rightarrow> Some (Inl IndexPanic)
           | Some e1 \<Rightarrow> setLoop mark (wrap64 (v + step)) end step e1)"

declare setLoop.simps [code]

definition atoiNamed :: "cron_ext \<Rightarrow> string \<Rightarrow> (string \<times> int) list \<Rightarrow> cronError + int" where
  "atoiNamed G s table =
     (case (if table = [] then None else map_of table (ToUpper G s)) of
        Some v \<Rightarrow> Inr v
      | None \<Rightarrow> (case ParseInt64 s of None \<Rightarrow> Inl (NotAValue s) | Some v \<Rightarrow> Inr v))"

definition cutStep :: "string \<Rightarrow> cronError + int \<times> string" where
  "cutStep part =
     (case cutAt (\<lambda>c. c = CHR ''/'') part of
        (_, None) \<Rightarrow> Inr (1, part)
      | (before, Some after) \<Rightarrow>
          (case ParseInt64 after of
             None \<Rightarrow> Inl (BadStep part)
           | Some n \<Rightarrow> if n \<le> 0 then Inl (BadStep part) else Inr (n, before)))"

definition parseRangeBounds :: "cron_ext \<Rightarrow> (string \<times> int) list \<Rightarrow> string \<Rightarrow> cronError + int \<times> int" where
  "parseRangeBounds G table part =
     (let (a, r) = cutAt (\<lambda>c. c = CHR ''-'') part in
      case atoiNamed G a table of
        Inl e \<Rightarrow> Inl e
      | Inr start \<Rightarrow>
          (case atoiNamed G (case r of None \<Rightarrow> [] | Some b \<Rightarrow> b) table of
             Inl e \<Rightarrow> Inl e
           | Inr end \<Rightarrow> Inr (start, end)))"

definition checkedLoop ::
  "(int \<Rightarrow> 'a \<Rightarrow> 'a option) \<Rightarrow> int \<Rightarrow> int \<Rightarrow> string \<Rightarrow> int \<Rightarrow> int \<Rightarrow> int \<Rightarrow> 'a \<Rightarrow> 'a outcome" where
  "checkedLoop mark lo hi part start end step e =
     (if start < lo \<or> end > hi then Some (Inl (Outside part)) else setLoop mark start end step e)"

definition parsePart ::
  "cron_ext \<Rightarrow> int \<Rightarrow> int \<Rightarrow> (string \<times> int) list \<Rightarrow> (int \<Rightarrow> 'a \<Rightarrow> 'a option) \<Rightarrow> string \<Rightarrow> 'a \<Rightarrow> 'a outcome" where
  "parsePart G lo hi table mark part0 e =
     (case cutStep part0 of
        Inl err \<Rightarrow> Some (Inl err)
      | Inr (step, part) \<Rightarrow>
          if part = ''*'' then checkedLoop mark lo hi part lo hi step e
          else if ContainsByte part (CHR ''-'') then
            (case parseRangeBounds G table part of
               Inl err \<Rightarrow> Some (Inl err)
             | Inr (start, end) \<Rightarrow>
                 if start > end then andThen (setLoop mark start hi step e) (setLoop mark lo end step)
                 else checkedLoop mark lo hi part start end step e)
          else
            (case atoiNamed G part table of
               Inl err \<Rightarrow> Some (Inl err)
             | Inr v \<Rightarrow> checkedLoop mark lo hi part v (if step = 1 then v else hi) step e))"

fun parseParts ::
  "cron_ext \<Rightarrow> int \<Rightarrow> int \<Rightarrow> (string \<times> int) list \<Rightarrow> (int \<Rightarrow> 'a \<Rightarrow> 'a option) \<Rightarrow> string list \<Rightarrow> 'a \<Rightarrow> 'a outcome" where
  "parseParts G lo hi table mark [] e = Some (Inr e)"
| "parseParts G lo hi table mark (part # parts) e =
     andThen (parsePart G lo hi table mark part e) (parseParts G lo hi table mark parts)"

definition parseSet ::
  "cron_ext \<Rightarrow> string \<Rightarrow> int \<Rightarrow> int \<Rightarrow> (string \<times> int) list \<Rightarrow> (int \<Rightarrow> 'a \<Rightarrow> 'a option) \<Rightarrow> 'a \<Rightarrow> 'a outcome" where
  "parseSet G field lo hi table mark e =
     (if field = [] then Some (Inl EmptyField)
      else parseParts G lo hi table mark (splitOn (CHR '','') field) e)"

text \<open>\<^verbatim>\<open>array[v] = true\<close> on an array of \<open>n\<close> booleans.\<close>

definition setBit :: "int \<Rightarrow> int \<Rightarrow> int list \<Rightarrow> int list option" where
  "setBit n v xs = (if 0 \<le> v \<and> v < n then Some (v # xs) else None)"

definition setMinute :: "int \<Rightarrow> expression \<Rightarrow> expression option" where
  "setMinute v e = map_option (\<lambda>xs. e\<lparr>minutes := xs\<rparr>) (setBit 60 v (minutes e))"
definition setHour :: "int \<Rightarrow> expression \<Rightarrow> expression option" where
  "setHour v e = map_option (\<lambda>xs. e\<lparr>hours := xs\<rparr>) (setBit 24 v (hours e))"
definition setMonth :: "int \<Rightarrow> expression \<Rightarrow> expression option" where
  "setMonth v e = map_option (\<lambda>xs. e\<lparr>months := xs\<rparr>) (setBit 13 v (months e))"
definition setYear :: "int \<Rightarrow> expression \<Rightarrow> expression option" where
  "setYear v e = Some (e\<lparr>years := v # years e\<rparr>)"
definition setDOM :: "int \<Rightarrow> expression \<Rightarrow> expression option" where
  "setDOM v e = map_option (\<lambda>xs. e\<lparr>dom := xs\<rparr>) (setBit 32 v (dom e))"
definition setDOW :: "int \<Rightarrow> expression \<Rightarrow> expression option" where
  "setDOW v e = map_option (\<lambda>xs. e\<lparr>dow := xs\<rparr>) (setBit 8 v (dow e))"

definition monthNames :: "(string \<times> int) list" where
  "monthNames = [(''JAN'', 1), (''FEB'', 2), (''MAR'', 3), (''APR'', 4), (''MAY'', 5), (''JUN'', 6), (''JUL'', 7),
     (''AUG'', 8), (''SEP'', 9), (''OCT'', 10), (''NOV'', 11), (''DEC'', 12)]"

definition dayNames :: "(string \<times> int) list" where
  "dayNames = [(''SUN'', 1), (''MON'', 2), (''TUE'', 3), (''WED'', 4), (''THU'', 5), (''FRI'', 6), (''SAT'', 7)]"

definition parseYears :: "cron_ext \<Rightarrow> string \<Rightarrow> expression \<Rightarrow> expression outcome" where
  "parseYears G field e =
     (if field = ''*'' then Some (Inr (e\<lparr>anyYear := True\<rparr>)) else parseSet G field 1970 2199 [] setYear e)"

definition parseDOMPart :: "cron_ext \<Rightarrow> string \<Rightarrow> expression \<Rightarrow> expression outcome" where
  "parseDOMPart G part e =
     (if part = ''L'' then Some (Inr (e\<lparr>domL := True\<rparr>))
      else if part = ''LW'' then Some (Inr (e\<lparr>domLW := True\<rparr>))
      else if HasSuffix part ''W'' then
        (case ParseInt64 (TrimSuffix part ''W'') of
           None \<Rightarrow> Some (Inl (NotNearestDay part))
         | Some n \<Rightarrow> if n < 1 \<or> n > 31 then Some (Inl (NotNearestDay part)) else Some (Inr (e\<lparr>domW := domW e @ [n]\<rparr>)))
      else parseSet G part 1 31 [] setDOM e)"

definition parseDOWPart :: "cron_ext \<Rightarrow> string \<Rightarrow> expression \<Rightarrow> expression outcome" where
  "parseDOWPart G part e =
     (if part = ''L'' then Some (Inr (e\<lparr>dow := 7 # dow e\<rparr>))
      else if HasSuffix part ''L'' then
        (case atoiNamed G (TrimSuffix part ''L'') dayNames of
           Inl _ \<Rightarrow> Some (Inl (NotLastWeekday part))
         | Inr d \<Rightarrow> if d < 1 \<or> d > 7 then Some (Inl (NotLastWeekday part)) else Some (Inr (e\<lparr>dowL := d\<rparr>)))
      else if ContainsByte part (CHR ''#'') then
        (let (a, r) = cutAt (\<lambda>c. c = CHR ''#'') part; b = (case r of None \<Rightarrow> [] | Some b \<Rightarrow> b) in
         case atoiNamed G a dayNames of
           Inl _ \<Rightarrow> Some (Inl (NotAWeekday a))
         | Inr d \<Rightarrow>
             if d < 1 \<or> d > 7 then Some (Inl (NotAWeekday a))
             else case ParseInt64 b of
                    None \<Rightarrow> Some (Inl (NotAnOrdinal b))
                  | Some n \<Rightarrow>
                      if n < 1 \<or> n > 5 then Some (Inl (NotAnOrdinal b))
                      else if dowN e \<noteq> [] then Some (Inl SecondOrdinal)
                      else Some (Inr (e\<lparr>dowN := dowN e @ [(d, n)]\<rparr>)))
      else parseSet G part 1 7 dayNames setDOW e)"

fun eachPart :: "(string \<Rightarrow> expression \<Rightarrow> expression outcome) \<Rightarrow> string list \<Rightarrow> expression \<Rightarrow> expression outcome" where
  "eachPart f [] e = Some (Inr e)"
| "eachPart f (part # parts) e = andThen (f part e) (eachPart f parts)"

definition parseDOM :: "cron_ext \<Rightarrow> string \<Rightarrow> expression \<Rightarrow> expression outcome" where
  "parseDOM G field e = eachPart (parseDOMPart G) (splitOn (CHR '','') field) e"

definition parseDOW :: "cron_ext \<Rightarrow> string \<Rightarrow> expression \<Rightarrow> expression outcome" where
  "parseDOW G field e = eachPart (parseDOWPart G) (splitOn (CHR '','') field) e"

definition cutCron :: "string \<Rightarrow> string" where
  "cutCron s = (if HasPrefix s ''cron('' \<and> HasSuffix s '')'' then take (length s - 6) (drop 5 s) else s)"

definition Parse :: "cron_ext \<Rightarrow> string \<Rightarrow> expression outcome" where
  "Parse G expr =
     (let fs = Fields G (cutCron (TrimSpace (goLib G) expr)) in
      if length fs \<noteq> 6 then Some (Inl (FieldCount (length fs)))
      else
        andThen (parseSet G (fs ! 0) 0 59 [] setMinute emptyExpression) (\<lambda>e1.
        andThen (parseSet G (fs ! 1) 0 23 [] setHour e1) (\<lambda>e2.
        andThen (parseSet G (fs ! 3) 1 12 monthNames setMonth e2) (\<lambda>e3.
        andThen (parseYears G (fs ! 5) e3) (\<lambda>e4.
          let domQ = (fs ! 2 = ''?''); dowQ = (fs ! 4 = ''?'') in
          if domQ = dowQ then Some (Inl NotOneQuestionMark)
          else if domQ then parseDOW G (fs ! 4) e4
          else parseDOM G (fs ! 2) (e4\<lparr>byDOM := True\<rparr>))))))"

subsection \<open>Days\<close>

definition daysIn :: "int \<Rightarrow> int \<Rightarrow> int" where
  "daysIn year month = Day (Date year (month + 1) 0 0 0)"

definition nearestWeekday :: "int \<Rightarrow> int \<Rightarrow> int \<Rightarrow> int" where
  "nearestWeekday year month n0 =
     (let last = daysIn year month; n = (if n0 > last then last else n0); wd = Weekday (Date year month n 0 0)
      in if wd = 6 then (if n > 1 then n - 1 else n + 2)
         else if wd = 0 then (if n < last then n + 1 else n - 2)
         else n)"

definition dayMatches :: "expression \<Rightarrow> int \<Rightarrow> bool" where
  "dayMatches e t =
     (let day = Day t; last = daysIn (Year t) (Month t) in
      if byDOM e then
        day \<in> set (dom e) \<or> domL e \<and> day = last \<or>
        domLW e \<and> day = nearestWeekday (Year t) (Month t) last \<or>
        (\<exists>n\<in>set (domW e). n \<le> last \<and> day = nearestWeekday (Year t) (Month t) n)
      else
        let wd = Weekday t + 1 in
        wd \<in> set (dow e) \<or> dowL e \<noteq> 0 \<and> wd = dowL e \<and> day + 7 > last \<or>
        (\<exists>(d, nth)\<in>set (dowN e). wd = d \<and> (day - 1) div 7 + 1 = nth))"

subsection \<open>The next firing time\<close>

definition nsPerMinute :: int where "nsPerMinute = 60000000000"

definition yearLimit :: "expression \<Rightarrow> int" where
  "yearLimit e = (if anyYear e then 2200 else foldl (\<lambda>limit y. if y > limit then y else limit) 0 (years e))"

lemma Year_bound: "Year t \<le> l \<Longrightarrow> t < Date (l + 1) 1 1 0 0"
proof -
  assume a: "Year t \<le> l"
  then have "daysBeforeYear (Year t + 1) \<le> daysBeforeYear (l + 1)"
    using daysBeforeYear_mono [of "Year t + 1" "l + 1"] by (cases "Year t = l") auto
  then have "dayNumber t < daysBeforeYear (l + 1)" using yearOf_bounds [of "dayNumber t"] by (simp add: Year_def)
  then show ?thesis using day_bounds [of t] by (simp add: Date_day daysBeforeMonth_def dayNumber_def)
qed

text \<open>The bounds of the year, month, day and hour a time is in.\<close>

lemma next_year: "t < Date (Year t + 1) 1 1 0 0"
  by (rule Year_bound) simp

lemma next_month: "t < Date (Year t) (Month t + 1) 1 0 0"
proof -
  have "dayNumber t < daysBeforeYear (Year t) + daysBeforeMonth (Year t) (Month t + 1)"
    using monthOf_bounds [of "dayNumber t"] by (simp add: Year_def Month_def)
  then show ?thesis using day_bounds [of t] Month_range [of t] by (simp add: Date_next_month dayNumber_def)
qed

lemma next_day: "t < Date (Year t) (Month t) (Day t + 1) 0 0"
  unfolding Date_next_day using day_bounds [of t] by simp

lemma next_hour: "t < Date (Year t) (Month t) (Day t) (Hour t + 1) 0"
  unfolding Date_next_hour using floor_bounds [of 60 t] by simp

function nextLoop :: "expression \<Rightarrow> int \<Rightarrow> int \<Rightarrow> int option" where
  "nextLoop e limit t =
     (if \<not> Year t \<le> limit then None
      else if \<not> anyYear e \<and> Year t \<notin> set (years e) then nextLoop e limit (Date (Year t + 1) 1 1 0 0)
      else if Month t \<notin> set (months e) then nextLoop e limit (Date (Year t) (Month t + 1) 1 0 0)
      else if \<not> dayMatches e t then nextLoop e limit (Date (Year t) (Month t) (Day t + 1) 0 0)
      else if Hour t \<notin> set (hours e) then nextLoop e limit (Date (Year t) (Month t) (Day t) (Hour t + 1) 0)
      else if Minute t \<notin> set (minutes e) then nextLoop e limit (t + 1)
      else Some t)"
  by pat_completeness auto

termination
proof (relation "measure (\<lambda>(e, limit, t). nat (Date (limit + 1) 1 1 0 0 - t))", goal_cases)
  case 1
  show ?case by simp
qed (use Year_bound next_year next_month next_day next_hour in \<open>auto simp: nat_less_eq_zless le_diff_eq less_le_trans\<close>)

declare nextLoop.simps [simp del]

definition Next :: "expression \<Rightarrow> int \<Rightarrow> int option" where
  "Next e after = map_option (\<lambda>t. t * nsPerMinute) (nextLoop e (yearLimit e) (after div nsPerMinute + 1))"

end
