(* ===== verification/EventsModel.thy ===== *)
theory EventsModel
  imports Bolt SeqKey Ident AwsJson AwsCron
begin

text \<open>
  The EventBridge store, \<^verbatim>\<open>eventbridge/store.go\<close> and the store half of \<^verbatim>\<open>eventbridge/archive.go\<close>: event buses,
  rules with their targets, archives with their event logs, and replays. The environment of a call holds
  the bbolt operations, the library parameters, the identity, the clock in nanoseconds, the printed clock,
  the ids drawn for new events, and \<^verbatim>\<open>json.Marshal\<close> of decoded values and of event documents (whose detail is
  a raw JSON text).
\<close>

record bus =
  busName :: string
  busTags :: "(string \<times> string) list"
  busDescription :: string
  DeadLetterARN :: string
  KmsKeyIdentifier :: string
  busPolicy :: string

record inputTransformer =
  PathsMap :: "(string \<times> string) list"
  Template :: string

record httpParameters =
  PathParameterValues :: "string list"
  HeaderParameters :: "(string \<times> string) list"
  QueryStringParameters :: "(string \<times> string) list"

record target =
  tgID :: string
  tgARN :: string
  tgInput :: string
  InputPath :: string
  InputTransformer :: "inputTransformer option"
  HttpParameters :: "httpParameters option"

record rule =
  ruleBus :: string
  ruleName :: string
  rulePattern :: string
  Schedule :: string
  ruleState :: string
  ruleDesc :: string
  RoleArn :: string
  Targets :: "target list"
  ruleTags :: "(string \<times> string) list"

record archive =
  arcName :: string
  arcSource :: string
  arcPattern :: string
  RetentionDays :: int
  arcDesc :: string
  arcState :: string
  CreationTime :: int
  EventCount :: int
  SizeBytes :: int

record replay =
  repName :: string
  repSource :: string
  DestinationArn :: string
  FilterArns :: "string list"
  EventStartTime :: int
  EventEndTime :: int
  repState :: string
  StateReason :: string
  StartTime :: int
  EndTime :: int
  LastEventTime :: int

record storedEvent =
  evTime :: int
  evJSON :: string

datatype evstored =
    BusRec bus | RuleRec rule | ArchiveRec archive | ReplayRec replay | EventRec storedEvent | EvUndecodable

datatype eventsError =
    EvValidation string
  | BusMissing string
  | BusExists string
  | RuleMissing string
  | RuleHasTargets
  | InvalidPattern patternError
  | ArchiveMissing string
  | ArchiveExists string
  | ReplayMissing string
  | ReplayExists string
  | IllegalStatus string
  | BadRecord
  | EvStoreFailure
  | ParserStops

record 'tx evenv =
  evbolt :: "('tx, evstored) bolt"
  evcron :: cron_ext
  evident :: identity
  evnow :: int
  isoNow :: string
  requestIDs :: "nat \<Rightarrow> string"
  marshalAny :: "anyv \<Rightarrow> string"
  marshalEvent :: "(string \<times> anyv) list \<Rightarrow> string \<Rightarrow> string"

abbreviation evlib :: "'tx evenv \<Rightarrow> go_ext" where
  "evlib E \<equiv> goLib (evcron E)"

definition busesBucket :: string where "busesBucket = ''buses''"
definition rulesBucket :: string where "rulesBucket = ''rules''"
definition archivesBucket :: string where "archivesBucket = ''archives''"
definition archiveEventsBucket :: string where "archiveEventsBucket = ''archive_events''"
definition replaysBucket :: string where "replaysBucket = ''replays''"

definition DefaultBus :: string where "DefaultBus = ''default''"

definition newBus :: "string \<Rightarrow> (string \<times> string) list \<Rightarrow> bus" where
  "newBus name tags = \<lparr>busName = name, busTags = tags, busDescription = [], DeadLetterARN = [], KmsKeyIdentifier = [], busPolicy = []\<rparr>"

definition ruleARN :: "identity \<Rightarrow> rule \<Rightarrow> string" where
  "ruleARN i r =
     (if ruleBus r = DefaultBus then ARN i ''events'' (''rule/'' @ ruleName r)
      else ARN i ''events'' (''rule/'' @ ruleBus r @ ''/'' @ ruleName r))"

definition busARN :: "identity \<Rightarrow> string \<Rightarrow> string" where
  "busARN i name = ARN i ''events'' (''event-bus/'' @ name)"

definition nul :: char where "nul = CHR 0x00"

definition ruleKey :: "string \<Rightarrow> string \<Rightarrow> string" where
  "ruleKey b name = b @ nul # name"

subsection \<open>Transactions\<close>

text \<open>Reading a key of a bucket that may be missing, its pairs under a prefix, and writing with the bucket created.\<close>

definition readKey :: "'tx evenv \<Rightarrow> 'tx \<Rightarrow> string \<Rightarrow> string \<Rightarrow> evstored option" where
  "readKey E tx b k = (if hasBucket (evbolt E) tx b then bucketGet (evbolt E) tx b k else None)"

definition readItems :: "'tx evenv \<Rightarrow> 'tx \<Rightarrow> string \<Rightarrow> (string \<times> evstored) list" where
  "readItems E tx b = (if hasBucket (evbolt E) tx b then bucketItems (evbolt E) tx b else [])"

definition underPrefix :: "'tx evenv \<Rightarrow> 'tx \<Rightarrow> string \<Rightarrow> string \<Rightarrow> (string \<times> evstored) list" where
  "underPrefix E tx b pre = filter (\<lambda>(k, _). prefix pre k) (readItems E tx b)"

definition putExisting :: "'tx evenv \<Rightarrow> 'tx \<Rightarrow> string \<Rightarrow> string \<Rightarrow> evstored \<Rightarrow> (eventsError + unit) \<times> 'tx" where
  "putExisting E tx b k v =
     (case bucketPut (evbolt E) tx b k v of None \<Rightarrow> (Inl EvStoreFailure, tx) | Some tx1 \<Rightarrow> (Inr (), tx1))"

definition putCreating ::
  "'tx evenv \<Rightarrow> 'tx \<Rightarrow> string \<Rightarrow> string \<Rightarrow> ('tx \<Rightarrow> eventsError + evstored) \<Rightarrow> (eventsError + unit) \<times> 'tx" where
  "putCreating E tx b k f =
     (case createBucket (evbolt E) tx b of
        None \<Rightarrow> (Inl EvStoreFailure, tx)
      | Some tx1 \<Rightarrow> (case f tx1 of Inl e \<Rightarrow> (Inl e, tx1) | Inr v \<Rightarrow> putExisting E tx1 b k v))"

definition dropPrefix :: "'tx evenv \<Rightarrow> 'tx \<Rightarrow> string \<Rightarrow> string \<Rightarrow> 'tx" where
  "dropPrefix E tx b pre = fold (\<lambda>(k, _) t. bucketDelete (evbolt E) t b k) (underPrefix E tx b pre) tx"

definition dropKey :: "'tx evenv \<Rightarrow> 'tx \<Rightarrow> string \<Rightarrow> string \<Rightarrow> 'tx" where
  "dropKey E tx b k = (if hasBucket (evbolt E) tx b then bucketDelete (evbolt E) tx b k else tx)"

subsection \<open>Buses\<close>

definition busExists :: "'tx evenv \<Rightarrow> 'tx \<Rightarrow> string \<Rightarrow> bool" where
  "busExists E tx name = (name = DefaultBus \<or> readKey E tx busesBucket name \<noteq> None)"

definition createBusIn :: "'tx evenv \<Rightarrow> string \<Rightarrow> (string \<times> string) list \<Rightarrow> 'tx \<Rightarrow> (eventsError + unit) \<times> 'tx" where
  "createBusIn E name tags tx =
     putCreating E tx busesBucket name
       (\<lambda>tx1. if readKey E tx1 busesBucket name \<noteq> None then Inl (BusExists name) else Inr (BusRec (newBus name tags)))"

definition CreateBus :: "'tx evenv \<Rightarrow> string \<Rightarrow> (string \<times> string) list \<Rightarrow> 'tx \<Rightarrow> (eventsError + unit) \<times> 'tx" where
  "CreateBus E name tags tx =
     (if name = [] \<or> name = DefaultBus \<or> (\<exists>c\<in>set name. c \<in> {CHR ''/'', CHR 0x5C, CHR '' ''}) then
        (Inl (EvValidation ''invalid event bus name''), tx)
      else Bolt.Update (createBusIn E name tags) tx)"

definition updateBusIn :: "'tx evenv \<Rightarrow> string \<Rightarrow> (bus \<Rightarrow> bus) \<Rightarrow> 'tx \<Rightarrow> (eventsError + unit) \<times> 'tx" where
  "updateBusIn E name fn tx =
     (case readKey E tx busesBucket name of
        None \<Rightarrow> (Inr (), tx)
      | Some (BusRec b) \<Rightarrow> putExisting E tx busesBucket name (BusRec (fn b))
      | Some _ \<Rightarrow> (Inl BadRecord, tx))"

definition UpdateBus :: "'tx evenv \<Rightarrow> string \<Rightarrow> (bus \<Rightarrow> bus) \<Rightarrow> 'tx \<Rightarrow> (eventsError + unit) \<times> 'tx" where
  "UpdateBus E name fn tx = Bolt.Update (updateBusIn E name fn) tx"

definition storedBus :: "'tx evenv \<Rightarrow> 'tx \<Rightarrow> string \<Rightarrow> eventsError + bus" where
  "storedBus E tx name =
     (case readKey E tx busesBucket name of
        None \<Rightarrow> Inr (newBus name [])
      | Some (BusRec b) \<Rightarrow> Inr b
      | Some _ \<Rightarrow> Inl BadRecord)"

definition mutateBusIn :: "'tx evenv \<Rightarrow> string \<Rightarrow> (bus \<Rightarrow> bus) \<Rightarrow> 'tx \<Rightarrow> (eventsError + unit) \<times> 'tx" where
  "mutateBusIn E name fn tx =
     (if \<not> busExists E tx name then (Inl (BusMissing name), tx)
      else putCreating E tx busesBucket name
             (\<lambda>tx1. case storedBus E tx1 name of Inl e \<Rightarrow> Inl e | Inr b \<Rightarrow> Inr (BusRec (fn b))))"

definition MutateBus :: "'tx evenv \<Rightarrow> string \<Rightarrow> (bus \<Rightarrow> bus) \<Rightarrow> 'tx \<Rightarrow> (eventsError + unit) \<times> 'tx" where
  "MutateBus E name fn tx = Bolt.Update (mutateBusIn E name fn) tx"

definition deleteBusIn :: "'tx evenv \<Rightarrow> string \<Rightarrow> 'tx \<Rightarrow> (eventsError + unit) \<times> 'tx" where
  "deleteBusIn E name tx =
     (Inr (), dropPrefix E (dropKey E tx busesBucket name) rulesBucket (name @ [nul]))"

definition DeleteBus :: "'tx evenv \<Rightarrow> string \<Rightarrow> 'tx \<Rightarrow> (eventsError + unit) \<times> 'tx" where
  "DeleteBus E name tx =
     (if name = DefaultBus then (Inl (EvValidation ''the default event bus cannot be deleted''), tx)
      else Bolt.Update (deleteBusIn E name) tx)"

definition decodedBuses :: "'tx evenv \<Rightarrow> 'tx \<Rightarrow> bus list" where
  "decodedBuses E tx = concat (map (\<lambda>(_, r). case r of BusRec b \<Rightarrow> [b] | _ \<Rightarrow> []) (readItems E tx busesBucket))"

definition addBus :: "bus list \<Rightarrow> bus \<Rightarrow> bus list" where
  "addBus out b = (if busName b = DefaultBus then out[0 := b] else out @ [b])"

definition ListBuses :: "'tx evenv \<Rightarrow> 'tx \<Rightarrow> bus list" where
  "ListBuses E tx = sort_key busName (foldl addBus [newBus DefaultBus []] (decodedBuses E tx))"

subsection \<open>Rules\<close>

definition keepTargets :: "rule \<Rightarrow> evstored option \<Rightarrow> rule" where
  "keepTargets r old =
     (case old of
        Some (RuleRec o1) \<Rightarrow>
          r\<lparr>Targets := Targets o1, ruleTags := (if ruleTags o1 \<noteq> [] \<and> ruleTags r = [] then ruleTags o1 else ruleTags r)\<rparr>
      | _ \<Rightarrow> r)"

definition putRuleIn :: "'tx evenv \<Rightarrow> rule \<Rightarrow> 'tx \<Rightarrow> (eventsError + unit) \<times> 'tx" where
  "putRuleIn E r tx =
     (if \<not> busExists E tx (ruleBus r) then (Inl (BusMissing (ruleBus r)), tx)
      else putCreating E tx rulesBucket (ruleKey (ruleBus r) (ruleName r))
             (\<lambda>tx1. Inr (RuleRec (keepTargets r (readKey E tx1 rulesBucket (ruleKey (ruleBus r) (ruleName r)))))))"

definition PutRule :: "'tx evenv \<Rightarrow> rule \<Rightarrow> 'tx \<Rightarrow> (eventsError + unit) \<times> 'tx" where
  "PutRule E r tx = Bolt.Update (putRuleIn E r) tx"

definition GetRule :: "'tx evenv \<Rightarrow> 'tx \<Rightarrow> string \<Rightarrow> string \<Rightarrow> eventsError + rule" where
  "GetRule E tx b name =
     (case readKey E tx rulesBucket (ruleKey b name) of
        None \<Rightarrow> Inl (RuleMissing name)
      | Some (RuleRec r) \<Rightarrow> Inr r
      | Some _ \<Rightarrow> Inl BadRecord)"

definition updateRuleIn :: "'tx evenv \<Rightarrow> string \<Rightarrow> string \<Rightarrow> (rule \<Rightarrow> rule) \<Rightarrow> 'tx \<Rightarrow> (eventsError + unit) \<times> 'tx" where
  "updateRuleIn E b name fn tx =
     (case GetRule E tx b name of
        Inl e \<Rightarrow> (Inl e, tx)
      | Inr r \<Rightarrow> putExisting E tx rulesBucket (ruleKey b name) (RuleRec (fn r)))"

definition UpdateRule :: "'tx evenv \<Rightarrow> string \<Rightarrow> string \<Rightarrow> (rule \<Rightarrow> rule) \<Rightarrow> 'tx \<Rightarrow> (eventsError + unit) \<times> 'tx" where
  "UpdateRule E b name fn tx = Bolt.Update (updateRuleIn E b name fn) tx"

definition deleteRuleIn :: "'tx evenv \<Rightarrow> string \<Rightarrow> string \<Rightarrow> 'tx \<Rightarrow> (eventsError + unit) \<times> 'tx" where
  "deleteRuleIn E b name tx =
     (case readKey E tx rulesBucket (ruleKey b name) of
        Some (RuleRec r) \<Rightarrow>
          if Targets r \<noteq> [] then (Inl RuleHasTargets, tx) else (Inr (), dropKey E tx rulesBucket (ruleKey b name))
      | _ \<Rightarrow> (Inr (), dropKey E tx rulesBucket (ruleKey b name)))"

definition DeleteRule :: "'tx evenv \<Rightarrow> string \<Rightarrow> string \<Rightarrow> 'tx \<Rightarrow> (eventsError + unit) \<times> 'tx" where
  "DeleteRule E b name tx = Bolt.Update (deleteRuleIn E b name) tx"

definition Rules :: "'tx evenv \<Rightarrow> 'tx \<Rightarrow> string \<Rightarrow> string \<Rightarrow> rule list" where
  "Rules E tx b pre =
     concat (map (\<lambda>(_, r). case r of RuleRec x \<Rightarrow> [x] | _ \<Rightarrow> []) (underPrefix E tx rulesBucket (b @ nul # pre)))"

subsection \<open>Archives\<close>

definition afterMark :: "string \<Rightarrow> string \<Rightarrow> string" where
  "afterMark mark s = (case afterFirst mark s of None \<Rightarrow> s | Some rest \<Rightarrow> rest)"

definition busFromArn :: "string \<Rightarrow> string" where "busFromArn arn = afterMark '':event-bus/'' arn"

text \<open>The refusal of a pattern that is given and does not parse.\<close>

definition badPattern :: "'tx evenv \<Rightarrow> string \<Rightarrow> eventsError option" where
  "badPattern E pat =
     (if pat = [] then None
      else case EventPattern.Parse (evlib E) pat of Inl e \<Rightarrow> Some (InvalidPattern e) | Inr _ \<Rightarrow> None)"

definition createArchiveIn :: "'tx evenv \<Rightarrow> archive \<Rightarrow> 'tx \<Rightarrow> (eventsError + unit) \<times> 'tx" where
  "createArchiveIn E a tx =
     (if \<not> busExists E tx (busFromArn (arcSource a)) then (Inl (BusMissing (busFromArn (arcSource a))), tx)
      else putCreating E tx archivesBucket (arcName a)
             (\<lambda>tx1. if readKey E tx1 archivesBucket (arcName a) \<noteq> None then Inl (ArchiveExists (arcName a)) else Inr (ArchiveRec a)))"

definition CreateArchive :: "'tx evenv \<Rightarrow> archive \<Rightarrow> 'tx \<Rightarrow> (eventsError + unit) \<times> 'tx" where
  "CreateArchive E a tx =
     (case badPattern E (arcPattern a) of
        Some e \<Rightarrow> (Inl e, tx)
      | None \<Rightarrow> Bolt.Update (createArchiveIn E a) tx)"

definition GetArchive :: "'tx evenv \<Rightarrow> 'tx \<Rightarrow> string \<Rightarrow> eventsError + archive" where
  "GetArchive E tx name =
     (case readKey E tx archivesBucket name of
        None \<Rightarrow> Inl (ArchiveMissing name)
      | Some (ArchiveRec a) \<Rightarrow> Inr a
      | Some _ \<Rightarrow> Inl BadRecord)"

definition ListArchives :: "'tx evenv \<Rightarrow> 'tx \<Rightarrow> string \<Rightarrow> string \<Rightarrow> archive list" where
  "ListArchives E tx namePrefix sourceArn =
     sort_key arcName (filter (\<lambda>a. (namePrefix \<noteq> [] \<longrightarrow> prefix namePrefix (arcName a)) \<and> (sourceArn \<noteq> [] \<longrightarrow> arcSource a = sourceArn))
       (concat (map (\<lambda>(_, r). case r of ArchiveRec a \<Rightarrow> [a] | _ \<Rightarrow> []) (readItems E tx archivesBucket))))"

definition updateArchiveIn ::
  "'tx evenv \<Rightarrow> string \<Rightarrow> (archive \<Rightarrow> eventsError + archive) \<Rightarrow> 'tx \<Rightarrow> (eventsError + unit) \<times> 'tx" where
  "updateArchiveIn E name fn tx =
     (case GetArchive E tx name of
        Inl e \<Rightarrow> (Inl e, tx)
      | Inr a \<Rightarrow> (case fn a of Inl e \<Rightarrow> (Inl e, tx) | Inr a1 \<Rightarrow> putExisting E tx archivesBucket name (ArchiveRec a1)))"

definition UpdateArchive ::
  "'tx evenv \<Rightarrow> string \<Rightarrow> (archive \<Rightarrow> eventsError + archive) \<Rightarrow> 'tx \<Rightarrow> (eventsError + unit) \<times> 'tx" where
  "UpdateArchive E name fn tx = Bolt.Update (updateArchiveIn E name fn) tx"

definition deleteArchiveIn :: "'tx evenv \<Rightarrow> string \<Rightarrow> 'tx \<Rightarrow> (eventsError + unit) \<times> 'tx" where
  "deleteArchiveIn E name tx =
     (Inr (), dropPrefix E (dropKey E tx archivesBucket name) archiveEventsBucket (name @ [nul]))"

definition DeleteArchive :: "'tx evenv \<Rightarrow> string \<Rightarrow> 'tx \<Rightarrow> (eventsError + unit) \<times> 'tx" where
  "DeleteArchive E name tx = Bolt.Update (deleteArchiveIn E name) tx"

definition eventKey :: "string \<Rightarrow> 64 word \<Rightarrow> string" where
  "eventKey name seq = name @ nul # seqKey seq"

definition appendIn :: "'tx evenv \<Rightarrow> string \<Rightarrow> int \<Rightarrow> string \<Rightarrow> 'tx \<Rightarrow> (eventsError + unit) \<times> 'tx" where
  "appendIn E name t event tx =
     (if readKey E tx archivesBucket name = None then (Inr (), tx)
      else case createBucket (evbolt E) tx archiveEventsBucket of
             None \<Rightarrow> (Inl EvStoreFailure, tx)
           | Some tx1 \<Rightarrow>
               let (seq, tx2) = nextSequence (evbolt E) tx1 archiveEventsBucket in
               (case bucketPut (evbolt E) tx2 archiveEventsBucket (eventKey name seq) (EventRec \<lparr>evTime = t, evJSON = event\<rparr>) of
                  None \<Rightarrow> (Inl EvStoreFailure, tx2)
                | Some tx3 \<Rightarrow>
                    (case readKey E tx3 archivesBucket name of
                       Some (ArchiveRec a) \<Rightarrow>
                         putExisting E tx3 archivesBucket name
                           (ArchiveRec (a\<lparr>EventCount := EventCount a + 1, SizeBytes := SizeBytes a + int (length event)\<rparr>))
                     | _ \<Rightarrow> (Inr (), tx3))))"

definition AppendArchiveEvent :: "'tx evenv \<Rightarrow> string \<Rightarrow> int \<Rightarrow> string \<Rightarrow> 'tx \<Rightarrow> (eventsError + unit) \<times> 'tx" where
  "AppendArchiveEvent E name t event tx = Bolt.Update (appendIn E name t event) tx"

text \<open>The events of an archive in a window, in the order of the log, for \<^verbatim>\<open>ReplayEvents\<close>.\<close>

definition archivedEvents :: "'tx evenv \<Rightarrow> 'tx \<Rightarrow> string \<Rightarrow> int \<Rightarrow> int \<Rightarrow> storedEvent list" where
  "archivedEvents E tx name start end =
     filter (\<lambda>ev. \<not> (start \<noteq> 0 \<and> evTime ev < start) \<and> \<not> (end \<noteq> 0 \<and> evTime ev > end))
       (concat (map (\<lambda>(_, r). case r of EventRec ev \<Rightarrow> [ev] | _ \<Rightarrow> []) (underPrefix E tx archiveEventsBucket (name @ [nul]))))"

definition ReplayEvents ::
  "'tx evenv \<Rightarrow> 'tx \<Rightarrow> string \<Rightarrow> int \<Rightarrow> int \<Rightarrow> (string \<Rightarrow> 's \<Rightarrow> 's) \<Rightarrow> 's \<Rightarrow> int \<times> int \<times> 's" where
  "ReplayEvents E tx name start end fn s =
     foldl (\<lambda>(count, latest, s) ev. (count + 1, if evTime ev > latest then evTime ev else latest, fn (evJSON ev) s))
       (0, 0, s) (archivedEvents E tx name start end)"

subsection \<open>Replays\<close>

definition putReplayIn :: "'tx evenv \<Rightarrow> replay \<Rightarrow> 'tx \<Rightarrow> (eventsError + unit) \<times> 'tx" where
  "putReplayIn E r tx =
     putCreating E tx replaysBucket (repName r)
       (\<lambda>tx1. if readKey E tx1 replaysBucket (repName r) \<noteq> None then Inl (ReplayExists (repName r)) else Inr (ReplayRec r))"

definition PutReplay :: "'tx evenv \<Rightarrow> replay \<Rightarrow> 'tx \<Rightarrow> (eventsError + unit) \<times> 'tx" where
  "PutReplay E r tx = Bolt.Update (putReplayIn E r) tx"

definition GetReplay :: "'tx evenv \<Rightarrow> 'tx \<Rightarrow> string \<Rightarrow> eventsError + replay" where
  "GetReplay E tx name =
     (case readKey E tx replaysBucket name of
        None \<Rightarrow> Inl (ReplayMissing name)
      | Some (ReplayRec r) \<Rightarrow> Inr r
      | Some _ \<Rightarrow> Inl BadRecord)"

definition ListReplays :: "'tx evenv \<Rightarrow> 'tx \<Rightarrow> string \<Rightarrow> replay list" where
  "ListReplays E tx namePrefix =
     sort_key repName (filter (\<lambda>r. namePrefix = [] \<or> prefix namePrefix (repName r))
       (concat (map (\<lambda>(_, x). case x of ReplayRec r \<Rightarrow> [r] | _ \<Rightarrow> []) (readItems E tx replaysBucket))))"

end
