(* ===== verification/EventsDeliver.thy ===== *)
theory EventsDeliver
  imports EventsModel
begin

text \<open>
  How EventBridge delivers (\<^verbatim>\<open>eventbridge/actions.go\<close>, \<^verbatim>\<open>patterncache.go\<close>, \<^verbatim>\<open>scheduler.go\<close> and the handlers of
  \<^verbatim>\<open>archive_actions.go\<close> that replay): matching events against the rules of a bus through a cache of compiled
  patterns, shaping the input of a target, archives, replays and schedules. A call of another service is
  recorded as a \<open>delivery\<close>, in the order of the calls; what the other service does with it is not modelled,
  and its failures are only logged.
\<close>

subsection \<open>Compiled patterns\<close>

type_synonym patternCache = "(string \<times> patternNode) list"

definition maxCachedPatterns :: nat where "maxCachedPatterns = 512"

definition compiled :: "go_ext \<Rightarrow> string \<Rightarrow> patternCache \<Rightarrow> (patternError + patternNode) \<times> patternCache" where
  "compiled G src m =
     (case map_of m src of
        Some p \<Rightarrow> (Inr p, m)
      | None \<Rightarrow>
          (case EventPattern.Parse G src of
             Inl e \<Rightarrow> (Inl e, m)
           | Inr p \<Rightarrow> (Inr p, (src, p) # (if length m \<ge> maxCachedPatterns then [] else m))))"

subsection \<open>Shaping the input of a target\<close>

definition TrimPrefix :: "string \<Rightarrow> string \<Rightarrow> string" where
  "TrimPrefix s p = (if prefix p s then drop (length p) s else s)"

definition decodeDoc :: "go_ext \<Rightarrow> string \<Rightarrow> anyv option" where
  "decodeDoc G event = (case parseJSON G event of None \<Rightarrow> None | Some j \<Rightarrow> decodeAny G j)"

fun walkPath :: "anyv \<Rightarrow> string list \<Rightarrow> anyv option" where
  "walkPath cur [] = Some cur"
| "walkPath cur (part # parts) =
     (case cur of
        AnyObj m \<Rightarrow> (case map_of m part of None \<Rightarrow> None | Some v \<Rightarrow> walkPath v parts)
      | _ \<Rightarrow> None)"

definition extractPath :: "go_ext \<Rightarrow> string \<Rightarrow> string \<Rightarrow> anyv option" where
  "extractPath G event path =
     (case decodeDoc G event of
        None \<Rightarrow> None
      | Some doc \<Rightarrow>
          let p = TrimPrefix (TrimPrefix path ''$'') ''.'' in
          if p = [] then Some doc else walkPath doc (splitOn (CHR ''.'') p))"

definition renderScalar :: "'tx evenv \<Rightarrow> anyv \<Rightarrow> string" where
  "renderScalar E v = (case v of AnyStr s \<Rightarrow> s | _ \<Rightarrow> marshalAny E v)"

text \<open>\<^verbatim>\<open>strings.ReplaceAll\<close> of a non-empty text.\<close>

function ReplaceAll :: "string \<Rightarrow> string \<Rightarrow> string \<Rightarrow> string" where
  "ReplaceAll s old new =
     (if s = [] \<or> old = [] then s
      else if prefix old s then new @ ReplaceAll (drop (length old) s) old new
      else hd s # ReplaceAll (tl s) old new)"
  by pat_completeness auto

termination by (relation "measure (\<lambda>(s, _, _). length s)") auto

declare ReplaceAll.simps [simp del]

definition fillTemplate :: "'tx evenv \<Rightarrow> string \<Rightarrow> inputTransformer \<Rightarrow> string" where
  "fillTemplate E event it =
     foldl (\<lambda>out (name, path).
         let v = (case extractPath (evlib E) event path of None \<Rightarrow> AnyStr [] | Some v \<Rightarrow> v)
         in ReplaceAll out (''<'' @ name @ ''>'') (renderScalar E v))
       (Template it) (PathsMap it)"

definition shapeInput :: "'tx evenv \<Rightarrow> target \<Rightarrow> string \<Rightarrow> string option" where
  "shapeInput E t event =
     (if tgInput t \<noteq> [] then Some (tgInput t)
      else if InputPath t \<noteq> [] then map_option (marshalAny E) (extractPath (evlib E) event (InputPath t))
      else case InputTransformer t of
             Some it \<Rightarrow> Some (fillTemplate E event it)
           | None \<Rightarrow> Some event)"

subsection \<open>Delivery\<close>

datatype delivery =
    ToSQS string string
  | ToLambda string string
  | ToSNS string string
  | ToLogs string string int string string
  | ToApiDestination rule target string

definition contains :: "string \<Rightarrow> string \<Rightarrow> bool" where
  "contains s part = (afterFirst part s \<noteq> None)"

definition afterLast :: "char \<Rightarrow> string \<Rightarrow> string" where
  "afterLast d s = rev (takeWhile (\<lambda>c. c \<noteq> d) (rev s))"

text \<open>The member \<^verbatim>\<open>id\<close> of an event, decoded into a struct: names match without case, the last one counts.\<close>

definition eventIDOf :: "go_ext \<Rightarrow> string \<Rightarrow> string" where
  "eventIDOf G event =
     (case parseJSON G event of
        Some (JObj kvs) \<Rightarrow>
          foldl (\<lambda>i (k, v). if EqualFold G k ''id'' then (case v of JStr s \<Rightarrow> s | _ \<Rightarrow> i) else i) [] kvs
      | _ \<Rightarrow> [])"

definition unixMilli :: "int \<Rightarrow> int" where "unixMilli t = t div 1000000"

definition dispatch :: "'tx evenv \<Rightarrow> rule \<Rightarrow> target \<Rightarrow> string \<Rightarrow> delivery option" where
  "dispatch E r t event =
     (case shapeInput E t event of
        None \<Rightarrow> None
      | Some payload \<Rightarrow>
          if contains (tgARN t) '':sqs:'' then Some (ToSQS (afterLast (CHR '':'') (tgARN t)) payload)
          else if contains (tgARN t) '':lambda:'' then Some (ToLambda (afterLast (CHR '':'') (tgARN t)) payload)
          else if contains (tgARN t) '':sns:'' then Some (ToSNS (tgARN t) payload)
          else if contains (tgARN t) '':logs:'' then
            (case afterFirst '':log-group:'' (tgARN t) of
               None \<Rightarrow> None
             | Some rest \<Rightarrow>
                 Some (ToLogs (TrimSuffix rest '':*'') (ruleName r) (unixMilli (evnow E)) payload (eventIDOf (evlib E) event)))
          else if contains (tgARN t) '':api-destination/'' then Some (ToApiDestination r t payload)
          else None)"

record 'tx evstate =
  evdb :: 'tx
  patterns :: patternCache
  sent :: "delivery list"

definition dispatchAll :: "'tx evenv \<Rightarrow> rule \<Rightarrow> string \<Rightarrow> 'tx evstate \<Rightarrow> 'tx evstate" where
  "dispatchAll E r event st =
     foldl (\<lambda>st t. case dispatch E r t event of None \<Rightarrow> st | Some d \<Rightarrow> st\<lparr>sent := sent st @ [d]\<rparr>) st (Targets r)"

definition offerRule :: "'tx evenv \<Rightarrow> string \<Rightarrow> anyv \<Rightarrow> string list option \<Rightarrow> 'tx evstate \<Rightarrow> rule \<Rightarrow> 'tx evstate" where
  "offerRule E event doc arns st r =
     (if ruleState r \<noteq> ''ENABLED'' \<or> rulePattern r = [] then st
      else if (case arns of None \<Rightarrow> False | Some as \<Rightarrow> ruleARN (evident E) r \<notin> set as) then st
      else
        let (res, m) = compiled (evlib E) (rulePattern r) (patterns st); st1 = st\<lparr>patterns := m\<rparr> in
        case res of
          Inl _ \<Rightarrow> st1
        | Inr pat \<Rightarrow> if match (evlib E) pat doc then dispatchAll E r event st1 else st1)"

definition matchAndDispatch :: "'tx evenv \<Rightarrow> string \<Rightarrow> string \<Rightarrow> string list option \<Rightarrow> 'tx evstate \<Rightarrow> 'tx evstate" where
  "matchAndDispatch E b event arns st =
     (case decodeDoc (evlib E) event of
        None \<Rightarrow> st
      | Some doc \<Rightarrow> foldl (offerRule E event doc arns) st (Rules E (evdb st) b []))"

subsection \<open>Archives\<close>

definition unixOf :: "int \<Rightarrow> int" where "unixOf t = t div 1000000000"

definition appendTo :: "'tx evenv \<Rightarrow> archive \<Rightarrow> string \<Rightarrow> 'tx evstate \<Rightarrow> 'tx evstate" where
  "appendTo E a event st = st\<lparr>evdb := snd (AppendArchiveEvent E (arcName a) (unixOf (evnow E)) event (evdb st))\<rparr>"

fun captureLoop :: "'tx evenv \<Rightarrow> string \<Rightarrow> archive list \<Rightarrow> 'tx evstate \<Rightarrow> 'tx evstate" where
  "captureLoop E event [] st = st"
| "captureLoop E event (a # as) st =
     (if arcState a \<noteq> ''ENABLED'' then captureLoop E event as st
      else if arcPattern a = [] then captureLoop E event as (appendTo E a event st)
      else
        let (res, m) = compiled (evlib E) (arcPattern a) (patterns st); st1 = st\<lparr>patterns := m\<rparr> in
        case res of
          Inl _ \<Rightarrow> captureLoop E event as st1
        | Inr pat \<Rightarrow>
            (case decodeDoc (evlib E) event of
               None \<Rightarrow> st1
             | Some doc \<Rightarrow>
                 if match (evlib E) pat doc then captureLoop E event as (appendTo E a event st1)
                 else captureLoop E event as st1))"

definition captureToArchives :: "'tx evenv \<Rightarrow> string \<Rightarrow> string \<Rightarrow> 'tx evstate \<Rightarrow> 'tx evstate" where
  "captureToArchives E b event st = captureLoop E event (ListArchives E (evdb st) [] (busARN (evident E) b)) st"

subsection \<open>PutEvents\<close>

definition RegionName :: "identity \<Rightarrow> string" where
  "RegionName i = Region (withDefaults i)"

definition eventMembers :: "'tx evenv \<Rightarrow> string \<Rightarrow> string \<Rightarrow> string \<Rightarrow> anyv \<Rightarrow> (string \<times> anyv) list" where
  "eventMembers E eid detailType source resources =
     [(''version'', AnyStr ''0''), (''id'', AnyStr eid), (''detail-type'', AnyStr detailType), (''source'', AnyStr source),
      (''account'', AnyStr (Account (evident E))), (''time'', AnyStr (isoNow E)), (''region'', AnyStr (RegionName (evident E))),
      (''resources'', resources)]"

definition entryResources :: "params \<Rightarrow> anyv" where
  "entryResources entry = (case map_of entry ''Resources'' of None \<Rightarrow> AnyArr [] | Some AnyNull \<Rightarrow> AnyArr [] | Some v \<Rightarrow> v)"

definition entryError :: "string \<Rightarrow> string \<Rightarrow> wire" where
  "entryError code msg = WObj [(''ErrorCode'', WStr code), (''ErrorMessage'', WStr msg)]"

definition entryBus :: "params \<Rightarrow> string" where
  "entryBus entry = (if Str entry ''EventBusName'' \<noteq> [] then Str entry ''EventBusName'' else DefaultBus)"

definition entryDetail :: "params \<Rightarrow> string" where
  "entryDetail entry = (if Str entry ''Detail'' = [] then ''{}'' else Str entry ''Detail'')"

definition entryEvent :: "'tx evenv \<Rightarrow> nat \<Rightarrow> params \<Rightarrow> string" where
  "entryEvent E n entry =
     marshalEvent E (eventMembers E (requestIDs E n) (Str entry ''DetailType'') (Str entry ''Source'') (entryResources entry))
       (entryDetail entry)"

definition putOneEvent :: "'tx evenv \<Rightarrow> nat \<Rightarrow> params \<Rightarrow> 'tx evstate \<Rightarrow> bool \<times> wire \<times> 'tx evstate" where
  "putOneEvent E n entry st =
     (if Str entry ''Source'' = [] \<or> Str entry ''DetailType'' = [] then
        (False, entryError ''ValidationException'' ''Source and DetailType are required'', st)
      else if parseJSON (evlib E) (entryDetail entry) = None then
        (False, entryError ''MalformedDetail'' ''Detail must be valid JSON'', st)
      else
        let event = entryEvent E n entry; st1 = matchAndDispatch E (entryBus entry) event None st
        in (True, WObj [(''EventId'', WStr (requestIDs E n))], captureToArchives E (entryBus entry) event st1))"

fun putEach :: "'tx evenv \<Rightarrow> nat \<Rightarrow> anyv list \<Rightarrow> 'tx evstate \<Rightarrow> wire list \<times> int \<times> 'tx evstate" where
  "putEach E n [] st = ([], 0, st)"
| "putEach E n (e # es) st =
     (let (ok, res, st1) = putOneEvent E n (case e of AnyObj m \<Rightarrow> m | _ \<Rightarrow> []) st;
          (rest, failed, st2) = putEach E (Suc n) es st1
      in (res # rest, (if ok then failed else failed + 1), st2))"

type_synonym 'tx evhandler = "'tx evenv \<Rightarrow> params \<Rightarrow> 'tx evstate \<Rightarrow> (eventsError + wire) \<times> 'tx evstate"

definition putEvents :: "'tx evhandler" where
  "putEvents E p st =
     (case map_of p ''Entries'' of
        Some (AnyArr es) \<Rightarrow>
          if es = [] \<or> length es > 10 then (Inl (EvValidation ''PutEvents accepts 1-10 entries''), st)
          else
            let (results, failed, st1) = putEach E 0 es st
            in (Inr (WObj [(''Entries'', WArr results), (''FailedEntryCount'', WInt failed)]), st1)
      | _ \<Rightarrow> (Inl (EvValidation ''PutEvents accepts 1-10 entries''), st))"

subsection \<open>Replays\<close>

definition pnum :: "go_ext \<Rightarrow> params \<Rightarrow> string \<Rightarrow> int option" where
  "pnum G p key = (case map_of p key of Some (AnyNum f) \<Rightarrow> Some (float64ToInt G f) | _ \<Rightarrow> None)"

definition archiveFromArn :: "string \<Rightarrow> string" where "archiveFromArn arn = afterMark '':archive/'' arn"

definition replayARN :: "identity \<Rightarrow> replay \<Rightarrow> string" where
  "replayARN i r = ARN i ''events'' (''replay/'' @ repName r)"

definition filterArns :: "params \<Rightarrow> string list option" where
  "filterArns dest =
     (case map_of dest ''FilterArns'' of
        Some (AnyArr fa) \<Rightarrow>
          if fa = [] then None else Some (remdups (concat (map (\<lambda>x. case x of AnyStr s \<Rightarrow> [s] | _ \<Rightarrow> []) fa)))
      | _ \<Rightarrow> None)"

definition newReplay :: "'tx evenv \<Rightarrow> string \<Rightarrow> string \<Rightarrow> string \<Rightarrow> string list option \<Rightarrow> int \<Rightarrow> int \<Rightarrow> int \<Rightarrow> int \<Rightarrow> replay" where
  "newReplay E name archiveArn busArn arns start end count latest =
     \<lparr>repName = name, repSource = archiveArn, DestinationArn = busArn, FilterArns = (case arns of None \<Rightarrow> [] | Some as \<Rightarrow> as),
      EventStartTime = start, EventEndTime = end, repState = ''COMPLETED'',
      StateReason = ''Replayed '' @ intStr count @ '' event(s)'', StartTime = unixOf (evnow E), EndTime = unixOf (evnow E),
      LastEventTime = latest\<rparr>"

definition startReplay :: "'tx evhandler" where
  "startReplay E p st =
     (let name = Str p ''ReplayName''; archiveArn = Str p ''EventSourceArn''; arc = archiveFromArn archiveArn in
      if name = [] then (Inl (EvValidation ''ReplayName is required''), st)
      else case GetArchive E (evdb st) arc of
             Inl e \<Rightarrow> (Inl e, st)
           | Inr _ \<Rightarrow>
               (case map_of p ''Destination'' of
                  Some (AnyObj dest) \<Rightarrow>
                    let busArn = Str dest ''Arn''; arns = filterArns dest;
                        start = (case pnum (evlib E) p ''EventStartTime'' of None \<Rightarrow> 0 | Some n \<Rightarrow> n);
                        end = (case pnum (evlib E) p ''EventEndTime'' of None \<Rightarrow> 0 | Some n \<Rightarrow> n);
                        (count, latest, st1) =
                          ReplayEvents E (evdb st) arc start end (\<lambda>ev s. matchAndDispatch E (busFromArn busArn) ev arns s) st;
                        r = newReplay E name archiveArn busArn arns start end count latest
                    in (case PutReplay E r (evdb st1) of
                          (Inl e, tx) \<Rightarrow> (Inl e, st1\<lparr>evdb := tx\<rparr>)
                        | (Inr _, tx) \<Rightarrow>
                            (Inr (WObj [(''ReplayArn'', WStr (replayARN (evident E) r)), (''State'', WStr (repState r)),
                               (''StateReason'', WStr (StateReason r)),
                               (''ReplayStartTime'', WFloat (float64OfInt (evlib E) (unixOf (evnow E))))]), st1\<lparr>evdb := tx\<rparr>))
                | _ \<Rightarrow> (Inl (EvValidation ''Destination is required''), st)))"

subsection \<open>Schedules\<close>

definition nsPerHour :: int where "nsPerHour = 60 * nsPerMinute"

definition parseRate :: "cron_ext \<Rightarrow> string \<Rightarrow> int option" where
  "parseRate G expr =
     (case CutPrefix (TrimSpace (goLib G) expr) ''rate('' of
        None \<Rightarrow> None
      | Some inner \<Rightarrow>
          if \<not> HasSuffix inner '')'' then None
          else case Fields G (TrimSuffix inner '')'') of
                 [num, u] \<Rightarrow>
                   (case ParseInt64 num of
                      None \<Rightarrow> None
                    | Some n \<Rightarrow>
                        if n \<le> 0 then None
                        else
                          let low = ToLower (goLib G) u; plural = HasSuffix low ''s''; base = TrimSuffix low ''s'' in
                          if plural \<noteq> (n > 1) then None
                          else if base = ''minute'' then Some (wrap64 (n * nsPerMinute))
                          else if base = ''hour'' then Some (wrap64 (n * nsPerHour))
                          else if base = ''day'' then Some (wrap64 (wrap64 (n * 24) * nsPerHour))
                          else None)
               | _ \<Rightarrow> None)"

type_synonym exprCache = "(string \<times> expression) list"

text \<open>\<open>None\<close>: the parser of cron expressions does not return, or panics.\<close>

definition nextFire :: "cron_ext \<Rightarrow> string \<Rightarrow> int \<Rightarrow> exprCache \<Rightarrow> (int option \<times> exprCache) option" where
  "nextFire G schedule lastAt m =
     (case parseRate G schedule of
        Some interval \<Rightarrow> Some (Some (lastAt + interval), m)
      | None \<Rightarrow>
          (case map_of m schedule of
             Some e \<Rightarrow> Some (Next e lastAt, m)
           | None \<Rightarrow>
               (case AwsCron.Parse G schedule of
                  None \<Rightarrow> None
                | Some (Inl IndexPanic) \<Rightarrow> None
                | Some (Inl _) \<Rightarrow> Some (None, m)
                | Some (Inr e) \<Rightarrow> Some (Next e lastAt, (schedule, e) # m))))"

record scheduler =
  lastFired :: "(string \<times> int) list"
  exprs :: exprCache

definition fireScheduled :: "'tx evenv \<Rightarrow> nat \<Rightarrow> rule \<Rightarrow> 'tx evstate \<Rightarrow> 'tx evstate" where
  "fireScheduled E n r st =
     dispatchAll E r
       (marshalEvent E (eventMembers E (requestIDs E n) ''Scheduled Event'' ''aws.events''
          (AnyArr [AnyStr (ARN (evident E) ''events'' (''rule/'' @ ruleName r))])) ''{}'') st"

definition scheduled :: "rule \<Rightarrow> bool" where
  "scheduled r = (ruleState r = ''ENABLED'' \<and> Schedule r \<noteq> [])"

definition tickRule ::
  "'tx evenv \<Rightarrow> string \<Rightarrow> rule \<Rightarrow> nat \<Rightarrow> scheduler \<Rightarrow> 'tx evstate \<Rightarrow> (scheduler \<times> 'tx evstate) option" where
  "tickRule E key r n sc st =
     (case map_of (lastFired sc) key of
        None \<Rightarrow> Some (sc\<lparr>lastFired := AList.update key (evnow E) (lastFired sc)\<rparr>, st)
      | Some lastAt \<Rightarrow>
          (case nextFire (evcron E) (Schedule r) lastAt (exprs sc) of
             None \<Rightarrow> None
           | Some (None, m) \<Rightarrow> Some (sc\<lparr>exprs := m\<rparr>, st)
           | Some (Some t, m) \<Rightarrow>
               if t > evnow E then Some (sc\<lparr>exprs := m\<rparr>, st)
               else Some (sc\<lparr>exprs := m, lastFired := AList.update key (evnow E) (lastFired sc)\<rparr>, fireScheduled E n r st)))"

fun tickRules ::
  "'tx evenv \<Rightarrow> (string \<times> rule) list \<Rightarrow> nat \<Rightarrow> scheduler \<Rightarrow> 'tx evstate \<Rightarrow> (scheduler \<times> 'tx evstate) option" where
  "tickRules E [] n sc st = Some (sc, st)"
| "tickRules E ((key, r) # rs) n sc st =
     (case tickRule E key r n sc st of None \<Rightarrow> None | Some (sc1, st1) \<Rightarrow> tickRules E rs (Suc n) sc1 st1)"

definition armedRules :: "'tx evenv \<Rightarrow> 'tx \<Rightarrow> (string \<times> rule) list" where
  "armedRules E tx =
     concat (map (\<lambda>b. map (\<lambda>r. (busName b @ nul # ruleName r, r)) (filter scheduled (Rules E tx (busName b) [])))
       (ListBuses E tx))"

text \<open>One tick; the number of rules seen decides the cadence of the next.\<close>

definition fireDueSchedules ::
  "'tx evenv \<Rightarrow> scheduler \<Rightarrow> 'tx evstate \<Rightarrow> (nat \<times> scheduler \<times> 'tx evstate) option" where
  "fireDueSchedules E sc st =
     (let armed = armedRules E (evdb st) in
      case tickRules E armed 0 sc st of
        None \<Rightarrow> None
      | Some (sc1, st1) \<Rightarrow>
          Some (length armed,
            sc1\<lparr>lastFired := filter (\<lambda>(key, _). key \<in> fst ` set armed) (lastFired sc1)\<rparr>, st1))"

end
