(* ===== verification/EventsHandlers.thy ===== *)
theory EventsHandlers
  imports EventsDeliver
begin

text \<open>
  The EventBridge API (\<^verbatim>\<open>eventbridge/actions.go\<close>, \<^verbatim>\<open>eventbridge/archive_actions.go\<close>): the handlers of events, rules,
  targets, buses, tags, archives and replays on decoded parameters. Connections and API destinations are
  not modelled. Where Go ranges over a map to build a response, the order of the list is one of its orders.
\<close>

definition onStore :: "('tx \<Rightarrow> (eventsError + 'a) \<times> 'tx) \<Rightarrow> 'tx evstate \<Rightarrow> (eventsError + 'a) \<times> 'tx evstate" where
  "onStore f st = (let (res, tx) = f (evdb st) in (res, st\<lparr>evdb := tx\<rparr>))"

definition busOrDefault :: "params \<Rightarrow> string" where
  "busOrDefault p =
     (let b = Str p ''EventBusName'' in
      if b \<noteq> [] then (if CHR ''/'' \<in> set b \<and> HasPrefix b ''arn:'' then afterLast (CHR ''/'') b else b)
      else DefaultBus)"

subsection \<open>Rules\<close>

text \<open>The check of a schedule: \<open>None\<close> when the parser of cron expressions does not return or panics.\<close>

definition scheduleOk :: "cron_ext \<Rightarrow> string \<Rightarrow> bool option" where
  "scheduleOk G schedule =
     (if parseRate G schedule \<noteq> None then Some True
      else case AwsCron.Parse G schedule of
             None \<Rightarrow> None
           | Some (Inl IndexPanic) \<Rightarrow> None
           | Some (Inl _) \<Rightarrow> Some False
           | Some (Inr _) \<Rightarrow> Some True)"

definition checkSchedule :: "'tx evenv \<Rightarrow> params \<Rightarrow> string \<Rightarrow> eventsError option" where
  "checkSchedule E p schedule =
     (if schedule = [] then None
      else if busOrDefault p \<noteq> DefaultBus then
        Some (EvValidation ''ScheduleExpression is supported only on the default event bus.'')
      else case scheduleOk (evcron E) schedule of
             None \<Rightarrow> Some ParserStops
           | Some True \<Rightarrow> None
           | Some False \<Rightarrow> Some (EvValidation ''Parameter ScheduleExpression is not valid.''))"

definition ruleOf :: "params \<Rightarrow> rule" where
  "ruleOf p =
     \<lparr>ruleBus = busOrDefault p, ruleName = Str p ''Name'', rulePattern = Str p ''EventPattern'', Schedule = Str p ''ScheduleExpression'',
      ruleState = (if Str p ''State'' = [] then ''ENABLED'' else Str p ''State''), ruleDesc = Str p ''Description'',
      RoleArn = Str p ''RoleArn'', Targets = [], ruleTags = []\<rparr>"

definition putRule :: "'tx evhandler" where
  "putRule E p st =
     (let r = ruleOf p in
      if ruleName r = [] then (Inl (EvValidation ''Name is required''), st)
      else if rulePattern r = [] \<and> Schedule r = [] then
        (Inl (EvValidation ''either EventPattern or ScheduleExpression is required''), st)
      else case badPattern E (rulePattern r) of
             Some e \<Rightarrow> (Inl e, st)
           | None \<Rightarrow>
               (case checkSchedule E p (Schedule r) of
                  Some e \<Rightarrow> (Inl e, st)
                | None \<Rightarrow> answer (\<lambda>_. WObj [(''RuleArn'', WStr (ruleARN (evident E) r))]) (onStore (PutRule E r) st)))"

definition deleteRule :: "'tx evhandler" where
  "deleteRule E p st = answer (\<lambda>_. WNull) (onStore (DeleteRule E (busOrDefault p) (Str p ''Name'')) st)"

definition optional :: "string \<Rightarrow> string \<Rightarrow> (string \<times> wire) list" where
  "optional key s = (if s = [] then [] else [(key, WStr s)])"

definition ruleView :: "identity \<Rightarrow> rule \<Rightarrow> wire" where
  "ruleView i r =
     WObj ([(''Name'', WStr (ruleName r)), (''Arn'', WStr (ruleARN i r)), (''State'', WStr (ruleState r)),
        (''EventBusName'', WStr (ruleBus r))] @ optional ''EventPattern'' (rulePattern r) @
        optional ''ScheduleExpression'' (Schedule r) @ optional ''Description'' (ruleDesc r) @ optional ''RoleArn'' (RoleArn r))"

definition reading :: "('a \<Rightarrow> wire) \<Rightarrow> eventsError + 'a \<Rightarrow> 'tx evstate \<Rightarrow> (eventsError + wire) \<times> 'tx evstate" where
  "reading f r st = (case r of Inl e \<Rightarrow> (Inl e, st) | Inr a \<Rightarrow> (Inr (f a), st))"

definition describeRule :: "'tx evhandler" where
  "describeRule E p st = reading (ruleView (evident E)) (GetRule E (evdb st) (busOrDefault p) (Str p ''Name'')) st"

definition listRules :: "'tx evhandler" where
  "listRules E p st =
     (Inr (WObj [(''Rules'', WArr (map (ruleView (evident E)) (Rules E (evdb st) (busOrDefault p) (Str p ''NamePrefix''))))]), st)"

definition setState :: "string \<Rightarrow> 'tx evhandler" where
  "setState s E p st =
     answer (\<lambda>_. WNull) (onStore (UpdateRule E (busOrDefault p) (Str p ''Name'') (\<lambda>r. r\<lparr>ruleState := s\<rparr>)) st)"

definition enableRule :: "'tx evhandler" where "enableRule = setState ''ENABLED''"
definition disableRule :: "'tx evhandler" where "disableRule = setState ''DISABLED''"

subsection \<open>Targets\<close>

definition objectAt :: "params \<Rightarrow> string \<Rightarrow> params option" where
  "objectAt p key = (case map_of p key of Some (AnyObj m) \<Rightarrow> Some m | _ \<Rightarrow> None)"

definition arrayAt :: "params \<Rightarrow> string \<Rightarrow> anyv list" where
  "arrayAt p key = (case map_of p key of Some (AnyArr vs) \<Rightarrow> vs | _ \<Rightarrow> [])"

definition asObject :: "anyv \<Rightarrow> params" where
  "asObject v = (case v of AnyObj m \<Rightarrow> m | _ \<Rightarrow> [])"

definition transformerOf :: "params \<Rightarrow> inputTransformer" where
  "transformerOf it = \<lparr>PathsMap = StrMap it ''InputPathsMap'', Template = Str it ''InputTemplate''\<rparr>"

definition parseTargetHTTPParameters :: "params \<Rightarrow> httpParameters" where
  "parseTargetHTTPParameters hp =
     \<lparr>PathParameterValues = Strs hp ''PathParameterValues'', HeaderParameters = StrMap hp ''HeaderParameters'',
      QueryStringParameters = StrMap hp ''QueryStringParameters''\<rparr>"

definition targetOf :: "params \<Rightarrow> target" where
  "targetOf tm =
     \<lparr>tgID = Str tm ''Id'', tgARN = Str tm ''Arn'', tgInput = Str tm ''Input'', InputPath = Str tm ''InputPath'',
      InputTransformer = map_option transformerOf (objectAt tm ''InputTransformer''),
      HttpParameters = map_option parseTargetHTTPParameters (objectAt tm ''HttpParameters'')\<rparr>"

fun putTarget :: "target \<Rightarrow> target list \<Rightarrow> target list" where
  "putTarget nt [] = [nt]"
| "putTarget nt (t # ts) = (if tgID t = tgID nt then nt # ts else t # putTarget nt ts)"

fun removeTarget :: "string \<Rightarrow> target list \<Rightarrow> target list" where
  "removeTarget i [] = []"
| "removeTarget i (t # ts) = (if tgID t = i then ts else t # removeTarget i ts)"

definition noFailures :: wire where
  "noFailures = WObj [(''FailedEntryCount'', WInt 0), (''FailedEntries'', WArr [])]"

definition putTargets :: "'tx evhandler" where
  "putTargets E p st =
     (let targets = map (\<lambda>t. targetOf (asObject t)) (arrayAt p ''Targets'') in
      if targets = [] then (Inl (EvValidation ''Targets is required''), st)
      else if \<exists>t\<in>set targets. tgID t = [] \<or> tgARN t = [] then (Inl (EvValidation ''each target needs Id and Arn''), st)
      else answer (\<lambda>_. noFailures)
             (onStore (UpdateRule E (busOrDefault p) (Str p ''Rule'') (\<lambda>r. r\<lparr>Targets := fold putTarget targets (Targets r)\<rparr>)) st))"

definition removeTargets :: "'tx evhandler" where
  "removeTargets E p st =
     (let ids = map (\<lambda>v. case v of AnyStr s \<Rightarrow> s | _ \<Rightarrow> []) (arrayAt p ''Ids'') in
      answer (\<lambda>_. noFailures)
        (onStore (UpdateRule E (busOrDefault p) (Str p ''Rule'') (\<lambda>r. r\<lparr>Targets := fold removeTarget ids (Targets r)\<rparr>)) st))"

definition strMapWire :: "(string \<times> string) list \<Rightarrow> wire" where
  "strMapWire m = WObj (map (\<lambda>(k, v). (k, WStr v)) m)"

definition targetHTTPParametersView :: "httpParameters \<Rightarrow> wire" where
  "targetHTTPParametersView hp =
     WObj ((if PathParameterValues hp \<noteq> [] then [(''PathParameterValues'', WArr (map WStr (PathParameterValues hp)))] else []) @
       (if HeaderParameters hp \<noteq> [] then [(''HeaderParameters'', strMapWire (HeaderParameters hp))] else []) @
       (if QueryStringParameters hp \<noteq> [] then [(''QueryStringParameters'', strMapWire (QueryStringParameters hp))] else []))"

definition targetView :: "target \<Rightarrow> wire" where
  "targetView t =
     WObj ([(''Id'', WStr (tgID t)), (''Arn'', WStr (tgARN t))] @ optional ''Input'' (tgInput t) @ optional ''InputPath'' (InputPath t) @
       (case InputTransformer t of
          None \<Rightarrow> []
        | Some it \<Rightarrow> [(''InputTransformer'', WObj [(''InputTemplate'', WStr (Template it)), (''InputPathsMap'', strMapWire (PathsMap it))])]) @
       (case HttpParameters t of None \<Rightarrow> [] | Some hp \<Rightarrow> [(''HttpParameters'', targetHTTPParametersView hp)]))"

definition listTargetsByRule :: "'tx evhandler" where
  "listTargetsByRule E p st =
     reading (\<lambda>r. WObj [(''Targets'', WArr (map targetView (Targets r)))]) (GetRule E (evdb st) (busOrDefault p) (Str p ''Rule'')) st"

definition listRuleNamesByTarget :: "'tx evhandler" where
  "listRuleNamesByTarget E p st =
     (Inr (WObj [(''RuleNames'', WArr (map (\<lambda>r. WStr (ruleName r))
        (filter (\<lambda>r. \<exists>t\<in>set (Targets r). tgARN t = Str p ''TargetArn'') (Rules E (evdb st) (busOrDefault p) []))))]), st)"

subsection \<open>Buses\<close>

definition busSettings :: "params \<Rightarrow> bus \<Rightarrow> bus" where
  "busSettings p b =
     b\<lparr>busDescription := Str p ''Description'', KmsKeyIdentifier := Str p ''KmsKeyIdentifier'',
       DeadLetterARN := (case objectAt p ''DeadLetterConfig'' of None \<Rightarrow> DeadLetterARN b | Some dlq \<Rightarrow> Str dlq ''Arn'')\<rparr>"

definition createEventBus :: "'tx evhandler" where
  "createEventBus E p st =
     (let name = Str p ''Name'' in
      case onStore (CreateBus E name []) st of
        (Inl e, st1) \<Rightarrow> (Inl e, st1)
      | (Inr _, st1) \<Rightarrow>
          answer (\<lambda>_. WObj [(''EventBusArn'', WStr (busARN (evident E) name))]) (onStore (UpdateBus E name (busSettings p)) st1))"

definition deleteEventBus :: "'tx evhandler" where
  "deleteEventBus E p st = answer (\<lambda>_. WNull) (onStore (DeleteBus E (Str p ''Name'')) st)"

definition nameOrDefault :: "params \<Rightarrow> string" where
  "nameOrDefault p = (if Str p ''Name'' = [] then DefaultBus else Str p ''Name'')"

definition updateEventBus :: "'tx evhandler" where
  "updateEventBus E p st =
     (let name = nameOrDefault p in
      if name \<notin> busName ` set (ListBuses E (evdb st)) then (Inl (BusMissing name), st)
      else answer (\<lambda>_. WObj ([(''Name'', WStr name), (''Arn'', WStr (busARN (evident E) name))] @
                 optional ''Description'' (Str p ''Description'') @ optional ''KmsKeyIdentifier'' (Str p ''KmsKeyIdentifier'')))
             (onStore (UpdateBus E name (\<lambda>b. busSettings p (b\<lparr>DeadLetterARN := []\<rparr>))) st))"

definition busView :: "identity \<Rightarrow> bus \<Rightarrow> wire" where
  "busView i b =
     WObj ([(''Name'', WStr (busName b)), (''Arn'', WStr (busARN i (busName b)))] @ optional ''Description'' (busDescription b) @
       optional ''KmsKeyIdentifier'' (KmsKeyIdentifier b) @
       (if DeadLetterARN b \<noteq> [] then [(''DeadLetterConfig'', WObj [(''Arn'', WStr (DeadLetterARN b))])] else []) @
       optional ''Policy'' (busPolicy b))"

definition describeEventBus :: "'tx evhandler" where
  "describeEventBus E p st =
     (case find (\<lambda>b. busName b = nameOrDefault p) (ListBuses E (evdb st)) of
        Some b \<Rightarrow> (Inr (busView (evident E) b), st)
      | None \<Rightarrow> (Inl (BusMissing (nameOrDefault p)), st))"

definition listEventBuses :: "'tx evhandler" where
  "listEventBuses E p st =
     (Inr (WObj [(''EventBuses'', WArr (map (\<lambda>b. WObj [(''Name'', WStr (busName b)), (''Arn'', WStr (busARN (evident E) (busName b)))])
        (ListBuses E (evdb st))))]), st)"

definition testEventPattern :: "'tx evhandler" where
  "testEventPattern E p st =
     (case EventPattern.Parse (evlib E) (Str p ''EventPattern'') of
        Inl e \<Rightarrow> (Inl (InvalidPattern e), st)
      | Inr pat \<Rightarrow>
          (case Match (evlib E) pat (Str p ''Event'') of
             None \<Rightarrow> (Inl (EvValidation ''event is not valid JSON''), st)
           | Some b \<Rightarrow> (Inr (WObj [(''Result'', WBool b)]), st)))"

subsection \<open>Tags\<close>

definition busFromARN :: "string \<Rightarrow> string option" where "busFromARN arn = afterFirst '':event-bus/'' arn"

definition ruleFromARN :: "string \<Rightarrow> eventsError + string \<times> string" where
  "ruleFromARN arn =
     (case afterFirst '':rule/'' arn of
        None \<Rightarrow> Inl (EvValidation ''not the ARN of a rule or an event bus'')
      | Some rest \<Rightarrow>
          (case cutAt (\<lambda>c. c = CHR ''/'') rest of
             (b, Some n) \<Rightarrow> Inr (b, n)
           | (_, None) \<Rightarrow> Inr (DefaultBus, rest)))"

definition addTagList :: "anyv list \<Rightarrow> (string \<times> string) list \<Rightarrow> (string \<times> string) list" where
  "addTagList raw tags =
     foldl (\<lambda>m tr. let tm = asObject tr in if Str tm ''Key'' \<noteq> [] then AList.update (Str tm ''Key'') (Str tm ''Value'') m else m) tags raw"

definition dropTagList :: "string list \<Rightarrow> (string \<times> string) list \<Rightarrow> (string \<times> string) list" where
  "dropTagList keys tags = foldl (\<lambda>m k. AList.delete k m) tags keys"

definition changeTags :: "((string \<times> string) list \<Rightarrow> (string \<times> string) list) \<Rightarrow> 'tx evhandler" where
  "changeTags f E p st =
     (case busFromARN (Str p ''ResourceARN'') of
        Some b \<Rightarrow> answer (\<lambda>_. WNull) (onStore (MutateBus E b (\<lambda>x. x\<lparr>busTags := f (busTags x)\<rparr>)) st)
      | None \<Rightarrow>
          (case ruleFromARN (Str p ''ResourceARN'') of
             Inl e \<Rightarrow> (Inl e, st)
           | Inr (b, name) \<Rightarrow> answer (\<lambda>_. WNull) (onStore (UpdateRule E b name (\<lambda>r. r\<lparr>ruleTags := f (ruleTags r)\<rparr>)) st)))"

definition tagResource :: "'tx evhandler" where
  "tagResource E p st = changeTags (addTagList (arrayAt p ''Tags'')) E p st"

definition untagResource :: "'tx evhandler" where
  "untagResource E p st = changeTags (dropTagList (Strs p ''TagKeys'')) E p st"

definition tagsWire :: "(string \<times> string) list \<Rightarrow> wire" where
  "tagsWire have =
     WObj [(''Tags'', WArr (map (\<lambda>k. WObj [(''Key'', WStr k), (''Value'', WStr (case map_of have k of None \<Rightarrow> [] | Some v \<Rightarrow> v))])
       (sort (map fst have))))]"

definition tagsOfBus :: "'tx evenv \<Rightarrow> 'tx \<Rightarrow> string \<Rightarrow> (string \<times> string) list" where
  "tagsOfBus E tx name = (case storedBus E tx name of Inr b \<Rightarrow> busTags b | Inl _ \<Rightarrow> [])"

text \<open>Reading the tags of a bus goes through the mutation, which stores the bus.\<close>

definition listTagsForResource :: "'tx evhandler" where
  "listTagsForResource E p st =
     (case busFromARN (Str p ''ResourceARN'') of
        Some b \<Rightarrow> answer (\<lambda>_. tagsWire (tagsOfBus E (evdb st) b)) (onStore (MutateBus E b (\<lambda>x. x)) st)
      | None \<Rightarrow>
          (case ruleFromARN (Str p ''ResourceARN'') of
             Inl e \<Rightarrow> (Inl e, st)
           | Inr (b, name) \<Rightarrow> reading (\<lambda>r. tagsWire (ruleTags r)) (GetRule E (evdb st) b name) st))"

subsection \<open>Archives and replays\<close>

definition archiveARN :: "identity \<Rightarrow> archive \<Rightarrow> string" where
  "archiveARN i a = ARN i ''events'' (''archive/'' @ arcName a)"

definition floatWire :: "'tx evenv \<Rightarrow> int \<Rightarrow> wire" where
  "floatWire E n = WFloat (float64OfInt (evlib E) n)"

definition archiveAnswer :: "'tx evenv \<Rightarrow> archive \<Rightarrow> wire" where
  "archiveAnswer E a =
     WObj [(''ArchiveArn'', WStr (archiveARN (evident E) a)), (''State'', WStr (arcState a)), (''CreationTime'', floatWire E (CreationTime a))]"

definition newArchive :: "'tx evenv \<Rightarrow> params \<Rightarrow> archive" where
  "newArchive E p =
     \<lparr>arcName = Str p ''ArchiveName'', arcSource = Str p ''EventSourceArn'', arcPattern = Str p ''EventPattern'',
      RetentionDays = (case pnum (evlib E) p ''RetentionDays'' of None \<Rightarrow> 0 | Some n \<Rightarrow> n), arcDesc = Str p ''Description'',
      arcState = ''ENABLED'', CreationTime = unixOf (evnow E), EventCount = 0, SizeBytes = 0\<rparr>"

definition createArchive :: "'tx evhandler" where
  "createArchive E p st =
     (let a = newArchive E p in
      if arcName a = [] then (Inl (EvValidation ''ArchiveName is required''), st)
      else if arcSource a = [] then (Inl (EvValidation ''EventSourceArn is required''), st)
      else answer (\<lambda>_. archiveAnswer E a) (onStore (CreateArchive E a) st))"

definition archiveView :: "'tx evenv \<Rightarrow> archive \<Rightarrow> wire" where
  "archiveView E a =
     WObj ([(''ArchiveName'', WStr (arcName a)), (''ArchiveArn'', WStr (archiveARN (evident E) a)), (''EventSourceArn'', WStr (arcSource a)),
        (''State'', WStr (arcState a)), (''RetentionDays'', floatWire E (RetentionDays a)), (''SizeBytes'', floatWire E (SizeBytes a)),
        (''EventCount'', floatWire E (EventCount a)), (''CreationTime'', floatWire E (CreationTime a))] @
        optional ''EventPattern'' (arcPattern a) @ optional ''Description'' (arcDesc a))"

definition describeArchive :: "'tx evhandler" where
  "describeArchive E p st = reading (archiveView E) (GetArchive E (evdb st) (Str p ''ArchiveName'')) st"

definition listArchives :: "'tx evhandler" where
  "listArchives E p st =
     (Inr (WObj [(''Archives'', WArr (map (archiveView E) (ListArchives E (evdb st) (Str p ''NamePrefix'') (Str p ''EventSourceArn''))))]), st)"

definition changeArchive :: "'tx evenv \<Rightarrow> params \<Rightarrow> archive \<Rightarrow> eventsError + archive" where
  "changeArchive E p a =
     (case badPattern E (Str p ''EventPattern'') of
        Some e \<Rightarrow> Inl e
      | None \<Rightarrow>
          let a1 = (if Str p ''EventPattern'' \<noteq> [] then a\<lparr>arcPattern := Str p ''EventPattern''\<rparr> else a);
              a2 = (if Str p ''Description'' \<noteq> [] then a1\<lparr>arcDesc := Str p ''Description''\<rparr> else a1)
          in Inr (case pnum (evlib E) p ''RetentionDays'' of None \<Rightarrow> a2 | Some n \<Rightarrow> a2\<lparr>RetentionDays := n\<rparr>))"

definition updateArchive :: "'tx evhandler" where
  "updateArchive E p st =
     (case onStore (UpdateArchive E (Str p ''ArchiveName'') (changeArchive E p)) st of
        (Inl e, st1) \<Rightarrow> (Inl e, st1)
      | (Inr _, st1) \<Rightarrow> reading (archiveAnswer E) (GetArchive E (evdb st1) (Str p ''ArchiveName'')) st1)"

definition deleteArchive :: "'tx evhandler" where
  "deleteArchive E p st =
     (case GetArchive E (evdb st) (Str p ''ArchiveName'') of
        Inl e \<Rightarrow> (Inl e, st)
      | Inr _ \<Rightarrow> answer (\<lambda>_. WObj []) (onStore (DeleteArchive E (Str p ''ArchiveName'')) st))"

definition replayView :: "'tx evenv \<Rightarrow> replay \<Rightarrow> wire" where
  "replayView E r =
     WObj ([(''ReplayName'', WStr (repName r)), (''ReplayArn'', WStr (replayARN (evident E) r)), (''EventSourceArn'', WStr (repSource r)),
        (''State'', WStr (repState r)), (''EventStartTime'', floatWire E (EventStartTime r)), (''EventEndTime'', floatWire E (EventEndTime r)),
        (''ReplayStartTime'', floatWire E (StartTime r)), (''ReplayEndTime'', floatWire E (EndTime r)),
        (''Destination'', WObj [(''Arn'', WStr (DestinationArn r)), (''FilterArns'', if FilterArns r = [] then WNull else WArr (map WStr (FilterArns r)))])] @
        (if LastEventTime r \<noteq> 0 then [(''EventLastReplayedTime'', floatWire E (LastEventTime r))] else []) @
        optional ''StateReason'' (StateReason r))"

definition describeReplay :: "'tx evhandler" where
  "describeReplay E p st = reading (replayView E) (GetReplay E (evdb st) (Str p ''ReplayName'')) st"

definition listReplays :: "'tx evhandler" where
  "listReplays E p st = (Inr (WObj [(''Replays'', WArr (map (replayView E) (ListReplays E (evdb st) (Str p ''NamePrefix''))))]), st)"

definition cancelReplay :: "'tx evhandler" where
  "cancelReplay E p st =
     (case GetReplay E (evdb st) (Str p ''ReplayName'') of
        Inl e \<Rightarrow> (Inl e, st)
      | Inr r \<Rightarrow> (Inl (IllegalStatus (repState r)), st))"

definition eventHandlers :: "(string \<times> 'tx evhandler) list" where
  "eventHandlers =
     [(''PutEvents'', putEvents), (''PutRule'', putRule), (''DeleteRule'', deleteRule), (''DescribeRule'', describeRule),
      (''ListRules'', listRules), (''EnableRule'', enableRule), (''DisableRule'', disableRule), (''PutTargets'', putTargets),
      (''RemoveTargets'', removeTargets), (''ListTargetsByRule'', listTargetsByRule), (''ListRuleNamesByTarget'', listRuleNamesByTarget),
      (''CreateEventBus'', createEventBus), (''DeleteEventBus'', deleteEventBus), (''UpdateEventBus'', updateEventBus),
      (''DescribeEventBus'', describeEventBus), (''ListEventBuses'', listEventBuses), (''TestEventPattern'', testEventPattern),
      (''TagResource'', tagResource), (''UntagResource'', untagResource), (''ListTagsForResource'', listTagsForResource),
      (''CreateArchive'', createArchive), (''DescribeArchive'', describeArchive), (''ListArchives'', listArchives),
      (''UpdateArchive'', updateArchive), (''DeleteArchive'', deleteArchive), (''StartReplay'', startReplay),
      (''DescribeReplay'', describeReplay), (''ListReplays'', listReplays), (''CancelReplay'', cancelReplay)]"

end
