(* ===== verification/EventsInvariant.thy ===== *)
theory EventsInvariant
  imports EventsHandlers
begin

text \<open>
  The invariant of the EventBridge store: every record is of its bucket's kind and under its own key; a rule
  has a pattern or a schedule, patterns parse, schedules belong to the default bus and have a next firing
  time the scheduler can compute, and targets have different ids. Every handler and every tick of the
  scheduler keeps it, and the caches hold what they would compute.
\<close>

definition recAt :: "evstored contents \<Rightarrow> string \<Rightarrow> string \<Rightarrow> evstored option" where
  "recAt v b k = (case v b of None \<Rightarrow> None | Some (_, m) \<Rightarrow> m k)"

definition patternOk :: "cron_ext \<Rightarrow> string \<Rightarrow> bool" where
  "patternOk G pat = (pat = [] \<or> (\<exists>n. EventPattern.Parse (goLib G) pat = Inr n))"

definition ruleOk :: "cron_ext \<Rightarrow> rule \<Rightarrow> bool" where
  "ruleOk G r =
     (ruleName r \<noteq> [] \<and> (rulePattern r \<noteq> [] \<or> Schedule r \<noteq> []) \<and> patternOk G (rulePattern r) \<and>
      (Schedule r \<noteq> [] \<longrightarrow> ruleBus r = DefaultBus \<and> scheduleOk G (Schedule r) = Some True) \<and>
      distinct (map tgID (Targets r)) \<and> (\<forall>t\<in>set (Targets r). tgID t \<noteq> [] \<and> tgARN t \<noteq> []))"

definition evOk :: "cron_ext \<Rightarrow> string \<Rightarrow> string \<Rightarrow> evstored \<Rightarrow> bool" where
  "evOk G b k x =
     ((b = rulesBucket \<longrightarrow> (\<exists>r. x = RuleRec r \<and> k = ruleKey (ruleBus r) (ruleName r) \<and> ruleOk G r)) \<and>
      (b = busesBucket \<longrightarrow> (\<exists>u. x = BusRec u \<and> k = busName u \<and> nul \<notin> set k)) \<and>
      (b = archivesBucket \<longrightarrow> (\<exists>a. x = ArchiveRec a \<and> k = arcName a \<and> patternOk G (arcPattern a))) \<and>
      (b = archiveEventsBucket \<longrightarrow> (\<exists>ev. x = EventRec ev)) \<and>
      (b = replaysBucket \<longrightarrow> (\<exists>r. x = ReplayRec r \<and> k = repName r)))"

definition evInv :: "cron_ext \<Rightarrow> evstored contents \<Rightarrow> bool" where
  "evInv G v = (\<forall>b k x. recAt v b k = Some x \<longrightarrow> evOk G b k x)"

definition cacheOk :: "go_ext \<Rightarrow> patternCache \<Rightarrow> bool" where
  "cacheOk G m = ((\<forall>(src, p)\<in>set m. EventPattern.Parse G src = Inr p) \<and> length m \<le> maxCachedPatterns)"

lemmas bucket_names = busesBucket_def rulesBucket_def archivesBucket_def archiveEventsBucket_def replaysBucket_def

lemma evInv_shrink: "evInv G v \<Longrightarrow> (\<And>b k x. recAt v' b k = Some x \<Longrightarrow> recAt v b k = Some x) \<Longrightarrow> evInv G v'"
  by (auto simp: evInv_def)

lemma evInv_put:
  "evInv G v \<Longrightarrow> evOk G b k x \<Longrightarrow> recAt v' = (recAt v)(b := (recAt v b)(k \<mapsto> x)) \<Longrightarrow> evInv G v'"
  by (auto simp: evInv_def)

locale events_store =
  fixes E :: "'tx evenv" and view :: "'tx \<Rightarrow> evstored contents"
  assumes bolt: "bolt_store (evbolt E) view"

sublocale events_store \<subseteq> bolt_store "evbolt E" view
  by (rule bolt)

context events_store
begin

abbreviation inv :: "'tx \<Rightarrow> bool" where
  "inv tx \<equiv> evInv (evcron E) (view tx)"

lemma readKey_at: "readKey E tx b k = recAt (view tx) b k"
  using bucketGet by (auto simp: readKey_def recAt_def hasBucket split: option.split)

lemma readItems_at: "(k, x) \<in> set (readItems E tx b) \<longleftrightarrow> recAt (view tx) b k = Some x"
  using items_iff by (auto simp: readItems_def recAt_def hasBucket split: option.split)

lemma readItems_sorted: "sorted_wrt (<) (map fst (readItems E tx b))"
  using bucketItems_sorted by (auto simp: readItems_def hasBucket)

lemma createBucket_at: "createBucket (evbolt E) tx b = Some tx1 \<Longrightarrow> recAt (view tx1) = recAt (view tx) \<and> view tx1 b \<noteq> None"
  by (drule createBucket) (auto simp: recAt_def fun_eq_iff)

lemma putExisting_at:
  assumes "putExisting E tx b k x = (Inr u, tx1)" "view tx b \<noteq> None"
  shows "recAt (view tx1) = (recAt (view tx))(b := (recAt (view tx) b)(k \<mapsto> x))"
proof -
  obtain n m where v: "view tx b = Some (n, m)" using assms(2) by auto
  have "bucketPut (evbolt E) tx b k x = Some tx1" using assms(1) by (auto simp: putExisting_def split: option.splits)
  from bucketPut [OF v this] show ?thesis using v by (auto simp: recAt_def fun_eq_iff)
qed

lemma known_bucket: "recAt (view tx) b k \<noteq> None \<Longrightarrow> view tx b \<noteq> None"
  by (auto simp: recAt_def split: option.splits)

lemma putCreating_at:
  assumes "putCreating E tx b k f = (Inr u, tx2)"
  obtains tx1 x where "f tx1 = Inr x" "recAt (view tx1) = recAt (view tx)" "recAt (view tx2) = (recAt (view tx))(b := (recAt (view tx) b)(k \<mapsto> x))"
proof -
  obtain tx1 x where c: "createBucket (evbolt E) tx b = Some tx1" "f tx1 = Inr x" "putExisting E tx1 b k x = (Inr u, tx2)"
    using assms by (auto simp: putCreating_def split: option.splits sum.splits)
  note e = createBucket_at [OF c(1)]
  show thesis using that [OF c(2)] e putExisting_at [OF c(3)] by simp
qed

lemma dropKey_at: "recAt (view (dropKey E tx b k)) = (recAt (view tx))(b := (recAt (view tx) b)(k := None))"
proof (cases "view tx b")
  case (Some p)
  obtain n m where p: "view tx b = Some (n, m)" using Some by (cases p) auto
  then show ?thesis using bucketDelete [OF p] hasBucket by (auto simp: dropKey_def recAt_def fun_eq_iff)
qed (auto simp: dropKey_def hasBucket recAt_def fun_eq_iff)

lemma dropPrefix_at: "recAt (view (dropPrefix E tx b pre)) b' k' =
  (if b' = b \<and> prefix pre k' then None else recAt (view tx) b' k')"
proof (cases "view tx b")
  case None
  then have "underPrefix E tx b pre = []" by (simp add: underPrefix_def readItems_def hasBucket)
  then show ?thesis using None by (auto simp: dropPrefix_def recAt_def)
next
  case (Some p)
  then obtain n m where v: "view tx b = Some (n, m)" by (cases p) auto
  define ks where "ks = map fst (underPrefix E tx b pre)"
  have "dropPrefix E tx b pre = fold (\<lambda>k t. bucketDelete (evbolt E) t b k) ks tx"
    by (simp add: dropPrefix_def ks_def fold_map comp_def case_prod_beta')
  then have "view (dropPrefix E tx b pre) = (view tx)(b \<mapsto> (n, m |` (- set ks)))" using delete_keys [OF v] by simp
  moreover have "k \<in> set ks \<longleftrightarrow> prefix pre k \<and> m k \<noteq> None" for k
    using readItems_at [of k _ tx b] v by (force simp: ks_def underPrefix_def recAt_def)
  ultimately show ?thesis using v by (auto simp: recAt_def restrict_map_def)
qed

lemma Update_inv:
  assumes "inv tx" "\<And>u tx1. f tx = (Inr u, tx1) \<Longrightarrow> inv tx1"
  shows "inv (snd (Bolt.Update f tx))"
  using assms by (cases "f tx"; cases "fst (f tx)") (auto simp: Bolt.Update_def)

lemma putCreating_inv:
  assumes "inv tx" "putCreating E tx b k f = (Inr u, tx1)" "\<And>t x. f t = Inr x \<Longrightarrow> recAt (view t) = recAt (view tx) \<Longrightarrow> evOk (evcron E) b k x"
  shows "inv tx1"
  by (rule putCreating_at [OF assms(2)]) (rule evInv_put [OF assms(1)], use assms(3) in auto)

lemma putExisting_inv:
  assumes "inv tx" "putExisting E tx b k x = (Inr u, tx1)" "recAt (view tx) b k \<noteq> None" "evOk (evcron E) b k x"
  shows "inv tx1"
  using evInv_put [OF assms(1,4) putExisting_at [OF assms(2) known_bucket [OF assms(3)]]] .

lemma dropKey_inv: "inv tx \<Longrightarrow> inv (dropKey E tx b k)"
  by (erule evInv_shrink) (auto simp: dropKey_at split: if_splits)

lemma dropPrefix_inv: "inv tx \<Longrightarrow> inv (dropPrefix E tx b pre)"
  by (erule evInv_shrink) (auto simp: dropPrefix_at split: if_splits)

text \<open>What the invariant says of a record that is read.\<close>

lemma at_rule: "inv tx \<Longrightarrow> recAt (view tx) rulesBucket k = Some x \<Longrightarrow> \<exists>r. x = RuleRec r \<and> k = ruleKey (ruleBus r) (ruleName r) \<and> ruleOk (evcron E) r"
  unfolding evInv_def evOk_def by blast

lemma at_bus: "inv tx \<Longrightarrow> recAt (view tx) busesBucket k = Some x \<Longrightarrow> \<exists>u. x = BusRec u \<and> k = busName u \<and> nul \<notin> set k"
  unfolding evInv_def evOk_def by blast

lemma at_archive: "inv tx \<Longrightarrow> recAt (view tx) archivesBucket k = Some x \<Longrightarrow> \<exists>a. x = ArchiveRec a \<and> k = arcName a \<and> patternOk (evcron E) (arcPattern a)"
  unfolding evInv_def evOk_def by blast

lemma evOk_rule: "ruleOk (evcron E) r \<Longrightarrow> k = ruleKey (ruleBus r) (ruleName r) \<Longrightarrow> evOk (evcron E) rulesBucket k (RuleRec r)"
  by (auto simp: evOk_def bucket_names)

lemma evOk_bus: "nul \<notin> set (busName u) \<Longrightarrow> evOk (evcron E) busesBucket (busName u) (BusRec u)"
  by (auto simp: evOk_def bucket_names)

lemma evOk_archive: "patternOk (evcron E) (arcPattern a) \<Longrightarrow> evOk (evcron E) archivesBucket (arcName a) (ArchiveRec a)"
  by (auto simp: evOk_def bucket_names)

lemma evOk_others: "evOk (evcron E) archiveEventsBucket k (EventRec ev)" "evOk (evcron E) replaysBucket (repName r) (ReplayRec r)"
  by (auto simp: evOk_def bucket_names)

end

subsection \<open>Operations\<close>

lemma putTarget_ids: "tgID ` set (putTarget nt ts) = insert (tgID nt) (tgID ` set ts)"
  by (induction ts) auto

lemma putTarget_set: "set (putTarget nt ts) \<subseteq> insert nt (set ts)"
  by (induction ts) auto

lemma putTarget_distinct: "distinct (map tgID ts) \<Longrightarrow> distinct (map tgID (putTarget nt ts))"
proof (induction ts)
  case (Cons t ts)
  then show ?case using putTarget_ids [of nt ts] by auto
qed simp

lemma removeTarget_set: "set (removeTarget i ts) \<subseteq> set ts"
  by (induction ts) auto

lemma removeTarget_distinct: "distinct (map tgID ts) \<Longrightarrow> distinct (map tgID (removeTarget i ts))"
  by (induction ts) (use removeTarget_set in auto)

lemma fold_putTarget:
  assumes "\<forall>t\<in>set nts. P t"
  shows "distinct (map tgID ts) \<Longrightarrow> \<forall>t\<in>set ts. P t \<Longrightarrow> distinct (map tgID (fold putTarget nts ts)) \<and> (\<forall>t\<in>set (fold putTarget nts ts). P t)"
  using assms
proof (induction nts arbitrary: ts)
  case (Cons nt nts)
  then have "\<forall>t\<in>set (putTarget nt ts). P t" using putTarget_set [of nt ts] by auto
  then show ?case using Cons.IH [of "putTarget nt ts"] Cons.prems putTarget_distinct by auto
qed simp

lemma fold_removeTarget:
  "distinct (map tgID ts) \<Longrightarrow> distinct (map tgID (fold removeTarget is ts)) \<and> set (fold removeTarget is ts) \<subseteq> set ts"
proof (induction "is" arbitrary: ts)
  case (Cons i "is")
  show ?case using Cons.IH [of "removeTarget i ts"] removeTarget_distinct [OF Cons.prems, of i] removeTarget_set [of i ts] by auto
qed simp

lemma badPattern_ok: "badPattern E pat = None \<Longrightarrow> patternOk (evcron E) pat"
  by (auto simp: badPattern_def patternOk_def split: if_splits sum.splits)

lemma checkSchedule_ok: "checkSchedule E p s = None \<Longrightarrow> s \<noteq> [] \<Longrightarrow> busOrDefault p = DefaultBus \<and> scheduleOk (evcron E) s = Some True"
  by (auto simp: checkSchedule_def split: if_splits option.splits bool.splits)

context events_store
begin

lemma createBusIn_inv: "inv tx \<Longrightarrow> nul \<notin> set name \<Longrightarrow> createBusIn E name tags tx = (Inr u, tx1) \<Longrightarrow> inv tx1"
  unfolding createBusIn_def
  by (erule putCreating_inv) (use evOk_bus [of "newBus name tags"] in \<open>auto simp: newBus_def split: if_splits\<close>)

lemma inv_CreateBus: "inv tx \<Longrightarrow> nul \<notin> set name \<Longrightarrow> inv (snd (CreateBus E name tags tx))"
  unfolding CreateBus_def by (auto intro!: Update_inv intro: createBusIn_inv)

lemma inv_UpdateBus:
  assumes "inv tx" "\<And>b. busName (fn b) = busName b"
  shows "inv (snd (UpdateBus E name fn tx))"
  unfolding UpdateBus_def
proof (rule Update_inv [OF assms(1)])
  fix u tx1
  assume h: "updateBusIn E name fn tx = (Inr u, tx1)"
  show "inv tx1"
  proof (cases "recAt (view tx) busesBucket name")
    case None
    then show ?thesis using h assms(1) by (auto simp: updateBusIn_def readKey_at)
  next
    case (Some x)
    obtain b where b: "x = BusRec b" "name = busName b" "nul \<notin> set name" using at_bus [OF assms(1) Some] by blast
    then have "putExisting E tx busesBucket name (BusRec (fn b)) = (Inr u, tx1)" using h Some by (simp add: updateBusIn_def readKey_at)
    from putExisting_inv [OF assms(1) this] show ?thesis using Some evOk_bus [of "fn b"] b assms(2) by simp
  qed
qed

lemma inv_MutateBus:
  assumes "inv tx" "\<And>b. busName (fn b) = busName b"
  shows "inv (snd (MutateBus E name fn tx))"
  unfolding MutateBus_def
proof (rule Update_inv [OF assms(1)])
  fix u tx1
  assume h: "mutateBusIn E name fn tx = (Inr u, tx1)"
  then have ex: "busExists E tx name" by (auto simp: mutateBusIn_def split: if_splits)
  have n: "nul \<notin> set name"
  proof (cases "name = DefaultBus")
    case True
    then show ?thesis by (simp add: DefaultBus_def nul_def)
  next
    case False
    then show ?thesis using ex at_bus [OF assms(1)] by (auto simp: busExists_def readKey_at)
  qed
  have ok: "evOk (evcron E) busesBucket name x" if st: "(case storedBus E t name of Inl e \<Rightarrow> Inl e | Inr b \<Rightarrow> Inr (BusRec (fn b))) = Inr x"
    "recAt (view t) = recAt (view tx)" for t x
  proof -
    obtain b where b: "storedBus E t name = Inr b" "x = BusRec (fn b)" using st(1) by (cases "storedBus E t name") auto
    have "busName b = name" using b(1) at_bus [OF assms(1), of name] st(2)
      by (auto simp: storedBus_def readKey_at newBus_def split: option.splits evstored.splits)
    then show ?thesis using evOk_bus [of "fn b"] b(2) n assms(2) by simp
  qed
  show "inv tx1" by (rule putCreating_inv [OF assms(1)]) (use h ex ok in \<open>auto simp: mutateBusIn_def\<close>)
qed

lemma inv_DeleteBus: "inv tx \<Longrightarrow> inv (snd (DeleteBus E name tx))"
  unfolding DeleteBus_def deleteBusIn_def by (auto intro!: Update_inv dropPrefix_inv dropKey_inv split: if_splits)

lemma inv_PutRule:
  assumes "inv tx" "ruleOk (evcron E) r"
  shows "inv (snd (PutRule E r tx))"
  unfolding PutRule_def
proof (rule Update_inv [OF assms(1)])
  fix u tx1
  let ?k = "ruleKey (ruleBus r) (ruleName r)"
  assume h: "putRuleIn E r tx = (Inr u, tx1)"
  have ok: "evOk (evcron E) rulesBucket ?k (RuleRec (keepTargets r (readKey E t rulesBucket ?k)))" if "recAt (view t) = recAt (view tx)" for t
  proof (cases "recAt (view tx) rulesBucket ?k")
    case None
    then show ?thesis using that evOk_rule [OF assms(2)] by (simp add: readKey_at keepTargets_def)
  next
    case (Some x)
    then obtain o1 where o: "x = RuleRec o1" "ruleOk (evcron E) o1" using at_rule [OF assms(1)] by blast
    then have "ruleOk (evcron E) (keepTargets r (Some x))" using assms(2) by (simp add: ruleOk_def keepTargets_def)
    from evOk_rule [OF this] show ?thesis using that Some o by (simp add: readKey_at keepTargets_def)
  qed
  show "inv tx1" by (rule putCreating_inv [OF assms(1)]) (use h ok in \<open>auto simp: putRuleIn_def split: if_splits\<close>)
qed

lemma inv_UpdateRule:
  assumes "inv tx" "\<And>r. ruleOk (evcron E) r \<Longrightarrow> ruleOk (evcron E) (fn r) \<and> ruleBus (fn r) = ruleBus r \<and> ruleName (fn r) = ruleName r"
  shows "inv (snd (UpdateRule E b name fn tx))"
  unfolding UpdateRule_def
proof (rule Update_inv [OF assms(1)])
  fix u tx1
  let ?k = "ruleKey b name"
  assume h: "updateRuleIn E b name fn tx = (Inr u, tx1)"
  then obtain r where g: "GetRule E tx b name = Inr r" "putExisting E tx rulesBucket ?k (RuleRec (fn r)) = (Inr u, tx1)"
    by (auto simp: updateRuleIn_def split: sum.splits)
  have at: "recAt (view tx) rulesBucket ?k = Some (RuleRec r)"
    using g(1) by (auto simp: GetRule_def readKey_at split: option.splits evstored.splits)
  then have "?k = ruleKey (ruleBus r) (ruleName r)" "ruleOk (evcron E) r" using at_rule [OF assms(1)] by blast+
  then show "inv tx1" using putExisting_inv [OF assms(1) g(2)] at evOk_rule assms(2) by simp
qed

lemma inv_DeleteRule: "inv tx \<Longrightarrow> inv (snd (DeleteRule E b name tx))"
  unfolding DeleteRule_def deleteRuleIn_def
  by (auto intro!: Update_inv dropKey_inv split: if_splits option.splits evstored.splits)

lemma createArchiveIn_inv:
  assumes "inv tx" "patternOk (evcron E) (arcPattern a)" "createArchiveIn E a tx = (Inr u, tx1)"
  shows "inv tx1"
proof -
  have "putCreating E tx archivesBucket (arcName a)
      (\<lambda>tx1. if readKey E tx1 archivesBucket (arcName a) \<noteq> None then Inl (ArchiveExists (arcName a)) else Inr (ArchiveRec a)) = (Inr u, tx1)"
    using assms(3) by (auto simp: createArchiveIn_def split: if_splits)
  then show ?thesis by (rule putCreating_inv [OF assms(1)]) (use evOk_archive [OF assms(2)] in \<open>auto split: if_splits\<close>)
qed

lemma inv_CreateArchive: "inv tx \<Longrightarrow> inv (snd (CreateArchive E a tx))"
  unfolding CreateArchive_def by (auto intro!: Update_inv intro: createArchiveIn_inv badPattern_ok split: option.splits)

lemma inv_UpdateArchive:
  assumes "inv tx" "\<And>a a1. fn a = Inr a1 \<Longrightarrow> patternOk (evcron E) (arcPattern a) \<Longrightarrow> patternOk (evcron E) (arcPattern a1) \<and> arcName a1 = arcName a"
  shows "inv (snd (UpdateArchive E name fn tx))"
  unfolding UpdateArchive_def
proof (rule Update_inv [OF assms(1)])
  fix u tx1
  assume h: "updateArchiveIn E name fn tx = (Inr u, tx1)"
  then obtain a a1 where g: "GetArchive E tx name = Inr a" "fn a = Inr a1" "putExisting E tx archivesBucket name (ArchiveRec a1) = (Inr u, tx1)"
    by (auto simp: updateArchiveIn_def split: sum.splits)
  have at: "recAt (view tx) archivesBucket name = Some (ArchiveRec a)"
    using g(1) by (auto simp: GetArchive_def readKey_at split: option.splits evstored.splits)
  then have "name = arcName a" "patternOk (evcron E) (arcPattern a)" using at_archive [OF assms(1)] by blast+
  then show "inv tx1" using putExisting_inv [OF assms(1) g(3)] at evOk_archive [of a1] assms(2) [OF g(2)] by simp
qed

lemma inv_DeleteArchive: "inv tx \<Longrightarrow> inv (snd (DeleteArchive E name tx))"
  unfolding DeleteArchive_def deleteArchiveIn_def by (auto intro!: Update_inv dropPrefix_inv dropKey_inv)

lemma nextSequence_at: "view tx b \<noteq> None \<Longrightarrow> nextSequence (evbolt E) tx b = (n, tx1) \<Longrightarrow> recAt (view tx1) = recAt (view tx) \<and> view tx1 b \<noteq> None"
  using nextSequence by (fastforce simp: recAt_def fun_eq_iff)

text \<open>An appended event: its record, and the counters of the archive.\<close>

lemma appendIn_at:
  assumes "inv tx" "appendIn E name t event tx = (Inr u, tx1)" "recAt (view tx) archivesBucket name = Some (ArchiveRec a)"
  obtains n where "recAt (view tx1) = (recAt (view tx))(archiveEventsBucket := (recAt (view tx) archiveEventsBucket)
      (eventKey name n \<mapsto> EventRec \<lparr>evTime = t, evJSON = event\<rparr>),
    archivesBucket := (recAt (view tx) archivesBucket)
      (name \<mapsto> ArchiveRec (a\<lparr>EventCount := EventCount a + 1, SizeBytes := SizeBytes a + int (length event)\<rparr>)))"
proof -
  obtain ta where ta: "createBucket (evbolt E) tx archiveEventsBucket = Some ta"
    using assms(2,3) by (auto simp: appendIn_def readKey_at split: option.splits)
  obtain n tb where tb: "nextSequence (evbolt E) ta archiveEventsBucket = (n, tb)" by fastforce
  note ca = createBucket_at [OF ta] and cb = nextSequence_at [OF _ tb]
  let ?ev = "EventRec \<lparr>evTime = t, evJSON = event\<rparr>"
  obtain tc where tc: "bucketPut (evbolt E) tb archiveEventsBucket (eventKey name n) ?ev = Some tc"
    using assms(2,3) ta tb by (auto simp: appendIn_def readKey_at split: option.splits)
  have "putExisting E tb archiveEventsBucket (eventKey name n) ?ev = (Inr (), tc)" using tc by (simp add: putExisting_def)
  from putExisting_at [OF this] ca cb
  have c: "recAt (view tc) = (recAt (view tx))(archiveEventsBucket := (recAt (view tx) archiveEventsBucket)(eventKey name n \<mapsto> ?ev))" by simp
  have other: "archivesBucket \<noteq> archiveEventsBucket" by (simp add: bucket_names)
  have at: "recAt (view tc) archivesBucket name = Some (ArchiveRec a)" using c assms(3) other by simp
  let ?a = "ArchiveRec (a\<lparr>EventCount := EventCount a + 1, SizeBytes := SizeBytes a + int (length event)\<rparr>)"
  have "putExisting E tc archivesBucket name ?a = (Inr u, tx1)"
    using assms(2,3) ta tb tc at by (simp add: appendIn_def readKey_at)
  from putExisting_at [OF this known_bucket [of _ _ name]] at have "recAt (view tx1) = (recAt (view tc))(archivesBucket := (recAt (view tc) archivesBucket)(name \<mapsto> ?a))"
    by simp
  then show thesis using that [of n] c other by simp
qed

lemma inv_Append:
  assumes "inv tx"
  shows "inv (snd (AppendArchiveEvent E name t event tx))"
  unfolding AppendArchiveEvent_def
proof (rule Update_inv [OF assms])
  fix u tx1
  assume h: "appendIn E name t event tx = (Inr u, tx1)"
  show "inv tx1"
  proof (cases "recAt (view tx) archivesBucket name")
    case None
    then show ?thesis using h assms by (auto simp: appendIn_def readKey_at)
  next
    case (Some x)
    then obtain a where a: "x = ArchiveRec a" "name = arcName a" "patternOk (evcron E) (arcPattern a)" using at_archive [OF assms] by blast
    let ?a = "a\<lparr>EventCount := EventCount a + 1, SizeBytes := SizeBytes a + int (length event)\<rparr>"
    obtain n where "recAt (view tx1) = (recAt (view tx))(archiveEventsBucket := (recAt (view tx) archiveEventsBucket)
        (eventKey name n \<mapsto> EventRec \<lparr>evTime = t, evJSON = event\<rparr>), archivesBucket := (recAt (view tx) archivesBucket)(name \<mapsto> ArchiveRec ?a))"
      by (rule appendIn_at [OF assms h]) (use Some a in auto)
    moreover have "evOk (evcron E) archivesBucket name (ArchiveRec ?a)" using evOk_archive [of ?a] a by simp
    ultimately show ?thesis using assms evOk_others(1) by (auto simp: evInv_def)
  qed
qed

lemma putReplayIn_inv: "inv tx \<Longrightarrow> putReplayIn E r tx = (Inr u, tx1) \<Longrightarrow> inv tx1"
  unfolding putReplayIn_def by (erule putCreating_inv) (auto simp: evOk_others split: if_splits)

lemma inv_PutReplay: "inv tx \<Longrightarrow> inv (snd (PutReplay E r tx))"
  unfolding PutReplay_def by (auto intro!: Update_inv intro: putReplayIn_inv)

end

subsection \<open>Matching and delivery\<close>

text \<open>The reference: what an event sends, with every pattern parsed afresh.\<close>

definition wanted :: "go_ext \<Rightarrow> string \<Rightarrow> string \<Rightarrow> bool" where
  "wanted G pat event = (case EventPattern.Parse G pat of Inl _ \<Rightarrow> False | Inr p \<Rightarrow> Match G p event = Some True)"

definition deliveriesOf :: "'tx evenv \<Rightarrow> string \<Rightarrow> rule \<Rightarrow> delivery list" where
  "deliveriesOf E event r = concat (map (\<lambda>t. case dispatch E r t event of None \<Rightarrow> [] | Some d \<Rightarrow> [d]) (Targets r))"

definition selected :: "'tx evenv \<Rightarrow> string list option \<Rightarrow> string \<Rightarrow> rule \<Rightarrow> bool" where
  "selected E arns event r =
     (ruleState r = ''ENABLED'' \<and> rulePattern r \<noteq> [] \<and> (case arns of None \<Rightarrow> True | Some as \<Rightarrow> ruleARN (evident E) r \<in> set as) \<and>
      wanted (evlib E) (rulePattern r) event)"

definition busDeliveries :: "'tx evenv \<Rightarrow> 'tx \<Rightarrow> string \<Rightarrow> string list option \<Rightarrow> string \<Rightarrow> delivery list" where
  "busDeliveries E tx b arns event = concat (map (deliveriesOf E event) (filter (selected E arns event) (Rules E tx b [])))"

lemma compiled_ok:
  assumes "cacheOk G m" "compiled G src m = (res, m1)"
  shows "res = EventPattern.Parse G src" "cacheOk G m1"
proof -
  have "EventPattern.Parse G src = Inr p" if "map_of m src = Some p" for p
    using assms(1) map_of_SomeD [OF that] by (auto simp: cacheOk_def)
  then show "res = EventPattern.Parse G src" using assms(2) by (auto simp: compiled_def split: option.splits sum.splits)
  show "cacheOk G m1" using assms by (auto simp: compiled_def cacheOk_def maxCachedPatterns_def split: option.splits sum.splits if_splits)
qed

lemma dispatchAll_sent: "dispatchAll E r event st = st\<lparr>sent := sent st @ deliveriesOf E event r\<rparr>"
proof -
  have "foldl (\<lambda>st t. case dispatch E r t event of None \<Rightarrow> st | Some d \<Rightarrow> st\<lparr>sent := sent st @ [d]\<rparr>) st ts =
      st\<lparr>sent := sent st @ concat (map (\<lambda>t. case dispatch E r t event of None \<Rightarrow> [] | Some d \<Rightarrow> [d]) ts)\<rparr>" for ts
    by (induction ts arbitrary: st) (auto split: option.split)
  then show ?thesis by (simp add: dispatchAll_def deliveriesOf_def)
qed

lemma Match_doc: "decodeDoc G event = Some doc \<Longrightarrow> Match G p event = Some (match G p doc)"
  by (auto simp: decodeDoc_def Match_def split: option.splits)

lemma Match_none: "decodeDoc G event = None \<Longrightarrow> Match G p event = None"
  by (auto simp: decodeDoc_def Match_def split: option.splits)

lemma offerRule_sent:
  assumes "decodeDoc (evlib E) event = Some doc" "cacheOk (evlib E) (patterns st)"
  shows "\<exists>m. cacheOk (evlib E) m \<and> offerRule E event doc arns st r =
    st\<lparr>patterns := m, sent := sent st @ (if selected E arns event r then deliveriesOf E event r else [])\<rparr>"
proof -
  obtain res m where c: "compiled (evlib E) (rulePattern r) (patterns st) = (res, m)" by fastforce
  note ok = compiled_ok [OF assms(2) c]
  have w: "wanted (evlib E) (rulePattern r) event \<longleftrightarrow> (\<exists>p. res = Inr p \<and> match (evlib E) p doc)"
    using ok(1) Match_doc [OF assms(1)] by (auto simp: wanted_def split: sum.splits)
  show ?thesis
  proof (cases "ruleState r \<noteq> ''ENABLED'' \<or> rulePattern r = [] \<or> (case arns of None \<Rightarrow> False | Some as \<Rightarrow> ruleARN (evident E) r \<notin> set as)")
    case True
    then have "\<not> selected E arns event r" by (auto simp: selected_def split: option.splits)
    then show ?thesis using True assms(2) by (intro exI [of _ "patterns st"]) (auto simp: offerRule_def)
  next
    case False
    then have "selected E arns event r \<longleftrightarrow> (\<exists>p. res = Inr p \<and> match (evlib E) p doc)" using w by (auto simp: selected_def split: option.splits)
    then show ?thesis using False ok(2) c
      by (intro exI [of _ m]) (auto simp: offerRule_def Let_def dispatchAll_sent split: sum.splits option.splits)
  qed
qed

lemma matchAndDispatch_sent:
  assumes "cacheOk (evlib E) (patterns st)"
  shows "\<exists>m. cacheOk (evlib E) m \<and> matchAndDispatch E b event arns st =
    st\<lparr>patterns := m, sent := sent st @ busDeliveries E (evdb st) b arns event\<rparr>"
proof (cases "decodeDoc (evlib E) event")
  case None
  have "\<not> selected E arns event r" for r using Match_none [OF None] by (auto simp: selected_def wanted_def split: sum.splits)
  then have "busDeliveries E (evdb st) b arns event = []" by (simp add: busDeliveries_def)
  then show ?thesis using None assms by (intro exI [of _ "patterns st"]) (simp add: matchAndDispatch_def)
next
  case (Some doc)
  have "\<exists>m. cacheOk (evlib E) m \<and> foldl (offerRule E event doc arns) st rs =
      st\<lparr>patterns := m, sent := sent st @ concat (map (deliveriesOf E event) (filter (selected E arns event) rs))\<rparr>"
    if "cacheOk (evlib E) (patterns st)" for rs and st :: "'a evstate"
    using that
  proof (induction rs arbitrary: st)
    case Nil
    then show ?case by (intro exI [of _ "patterns st"]) simp
  next
    case (Cons r rs)
    obtain m where m: "cacheOk (evlib E) m" "offerRule E event doc arns st r =
        st\<lparr>patterns := m, sent := sent st @ (if selected E arns event r then deliveriesOf E event r else [])\<rparr>"
      using offerRule_sent [OF Some Cons.prems] by blast
    then show ?case using Cons.IH [of "offerRule E event doc arns st r"] by auto
  qed
  then show ?thesis using assms Some by (simp add: matchAndDispatch_def busDeliveries_def)
qed

subsection \<open>Handlers\<close>

context events_store
begin

definition good :: "'tx evstate \<Rightarrow> bool" where
  "good st = (inv (evdb st) \<and> cacheOk (evlib E) (patterns st))"

lemma good_onStore: "good st \<Longrightarrow> (inv (evdb st) \<Longrightarrow> inv (snd (f (evdb st)))) \<Longrightarrow> good (snd (onStore f st))"
  by (auto simp: good_def onStore_def split: prod.splits)

lemma good_reading [simp]: "good (snd (reading f r st)) = good st"
  by (auto simp: reading_def split: sum.splits)

lemma good_matchAndDispatch: "good st \<Longrightarrow> good (matchAndDispatch E b event arns st) \<and> evdb (matchAndDispatch E b event arns st) = evdb st"
  using matchAndDispatch_sent [of E st b event arns] by (auto simp: good_def)

lemma good_appendTo: "good st \<Longrightarrow> good (appendTo E a event st)"
  by (simp add: good_def appendTo_def inv_Append)

lemma good_captureLoop: "good st \<Longrightarrow> good (captureLoop E event as st)"
proof (induction as arbitrary: st)
  case (Cons a as)
  obtain res m where c: "compiled (evlib E) (arcPattern a) (patterns st) = (res, m)" by fastforce
  have g: "good (st\<lparr>patterns := m\<rparr>)" using Cons.prems compiled_ok(2) [OF _ c] by (simp add: good_def)
  show ?case using Cons.IH Cons.prems g good_appendTo c by (auto simp: Let_def split: sum.splits option.splits)
qed simp

lemma good_putOneEvent: "good st \<Longrightarrow> good (snd (snd (putOneEvent E n entry st)))"
  by (auto simp: putOneEvent_def Let_def captureToArchives_def good_captureLoop good_matchAndDispatch)

lemma good_putEach: "good st \<Longrightarrow> good (snd (snd (putEach E n es st)))"
proof (induction es arbitrary: n st)
  case (Cons e es)
  obtain ok res st1 where "putOneEvent E n (case e of AnyObj m \<Rightarrow> m | _ \<Rightarrow> []) st = (ok, res, st1)" by (rule prod_cases3)
  then show ?case using good_putOneEvent [OF Cons.prems, of n "case e of AnyObj m \<Rightarrow> m | _ \<Rightarrow> []"] Cons.IH [of st1 "Suc n"]
    by (auto split: prod.splits)
qed simp

lemma good_putEvents: "good st \<Longrightarrow> good (snd (putEvents E p st))"
proof -
  assume g: "good st"
  have "good (snd (let (results, failed, st1) = putEach E 0 es st in (Inr (f results failed), st1)))" for es f
    using good_putEach [OF g, of 0 es] by (simp add: case_prod_beta)
  then show ?thesis using g by (auto simp: putEvents_def split: option.splits anyv.splits)
qed

lemma replay_state:
  assumes "good st"
  shows "\<exists>m. cacheOk (evlib E) m \<and>
    snd (snd (ReplayEvents E tx name start end (\<lambda>ev s. matchAndDispatch E b ev arns s) st)) =
      st\<lparr>patterns := m, sent := sent st @ concat (map (\<lambda>ev. busDeliveries E (evdb st) b arns (evJSON ev)) (archivedEvents E tx name start end))\<rparr>"
proof -
  have "\<exists>m. cacheOk (evlib E) m \<and>
      snd (snd (foldl (\<lambda>(count, latest, s) ev. (count + 1, if evTime ev > latest then evTime ev else latest, matchAndDispatch E b (evJSON ev) arns s))
        (c, l, st) evs)) =
      st\<lparr>patterns := m, sent := sent st @ concat (map (\<lambda>ev. busDeliveries E (evdb st) b arns (evJSON ev)) evs)\<rparr>"
    if "cacheOk (evlib E) (patterns st)" for evs and c l :: int and st :: "'tx evstate"
    using that
  proof (induction evs arbitrary: c l st)
    case Nil
    then show ?case by (intro exI [of _ "patterns st"]) simp
  next
    case (Cons ev evs)
    obtain m where m: "cacheOk (evlib E) m" "matchAndDispatch E b (evJSON ev) arns st =
        st\<lparr>patterns := m, sent := sent st @ busDeliveries E (evdb st) b arns (evJSON ev)\<rparr>"
      using matchAndDispatch_sent [OF Cons.prems] by blast
    show ?case using Cons.IH [of "matchAndDispatch E b (evJSON ev) arns st"] m by simp
  qed
  then show ?thesis using assms unfolding ReplayEvents_def good_def by blast
qed

lemma good_startReplay:
  assumes "good st"
  shows "good (snd (startReplay E p st))"
proof (cases "\<exists>dest a. Str p ''ReplayName'' \<noteq> [] \<and> GetArchive E (evdb st) (archiveFromArn (Str p ''EventSourceArn'')) = Inr a \<and>
    map_of p ''Destination'' = Some (AnyObj dest)")
  case True
  then obtain dest a where d: "Str p ''ReplayName'' \<noteq> []" "GetArchive E (evdb st) (archiveFromArn (Str p ''EventSourceArn'')) = Inr a"
    "map_of p ''Destination'' = Some (AnyObj dest)" by blast
  define res where "res = ReplayEvents E (evdb st) (archiveFromArn (Str p ''EventSourceArn''))
    (case pnum (evlib E) p ''EventStartTime'' of None \<Rightarrow> 0 | Some n \<Rightarrow> n) (case pnum (evlib E) p ''EventEndTime'' of None \<Rightarrow> 0 | Some n \<Rightarrow> n)
    (\<lambda>ev s. matchAndDispatch E (busFromArn (Str dest ''Arn'')) ev (filterArns dest) s) st"
  obtain c l st1 where r: "res = (c, l, st1)" by (rule prod_cases3)
  obtain m sn where "cacheOk (evlib E) m" "st1 = st\<lparr>patterns := m, sent := sn\<rparr>"
    using replay_state [OF assms, of "evdb st"] r unfolding res_def by (metis snd_conv)
  then have g: "good st1" using assms by (simp add: good_def)
  have ip: "inv tx2" if "PutReplay E rp (evdb st1) = (x, tx2)" for rp x tx2
    using inv_PutReplay [of "evdb st1" rp] g that by (simp add: good_def)
  show ?thesis using d r [unfolded res_def] g
    by (auto simp: startReplay_def Let_def good_def dest: ip split: prod.splits sum.splits)
next
  case False
  then show ?thesis using assms by (auto simp: startReplay_def Let_def split: sum.splits option.splits anyv.splits)
qed

lemma ruleOk_fields:
  "ruleOk G r \<Longrightarrow> ruleOk G (r\<lparr>ruleState := s\<rparr>)" "ruleOk G r \<Longrightarrow> ruleOk G (r\<lparr>ruleTags := t\<rparr>)"
  by (simp_all add: ruleOk_def)

lemma good_putRule: "good st \<Longrightarrow> good (snd (putRule E p st))"
  unfolding putRule_def Let_def
  by (auto intro!: good_onStore inv_PutRule dest: badPattern_ok checkSchedule_ok simp: ruleOk_def ruleOf_def split: option.splits)

lemma good_changeTargets:
  assumes "good st" "\<And>ts. distinct (map tgID ts) \<Longrightarrow> \<forall>t\<in>set ts. tgID t \<noteq> [] \<and> tgARN t \<noteq> [] \<Longrightarrow>
      distinct (map tgID (f ts)) \<and> (\<forall>t\<in>set (f ts). tgID t \<noteq> [] \<and> tgARN t \<noteq> [])"
  shows "good (snd (onStore (UpdateRule E b name (\<lambda>r. r\<lparr>Targets := f (Targets r)\<rparr>)) st))"
proof (rule good_onStore [OF assms(1)], rule inv_UpdateRule)
  fix r
  assume "ruleOk (evcron E) r"
  then show "ruleOk (evcron E) (r\<lparr>Targets := f (Targets r)\<rparr>) \<and> ruleBus (r\<lparr>Targets := f (Targets r)\<rparr>) = ruleBus r \<and>
      ruleName (r\<lparr>Targets := f (Targets r)\<rparr>) = ruleName r"
    using assms(2) [of "Targets r"] by (simp add: ruleOk_def)
qed

lemma good_targets: "good st \<Longrightarrow> good (snd (putTargets E p st))" "good st \<Longrightarrow> good (snd (removeTargets E p st))"
proof -
  assume g: "good st"
  show "good (snd (removeTargets E p st))"
    unfolding removeTargets_def Let_def answer_store
    by (rule good_changeTargets [OF g]) (use fold_removeTarget in blast)
  define nts where "nts = map (\<lambda>t. targetOf (asObject t)) (arrayAt p ''Targets'')"
  show "good (snd (putTargets E p st))"
  proof (cases "nts = [] \<or> (\<exists>t\<in>set nts. tgID t = [] \<or> tgARN t = [])")
    case True
    then show ?thesis using g unfolding putTargets_def nts_def [symmetric] Let_def by auto
  next
    case False
    then have ok: "\<forall>t\<in>set nts. tgID t \<noteq> [] \<and> tgARN t \<noteq> []" by auto
    have "good (snd (onStore (UpdateRule E (busOrDefault p) (Str p ''Rule'') (\<lambda>r. r\<lparr>Targets := fold putTarget nts (Targets r)\<rparr>)) st))"
      by (rule good_changeTargets [OF g]) (use fold_putTarget [OF ok] in blast)
    then show ?thesis using False unfolding putTargets_def nts_def [symmetric] Let_def by simp
  qed
qed

lemma good_rules:
  "good st \<Longrightarrow> good (snd (deleteRule E p st))" "good st \<Longrightarrow> good (snd (setState s E p st))"
  unfolding deleteRule_def setState_def by (auto intro!: good_onStore inv_DeleteRule inv_UpdateRule simp: ruleOk_fields)

lemma busSettings_name [simp]: "busName (busSettings p b) = busName b"
  by (simp add: busSettings_def)

lemma good_buses:
  "good st \<Longrightarrow> nul \<notin> set (Str p ''Name'') \<Longrightarrow> good (snd (createEventBus E p st))"
  "good st \<Longrightarrow> good (snd (deleteEventBus E p st))" "good st \<Longrightarrow> good (snd (updateEventBus E p st))"
proof -
  show "good (snd (createEventBus E p st))" if g: "good st" and n: "nul \<notin> set (Str p ''Name'')"
  proof -
    obtain r st1 where c: "onStore (CreateBus E (Str p ''Name'') []) st = (r, st1)" by fastforce
    then have "good st1" using good_onStore [OF g, of "CreateBus E (Str p ''Name'') []"] inv_CreateBus [OF _ n] by simp
    then show ?thesis using c by (cases r) (auto simp: createEventBus_def Let_def intro!: good_onStore inv_UpdateBus)
  qed
  show "good st \<Longrightarrow> good (snd (deleteEventBus E p st))" "good st \<Longrightarrow> good (snd (updateEventBus E p st))"
    unfolding deleteEventBus_def updateEventBus_def Let_def by (auto intro!: good_onStore inv_DeleteBus inv_UpdateBus)
qed

lemma good_tags:
  "good st \<Longrightarrow> good (snd (tagResource E p st))" "good st \<Longrightarrow> good (snd (untagResource E p st))"
  "good st \<Longrightarrow> good (snd (listTagsForResource E p st))"
  unfolding tagResource_def untagResource_def changeTags_def listTagsForResource_def
  by (auto intro!: good_onStore inv_MutateBus inv_UpdateRule simp: ruleOk_fields split: option.splits sum.splits)

lemma changeArchive_ok: "changeArchive E p a = Inr a1 \<Longrightarrow> patternOk (evcron E) (arcPattern a) \<Longrightarrow> patternOk (evcron E) (arcPattern a1) \<and> arcName a1 = arcName a"
  using badPattern_ok [of E "Str p ''EventPattern''"] by (auto simp: changeArchive_def Let_def split: option.splits if_splits)

lemma good_archives:
  "good st \<Longrightarrow> good (snd (createArchive E p st))" "good st \<Longrightarrow> good (snd (updateArchive E p st))" "good st \<Longrightarrow> good (snd (deleteArchive E p st))"
proof -
  show "good st \<Longrightarrow> good (snd (createArchive E p st))" "good st \<Longrightarrow> good (snd (deleteArchive E p st))"
    unfolding createArchive_def deleteArchive_def Let_def by (auto intro!: good_onStore inv_CreateArchive inv_DeleteArchive split: sum.splits)
  assume g: "good st"
  obtain r st1 where u: "onStore (UpdateArchive E (Str p ''ArchiveName'') (changeArchive E p)) st = (r, st1)" by fastforce
  have "good st1" using good_onStore [OF g, of "UpdateArchive E (Str p ''ArchiveName'') (changeArchive E p)"] inv_UpdateArchive changeArchive_ok u by simp
  then show "good (snd (updateArchive E p st))" using u by (cases r) (simp_all add: updateArchive_def)
qed

lemma good_reads:
  "snd (describeRule E p st) = st" "snd (listRules E p st) = st" "snd (listTargetsByRule E p st) = st" "snd (listRuleNamesByTarget E p st) = st"
  "snd (describeEventBus E p st) = st" "snd (listEventBuses E p st) = st" "snd (testEventPattern E p st) = st" "snd (describeArchive E p st) = st"
  "snd (listArchives E p st) = st" "snd (describeReplay E p st) = st" "snd (listReplays E p st) = st" "snd (cancelReplay E p st) = st"
  by (auto simp: describeRule_def listRules_def listTargetsByRule_def listRuleNamesByTarget_def describeEventBus_def listEventBuses_def
      testEventPattern_def describeArchive_def listArchives_def describeReplay_def listReplays_def cancelReplay_def reading_def
      split: sum.splits option.splits)

lemma handlers_good:
  assumes "(a, h) \<in> set eventHandlers" "nul \<notin> set (Str p ''Name'')" "good st"
  shows "good (snd (h E p st))"
  using assms(1) unfolding eventHandlers_def enableRule_def disableRule_def
  by (auto simp: good_reads assms(3) good_putEvents good_putRule good_rules good_targets good_buses [OF assms(3)] assms(2) good_tags good_archives good_startReplay)

end

end
