(* ===== verification/AwsCronServer.thy ===== *)
theory AwsCronServer
  imports AwsCron
begin

text \<open>
  What cron expressions promise: the next firing time is the first minute that matches, \<^verbatim>\<open>W\<close> names the
  nearest weekday of the month, and a field denotes the numbers it lists.
\<close>

subsection \<open>The next firing time\<close>

text \<open>The minutes an expression names.\<close>

definition matchesAt :: "expression \<Rightarrow> int \<Rightarrow> bool" where
  "matchesAt e t =
     ((anyYear e \<or> Year t \<in> set (years e)) \<and> Month t \<in> set (months e) \<and> dayMatches e t \<and>
      Hour t \<in> set (hours e) \<and> Minute t \<in> set (minutes e))"

lemma dayMatches_day: "dayNumber u = dayNumber t \<Longrightarrow> dayMatches e u = dayMatches e t"
  using field_days [of u t] by (simp add: dayMatches_def Let_def)

text \<open>Each jump of the loop passes over minutes that do not match.\<close>

lemma skips:
  assumes "t \<le> u"
  shows "\<not> anyYear e \<Longrightarrow> Year t \<notin> set (years e) \<Longrightarrow> u < Date (Year t + 1) 1 1 0 0 \<Longrightarrow> \<not> matchesAt e u"
    and "Month t \<notin> set (months e) \<Longrightarrow> u < Date (Year t) (Month t + 1) 1 0 0 \<Longrightarrow> \<not> matchesAt e u"
    and "\<not> dayMatches e t \<Longrightarrow> u < Date (Year t) (Month t) (Day t + 1) 0 0 \<Longrightarrow> \<not> matchesAt e u"
    and "Hour t \<notin> set (hours e) \<Longrightarrow> u < Date (Year t) (Month t) (Day t) (Hour t + 1) 0 \<Longrightarrow> \<not> matchesAt e u"
    and "Minute t \<notin> set (minutes e) \<Longrightarrow> u < t + 1 \<Longrightarrow> \<not> matchesAt e u"
  using assms by (auto simp: matchesAt_def dest: Year_block Month_block Day_block Hour_block dayMatches_day)

text \<open>The loop as jumps: where it continues from a minute that does not match.\<close>

definition jump :: "expression \<Rightarrow> int \<Rightarrow> int option" where
  "jump e t =
     (if \<not> anyYear e \<and> Year t \<notin> set (years e) then Some (Date (Year t + 1) 1 1 0 0)
      else if Month t \<notin> set (months e) then Some (Date (Year t) (Month t + 1) 1 0 0)
      else if \<not> dayMatches e t then Some (Date (Year t) (Month t) (Day t + 1) 0 0)
      else if Hour t \<notin> set (hours e) then Some (Date (Year t) (Month t) (Day t) (Hour t + 1) 0)
      else if Minute t \<notin> set (minutes e) then Some (t + 1)
      else None)"

lemma jump_None: "jump e t = None \<Longrightarrow> matchesAt e t"
  by (auto simp: jump_def matchesAt_def split: if_splits)

lemma jump_Some:
  assumes "jump e t = Some t'"
  shows "t < t'" and "t \<le> u \<Longrightarrow> u < t' \<Longrightarrow> \<not> matchesAt e u"
proof -
  show "t < t'" using assms next_year [of t] next_month [of t] next_day [of t] next_hour [of t]
    by (auto simp: jump_def split: if_splits)
  show "\<not> matchesAt e u" if "t \<le> u" "u < t'"
    using assms that skips [OF that(1), of e] by (auto simp: jump_def split: if_splits)
qed

lemma nextLoop_jump:
  "nextLoop e limit t = (if Year t \<le> limit then case jump e t of None \<Rightarrow> Some t | Some t' \<Rightarrow> nextLoop e limit t' else None)"
  by (subst nextLoop.simps) (simp add: jump_def)

lemma nextLoop_least:
  "case nextLoop e limit t of
     Some r \<Rightarrow> t \<le> r \<and> matchesAt e r \<and> (\<forall>u. t \<le> u \<and> u < r \<longrightarrow> \<not> matchesAt e u)
   | None \<Rightarrow> \<forall>u. t \<le> u \<and> Year u \<le> limit \<longrightarrow> \<not> matchesAt e u"
proof (induction "nat (Date (limit + 1) 1 1 0 0 - t)" arbitrary: t rule: less_induct)
  case less
  show ?case
  proof (cases "Year t \<le> limit \<and> jump e t \<noteq> None")
    case True
    then obtain t' where j: "jump e t = Some t'" by auto
    have IH: "case nextLoop e limit t' of
        Some r \<Rightarrow> t' \<le> r \<and> matchesAt e r \<and> (\<forall>u. t' \<le> u \<and> u < r \<longrightarrow> \<not> matchesAt e u)
      | None \<Rightarrow> \<forall>u. t' \<le> u \<and> Year u \<le> limit \<longrightarrow> \<not> matchesAt e u"
      by (rule less) (use jump_Some(1) [OF j] Year_bound [of t limit] True in simp)
    have "nextLoop e limit t = nextLoop e limit t'" using True j by (simp add: nextLoop_jump [of e limit t])
    moreover have "matchesAt e u \<Longrightarrow> t \<le> u \<Longrightarrow> t' \<le> u" for u using jump_Some(2) [OF j, of u] by force
    ultimately show ?thesis using IH jump_Some(1) [OF j] by (cases "nextLoop e limit t'") auto
  next
    case False
    then show ?thesis
    proof (cases "Year t \<le> limit")
      case True
      then show ?thesis using False jump_None [of e t] by (auto simp: nextLoop_jump [of e limit t])
    next
      case False
      have "\<not> Year u \<le> limit" if "t \<le> u" for u
        using False Year_mono [OF that] by linarith
      then show ?thesis using False by (auto simp: nextLoop_jump [of e limit t])
    qed
  qed
qed

lemma limit_ge: "(l :: int) \<le> foldl (\<lambda>limit y. if y > limit then y else limit) l ys"
proof (induction ys arbitrary: l)
  case (Cons y ys)
  have "l \<le> (if y > l then y else l)" by simp
  then show ?case using Cons [of "if y > l then y else l"] by simp
qed simp

lemma limit_member: "(y :: int) \<in> set ys \<Longrightarrow> y \<le> foldl (\<lambda>limit y. if y > limit then y else limit) l ys"
proof (induction ys arbitrary: l)
  case (Cons z ys)
  then show ?case using limit_ge [of "if z > l then z else l" ys] by (cases "y = z") (auto split: if_splits)
qed simp

lemma years_limit: "matchesAt e t \<Longrightarrow> \<not> anyYear e \<Longrightarrow> Year t \<le> yearLimit e"
  using limit_member by (auto simp: matchesAt_def yearLimit_def)

text \<open>C35: Next returns the first minute strictly after its argument that the expression names, and when it
  returns nothing the expression names no later minute (up to the year 2200 when it names every year). It
  always returns.\<close>

theorem Next_least:
  "case Next e after of
     Some n \<Rightarrow> \<exists>t. n = t * nsPerMinute \<and> after < n \<and> matchesAt e t \<and>
       (\<forall>u. after < u * nsPerMinute \<and> u < t \<longrightarrow> \<not> matchesAt e u)
   | None \<Rightarrow> \<forall>u. after < u * nsPerMinute \<and> (anyYear e \<longrightarrow> Year u \<le> 2200) \<longrightarrow> \<not> matchesAt e u"
proof -
  have after: "after < u * nsPerMinute \<longleftrightarrow> after div nsPerMinute + 1 \<le> u" for u
    using floor_bounds [of nsPerMinute after] by (simp add: nsPerMinute_def) linarith
  note l = nextLoop_least [where e = e and limit = "yearLimit e" and t = "after div nsPerMinute + 1"]
  show ?thesis
  proof (cases "nextLoop e (yearLimit e) (after div nsPerMinute + 1)")
    case None
    then show ?thesis using l years_limit [of e] by (auto simp: Next_def after yearLimit_def)
  next
    case (Some t)
    then show ?thesis using l by (auto simp: Next_def after)
  qed
qed

subsection \<open>Nearest weekdays\<close>

lemma month_length: "1 \<le> m \<Longrightarrow> m \<le> 12 \<Longrightarrow> 28 \<le> daysBeforeMonth y (m + 1) - daysBeforeMonth y m"
proof -
  assume "1 \<le> m" "m \<le> 12"
  then have "m \<in> {1, 2, 3, 4, 5, 6, 7, 8, 9, 10, 11, 12}" unfolding insert_iff empty_iff by presburger
  then show ?thesis by (elim insertE; simp add: daysBeforeMonth_def)
qed

lemma daysIn_eq: "1 \<le> m \<Longrightarrow> m \<le> 12 \<Longrightarrow> daysIn y m = daysBeforeMonth y (m + 1) - daysBeforeMonth y m"
proof -
  assume m: "1 \<le> m" "m \<le> 12"
  define n where "n = daysBeforeYear y + daysBeforeMonth y (m + 1) - 1"
  have d: "dayNumber (Date y (m + 1) 0 0 0) = n"
    using m by (cases "m = 12") (auto simp: Date_def daysBeforeYear_next daysBeforeMonth_def dayNumber_def n_def)
  have l: "28 \<le> daysBeforeMonth y (m + 1) - daysBeforeMonth y m" "0 \<le> daysBeforeMonth y m"
    "daysBeforeMonth y (m + 1) \<le> (if leapYear y then 366 else 365)"
    using month_length [OF m, of y] daysBeforeMonth_mono [of 1 m y] daysBeforeMonth_mono [of "m + 1" 13 y] m
    by (simp_all add: daysBeforeMonth_def [of y 1] daysBeforeMonth_def [of y 13] split: if_splits)
  have y: "yearOf n = y" by (rule yearOf_eq) (use l in \<open>simp_all add: n_def daysBeforeYear_next\<close>)
  have "monthOf n = m" by (rule monthOf_eq [OF y m]) (use l in \<open>simp_all add: n_def\<close>)
  then show ?thesis using y by (simp add: daysIn_def Day_def Year_def Month_def d n_def)
qed

lemma daysIn_range: "1 \<le> m \<Longrightarrow> m \<le> 12 \<Longrightarrow> 28 \<le> daysIn y m"
  using month_length by (simp add: daysIn_eq)

lemma Weekday_Date: "1 \<le> m \<Longrightarrow> m \<le> 12 \<Longrightarrow> Weekday (Date y m d 0 0) = (daysBeforeYear y + daysBeforeMonth y m + d) mod 7"
  by (simp add: Weekday_def dayNumber_def Date_day algebra_simps)

definition isWeekday :: "int \<Rightarrow> int \<Rightarrow> int \<Rightarrow> bool" where
  "isWeekday y m d = (Weekday (Date y m d 0 0) \<in> {1..5})"

lemma mod7_shift: "(b + (d :: int)) mod 7 = (((b + n) mod 7) + (d - n)) mod 7"
proof -
  have "b + d = (b + n) + (d - n)" by simp
  then show ?thesis by (simp only: mod_add_left_eq)
qed

text \<open>The day a \<^verbatim>\<open>W\<close> rule names is a day of the same month from Monday to Friday, and no other such day of the
  month is nearer to the day asked for.\<close>

theorem nearestWeekday_nearest:
  assumes "1 \<le> m" "m \<le> 12" "1 \<le> n" "n \<le> daysIn y m"
  shows "1 \<le> nearestWeekday y m n \<and> nearestWeekday y m n \<le> daysIn y m \<and> isWeekday y m (nearestWeekday y m n) \<and>
    (\<forall>d. 1 \<le> d \<and> d \<le> daysIn y m \<and> isWeekday y m d \<longrightarrow> \<bar>nearestWeekday y m n - n\<bar> \<le> \<bar>d - n\<bar>)"
proof -
  define b where "b = daysBeforeYear y + daysBeforeMonth y m"
  define w where "w = (b + n) mod 7"
  have wd: "Weekday (Date y m d 0 0) = (w + (d - n)) mod 7" for d
    unfolding Weekday_Date [OF assms(1,2)] b_def [symmetric] w_def by (rule mod7_shift)
  have w: "0 \<le> w" "w < 7" by (simp_all add: w_def)
  have last: "28 \<le> daysIn y m" using daysIn_range [OF assms(1,2)] .
  define last' where "last' = daysIn y m"
  have r: "nearestWeekday y m n = (if w = 6 then (if n > 1 then n - 1 else n + 2) else if w = 0 then (if n < last' then n + 1 else n - 2) else n)"
    using assms(4) w wd [of n] by (simp add: nearestWeekday_def Let_def last'_def)
  consider "w = 6" | "w = 0" | "1 \<le> w" "w \<le> 5" using w by linarith
  then show ?thesis
  proof cases
    case 1
    have off: "d \<noteq> n \<and> d \<noteq> n + 1" if "isWeekday y m d" for d using that 1 by (auto simp: isWeekday_def wd)
    have "isWeekday y m (nearestWeekday y m n)" using 1 unfolding r by (simp add: isWeekday_def wd)
    moreover have "\<bar>nearestWeekday y m n - n\<bar> \<le> \<bar>d - n\<bar>" if "1 \<le> d" "d \<le> daysIn y m" "isWeekday y m d" for d
      using off [OF that(3)] that(1,2) 1 assms(3,4) unfolding r last'_def by auto
    ultimately show ?thesis using 1 assms last unfolding r last'_def by auto
  next
    case 2
    have off: "d \<noteq> n \<and> d \<noteq> n - 1" if "isWeekday y m d" for d using that 2 by (auto simp: isWeekday_def wd)
    have "isWeekday y m (nearestWeekday y m n)" using 2 unfolding r by (simp add: isWeekday_def wd)
    moreover have "\<bar>nearestWeekday y m n - n\<bar> \<le> \<bar>d - n\<bar>" if "1 \<le> d" "d \<le> daysIn y m" "isWeekday y m d" for d
      using off [OF that(3)] that(1,2) 2 assms(3,4) unfolding r last'_def by auto
    ultimately show ?thesis using 2 assms last unfolding r last'_def by auto
  next
    case 3
    then show ?thesis using assms unfolding r by (simp add: isWeekday_def wd)
  qed
qed

subsection \<open>What a field denotes\<close>

text \<open>The parts of a field as AWS documents them, with numbers for names.\<close>

datatype cronRange = Every | Only int | Between int int

datatype cronPart = Part cronRange "int option"

fun rangeText :: "cronRange \<Rightarrow> string" where
  "rangeText Every = ''*''"
| "rangeText (Only a) = intStr a"
| "rangeText (Between a b) = intStr a @ ''-'' @ intStr b"

fun partText :: "cronPart \<Rightarrow> string" where
  "partText (Part r None) = rangeText r"
| "partText (Part r (Some n)) = rangeText r @ ''/'' @ intStr n"

fun fieldText :: "cronPart list \<Rightarrow> string" where
  "fieldText [] = []"
| "fieldText [p] = partText p"
| "fieldText (p # ps) = partText p @ '','' @ fieldText ps"

definition steps :: "int \<Rightarrow> int \<Rightarrow> int \<Rightarrow> int set" where
  "steps a b n = {v. a \<le> v \<and> v \<le> b \<and> n dvd v - a}"

fun denotes :: "int \<Rightarrow> int \<Rightarrow> cronPart \<Rightarrow> int set" where
  "denotes lo hi (Part Every n) = steps lo hi (case n of None \<Rightarrow> 1 | Some k \<Rightarrow> k)"
| "denotes lo hi (Part (Only a) n) = (case n of None \<Rightarrow> {a} | Some k \<Rightarrow> if k = 1 then {a} else steps a hi k)"
| "denotes lo hi (Part (Between a b) n) =
     (let k = (case n of None \<Rightarrow> 1 | Some k \<Rightarrow> k) in if a \<le> b then steps a b k else steps a hi k \<union> steps lo b k)"

text \<open>Numbers inside the bounds of the field, and a positive step far from the end of int64.\<close>

fun partOk :: "int \<Rightarrow> int \<Rightarrow> cronPart \<Rightarrow> bool" where
  "partOk lo hi (Part r n) =
     ((case n of None \<Rightarrow> True | Some k \<Rightarrow> 0 < k \<and> k < 2 ^ 62) \<and>
      (case r of Every \<Rightarrow> True | Only a \<Rightarrow> lo \<le> a \<and> a \<le> hi | Between a b \<Rightarrow> lo \<le> a \<and> a \<le> hi \<and> lo \<le> b \<and> b \<le> hi))"

lemma steps_empty: "b < a \<Longrightarrow> steps a b n = {}"
  by (auto simp: steps_def)

lemma steps_unfold:
  assumes "0 < n" "a \<le> b"
  shows "steps a b n = insert a (steps (a + n) b n)"
proof -
  have d: "n dvd v - (a + n) \<longleftrightarrow> n dvd v - a" for v using dvd_add_left_iff [of n n "v - (a + n)"] by simp
  have "a + n \<le> v" if "v \<noteq> a" "a \<le> v" "n dvd v - a" for v using zdvd_imp_le [OF that(3)] that(1,2) by simp
  then show ?thesis using assms d unfolding steps_def by auto
qed

text \<open>A setter that records every number of a range in a list inside some state and leaves the rest alone.\<close>

locale marker =
  fixes mark :: "int \<Rightarrow> 'a \<Rightarrow> 'a option" and marked :: "'a \<Rightarrow> int set" and erase :: "'a \<Rightarrow> 'a" and lo hi :: int
  assumes mark: "lo \<le> v \<Longrightarrow> v \<le> hi \<Longrightarrow> \<exists>e1. mark v e = Some e1 \<and> marked e1 = insert v (marked e) \<and> erase e1 = erase e"
    and bounds: "0 \<le> lo" "lo \<le> hi" "hi < 2 ^ 62"
begin

lemma setLoop_marks:
  assumes "0 < n" "n < 2 ^ 62" "b \<le> hi"
  shows "lo \<le> a \<Longrightarrow> a < 2 ^ 63 \<Longrightarrow> \<exists>e1. setLoop mark a b n e = Some (Inr e1) \<and> marked e1 = marked e \<union> steps a b n \<and> erase e1 = erase e"
proof (induction "nat (b + 1 - a)" arbitrary: a e rule: less_induct)
  case less
  show ?case
  proof (cases "a > b")
    case True
    then show ?thesis by (simp add: setLoop.simps [of mark a b n e] steps_empty)
  next
    case False
    have inside: "lo \<le> a" "a \<le> hi" using less.prems(1) False assms(3) by auto
    obtain e1 where e1: "mark a e = Some e1" "marked e1 = insert a (marked e)" "erase e1 = erase e" using mark [OF inside] by blast
    have sum: "a + n < 2 ^ 63" "0 \<le> a + n" using inside bounds assms(1,2) by simp_all
    have w: "wrap64 (a + n) = a + n" by (rule wrap64_id) (use sum in simp_all)
    have "\<exists>e2. setLoop mark (a + n) b n e1 = Some (Inr e2) \<and> marked e2 = marked e1 \<union> steps (a + n) b n \<and> erase e2 = erase e1"
      by (rule less.hyps) (use False assms(1) less.prems(1) sum in simp_all)
    then show ?thesis
      using e1 w False steps_unfold [of n a b] assms(1) by (auto simp: setLoop.simps [of mark a b n e])
  qed
qed

lemma checkedLoop_marks:
  assumes "0 < n" "n < 2 ^ 62" "lo \<le> a" "a \<le> hi" "b \<le> hi"
  shows "\<exists>e1. checkedLoop mark lo hi part a b n e = Some (Inr e1) \<and> marked e1 = marked e \<union> steps a b n \<and> erase e1 = erase e"
  using setLoop_marks [OF assms(1,2,5,3), of e] assms(3-5) bounds by (simp add: checkedLoop_def)

end

lemma intStr_digits: "0 \<le> a \<Longrightarrow> c \<in> set (intStr a) \<Longrightarrow> isDigit c"
  by (auto simp: intStr_def natStr_isDigit)

lemma intStr_free: "0 \<le> a \<Longrightarrow> \<not> isDigit c \<Longrightarrow> c \<notin> set (intStr a)"
  using intStr_digits by blast

lemma separators [simp]: "\<not> isDigit (CHR '','')" "\<not> isDigit (CHR ''/'')" "\<not> isDigit (CHR ''-'')" "\<not> isDigit (CHR ''*'')"
  by (simp_all add: isDigit_def)

lemma rangeText_free:
  assumes "0 \<le> lo" "partOk lo hi (Part r n)"
  shows "CHR '','' \<notin> set (rangeText r)" "CHR ''/'' \<notin> set (rangeText r)"
  using assms by (cases r; auto simp: intStr_free)+

lemma rangeText_nonempty [simp]: "rangeText r \<noteq> []"
  by (cases r) (auto simp: intStr_def)

lemma partText_nonempty [simp]: "partText p \<noteq> []"
  by (cases p rule: partText.cases) auto

lemma cutAt_char: "d \<notin> set s \<Longrightarrow> cutAt (\<lambda>c. c = d) s = (s, None)" "d \<notin> set s \<Longrightarrow> cutAt (\<lambda>c. c = d) (s @ d # t) = (s, Some t)"
  using cutAt_none [of s "\<lambda>c. c = d"] cutAt_some [of s "\<lambda>c. c = d" d t] by auto

lemma int64_text: "0 \<le> a \<Longrightarrow> a < 2 ^ 62 \<Longrightarrow> ParseInt64 (intStr a) = Some a"
  by (rule ParseInt64_intStr) simp_all

lemma cutStep_text:
  assumes "0 \<le> lo" "partOk lo hi (Part r n)"
  shows "cutStep (partText (Part r n)) = Inr (case n of None \<Rightarrow> 1 | Some k \<Rightarrow> k, rangeText r)"
proof (cases n)
  case None
  then show ?thesis using rangeText_free(2) [OF assms] by (simp add: cutStep_def cutAt_char)
next
  case (Some k)
  then have "0 < k" "k < 2 ^ 62" using assms(2) by auto
  then show ?thesis using rangeText_free(2) [OF assms] int64_text [of k] Some by (simp add: cutStep_def cutAt_char)
qed

text \<open>Tables of names cannot be mistaken for numbers.\<close>

definition namesOnly :: "(string \<times> int) list \<Rightarrow> bool" where
  "namesOnly table = list_all (\<lambda>(k, _). list_all (\<lambda>c. \<not> isDigit c) k \<and> k \<noteq> []) table"

lemma digit_upper: "isDigit c \<Longrightarrow> upperByte c = c \<and> ascii c"
  by (auto simp: isDigit_def upperByte_def ascii_def less_eq_char_def)

lemma ToUpper_intStr: "0 \<le> a \<Longrightarrow> ToUpper G (intStr a) = intStr a"
  using digit_upper intStr_digits by (auto simp: ToUpper_def list_all_iff intro!: map_idI)

lemma atoiNamed_text:
  assumes "namesOnly table" "0 \<le> a" "a < 2 ^ 62"
  shows "atoiNamed G (intStr a) table = Inr a"
proof -
  have "map_of table (intStr a) = None"
  proof (rule ccontr)
    assume "map_of table (intStr a) \<noteq> None"
    then obtain v where "(intStr a, v) \<in> set table" by (auto dest: map_of_SomeD)
    then have "list_all (\<lambda>c. \<not> isDigit c) (intStr a)" "intStr a \<noteq> []" using assms(1) by (auto simp: namesOnly_def list_all_iff)
    then show False using intStr_digits [OF assms(2)] by (cases "intStr a") auto
  qed
  then show ?thesis using int64_text [OF assms(2,3)] by (simp add: atoiNamed_def ToUpper_intStr [OF assms(2)])
qed

context marker
begin

lemma parsePart_marks:
  assumes "namesOnly table" "partOk lo hi p"
  shows "\<exists>e1. parsePart G lo hi table mark (partText p) e = Some (Inr e1) \<and> marked e1 = marked e \<union> denotes lo hi p \<and> erase e1 = erase e"
proof (cases p)
  case (Part r n)
  define k where "k = (case n of None \<Rightarrow> 1 | Some k \<Rightarrow> k)"
  have k: "0 < k" "k < 2 ^ 62" using assms(2) by (auto simp: k_def Part split: option.splits)
  note cut = cutStep_text [OF bounds(1) assms(2) [unfolded Part], folded k_def]
  show ?thesis
  proof (cases r)
    case Every
    then show ?thesis using checkedLoop_marks [OF k, of lo hi "''*''" e] bounds cut by (simp add: parsePart_def Part k_def)
  next
    case (Only a)
    have a: "lo \<le> a" "a \<le> hi" "0 \<le> a" "a < 2 ^ 62" using assms(2) bounds by (auto simp: Part Only)
    have t: "intStr a \<noteq> ''*''" "CHR ''-'' \<notin> set (intStr a)" using intStr_free [OF a(3), of "CHR ''*''"] intStr_free [OF a(3), of "CHR ''-''"] by auto
    have at: "atoiNamed G (intStr a) table = Inr a" using atoiNamed_text [OF assms(1) a(3,4)] .
    have one: "steps a a 1 = {a}" by (auto simp: steps_def)
    show ?thesis using checkedLoop_marks [OF k a(1,2), of "if k = 1 then a else hi" "intStr a" e] a cut t at one
      by (auto simp: parsePart_def Part Only ContainsByte_def k_def split: option.splits if_splits)
  next
    case (Between a b)
    have ab: "lo \<le> a" "a \<le> hi" "0 \<le> a" "a < 2 ^ 62" "lo \<le> b" "b \<le> hi" "0 \<le> b" "b < 2 ^ 62"
      using assms(2) bounds by (auto simp: Part Between)
    have rb: "parseRangeBounds G table (intStr a @ CHR ''-'' # intStr b) = Inr (a, b)"
      using atoiNamed_text [OF assms(1) ab(3,4)] atoiNamed_text [OF assms(1) ab(7,8)] intStr_free [OF ab(3), of "CHR ''-''"]
      by (simp add: parseRangeBounds_def cutAt_char)
    have t: "intStr a @ CHR ''-'' # intStr b \<noteq> ''*''" by (cases "intStr a") auto
    have p: "parsePart G lo hi table mark (partText p) e =
        (if a > b then andThen (setLoop mark a hi k e) (setLoop mark lo b k)
         else checkedLoop mark lo hi (intStr a @ CHR ''-'' # intStr b) a b k e)"
      using cut rb t by (simp add: parsePart_def Part Between ContainsByte_def)
    obtain e1 where e1: "setLoop mark a hi k e = Some (Inr e1)" "marked e1 = marked e \<union> steps a hi k" "erase e1 = erase e"
      using setLoop_marks [OF k order_refl ab(1), of e] ab by auto
    obtain e2 where e2: "setLoop mark lo b k e1 = Some (Inr e2)" "marked e2 = marked e1 \<union> steps lo b k" "erase e2 = erase e1"
      using setLoop_marks [OF k ab(6) order_refl, of e1] bounds by auto
    show ?thesis
      using p e1 e2 checkedLoop_marks [OF k ab(1,2,6), of "intStr a @ CHR ''-'' # intStr b" e]
      by (cases "a \<le> b") (auto simp: Part Between k_def Let_def)
  qed
qed

lemma splitOn_fieldText:
  assumes "ps \<noteq> []" "list_all (partOk lo hi) ps"
  shows "splitOn (CHR '','') (fieldText ps) = map partText ps"
proof -
  have free: "CHR '','' \<notin> set (partText p)" if "partOk lo hi p" for p
  proof (cases p)
    case (Part r n)
    then show ?thesis using rangeText_free [OF bounds(1), of hi r n] that by (cases n) (auto simp: intStr_free)
  qed
  show ?thesis using assms
    by (induction ps rule: fieldText.induct) (auto simp: splitOn_free splitOn_join free)
qed

lemma parseParts_marks:
  assumes "namesOnly table"
  shows "list_all (partOk lo hi) ps \<Longrightarrow>
   \<exists>e1. parseParts G lo hi table mark (map partText ps) e = Some (Inr e1) \<and> marked e1 = marked e \<union> (\<Union>p\<in>set ps. denotes lo hi p) \<and> erase e1 = erase e"
proof (induction ps arbitrary: e)
  case (Cons p ps)
  then obtain e1 where "parsePart G lo hi table mark (partText p) e = Some (Inr e1)" "marked e1 = marked e \<union> denotes lo hi p" "erase e1 = erase e"
    using parsePart_marks [OF assms, of p G e] by auto
  then show ?case using Cons.IH [of e1] Cons.prems by auto
qed simp

lemma parseSet_marks:
  assumes "ps \<noteq> []" "list_all (partOk lo hi) ps" "namesOnly table"
  shows "\<exists>e1. parseSet G (fieldText ps) lo hi table mark e = Some (Inr e1) \<and> marked e1 = marked e \<union> (\<Union>p\<in>set ps. denotes lo hi p) \<and> erase e1 = erase e"
proof -
  have "fieldText ps \<noteq> []"
  proof
    assume "fieldText ps = []"
    then have "map partText ps = [[]]" using splitOn_fieldText [OF assms(1,2)] by simp
    then show False by auto
  qed
  then show ?thesis using parseParts_marks [OF assms(3,2)] splitOn_fieldText [OF assms(1,2)] by (simp add: parseSet_def)
qed

end

interpretation minuteMark: marker setMinute "\<lambda>e. set (minutes e)" "\<lambda>e. e\<lparr>minutes := []\<rparr>" 0 59
  by unfold_locales (auto simp: setMinute_def setBit_def)

interpretation hourMark: marker setHour "\<lambda>e. set (hours e)" "\<lambda>e. e\<lparr>hours := []\<rparr>" 0 23
  by unfold_locales (auto simp: setHour_def setBit_def)

interpretation monthMark: marker setMonth "\<lambda>e. set (months e)" "\<lambda>e. e\<lparr>months := []\<rparr>" 1 12
  by unfold_locales (auto simp: setMonth_def setBit_def)

interpretation yearMark: marker setYear "\<lambda>e. set (years e)" "\<lambda>e. e\<lparr>years := []\<rparr>" 1970 2199
  by unfold_locales (auto simp: setYear_def)

interpretation domMark: marker setDOM "\<lambda>e. set (dom e)" "\<lambda>e. e\<lparr>dom := []\<rparr>" 1 31
  by unfold_locales (auto simp: setDOM_def setBit_def)

interpretation dowMark: marker setDOW "\<lambda>e. set (dow e)" "\<lambda>e. e\<lparr>dow := []\<rparr>" 1 7
  by unfold_locales (auto simp: setDOW_def setBit_def)

lemma names_tables [simp]: "namesOnly []" "namesOnly monthNames"
  by (simp_all add: namesOnly_def monthNames_def isDigit_def)

definition fieldChar :: "char \<Rightarrow> bool" where
  "fieldChar c = (isDigit c \<or> c \<in> set ''*/-,'')"

lemma partText_chars:
  assumes "0 \<le> lo" "partOk lo hi p" "c \<in> set (partText p)"
  shows "fieldChar c"
proof (cases p)
  case (Part r n)
  have r: "d \<in> set (rangeText r) \<Longrightarrow> fieldChar d" for d
    using assms(1,2) Part by (cases r) (auto simp: fieldChar_def dest: intStr_digits [rotated])
  show ?thesis using assms Part r by (cases n) (auto simp: fieldChar_def dest: intStr_digits [rotated])
qed

lemma fieldText_chars: "0 \<le> lo \<Longrightarrow> list_all (partOk lo hi) ps \<Longrightarrow> c \<in> set (fieldText ps) \<Longrightarrow> fieldChar c"
  by (induction ps rule: fieldText.induct) (auto simp: partText_chars, auto simp: fieldChar_def)

lemma fieldChar_plain: "fieldChar c \<Longrightarrow> ascii c \<and> \<not> asciiSpace c \<and> c \<noteq> CHR ''L'' \<and> c \<noteq> CHR ''W'' \<and> c \<noteq> CHR ''?''"
  by (auto simp: fieldChar_def isDigit_def ascii_def asciiSpace_def less_eq_char_def)

lemma asciiFields_word: "list_all (\<lambda>c. \<not> asciiSpace c) w \<Longrightarrow> asciiFields a (w @ rest) = asciiFields (a @ w) rest"
  by (induction w arbitrary: a) auto

lemma asciiFields_join:
  assumes "list_all (\<lambda>c. \<not> asciiSpace c) w" "w \<noteq> []"
  shows "asciiFields [] (w @ CHR '' '' # rest) = w # asciiFields [] rest" "asciiFields [] w = [w]"
  using asciiFields_word [OF assms(1), of "[]" "CHR '' '' # rest"] asciiFields_word [OF assms(1), of "[]" "[]"] assms(2)
  by (auto simp: asciiSpace_def)

text \<open>An expression by day of the month, with numbers and any year list but a bare star.\<close>

definition cronText :: "cronPart list \<Rightarrow> cronPart list \<Rightarrow> cronPart list \<Rightarrow> cronPart list \<Rightarrow> cronPart list \<Rightarrow> string" where
  "cronText ms hs ds mos ys =
     ''cron('' @ fieldText ms @ '' '' @ fieldText hs @ '' '' @ fieldText ds @ '' '' @ fieldText mos @ '' ? '' @ fieldText ys @ '')''"

definition fieldOk :: "int \<Rightarrow> int \<Rightarrow> cronPart list \<Rightarrow> bool" where
  "fieldOk lo hi ps = (ps \<noteq> [] \<and> list_all (partOk lo hi) ps)"

lemma fieldText_word:
  assumes "0 \<le> lo" "fieldOk lo hi ps"
  shows "fieldText ps \<noteq> []" "list_all (\<lambda>c. \<not> asciiSpace c) (fieldText ps)" "list_all ascii (fieldText ps)" "fieldText ps \<noteq> ''?''"
proof -
  have c: "c \<in> set (fieldText ps) \<Longrightarrow> fieldChar c" for c using assms fieldText_chars by (auto simp: fieldOk_def)
  then show "list_all (\<lambda>c. \<not> asciiSpace c) (fieldText ps)" "list_all ascii (fieldText ps)" using fieldChar_plain by (auto simp: list_all_iff)
  show "fieldText ps \<noteq> ''?''" using c [of "CHR ''?''"] by (auto simp: fieldChar_def isDigit_def)
  show "fieldText ps \<noteq> []" using assms(2) by (cases ps rule: fieldText.cases) (auto simp: fieldOk_def)
qed

lemma cronText_fields:
  assumes "fieldOk 0 59 ms" "fieldOk 0 23 hs" "fieldOk 1 31 ds" "fieldOk 1 12 mos" "fieldOk 1970 2199 ys"
  shows "Fields G (cutCron (TrimSpace (goLib G) (cronText ms hs ds mos ys))) =
    [fieldText ms, fieldText hs, fieldText ds, fieldText mos, ''?'', fieldText ys]"
proof -
  note w = fieldText_word [OF _ assms(1)] fieldText_word [OF _ assms(2)] fieldText_word [OF _ assms(3)]
    fieldText_word [OF _ assms(4)] fieldText_word [OF _ assms(5)]
  define inner where "inner = fieldText ms @ '' '' @ fieldText hs @ '' '' @ fieldText ds @ '' '' @ fieldText mos @ '' ? '' @ fieldText ys"
  have txt_eq: "cronText ms hs ds mos ys = ''cron('' @ inner @ '')''" by (simp add: cronText_def inner_def)
  have trim: "TrimSpace (goLib G) (''cron('' @ inner @ '')'') = ''cron('' @ inner @ '')''"
    by (simp add: TrimSpace_def Let_def asciiSpace_def ascii_def)
  have cut: "cutCron (''cron('' @ inner @ '')'') = inner"
    by (simp add: cutCron_def HasPrefix_def HasSuffix_def suffix_def)
  have "list_all ascii inner" using w by (simp add: inner_def ascii_def)
  moreover have "asciiFields [] inner = [fieldText ms, fieldText hs, fieldText ds, fieldText mos, ''?'', fieldText ys]"
    using w asciiFields_join(1) [where w = "''?''"] by (simp add: inner_def asciiFields_join asciiSpace_def)
  ultimately show ?thesis by (simp only: txt_eq trim cut Fields_def if_True)
qed

lemma parseDOM_marks:
  assumes "fieldOk 1 31 ps"
  shows "\<exists>e1. parseDOM G (fieldText ps) e = Some (Inr e1) \<and> set (dom e1) = set (dom e) \<union> (\<Union>p\<in>set ps. denotes 1 31 p) \<and> e1\<lparr>dom := []\<rparr> = e\<lparr>dom := []\<rparr>"
proof -
  have part: "parseDOMPart G (partText p) e = parsePart G 1 31 [] setDOM (partText p) e" if "partOk 1 31 p" for p e
  proof -
    have c: "c \<in> set (partText p) \<Longrightarrow> fieldChar c" for c using partText_chars [OF _ that] by simp
    have "CHR ''L'' \<notin> set (partText p)" "CHR ''W'' \<notin> set (partText p)" using c fieldChar_plain by blast+
    then have "partText p \<noteq> ''L''" "partText p \<noteq> ''LW''" "\<not> HasSuffix (partText p) ''W''" by (auto simp: HasSuffix_def suffix_def)
    moreover have "splitOn (CHR '','') (partText p) = [partText p]" using domMark.splitOn_fieldText [of "[p]"] that by simp
    moreover have "andThen x (parseParts G 1 31 [] setDOM []) = x" for x :: "expression outcome"
      by (cases "(x, \<lambda>e :: expression. x)" rule: andThen.cases) auto
    ultimately show ?thesis by (simp add: parseDOMPart_def parseSet_def)
  qed
  have "eachPart (parseDOMPart G) (map partText qs) e = parseParts G 1 31 [] setDOM (map partText qs) e"
    if "list_all (partOk 1 31) qs" for qs e
    using that
  proof (induction qs arbitrary: e)
    case (Cons q qs)
    then have "eachPart (parseDOMPart G) (map partText qs) = parseParts G 1 31 [] setDOM (map partText qs)" by (auto simp: fun_eq_iff)
    then show ?case using part Cons.prems by simp
  qed simp
  then show ?thesis
    using domMark.parseParts_marks [of "[]" ps G e] domMark.splitOn_fieldText [of ps] assms by (simp add: parseDOM_def fieldOk_def)
qed


subsection \<open>Inputs that end in a panic\<close>

definition plainCron :: cron_ext where
  "plainCron = \<lparr>goLib = sampleExt, uniToUpper = id, uniFields = (\<lambda>_. [])\<rparr>"

text \<open>A range that runs backwards is taken for one that wraps around, and its end is not compared with the
  bounds of the field; a large step makes the loop variable wrap around int64. Both write outside the array.\<close>

lemma Parse_panics:
  "parseSet plainCron ''9-8'' 1 7 dayNames setDOW emptyExpression = Some (Inl IndexPanic)"
  "Parse plainCron ''cron(5/9223372036854775807 0 ? * 1 *)'' = Some (Inl IndexPanic)"
  by code_simp+

subsection \<open>Instances\<close>

definition noonOnFirst :: expression where
  "noonOnFirst = emptyExpression\<lparr>minutes := [0], hours := [12], months := [1, 7], anyYear := True, byDOM := True, dom := [1]\<rparr>"

theorem Next_least_witness:
  "Next noonOnFirst 0 = Some (720 * nsPerMinute) \<and> matchesAt noonOnFirst 720 \<and> \<not> matchesAt noonOnFirst 719"
proof -
  have n: "Next noonOnFirst 0 = Some (720 * nsPerMinute)" by code_simp
  from Next_least [where e = noonOnFirst and after = 0] show ?thesis by (auto simp: n nsPerMinute_def)
qed

theorem nearestWeekday_nearest_witness:
  "nearestWeekday 2024 6 1 = 3 \<and> isWeekday 2024 6 3 \<and> (\<forall>d. 1 \<le> d \<and> d \<le> 30 \<and> isWeekday 2024 6 d \<longrightarrow> 2 \<le> \<bar>d - 1\<bar>)"
proof -
  have n: "nearestWeekday 2024 6 1 = 3" "daysIn 2024 6 = 30" by code_simp+
  show ?thesis using nearestWeekday_nearest [of 6 1 2024] by (simp add: n)
qed

definition sampleParts :: "cronPart list" where
  "sampleParts = [Part (Between 22 2) None, Part (Only 10) (Some 5)]"


end
