(* ===== verification/EventsServer.thy ===== *)
theory EventsServer
  imports EventsInvariant AwsCronServer "HOL-Library.Multiset"
begin

text \<open>
  What EventBridge promises: which targets an event reaches, what a replay sends again, and when schedules
  fire, in every state that requests and ticks of the scheduler reach.
\<close>

subsection \<open>Reachable states\<close>

definition exprsOk :: "cron_ext \<Rightarrow> exprCache \<Rightarrow> bool" where
  "exprsOk G m = (\<forall>(s, e)\<in>set m. AwsCron.Parse G s = Some (Inr e))"

inductive evStep :: "('tx, evstored) bolt \<Rightarrow> cron_ext \<Rightarrow> 'tx evstate \<times> scheduler \<Rightarrow> 'tx evstate \<times> scheduler \<Rightarrow> bool"
  for K :: "('tx, evstored) bolt" and G :: cron_ext where
  evRequest: "evbolt E = K \<Longrightarrow> evcron E = G \<Longrightarrow> (a, h) \<in> set eventHandlers \<Longrightarrow> nul \<notin> set (Str p ''Name'') \<Longrightarrow>
    evStep K G (st, sc) (snd (h E p st), sc)"
| evTick: "evbolt E = K \<Longrightarrow> evcron E = G \<Longrightarrow> fireDueSchedules E sc st = Some (n, sc1, st1) \<Longrightarrow> evStep K G (st, sc) (st1, sc1)"

inductive evReach :: "('tx, evstored) bolt \<Rightarrow> cron_ext \<Rightarrow> 'tx \<Rightarrow> 'tx evstate \<times> scheduler \<Rightarrow> bool"
  for K :: "('tx, evstored) bolt" and G :: cron_ext and tx0 :: 'tx where
  evStart: "evReach K G tx0 (\<lparr>evdb = tx0, patterns = [], sent = []\<rparr>, \<lparr>lastFired = [], exprs = []\<rparr>)"
| evNext: "evReach K G tx0 s \<Longrightarrow> evStep K G s s1 \<Longrightarrow> evReach K G tx0 s1"

subsection \<open>Schedules\<close>

text \<open>When a schedule fires after a firing, computed without the cache.\<close>

definition fireTime :: "cron_ext \<Rightarrow> string \<Rightarrow> int \<Rightarrow> int option" where
  "fireTime G s lastAt =
     (case parseRate G s of
        Some interval \<Rightarrow> Some (lastAt + interval)
      | None \<Rightarrow> (case AwsCron.Parse G s of Some (Inr e) \<Rightarrow> Next e lastAt | _ \<Rightarrow> None))"

lemma nextFire_time:
  assumes "exprsOk G m" "scheduleOk G s = Some True"
  shows "\<exists>m1. nextFire G s lastAt m = Some (fireTime G s lastAt, m1) \<and> exprsOk G m1"
proof (cases "parseRate G s")
  case None
  then obtain e where e: "AwsCron.Parse G s = Some (Inr e)"
    using assms(2) by (auto simp: scheduleOk_def split: option.splits sum.splits cronError.splits)
  show ?thesis
  proof (cases "map_of m s")
    case (Some e1)
    then have "e1 = e" using assms(1) e map_of_SomeD [OF Some] by (auto simp: exprsOk_def)
    then show ?thesis using None Some e assms(1) by (simp add: nextFire_def fireTime_def)
  qed (use None e assms(1) in \<open>simp add: nextFire_def fireTime_def exprsOk_def\<close>)
qed (use assms(1) in \<open>simp add: nextFire_def fireTime_def\<close>)

definition dueNow :: "'tx evenv \<Rightarrow> (string \<times> int) list \<Rightarrow> string \<Rightarrow> rule \<Rightarrow> bool" where
  "dueNow E lf key r =
     (case map_of lf key of
        None \<Rightarrow> False
      | Some lastAt \<Rightarrow> (case fireTime (evcron E) (Schedule r) lastAt of None \<Rightarrow> False | Some t \<Rightarrow> t \<le> evnow E))"

definition clockAfter :: "'tx evenv \<Rightarrow> (string \<times> int) list \<Rightarrow> string \<Rightarrow> rule \<Rightarrow> int" where
  "clockAfter E lf key r =
     (case map_of lf key of None \<Rightarrow> evnow E | Some lastAt \<Rightarrow> if dueNow E lf key r then evnow E else lastAt)"

definition scheduledEvent :: "'tx evenv \<Rightarrow> nat \<Rightarrow> rule \<Rightarrow> string" where
  "scheduledEvent E n r =
     marshalEvent E (eventMembers E (requestIDs E n) ''Scheduled Event'' ''aws.events''
       (AnyArr [AnyStr (ARN (evident E) ''events'' (''rule/'' @ ruleName r))])) ''{}''"

fun scheduledDeliveries :: "'tx evenv \<Rightarrow> (string \<times> int) list \<Rightarrow> nat \<Rightarrow> (string \<times> rule) list \<Rightarrow> delivery list" where
  "scheduledDeliveries E lf n [] = []"
| "scheduledDeliveries E lf n ((key, r) # rs) =
     (if dueNow E lf key r then deliveriesOf E (scheduledEvent E n r) r else []) @ scheduledDeliveries E lf (Suc n) rs"

lemma tickRule_spec:
  assumes "exprsOk (evcron E) (exprs sc)" "scheduleOk (evcron E) (Schedule r) = Some True"
  shows "\<exists>m lf. tickRule E key r n sc st = Some (\<lparr>lastFired = lf, exprs = m\<rparr>,
      st\<lparr>sent := sent st @ (if dueNow E (lastFired sc) key r then deliveriesOf E (scheduledEvent E n r) r else [])\<rparr>) \<and>
    exprsOk (evcron E) m \<and> map_of lf = (map_of (lastFired sc))(key \<mapsto> clockAfter E (lastFired sc) key r)"
proof (cases "map_of (lastFired sc) key")
  case None
  then show ?thesis using assms(1)
    by (cases sc) (auto simp: tickRule_def dueNow_def clockAfter_def update_conv')
next
  case (Some l)
  obtain m where m: "nextFire (evcron E) (Schedule r) l (exprs sc) = Some (fireTime (evcron E) (Schedule r) l, m)" "exprsOk (evcron E) m"
    using nextFire_time [OF assms] by blast
  show ?thesis
  proof (cases "dueNow E (lastFired sc) key r")
    case True
    then obtain t where "fireTime (evcron E) (Schedule r) l = Some t" "t \<le> evnow E" using Some by (auto simp: dueNow_def split: option.splits)
    then show ?thesis using m Some True
      by (cases sc) (auto simp: tickRule_def clockAfter_def update_conv' fireScheduled_def dispatchAll_sent scheduledEvent_def)
  next
    case False
    then have "map_of (lastFired sc) = (map_of (lastFired sc))(key \<mapsto> clockAfter E (lastFired sc) key r)"
      using Some by (auto simp: clockAfter_def fun_eq_iff)
    moreover have "tickRule E key r n sc st = Some (sc\<lparr>exprs := m\<rparr>, st)"
      using False m Some by (auto simp: tickRule_def dueNow_def split: option.splits)
    ultimately show ?thesis using False m(2) by (cases sc) auto
  qed
qed

lemma due_cong:
  "map_of lf key = map_of lf1 key \<Longrightarrow> dueNow E lf key r = dueNow E lf1 key r \<and> clockAfter E lf key r = clockAfter E lf1 key r"
proof -
  assume a: "map_of lf key = map_of lf1 key"
  then have "dueNow E lf key r = dueNow E lf1 key r" by (simp add: dueNow_def)
  with a show ?thesis by (simp add: clockAfter_def split: option.split)
qed

lemma deliveries_cong:
  "(\<And>k. k \<in> fst ` set rs \<Longrightarrow> map_of lf k = map_of lf1 k) \<Longrightarrow> scheduledDeliveries E lf n rs = scheduledDeliveries E lf1 n rs"
proof (induction rs arbitrary: n)
  case (Cons kr rs)
  obtain key r where kr: "kr = (key, r)" by fastforce
  have "dueNow E lf key r = dueNow E lf1 key r" by (rule due_cong [THEN conjunct1]) (use Cons.prems kr in simp)
  then show ?case using Cons kr by simp
qed simp

lemma tickRules_spec:
  "exprsOk (evcron E) (exprs sc) \<Longrightarrow> distinct (map fst rs) \<Longrightarrow> \<forall>r\<in>snd ` set rs. scheduleOk (evcron E) (Schedule r) = Some True \<Longrightarrow>
   \<exists>m lf. tickRules E rs n sc st = Some (\<lparr>lastFired = lf, exprs = m\<rparr>, st\<lparr>sent := sent st @ scheduledDeliveries E (lastFired sc) n rs\<rparr>) \<and>
     exprsOk (evcron E) m \<and>
     (\<forall>key. map_of lf key = (case map_of rs key of None \<Rightarrow> map_of (lastFired sc) key | Some r \<Rightarrow> Some (clockAfter E (lastFired sc) key r)))"
proof (induction rs arbitrary: n sc st)
  case Nil
  then show ?case by (cases sc) auto
next
  case (Cons kr rs)
  obtain key r where kr: "kr = (key, r)" by fastforce
  let ?d = "if dueNow E (lastFired sc) key r then deliveriesOf E (scheduledEvent E n r) r else []"
  obtain m lf where t: "tickRule E key r n sc st = Some (\<lparr>lastFired = lf, exprs = m\<rparr>, st\<lparr>sent := sent st @ ?d\<rparr>)"
    "exprsOk (evcron E) m" "map_of lf = (map_of (lastFired sc))(key \<mapsto> clockAfter E (lastFired sc) key r)"
    using tickRule_spec [OF Cons.prems(1), of r key n st] Cons.prems(3) kr by auto
  have ok: "\<forall>x\<in>snd ` set rs. scheduleOk (evcron E) (Schedule x) = Some True" using Cons.prems(3) by auto
  have fresh: "key \<notin> fst ` set rs" using Cons.prems(2) kr by simp
  have same: "map_of lf k = map_of (lastFired sc) k" if "k \<noteq> key" for k using t(3) that by simp
  obtain m1 lf1 where r: "tickRules E rs (Suc n) \<lparr>lastFired = lf, exprs = m\<rparr> (st\<lparr>sent := sent st @ ?d\<rparr>) =
      Some (\<lparr>lastFired = lf1, exprs = m1\<rparr>, st\<lparr>sent := (sent st @ ?d) @ scheduledDeliveries E lf (Suc n) rs\<rparr>)" "exprsOk (evcron E) m1"
    "\<forall>k. map_of lf1 k = (case map_of rs k of None \<Rightarrow> map_of lf k | Some r \<Rightarrow> Some (clockAfter E lf k r))"
    using Cons.IH [of "\<lparr>lastFired = lf, exprs = m\<rparr>" "Suc n" "st\<lparr>sent := sent st @ ?d\<rparr>", OF _ _ ok] t(2) Cons.prems(2) by (auto cong: option.case_cong)
  have "scheduledDeliveries E lf (Suc n) rs = scheduledDeliveries E (lastFired sc) (Suc n) rs"
    by (rule deliveries_cong) (use same fresh in metis)
  moreover have "map_of lf1 k = (case map_of (kr # rs) k of None \<Rightarrow> map_of (lastFired sc) k | Some r \<Rightarrow> Some (clockAfter E (lastFired sc) k r))" for k
  proof (cases "k = key")
    case True
    then have "map_of rs k = None" using fresh by (simp add: map_of_eq_None_iff)
    then show ?thesis using r(3) t(3) True kr by simp
  next
    case False
    then show ?thesis using r(3) same [OF False] due_cong [OF same [OF False]] kr by (auto split: option.splits)
  qed
  ultimately show ?case using t(1) r(1,2) kr by auto
qed

subsection \<open>The rules the scheduler sees\<close>

text \<open>A part before a separator, and lists of which only one element contributes.\<close>

lemma prefix_sep: "prefix (a @ z # []) (b @ z # c) \<Longrightarrow> z \<notin> set a \<Longrightarrow> z \<notin> set b \<Longrightarrow> a = b"
proof (induction a arbitrary: b)
  case Nil
  then show ?case by (cases b) auto
next
  case (Cons x a)
  then show ?case by (cases b) auto
qed

lemma concat_single:
  assumes "distinct (map g xs)" "\<And>x. x \<in> set xs \<Longrightarrow> distinct (f x)" "\<And>x. x \<in> set xs \<Longrightarrow> g x \<noteq> d \<Longrightarrow> f x = []"
  shows "distinct (concat (map f xs))"
  using assms
proof (induction xs)
  case (Cons x xs)
  show ?case
  proof (cases "g x = d")
    case True
    then have "f y = []" if "y \<in> set xs" for y using Cons.prems(1) Cons.prems(3) [of y] that by (cases "g y = g x") (auto intro: rev_image_eqI)
    then have "concat (map f xs) = []" by (simp only: concat_eq_Nil_conv) auto
    then show ?thesis using Cons.prems(2) [of x] by (simp del: concat_eq_Nil_conv)
  next
    case False
    then show ?thesis using Cons by simp
  qed
qed simp

context events_store
begin

lemma decodedBuses_names:
  assumes "inv tx"
  shows "b \<in> set (decodedBuses E tx) \<longleftrightarrow> recAt (view tx) busesBucket (busName b) = Some (BusRec b)"
proof
  assume "b \<in> set (decodedBuses E tx)"
  then obtain k where "(k, BusRec b) \<in> set (readItems E tx busesBucket)" by (auto simp: decodedBuses_def split: evstored.splits)
  then show "recAt (view tx) busesBucket (busName b) = Some (BusRec b)" using at_bus [OF assms] by (auto simp: readItems_at)
next
  assume "recAt (view tx) busesBucket (busName b) = Some (BusRec b)"
  then have "(busName b, BusRec b) \<in> set (readItems E tx busesBucket)" by (simp add: readItems_at)
  then show "b \<in> set (decodedBuses E tx)" by (force simp: decodedBuses_def)
qed

lemma addBus_names: "out \<noteq> [] \<Longrightarrow> busName (hd out) = DefaultBus \<Longrightarrow>
  addBus out b \<noteq> [] \<and> busName (hd (addBus out b)) = DefaultBus \<and>
  map busName (addBus out b) = map busName out @ (if busName b = DefaultBus then [] else [busName b])"
  by (cases out) (auto simp: addBus_def)

lemma addBuses_names: "out \<noteq> [] \<Longrightarrow> busName (hd out) = DefaultBus \<Longrightarrow>
  map busName (foldl addBus out bs) = map busName out @ filter (\<lambda>n. n \<noteq> DefaultBus) (map busName bs)"
proof (induction bs arbitrary: out)
  case (Cons b bs)
  then show ?case using addBus_names [OF Cons.prems, of b] by simp
qed simp

lemma decodedBuses_distinct:
  assumes "inv tx"
  shows "distinct (map busName (decodedBuses E tx))"
proof -
  have "map busName (concat (map (\<lambda>(_, r). case r of BusRec b \<Rightarrow> [b] | _ \<Rightarrow> []) its)) = map fst its"
    if "\<And>k x. (k, x) \<in> set its \<Longrightarrow> \<exists>u. x = BusRec u \<and> k = busName u" for its
    using that by (induction its) (auto, fastforce)
  from this [of "readItems E tx busesBucket"] have "map busName (decodedBuses E tx) = map fst (readItems E tx busesBucket)"
    using at_bus [OF assms] by (auto simp: decodedBuses_def readItems_at)
  then show ?thesis using readItems_sorted [of tx busesBucket] by (simp add: strict_sorted_iff)
qed

lemma ListBuses_names:
  assumes "inv tx"
  shows "mset (map busName (ListBuses E tx)) = mset (DefaultBus # filter (\<lambda>n. n \<noteq> DefaultBus) (map busName (decodedBuses E tx)))"
    "distinct (map busName (ListBuses E tx))" "b \<in> set (ListBuses E tx) \<Longrightarrow> nul \<notin> set (busName b)"
proof -
  let ?l = "foldl addBus [newBus DefaultBus []] (decodedBuses E tx)"
  have n: "map busName ?l = DefaultBus # filter (\<lambda>n. n \<noteq> DefaultBus) (map busName (decodedBuses E tx))"
    using addBuses_names [of "[newBus DefaultBus []]" "decodedBuses E tx"] by (simp add: newBus_def)
  have p: "mset (map busName (ListBuses E tx)) = mset (map busName ?l)" unfolding ListBuses_def mset_map by simp
  then show m: "mset (map busName (ListBuses E tx)) = mset (DefaultBus # filter (\<lambda>n. n \<noteq> DefaultBus) (map busName (decodedBuses E tx)))" using n by simp
  have "distinct (map busName ?l)" unfolding n using decodedBuses_distinct [OF assms] by simp
  then show "distinct (map busName (ListBuses E tx))" using mset_eq_imp_distinct_iff [OF p] by simp
  have "busName ` set (ListBuses E tx) \<subseteq> insert DefaultBus (busName ` set (decodedBuses E tx))"
    using mset_eq_setD [OF m] by auto
  moreover have "nul \<notin> set (busName c)" if "c \<in> set (decodedBuses E tx)" for c
    using that decodedBuses_names [OF assms] at_bus [OF assms] by blast
  ultimately show "nul \<notin> set (busName b)" if "b \<in> set (ListBuses E tx)" using that by (auto simp: DefaultBus_def nul_def)
qed

lemma Rules_at:
  assumes "inv tx"
  shows "r \<in> set (Rules E tx b pre) \<longleftrightarrow>
    recAt (view tx) rulesBucket (ruleKey (ruleBus r) (ruleName r)) = Some (RuleRec r) \<and> prefix (b @ nul # pre) (ruleKey (ruleBus r) (ruleName r))"
proof
  assume "r \<in> set (Rules E tx b pre)"
  then obtain k where "(k, RuleRec r) \<in> set (readItems E tx rulesBucket)" "prefix (b @ nul # pre) k"
    by (auto simp: Rules_def underPrefix_def split: evstored.splits)
  then show "recAt (view tx) rulesBucket (ruleKey (ruleBus r) (ruleName r)) = Some (RuleRec r) \<and> prefix (b @ nul # pre) (ruleKey (ruleBus r) (ruleName r))"
    using at_rule [OF assms] by (auto simp: readItems_at)
next
  assume "recAt (view tx) rulesBucket (ruleKey (ruleBus r) (ruleName r)) = Some (RuleRec r) \<and> prefix (b @ nul # pre) (ruleKey (ruleBus r) (ruleName r))"
  then show "r \<in> set (Rules E tx b pre)" by (force simp: Rules_def underPrefix_def readItems_at)
qed

lemma Rules_distinct:
  assumes "inv tx"
  shows "distinct (map (\<lambda>r. ruleKey (ruleBus r) (ruleName r)) (Rules E tx b pre))"
proof -
  have "map (\<lambda>r. ruleKey (ruleBus r) (ruleName r)) (concat (map (\<lambda>(_, x). case x of RuleRec r \<Rightarrow> [r] | _ \<Rightarrow> []) its)) = map fst its"
    if "\<And>k x. (k, x) \<in> set its \<Longrightarrow> \<exists>r. x = RuleRec r \<and> k = ruleKey (ruleBus r) (ruleName r)" for its
    using that by (induction its) (auto, fastforce)
  from this [of "underPrefix E tx rulesBucket (b @ nul # pre)"]
  have e: "map (\<lambda>r. ruleKey (ruleBus r) (ruleName r)) (Rules E tx b pre) = map fst (underPrefix E tx rulesBucket (b @ nul # pre))"
    using at_rule [OF assms] by (auto simp: Rules_def underPrefix_def readItems_at)
  have "distinct (map fst (readItems E tx rulesBucket))" using readItems_sorted [of tx rulesBucket] by (simp add: strict_sorted_iff)
  then show ?thesis unfolding e underPrefix_def by (rule distinct_map_filter)
qed

text \<open>Schedules are on the default bus, so only its rules are armed.\<close>

lemma armed_default:
  assumes "inv tx" "b \<in> set (ListBuses E tx)" "r \<in> set (Rules E tx (busName b) [])" "scheduled r"
  shows "busName b = DefaultBus \<and> ruleBus r = DefaultBus \<and> scheduleOk (evcron E) (Schedule r) = Some True"
proof -
  note at = Rules_at [OF assms(1), THEN iffD1, OF assms(3)]
  have ok: "ruleOk (evcron E) r" using at at_rule [OF assms(1)] by blast
  then have d: "ruleBus r = DefaultBus" "scheduleOk (evcron E) (Schedule r) = Some True" using assms(4) by (auto simp: ruleOk_def scheduled_def)
  have "prefix (busName b @ nul # []) (DefaultBus @ nul # ruleName r)" using at d(1) by (simp add: ruleKey_def)
  moreover have "nul \<notin> set (busName b)" using ListBuses_names(3) [OF assms(1,2)] .
  moreover have "nul \<notin> set DefaultBus" by (simp add: DefaultBus_def nul_def)
  ultimately have "busName b = DefaultBus" by (rule prefix_sep)
  then show ?thesis using d by simp
qed

lemma armedRules_ok:
  assumes "inv tx"
  shows "distinct (map fst (armedRules E tx))" "(k, r) \<in> set (armedRules E tx) \<Longrightarrow> scheduleOk (evcron E) (Schedule r) = Some True"
    "(k, r) \<in> set (armedRules E tx) \<longleftrightarrow> scheduled r \<and> k = ruleKey DefaultBus (ruleName r) \<and> r \<in> set (Rules E tx DefaultBus [])"
proof -
  have mem: "(k, r) \<in> set (armedRules E tx) \<longleftrightarrow> (\<exists>b\<in>set (ListBuses E tx). k = busName b @ nul # ruleName r \<and> r \<in> set (Rules E tx (busName b) []) \<and> scheduled r)" for k r
    by (auto simp: armedRules_def)
  show "(k, r) \<in> set (armedRules E tx) \<Longrightarrow> scheduleOk (evcron E) (Schedule r) = Some True" using armed_default [OF assms] mem by blast
  have "DefaultBus \<in> busName ` set (ListBuses E tx)" using mset_eq_setD [OF ListBuses_names(1) [OF assms]] by auto
  then show "(k, r) \<in> set (armedRules E tx) \<longleftrightarrow> scheduled r \<and> k = ruleKey DefaultBus (ruleName r) \<and> r \<in> set (Rules E tx DefaultBus [])"
    unfolding mem using armed_default [OF assms] by (force simp: ruleKey_def)
  let ?f = "\<lambda>b. map (\<lambda>r. busName b @ nul # ruleName r) (filter scheduled (Rules E tx (busName b) []))"
  have keys: "map fst (armedRules E tx) = concat (map ?f (ListBuses E tx))"
    by (simp add: armedRules_def map_concat comp_def)
  have "distinct (?f b)" if "b \<in> set (ListBuses E tx)" for b
  proof -
    have "?f b = map (\<lambda>r. ruleKey (ruleBus r) (ruleName r)) (filter scheduled (Rules E tx (busName b) []))"
      using armed_default [OF assms that] by (auto simp: ruleKey_def)
    then show ?thesis using distinct_map_filter [OF Rules_distinct [OF assms, of "busName b" "[]"], of scheduled] by (simp only:)
  qed
  moreover have "distinct (ListBuses E tx)" using ListBuses_names(2) [OF assms] by (simp add: distinct_map)
  moreover have "?f b = []" if "b \<in> set (ListBuses E tx)" "busName b \<noteq> DefaultBus" for b
    using armed_default [OF assms that(1)] that(2) by (auto simp: filter_empty_conv)
  ultimately show "distinct (map fst (armedRules E tx))"
    unfolding keys using concat_single [where xs = "ListBuses E tx" and g = busName and d = DefaultBus and f = ?f] ListBuses_names(2) [OF assms] by blast
qed

end

subsection \<open>Invariant\<close>

lemma tick_spec:
  assumes "bolt_store (evbolt E) view" "evInv (evcron E) (view (evdb st))" "exprsOk (evcron E) (exprs sc)"
  shows "\<exists>sc1. fireDueSchedules E sc st = Some (length (armedRules E (evdb st)), sc1,
      st\<lparr>sent := sent st @ scheduledDeliveries E (lastFired sc) 0 (armedRules E (evdb st))\<rparr>) \<and> exprsOk (evcron E) (exprs sc1) \<and>
    (\<forall>key. map_of (lastFired sc1) key = map_option (clockAfter E (lastFired sc) key) (map_of (armedRules E (evdb st)) key))"
proof -
  have es: "events_store E view" using assms(1) by (simp add: events_store_def)
  let ?rs = "armedRules E (evdb st)"
  note arm = events_store.armedRules_ok [OF es assms(2)]
  obtain m lf where t: "tickRules E ?rs 0 sc st = Some (\<lparr>lastFired = lf, exprs = m\<rparr>, st\<lparr>sent := sent st @ scheduledDeliveries E (lastFired sc) 0 ?rs\<rparr>)"
    "exprsOk (evcron E) m"
    "\<forall>key. map_of lf key = (case map_of ?rs key of None \<Rightarrow> map_of (lastFired sc) key | Some r \<Rightarrow> Some (clockAfter E (lastFired sc) key r))"
    using tickRules_spec [OF assms(3) arm(1), of 0 st] arm(2) by fastforce
  have keep: "map_of (filter (\<lambda>(key, _). key \<in> fst ` set ?rs) lf) k = map_option (clockAfter E (lastFired sc) k) (map_of ?rs k)" for k
  proof -
    have "map_of (filter (\<lambda>(key, _). key \<in> A) xs) k = (if k \<in> A then map_of xs k else None)" for A and xs :: "(string \<times> int) list"
      by (induction xs) auto
    then show ?thesis using t(3) map_of_eq_None_iff [of ?rs k] by (cases "map_of ?rs k") auto
  qed
  then show ?thesis using t(1,2) by (simp add: fireDueSchedules_def Let_def)
qed

definition allOk :: "('tx \<Rightarrow> evstored contents) \<Rightarrow> cron_ext \<Rightarrow> 'tx evstate \<times> scheduler \<Rightarrow> bool" where
  "allOk view G s =
     (evInv G (view (evdb (fst s))) \<and> cacheOk (goLib G) (patterns (fst s)) \<and> exprsOk G (exprs (snd s)))"

lemma evStep_ok:
  assumes "bolt_store K view"
  shows "evStep K G s s1 \<Longrightarrow> allOk view G s \<Longrightarrow> allOk view G s1"
proof (induction rule: evStep.induct)
  case (evRequest E a h p st sc)
  have es: "events_store E view" using assms evRequest(1) by (simp add: events_store_def)
  have "events_store.good E view st" using evRequest by (simp add: events_store.good_def [OF es] allOk_def)
  from events_store.handlers_good [OF es evRequest(3,4) this] show ?case
    using evRequest by (simp add: events_store.good_def [OF es] allOk_def)
next
  case (evTick E sc st n sc1 st1)
  then show ?case using tick_spec [of E view st sc] assms by (auto simp: allOk_def)
qed

lemma evReach_ok:
  assumes "bolt_store K view" "view tx0 = Map.empty"
  shows "evReach K G tx0 s \<Longrightarrow> allOk view G s"
proof (induction rule: evReach.induct)
  case evStart
  then show ?case using assms(2) by (simp add: allOk_def evInv_def recAt_def cacheOk_def exprsOk_def)
qed (use evStep_ok [OF assms(1)] in blast)

text \<open>C37: In every state that requests and ticks reach from an empty store, each record is under its own key, a
  stored pattern parses, a stored schedule is on the default bus and has a next firing time the scheduler
  computes without failing, the targets of a rule have different ids, and both caches hold what parsing
  would give, at most 512 patterns.\<close>

theorem events_reachable:
  assumes "evReach K G tx0 s" "bolt_store K view" "view tx0 = Map.empty"
  shows "evInv G (view (evdb (fst s))) \<and> cacheOk (goLib G) (patterns (fst s)) \<and> exprsOk G (exprs (snd s))"
  using evReach_ok [OF assms(2,3,1)] by (simp add: allOk_def)

subsection \<open>Delivery\<close>

text \<open>The pairs of a bucket depend only on what is stored in it.\<close>

context events_store
begin

lemma readItems_same:
  assumes "recAt (view tx1) b = recAt (view tx) b"
  shows "readItems E tx1 b = readItems E tx b"
proof (rule map_sorted_distinct_set_unique)
  show eq: "set (readItems E tx1 b) = set (readItems E tx b)" using assms readItems_at by auto
  show "inj_on fst (set (readItems E tx1 b) \<union> set (readItems E tx b))"
    unfolding eq using readItems_sorted [of tx b] by (simp add: strict_sorted_iff distinct_map)
  show "sorted (map fst (readItems E tx1 b))" "sorted (map fst (readItems E tx b))" "distinct (map fst (readItems E tx1 b))" "distinct (map fst (readItems E tx b))"
    using readItems_sorted [of tx b] readItems_sorted [of tx1 b] by (simp_all add: strict_sorted_iff)
qed

lemma append_rules:
  assumes "inv tx"
  shows "recAt (view (snd (AppendArchiveEvent E name t event tx))) rulesBucket = recAt (view tx) rulesBucket"
proof (cases "appendIn E name t event tx")
  case (Pair res tx1)
  show ?thesis
  proof (cases res)
    case (Inr u)
    then have h: "appendIn E name t event tx = (Inr u, tx1)" using Pair by simp
    show ?thesis
    proof (cases "recAt (view tx) archivesBucket name")
      case None
      then show ?thesis using h by (simp add: AppendArchiveEvent_def Bolt.Update_def appendIn_def readKey_at)
    next
      case (Some x)
      then obtain a where "x = ArchiveRec a" using at_archive [OF assms] by blast
      then obtain n where "recAt (view tx1) = (recAt (view tx))(archiveEventsBucket := (recAt (view tx) archiveEventsBucket)
          (eventKey name n \<mapsto> EventRec \<lparr>evTime = t, evJSON = event\<rparr>), archivesBucket := (recAt (view tx) archivesBucket)
          (name \<mapsto> ArchiveRec (a\<lparr>EventCount := EventCount a + 1, SizeBytes := SizeBytes a + int (length event)\<rparr>)))"
        using appendIn_at [OF assms h] Some by blast
      then show ?thesis using h by (simp add: AppendArchiveEvent_def Bolt.Update_def bucket_names)
    qed
  qed (simp add: AppendArchiveEvent_def Bolt.Update_def Pair)
qed

lemma capture_rules:
  "good st \<Longrightarrow> sent (captureLoop E event as st) = sent st \<and>
   recAt (view (evdb (captureLoop E event as st))) rulesBucket = recAt (view (evdb st)) rulesBucket"
proof (induction as arbitrary: st)
  case (Cons a as)
  obtain res m where c: "compiled (evlib E) (arcPattern a) (patterns st) = (res, m)" by fastforce
  have g: "good (st\<lparr>patterns := m\<rparr>)" using Cons.prems compiled_ok(2) [OF _ c] by (simp add: good_def)
  have ap: "sent (appendTo E a event s) = sent s \<and> recAt (view (evdb (appendTo E a event s))) rulesBucket = recAt (view (evdb s)) rulesBucket"
    if "good s" for s using that append_rules by (simp add: appendTo_def good_def)
  show ?case using Cons.IH [OF Cons.prems] Cons.IH [OF g] Cons.IH [OF good_appendTo [OF Cons.prems, of a event]]
      Cons.IH [OF good_appendTo [OF g, of a event]] ap [OF Cons.prems] ap [OF g] c
    by (auto simp: Let_def split: sum.splits option.splits)
qed simp

lemma PutReplay_taken:
  assumes "GetReplay E tx name = Inr r" "repName rp = name"
  shows "\<exists>e. PutReplay E rp tx = (Inl e, tx)"
proof -
  have at: "recAt (view tx) replaysBucket name \<noteq> None" using assms(1) by (auto simp: GetReplay_def readKey_at split: option.splits)
  have "\<nexists>u tx1. putReplayIn E rp tx = (Inr u, tx1)"
  proof
    assume "\<exists>u tx1. putReplayIn E rp tx = (Inr u, tx1)"
    then obtain u tx1 where h: "putReplayIn E rp tx = (Inr u, tx1)" by blast
    show False
      by (rule putCreating_at [OF h [unfolded putReplayIn_def]]) (use at assms(2) in \<open>auto simp: readKey_at split: if_splits\<close>)
  qed
  then show ?thesis by (cases "putReplayIn E rp tx"; cases "fst (putReplayIn E rp tx)") (auto simp: PutReplay_def Bolt.Update_def)
qed

lemma busDeliveries_same:
  "recAt (view tx1) rulesBucket = recAt (view tx) rulesBucket \<Longrightarrow> busDeliveries E tx1 b arns event = busDeliveries E tx b arns event"
  using readItems_same [of tx1 rulesBucket tx] by (simp add: busDeliveries_def Rules_def underPrefix_def)

end

text \<open>The entries of a batch that are accepted, each with the event it makes.\<close>

definition acceptedEntry :: "'tx evenv \<Rightarrow> params \<Rightarrow> bool" where
  "acceptedEntry E entry =
     (Str entry ''Source'' \<noteq> [] \<and> Str entry ''DetailType'' \<noteq> [] \<and> parseJSON (evlib E) (entryDetail entry) \<noteq> None)"

fun batchDeliveries :: "'tx evenv \<Rightarrow> 'tx \<Rightarrow> nat \<Rightarrow> anyv list \<Rightarrow> delivery list" where
  "batchDeliveries E tx n [] = []"
| "batchDeliveries E tx n (e # es) =
     (let entry = asObject e in
      if acceptedEntry E entry then busDeliveries E tx (entryBus entry) None (entryEvent E n entry) else []) @
     batchDeliveries E tx (Suc n) es"

context events_store
begin

lemma putOneEvent_sent:
  assumes "good st" "putOneEvent E n entry st = (ok, w, st1)"
  shows "sent st1 = sent st @ (if acceptedEntry E entry then busDeliveries E (evdb st) (entryBus entry) None (entryEvent E n entry) else []) \<and>
    recAt (view (evdb st1)) rulesBucket = recAt (view (evdb st)) rulesBucket \<and> good st1"
proof (cases "acceptedEntry E entry")
  case True
  let ?m = "matchAndDispatch E (entryBus entry) (entryEvent E n entry) None st"
  have st1: "st1 = captureToArchives E (entryBus entry) (entryEvent E n entry) ?m"
    using assms(2) True by (auto simp: putOneEvent_def Let_def acceptedEntry_def)
  have m: "good ?m" "evdb ?m = evdb st" "sent ?m = sent st @ busDeliveries E (evdb st) (entryBus entry) None (entryEvent E n entry)"
    using good_matchAndDispatch [OF assms(1)] matchAndDispatch_sent [of E st "entryBus entry" "entryEvent E n entry" None] assms(1)
    by (auto simp: good_def)
  show ?thesis using capture_rules [OF m(1)] good_captureLoop [OF m(1)] m True by (simp add: st1 captureToArchives_def)
next
  case False
  then show ?thesis using assms by (auto simp: putOneEvent_def acceptedEntry_def split: if_splits)
qed

lemma batch_same:
  assumes "recAt (view tx1) rulesBucket = recAt (view tx) rulesBucket"
  shows "batchDeliveries E tx1 n es = batchDeliveries E tx n es"
  by (induction es arbitrary: n) (simp_all only: batchDeliveries.simps busDeliveries_same [OF assms])

lemma putEach_sent:
  "good st \<Longrightarrow> putEach E n es st = (ws, f, st1) \<Longrightarrow> sent st1 = sent st @ batchDeliveries E (evdb st) n es"
proof (induction es arbitrary: n st ws f st1)
  case (Cons e es)
  obtain ok w st2 where o: "putOneEvent E n (asObject e) st = (ok, w, st2)" by (rule prod_cases3)
  obtain ws2 f2 st3 where r: "putEach E (Suc n) es st2 = (ws2, f2, st3)" by (rule prod_cases3)
  have "st3 = st1" using Cons.prems(2) o r by (auto simp: asObject_def)
  then show ?case
    using putOneEvent_sent [OF Cons.prems(1) o] Cons.IH [OF _ r] batch_same [of "evdb st2" "evdb st" "Suc n" es] by (simp add: Let_def)
qed simp

end

text \<open>C38: PutEvents delivers each accepted entry, in order, to the targets of exactly the enabled rules of its bus
  whose pattern matches the event, as if every pattern were parsed and the event decoded afresh; refused
  entries deliver nothing.\<close>

theorem putEvents_delivers:
  assumes "evReach K G tx0 (st, sc)" "bolt_store K view" "view tx0 = Map.empty" "evbolt E = K" "evcron E = G"
    and "map_of p ''Entries'' = Some (AnyArr es)" "putEvents E p st = (Inr w, st1)"
  shows "sent st1 = sent st @ batchDeliveries E (evdb st) 0 es"
proof -
  have es: "events_store E view" using assms(2,4) by (simp add: events_store_def)
  have g: "events_store.good E view st" using evReach_ok [OF assms(2,3,1)] assms(5) by (simp add: events_store.good_def [OF es] allOk_def)
  obtain ws f st2 where p: "putEach E 0 es st = (ws, f, st2)" by (rule prod_cases3)
  then have "st1 = st2" using assms(6,7) by (auto simp: putEvents_def split: if_splits)
  then show ?thesis using events_store.putEach_sent [OF es g p] by simp
qed


text \<open>C40: A tick of the scheduler never fails. It fires exactly the enabled schedule rules that were seen before
  and whose next firing time has come, sets the clock of a rule when it is first seen and when it fires, and
  forgets the clocks of rules that are gone, disabled or no longer scheduled.\<close>

theorem scheduler_tick:
  assumes "evReach K G tx0 (st, sc)" "bolt_store K view" "view tx0 = Map.empty" "evbolt E = K" "evcron E = G"
  shows "\<exists>sc1. fireDueSchedules E sc st = Some (length (armedRules E (evdb st)), sc1,
      st\<lparr>sent := sent st @ scheduledDeliveries E (lastFired sc) 0 (armedRules E (evdb st))\<rparr>) \<and>
    (\<forall>key. map_of (lastFired sc1) key = map_option (clockAfter E (lastFired sc) key) (map_of (armedRules E (evdb st)) key)) \<and>
    (\<forall>key r. (key, r) \<in> set (armedRules E (evdb st)) \<longleftrightarrow> scheduled r \<and> key = ruleKey DefaultBus (ruleName r) \<and> r \<in> set (Rules E (evdb st) DefaultBus []))"
proof -
  have es: "events_store E view" using assms(2,4) by (simp add: events_store_def)
  have inv: "evInv (evcron E) (view (evdb st))" and ex: "exprsOk (evcron E) (exprs sc)"
    using evReach_ok [OF assms(2,3,1)] assms(5) by (simp_all add: allOk_def)
  have K: "bolt_store (evbolt E) view" using assms(2,4) by simp
  show ?thesis using tick_spec [OF K inv ex] events_store.armedRules_ok(3) [OF es inv] by blast
qed


subsection \<open>Instances\<close>

definition eventDoc :: "string \<Rightarrow> json option" where
  "eventDoc s =
     (if s = ''pattern'' then Some (JObj [(''source'', JArr [JStr ''orders''])])
      else if s = ''event'' then Some (JObj [(''source'', JStr ''orders'')])
      else if s = ''{}'' then Some (JObj []) else None)"

definition eventCron :: cron_ext where
  "eventCron = plainCron\<lparr>goLib := sampleExt\<lparr>parseJSON := eventDoc\<rparr>\<rparr>"

definition sampleEvents :: "int \<Rightarrow> evstored memory evenv" where
  "sampleEvents t =
     \<lparr>evbolt = memBolt, evcron = eventCron, evident = \<lparr>Region = [], AccountID = []\<rparr>, evnow = t * nsPerMinute, isoNow = ''now'',
      requestIDs = (\<lambda>_. ''id''), marshalAny = (\<lambda>_. []), marshalEvent = (\<lambda>_ _. ''event'')\<rparr>"

definition ordersRule :: params where
  "ordersRule = [(''Name'', AnyStr ''orders''), (''EventPattern'', AnyStr ''pattern'')]"

definition hourlyRule :: params where
  "hourlyRule = [(''Name'', AnyStr ''hourly''), (''ScheduleExpression'', AnyStr ''rate(1 hour)'')]"

definition queueFor :: "string \<Rightarrow> params" where
  "queueFor r = [(''Rule'', AnyStr r), (''Targets'', AnyArr [AnyObj [(''Id'', AnyStr ''1''), (''Arn'', AnyStr ''arn:aws:sqs:us-east-1:000000000000:q'')]])]"

definition keepAll :: params where
  "keepAll = [(''ArchiveName'', AnyStr ''all''), (''EventSourceArn'', AnyStr (busARN (evident (sampleEvents 0)) ''default''))]"

definition oneOrder :: params where
  "oneOrder = [(''Entries'', AnyArr [AnyObj [(''Source'', AnyStr ''orders''), (''DetailType'', AnyStr ''created'')]])]"

definition replayAll :: params where
  "replayAll = [(''ReplayName'', AnyStr ''again''), (''EventSourceArn'', AnyStr '':archive/all''),
     (''Destination'', AnyObj [(''Arn'', AnyStr '':event-bus/default'')]), (''EventStartTime'', AnyNum (Fin 0)), (''EventEndTime'', AnyNum (Fin 9000))]"

definition serveAll :: "(evstored memory evhandler \<times> params) list \<Rightarrow> evstored memory evstate" where
  "serveAll hs = foldl (\<lambda>st (h, p). snd (h (sampleEvents 1) p st)) \<lparr>evdb = [], patterns = [], sent = []\<rparr> hs"

definition readyState :: "evstored memory evstate" where
  "readyState = serveAll [(putRule, ordersRule), (putTargets, queueFor ''orders''), (putRule, hourlyRule),
     (putTargets, queueFor ''hourly''), (createArchive, keepAll)]"

definition replayedState :: "evstored memory evstate" where
  "replayedState = snd (startReplay (sampleEvents 1) replayAll (snd (putEvents (sampleEvents 1) oneOrder readyState)))"

definition clockStart :: scheduler where "clockStart = \<lparr>lastFired = [], exprs = []\<rparr>"

lemma serve_reached:
  "\<forall>(h, p)\<in>set hs. h \<in> snd ` set eventHandlers \<and> nul \<notin> set (Str p ''Name'') \<Longrightarrow>
   evReach memBolt eventCron [] (serveAll hs, clockStart)"
proof (induction hs rule: rev_induct)
  case Nil
  show ?case using evStart [of memBolt eventCron "[] :: evstored memory"] by (simp add: serveAll_def clockStart_def)
next
  case (snoc hp hs)
  obtain h p where hp: "hp = (h, p)" by fastforce
  obtain a where "(a, h) \<in> set eventHandlers" using snoc.prems hp by auto
  moreover have "evbolt (sampleEvents 1) = memBolt" "evcron (sampleEvents 1) = eventCron" by (simp_all add: sampleEvents_def)
  ultimately have "evStep memBolt eventCron (serveAll hs, clockStart) (snd (h (sampleEvents 1) p (serveAll hs)), clockStart)"
    using snoc.prems hp by (intro evRequest) auto
  then show ?case using snoc hp evNext by (fastforce simp: serveAll_def)
qed

lemma names_plain:
  "nul \<notin> set (Str ordersRule ''Name'')" "nul \<notin> set (Str hourlyRule ''Name'')" "nul \<notin> set (Str (queueFor r) ''Name'')"
  "nul \<notin> set (Str keepAll ''Name'')" "nul \<notin> set (Str oneOrder ''Name'')" "nul \<notin> set (Str replayAll ''Name'')"
  by (simp_all add: ordersRule_def hourlyRule_def queueFor_def keepAll_def oneOrder_def replayAll_def Str_def nul_def)

lemma ready_reached: "evReach memBolt eventCron [] (readyState, clockStart)"
  unfolding readyState_def by (rule serve_reached) (simp add: eventHandlers_def names_plain)

lemma replayed_reached: "evReach memBolt eventCron [] (replayedState, clockStart)"
proof -
  have eq: "replayedState = serveAll [(putRule, ordersRule), (putTargets, queueFor ''orders''), (putRule, hourlyRule),
     (putTargets, queueFor ''hourly''), (createArchive, keepAll), (putEvents, oneOrder), (startReplay, replayAll)]"
    by (simp add: replayedState_def readyState_def serveAll_def)
  show ?thesis unfolding eq by (rule serve_reached) (simp add: eventHandlers_def names_plain)
qed

lemma memory_empty: "memView ([] :: evstored memory) = Map.empty" by (simp add: memView_def fun_eq_iff)

lemma ready_armed:
  "map fst (armedRules (sampleEvents 61) (evdb readyState)) = [ruleKey DefaultBus ''hourly'']"
  by code_simp

lemma order_delivered:
  "fst (putEvents (sampleEvents 1) oneOrder readyState) = Inr (WObj [(''Entries'', WArr [WObj [(''EventId'', WStr ''id'')]]), (''FailedEntryCount'', WInt 0)])"
  "batchDeliveries (sampleEvents 1) (evdb readyState) 0 [AnyObj [(''Source'', AnyStr ''orders''), (''DetailType'', AnyStr ''created'')]] = [ToSQS ''q'' ''event'']"
  by code_simp+

lemma replay_delivered:
  "isl (GetArchive (sampleEvents 1) (evdb replayedState) ''all'') = False"
  "isl (GetReplay (sampleEvents 1) (evdb replayedState) ''again'') = False"
  "map evJSON (archivedEvents (sampleEvents 1) (evdb replayedState) ''all'' 0 9000) = [''event'']"
  "busDeliveries (sampleEvents 1) (evdb replayedState) DefaultBus None ''event'' = [ToSQS ''q'' ''event'']"
  "sent replayedState = [ToSQS ''q'' ''event'', ToSQS ''q'' ''event'']"
  by code_simp+

theorem events_reachable_witness:
  "evInv eventCron (memView (evdb replayedState)) \<and> cacheOk (goLib eventCron) (patterns replayedState)"
  using events_reachable [OF replayed_reached mem.bolt_store_axioms memory_empty] by simp


theorem putEvents_delivers_witness:
  "sent (snd (putEvents (sampleEvents 1) oneOrder readyState)) = sent readyState @ [ToSQS ''q'' ''event'']"
proof -
  let ?r = "putEvents (sampleEvents 1) oneOrder readyState"
  have r: "?r = (Inr (projr (fst ?r)), snd ?r)" by (rule prod_eqI) (simp_all add: order_delivered(1))
  have "map_of oneOrder ''Entries'' = Some (AnyArr [AnyObj [(''Source'', AnyStr ''orders''), (''DetailType'', AnyStr ''created'')]])"
    by (simp add: oneOrder_def)
  from putEvents_delivers [OF ready_reached mem.bolt_store_axioms memory_empty _ _ this r] show ?thesis
    using order_delivered(2) by (simp add: sampleEvents_def)
qed


definition firstTick :: "nat \<times> scheduler \<times> evstored memory evstate" where
  "firstTick = the (fireDueSchedules (sampleEvents 1) clockStart readyState)"

lemma firstTick_is: "fireDueSchedules (sampleEvents 1) clockStart readyState = Some (fst firstTick, fst (snd firstTick), snd (snd firstTick))"
proof -
  have "fireDueSchedules (sampleEvents 1) clockStart readyState \<noteq> None" by code_simp
  then show ?thesis by (simp add: firstTick_def)
qed

lemma hour_due:
  "scheduledDeliveries (sampleEvents 61) (lastFired (fst (snd firstTick))) 0 (armedRules (sampleEvents 61) (evdb (snd (snd firstTick)))) = [ToSQS ''q'' ''event'']"
  "sent (snd (snd firstTick)) = []" "length (armedRules (sampleEvents 61) (evdb (snd (snd firstTick)))) = 1"
  by code_simp+

theorem scheduler_tick_witness:
  "\<exists>sc1 st1. fireDueSchedules (sampleEvents 61) (fst (snd firstTick)) (snd (snd firstTick)) = Some (1, sc1, st1) \<and> sent st1 = [ToSQS ''q'' ''event'']"
proof -
  have e: "evbolt (sampleEvents t) = memBolt" "evcron (sampleEvents t) = eventCron" for t by (simp_all add: sampleEvents_def)
  have "evReach memBolt eventCron [] (snd (snd firstTick), fst (snd firstTick))"
    using evNext [OF ready_reached evTick [OF e firstTick_is]] .
  from scheduler_tick [OF this mem.bolt_store_axioms memory_empty e, of 61] show ?thesis using hour_due by auto
qed

end
